(* ===== verification/Prelude.thy ===== *)
theory Prelude
  imports Main "HOL-Library.Word" "HOL-Library.Monad_Syntax"
begin

unbundle bit_operations_syntax

text \<open>
  Shared ground of the development: the C integer types the firmware uses, C arrays with
  their bounds checks written out, C strings, and the loop combinator with its proof rules.

  A C operation is a function into an option. The value None stands for behaviour the C
  standard leaves undefined (an access outside an array, a signed overflow) or for a loop
  that does not end; every theorem that says an operation returns Some says that none of
  this happens.
\<close>

type_synonym u8 = "8 word"
type_synonym u16 = "16 word"
type_synonym u32 = "32 word"

named_theorems cstep "closed forms of the operations of the model"
named_theorems frames "what an operation leaves unchanged"

section \<open>Signed integers\<close>

text \<open>An int of the targets has 32 bits. Arithmetic that leaves the range is undefined.\<close>

definition c_int :: "int \<Rightarrow> int option" where
  "c_int r = (if - 2147483648 \<le> r \<and> r \<le> 2147483647 then Some r else None)"

text \<open>The cast of a 32-bit size_t to int, as gcc defines it.\<close>

definition int_of_size :: "nat \<Rightarrow> int" where
  "int_of_size n = sint (word_of_nat n :: u32)"

lemma c_int_Some [simp]: "- 2147483648 \<le> r \<Longrightarrow> r \<le> 2147483647 \<Longrightarrow> c_int r = Some r"
  by (simp add: c_int_def)

lemma c_int_None [simp]: "2147483647 < r \<Longrightarrow> c_int r = None"
  by (simp add: c_int_def)

lemma int_of_size_small [simp]: "n < 2147483648 \<Longrightarrow> int_of_size n = int n"
  by (simp add: int_of_size_def sint_uint unsigned_of_nat take_bit_nat_eq_self
      signed_take_bit_int_eq_self)

section \<open>Arrays\<close>

text \<open>An array access with an index of type int, checked against the array's extent.\<close>

definition arr_get :: "'a list \<Rightarrow> int \<Rightarrow> 'a option" where
  "arr_get xs i = (if 0 \<le> i \<and> i < int (length xs) then Some (xs ! nat i) else None)"

definition arr_set :: "'a list \<Rightarrow> int \<Rightarrow> 'a \<Rightarrow> 'a list option" where
  "arr_set xs i v = (if 0 \<le> i \<and> i < int (length xs) then Some (xs[nat i := v]) else None)"

text \<open>The n elements from index i on, as a memcpy or a bus transfer reads them.\<close>

definition arr_slice :: "'a list \<Rightarrow> int \<Rightarrow> int \<Rightarrow> 'a list option" where
  "arr_slice xs i n = (if 0 \<le> i \<and> 0 \<le> n \<and> i + n \<le> int (length xs)
     then Some (take (nat n) (drop (nat i) xs)) else None)"

text \<open>A memcpy of a list of elements to the array at index i.\<close>

definition arr_copy :: "'a list \<Rightarrow> int \<Rightarrow> 'a list \<Rightarrow> 'a list option" where
  "arr_copy xs i vs = (if 0 \<le> i \<and> i + int (length vs) \<le> int (length xs)
     then Some (take (nat i) xs @ vs @ drop (nat i + length vs) xs) else None)"

lemma arr_get_Some [simp]: "0 \<le> i \<Longrightarrow> i < int (length xs) \<Longrightarrow> arr_get xs i = Some (xs ! nat i)"
  by (simp add: arr_get_def)

lemma arr_set_Some [simp]: "0 \<le> i \<Longrightarrow> i < int (length xs) \<Longrightarrow> arr_set xs i v = Some (xs[nat i := v])"
  by (simp add: arr_set_def)

lemma arr_set_length: "arr_set xs i v = Some ys \<Longrightarrow> length ys = length xs"
  by (auto simp: arr_set_def split: if_splits)

lemma arr_slice_Some [simp]:
  "0 \<le> i \<Longrightarrow> 0 \<le> n \<Longrightarrow> i + n \<le> int (length xs) \<Longrightarrow>
   arr_slice xs i n = Some (take (nat n) (drop (nat i) xs))"
  by (simp add: arr_slice_def)

lemma arr_copy_Some [simp]:
  "0 \<le> i \<Longrightarrow> i + int (length vs) \<le> int (length xs) \<Longrightarrow>
   arr_copy xs i vs = Some (take (nat i) xs @ vs @ drop (nat i + length vs) xs)"
  by (simp add: arr_copy_def)

lemma arr_nat:
  "arr_get xs (int n) = (if n < length xs then Some (xs ! n) else None)"
  "arr_set xs (int n) v = (if n < length xs then Some (xs[n := v]) else None)"
  by (simp_all add: arr_get_def arr_set_def)

lemma arr_nat_block:
  "arr_slice xs (int i) (int n) = (if i + n \<le> length xs then Some (take n (drop i xs)) else None)"
  "arr_copy xs (int i) vs = (if i + length vs \<le> length xs then Some (take i xs @ vs @ drop (i + length vs) xs) else None)"
  by (simp_all add: arr_slice_def arr_copy_def)

lemma arr_slice_mid: "i = int (length a) \<Longrightarrow> n = int (length b) \<Longrightarrow> arr_slice (a @ b @ c) i n = Some b"
  by simp

lemma arr_copy_mid: "i = int (length a) \<Longrightarrow> length v = length b \<Longrightarrow> arr_copy (a @ b @ c) i v = Some (a @ v @ c)"
  by simp

section \<open>C strings\<close>

text \<open>
  A char pointer is the list of the characters it points to; the string it denotes ends at
  the first null character, or at the end of the list, where the terminator stands.
\<close>

abbreviation NUL :: char where "NUL \<equiv> CHR 0x00"

definition c_str :: "string \<Rightarrow> string" where
  "c_str s = takeWhile (\<lambda>c. c \<noteq> NUL) s"

definition c_strlen :: "string \<Rightarrow> nat" where
  "c_strlen s = length (c_str s)"

text \<open>The test strcmp(a, b) == 0.\<close>

definition c_streq :: "string \<Rightarrow> string \<Rightarrow> bool" where
  "c_streq a b \<longleftrightarrow> c_str a = c_str b"

lemma c_str_no_nul: "NUL \<notin> set (c_str s)"
  by (auto simp: c_str_def dest: set_takeWhileD)

lemma c_str_id [simp]: "NUL \<notin> set s \<Longrightarrow> c_str s = s"
  by (auto simp: c_str_def takeWhile_eq_all_conv)

lemma c_str_idem [simp]: "c_str (c_str s) = c_str s"
  by (simp add: c_str_no_nul)

lemma c_str_append_nul: "NUL \<notin> set s \<Longrightarrow> c_str (s @ NUL # t) = s"
  by (induction s) (auto simp: c_str_def)

lemma c_str_take_nul: "c_str (c_str s @ NUL # t) = c_str s"
  by (rule c_str_append_nul) (rule c_str_no_nul)

section \<open>Bytes and characters\<close>

definition char_byte :: "char \<Rightarrow> u8" where
  "char_byte c = word_of_nat (of_char c)"

definition char_bytes :: "string \<Rightarrow> u8 list" where
  "char_bytes s = map char_byte s"

definition byte_chars :: "u8 list \<Rightarrow> string" where
  "byte_chars bs = map (\<lambda>b. char_of (unat b)) bs"

lemma unat_char_byte [simp]: "unat (char_byte c) = of_char c"
  by (simp add: char_byte_def unsigned_of_nat take_bit_nat_eq_self)

lemma byte_chars_bytes [simp]: "byte_chars (char_bytes s) = s"
  by (induction s) (simp_all add: byte_chars_def char_bytes_def)

lemma char_bytes_chars [simp]: "char_bytes (byte_chars bs) = bs"
proof -
  have "char_byte (char_of (unat b)) = b" for b :: u8
    using unsigned_less[of b, where ?'a = nat] by (simp add: char_byte_def)
  then show ?thesis by (induction bs) (simp_all add: byte_chars_def char_bytes_def)
qed

lemma char_bytes_simps [simp]:
  "char_bytes [] = []" "char_bytes (c # s) = char_byte c # char_bytes s"
  "char_bytes (s @ t) = char_bytes s @ char_bytes t" "length (char_bytes s) = length s"
  "char_bytes s = [] \<longleftrightarrow> s = []"
  "byte_chars [] = []" "byte_chars (a @ b) = byte_chars a @ byte_chars b" "length (byte_chars bs) = length bs"
  by (simp_all add: char_bytes_def byte_chars_def)

lemma char_bytes_cut:
  "take n (char_bytes s) = char_bytes (take n s)" "drop n (char_bytes s) = char_bytes (drop n s)"
  "take n (byte_chars bs) = byte_chars (take n bs)" "drop n (byte_chars bs) = byte_chars (drop n bs)"
  by (simp_all add: char_bytes_def byte_chars_def take_map drop_map)

section \<open>Loops\<close>

text \<open>
  A counted loop runs its body once for each value of its variable, in order, and stops
  with the body. The values of an up-counting loop for (i = a; i < b; i++) are the list from
  a to b - 1; loops with another step use the two lists below.
\<close>

fun for_each :: "'i list \<Rightarrow> ('i \<Rightarrow> 's \<Rightarrow> 's option) \<Rightarrow> 's \<Rightarrow> 's option" where
  "for_each [] f s = Some s"
| "for_each (x # xs) f s = do { s \<leftarrow> f x s; for_each xs f s }"

text \<open>The values of for (v = a; v <= hi; v += st), for a positive step.\<close>

function up_by :: "int \<Rightarrow> int \<Rightarrow> int \<Rightarrow> int list" where
  "up_by v hi st = (if 0 < st \<and> v \<le> hi then v # up_by (v + st) hi st else [])"
  by pat_completeness auto
termination
  by (relation "measure (\<lambda>(v, hi, st). nat (hi - v + 1))") auto

text \<open>The values of for (v = a; v >= lo; v -= st), for a positive step.\<close>

function down_by :: "int \<Rightarrow> int \<Rightarrow> int \<Rightarrow> int list" where
  "down_by v lo st = (if 0 < st \<and> lo \<le> v then v # down_by (v - st) lo st else [])"
  by pat_completeness auto
termination
  by (relation "measure (\<lambda>(v, lo, st). nat (v - lo + 1))") auto

declare up_by.simps [simp del] down_by.simps [simp del]

lemma up_by_bounds: "x \<in> set (up_by v hi st) \<Longrightarrow> v \<le> x \<and> x \<le> hi"
  by (induction v hi st rule: up_by.induct) (subst (asm) (2) up_by.simps, force split: if_splits)

lemma down_by_bounds: "x \<in> set (down_by v lo st) \<Longrightarrow> lo \<le> x \<and> x \<le> v"
  by (induction v lo st rule: down_by.induct) (subst (asm) (2) down_by.simps, force split: if_splits)

lemma up_by_eq:
  "0 < st \<Longrightarrow> up_by a hi st = (if a \<le> hi then map (\<lambda>k. a + int k * st) [0..<Suc (nat ((hi - a) div st))] else [])"
proof (induction a hi st rule: up_by.induct)
  case (1 a hi st)
  show ?case
  proof (cases "a \<le> hi")
    case False
    then show ?thesis by (subst up_by.simps) simp
  next
    case True
    let ?n = "nat ((hi - a) div st)"
    have IH: "up_by (a + st) hi st = (if a + st \<le> hi
        then map (\<lambda>k. a + st + int k * st) [0..<Suc (nat ((hi - (a + st)) div st))] else [])"
      using 1 True by simp
    have rest: "up_by (a + st) hi st = map (\<lambda>k. a + int (Suc k) * st) [0..<?n]"
    proof (cases "a + st \<le> hi")
      case le: True
      have "(hi - (a + st)) div st = (hi - a) div st - 1"
        using div_add_self2[of st "hi - (a + st)"] 1(2) by simp
      moreover have "1 \<le> (hi - a) div st" using le 1(2) by (simp add: pos_imp_zdiv_pos_iff int_one_le_iff_zero_less)
      ultimately have "Suc (nat ((hi - (a + st)) div st)) = ?n" by linarith
      with IH le show ?thesis by (simp add: algebra_simps)
    next
      case False
      then have "(hi - a) div st = 0" using True 1(2) by (simp add: div_pos_pos_trivial)
      with IH False show ?thesis by simp
    qed
    have "up_by a hi st = a # up_by (a + st) hi st" using True 1(2) by (subst up_by.simps) simp
    moreover have "map (\<lambda>k. a + int k * st) [0..<Suc ?n] = a # map (\<lambda>k. a + int (Suc k) * st) [0..<?n]"
      by (simp only: upt_conv_Cons[OF zero_less_Suc] map_Suc_upt [symmetric]) simp
    ultimately show ?thesis using True rest by simp
  qed
qed

lemma for_each_append: "for_each (xs @ ys) f s = do { s \<leftarrow> for_each xs f s; for_each ys f s }"
  by (induction xs arbitrary: s) (auto split: Option.bind_splits)

text \<open>The total-correctness rule: a body that keeps the invariant makes a loop that returns.\<close>

lemma for_each_rule:
  assumes "I 0 s"
    and "\<And>k t. k < length xs \<Longrightarrow> I k t \<Longrightarrow> \<exists>u. f (xs ! k) t = Some u \<and> I (Suc k) u"
  shows "\<exists>u. for_each xs f s = Some u \<and> I (length xs) u"
  using assms
proof (induction xs arbitrary: I s)
  case Nil
  then show ?case by simp
next
  case (Cons x xs)
  from Cons.prems(1) Cons.prems(2)[of 0 s] obtain u where u: "f x s = Some u" "I (Suc 0) u"
    by auto
  have step: "\<exists>v. f (xs ! k) t = Some v \<and> I (Suc (Suc k)) v"
    if "k < length xs" "I (Suc k) t" for k t
    using Cons.prems(2)[of "Suc k" t] that by simp
  from Cons.IH[of "\<lambda>k. I (Suc k)" u, OF u(2) step] u(1) show ?case by auto
qed

text \<open>The same rule for a loop whose variable runs from lo to hi.\<close>

lemma for_upto_rule:
  assumes "I 0 s"
    and "\<And>k t. k < n \<Longrightarrow> I k t \<Longrightarrow> \<exists>u. f (lo + int k) t = Some u \<and> I (Suc k) u"
    and "n = nat (hi - lo + 1)"
  shows "\<exists>u. for_each [lo..hi] f s = Some u \<and> I n u"
proof -
  have len: "length [lo..hi] = n" using assms(3) by simp
  have "\<exists>u. f ([lo..hi] ! k) t = Some u \<and> I (Suc k) u"
    if "k < length [lo..hi]" "I k t" for k t
    using assms(2)[of k t] that assms(3) by (simp add: nth_upto)
  from for_each_rule[of I s "[lo..hi]" f, OF assms(1) this] show ?thesis
    unfolding len .
qed

text \<open>A loop with a body that always fails on one of its values does not return.\<close>

lemma for_each_None: "x \<in> set xs \<Longrightarrow> (\<And>s. f x s = None) \<Longrightarrow> for_each xs f s = None"
proof (induction xs arbitrary: s)
  case (Cons y ys)
  then show ?case by (cases "f y s") auto
qed simp

lemma for_each_cong_on:
  "(\<And>x s. x \<in> set xs \<Longrightarrow> f x s = g x s) \<Longrightarrow> for_each xs f s = for_each xs g s"
proof (induction xs arbitrary: s)
  case (Cons y ys)
  then show ?case by (cases "g y s") auto
qed simp

lemma for_each_map: "for_each (map g xs) f s = for_each xs (\<lambda>x. f (g x)) s"
proof (induction xs arbitrary: s)
  case (Cons x xs)
  then show ?case by (cases "f (g x) s") auto
qed simp

text \<open>The values of a counted loop as natural numbers.\<close>

lemma upto_ints: "[0..int n - 1] = map int [0..<n]"
  by (induction n) (simp_all add: upto_rec2)

lemma down_by_ints: "down_by (int n - 1) 0 1 = map int (rev [0..<n])"
proof (induction n)
  case 0
  then show ?case by (simp add: down_by.simps)
next
  case (Suc n)
  then show ?case by (subst down_by.simps) simp
qed

section \<open>Lists\<close>

lemma list_update_append_length [simp]: "(xs @ y # ys)[length xs := v] = xs @ v # ys"
  by (simp add: list_update_append)

lemma take_Suc_nth: "k < length xs \<Longrightarrow> take (Suc k) xs = take k xs @ [xs ! k]"
  by (rule take_Suc_conv_app_nth)

lemma concat_replicate_length [simp]: "length (concat (replicate n xs)) = n * length xs"
  by (induction n) auto

lemma concat_replicate_Suc: "concat (replicate (Suc n) xs) = concat (replicate n xs) @ xs"
  by (induction n) auto

lemma concat_map_nested:
  "concat (map (\<lambda>x. concat (map f (g x))) xs) = concat (map f (concat (map g xs)))"
  by (induction xs) simp_all

text \<open>Writing the elements of an array in order builds it from the left.\<close>

lemma list_update_prefix:
  "k < length xs \<Longrightarrow> length vs = k \<Longrightarrow> (vs @ drop k xs)[k := v] = (vs @ [v]) @ drop (Suc k) xs"
  by (simp add: list_update_append Cons_nth_drop_Suc [symmetric])

text \<open>The loop for (i = 0; i < n; i++) { b[i*2] = f i; b[i*2+1] = g i; } over an array of 2n.\<close>

lemma fill_pairs:
  assumes "length b0 = 2 * n"
    and "\<And>k b. k < n \<Longrightarrow> length b = 2 * n \<Longrightarrow>
      body (int k) b = Some (b[2 * k := f k, 2 * k + 1 := g k])"
  shows "for_each [0..int n - 1] body b0 = Some (concat (map (\<lambda>k. [f k, g k]) [0..<n]))"
proof -
  let ?vs = "\<lambda>k. concat (map (\<lambda>k. [f k, g k]) [0..<k])"
  have len: "length (?vs k) = 2 * k" for k by (induction k) simp_all
  have "\<exists>b. for_each [0..int n - 1] body b0 = Some b \<and> b = ?vs n @ drop (2 * n) b0"
  proof (rule for_upto_rule[where I = "\<lambda>k b. b = ?vs k @ drop (2 * k) b0"])
    fix k b assume k: "k < n" and b: "b = ?vs k @ drop (2 * k) b0"
    from k assms(1) have "drop (2 * k) b0 = b0 ! (2 * k) # b0 ! (2 * k + 1) # drop (2 * k + 2) b0"
      by (simp add: Cons_nth_drop_Suc)
    with b len[of k] have "b[2 * k := f k, 2 * k + 1 := g k] = ?vs (Suc k) @ drop (2 * Suc k) b0"
      by (simp add: list_update_append)
    moreover have "length b = 2 * n" using b len[of k] assms(1) k by simp
    ultimately show "\<exists>u. body (0 + int k) b = Some u \<and> u = ?vs (Suc k) @ drop (2 * Suc k) b0"
      using assms(2)[OF k] by simp
  qed simp_all
  with assms(1) show ?thesis by simp
qed

text \<open>Where a concatenation is cut.\<close>

lemma cut_concat:
  assumes "q @ r = concat xs"
  shows "\<exists>ys zs p. xs = ys @ zs \<and> q = concat ys @ p \<and> p @ r = concat zs \<and>
    (p = [] \<or> (\<exists>z zs'. zs = z # zs' \<and> length p < length z))"
  using assms
proof (induction xs arbitrary: q)
  case Nil
  then show ?case by simp
next
  case (Cons x xs)
  show ?case
  proof (cases "length x \<le> length q")
    case False
    then show ?thesis using Cons.prems by (intro exI[of _ "[]"] exI[of _ "x # xs"] exI[of _ q]) auto
  next
    case True
    have "q @ r = x @ concat xs" using Cons.prems by simp
    from arg_cong[OF this, of "take (length x)"] True have "take (length x) q = x" by simp
    then obtain q' where q: "q = x @ q'" by (metis append_take_drop_id)
    with Cons.prems have "q' @ r = concat xs" by simp
    from Cons.IH[OF this] obtain ys zs p where "xs = ys @ zs" "q' = concat ys @ p" "p @ r = concat zs"
      "p = [] \<or> (\<exists>z zs'. zs = z # zs' \<and> length p < length z)" by blast
    then show ?thesis using q by (intro exI[of _ "x # ys"] exI[of _ zs] exI[of _ p]) simp
  qed
qed

end
