(* ===== verification/Mongoose_Iobuf.thy ===== *)
theory Mongoose_Iobuf
  imports Prelude
begin

text \<open>
  The growing byte buffer of the Mongoose library (struct mg_iobuf and the mg_iobuf functions
  of firmware/pico/lib/mongoose/mongoose.c), which a connection uses for what it receives and
  sends. The memory is io_buf, all of its bytes, of which the first io_len are in use; a null
  pointer is the empty list. The argument avail says for which sizes mg_calloc succeeds. The
  functions keep the buffer's contract on the sequence of bytes in use.
\<close>

record mg_iobuf =
  io_buf :: "u8 list"
  io_len :: nat
  io_align :: nat

text \<open>The bytes in use.\<close>

definition io_data :: "mg_iobuf \<Rightarrow> u8 list" where
  "io_data io = take (io_len io) (io_buf io)"

definition io_ok :: "mg_iobuf \<Rightarrow> bool" where
  "io_ok io \<longleftrightarrow> io_len io \<le> length (io_buf io)"

section \<open>Operations\<close>

text \<open>size_t has 32 bits on the Pico.\<close>

definition size_t :: "nat \<Rightarrow> nat" where
  "size_t n = n mod 2 ^ 32"

definition roundup :: "nat \<Rightarrow> nat \<Rightarrow> nat" where
  "roundup n align = (if align = 0 then n else size_t (size_t (n + align - 1) div align * align))"

definition mg_iobuf_resize :: "(nat \<Rightarrow> bool) \<Rightarrow> nat \<Rightarrow> mg_iobuf \<Rightarrow> bool \<times> mg_iobuf" where
  "mg_iobuf_resize avail new_size io =
    (let new_size = roundup new_size (io_align io) in
     if new_size = 0 then (True, io\<lparr>io_buf := [], io_len := 0\<rparr>)
     else if new_size \<noteq> length (io_buf io) then
       if avail new_size then
         (let p = replicate new_size 0; len = min new_size (io_len io)
          in (True, io\<lparr>io_buf := take len (io_buf io) @ drop len p, io_len := len\<rparr>))
       else (False, io)
     else (True, io))"

definition mg_iobuf_init :: "(nat \<Rightarrow> bool) \<Rightarrow> nat \<Rightarrow> nat \<Rightarrow> bool \<times> mg_iobuf" where
  "mg_iobuf_init avail n align =
     mg_iobuf_resize avail n \<lparr>io_buf = [], io_len = 0, io_align = align\<rparr>"

text \<open>
  mg_iobuf_add moves the bytes from ofs on to make room and copies the new ones there; bs is
  None for a null pointer, which leaves the room as it is. The result is the number of bytes
  added.
\<close>

definition mg_iobuf_add ::
    "(nat \<Rightarrow> bool) \<Rightarrow> nat \<Rightarrow> u8 list option \<Rightarrow> nat \<Rightarrow> mg_iobuf \<Rightarrow> (nat \<times> mg_iobuf) option" where
  "mg_iobuf_add avail ofs bs len io = do {
     let new_size = roundup (size_t (io_len io + len)) (io_align io);
     let io = snd (mg_iobuf_resize avail new_size io);
     let len = (if new_size \<noteq> length (io_buf io) then 0 else len);
     mem \<leftarrow> (if ofs < io_len io then do {
         moved \<leftarrow> arr_slice (io_buf io) (int ofs) (int (io_len io - ofs));
         arr_copy (io_buf io) (int (ofs + len)) moved
       } else Some (io_buf io));
     mem \<leftarrow> (case bs of None \<Rightarrow> Some mem
       | Some bs \<Rightarrow> do { new \<leftarrow> arr_slice bs 0 (int len); arr_copy mem (int ofs) new });
     let n = (if ofs > io_len io then ofs else io_len io);
     Some (len, io\<lparr>io_buf := mem, io_len := n + len\<rparr>)
   }"

definition mg_iobuf_del :: "nat \<Rightarrow> nat \<Rightarrow> mg_iobuf \<Rightarrow> (nat \<times> mg_iobuf) option" where
  "mg_iobuf_del ofs len io = do {
     let ofs = (if ofs > io_len io then io_len io else ofs);
     let len = (if ofs + len > io_len io then io_len io - ofs else len);
     mem \<leftarrow> (if io_buf io \<noteq> [] then do {
         moved \<leftarrow> arr_slice (io_buf io) (int (ofs + len)) (int (io_len io - ofs - len));
         mem \<leftarrow> arr_copy (io_buf io) (int ofs) moved;
         arr_copy mem (int (io_len io - len)) (replicate len 0)
       } else Some (io_buf io));
     Some (len, io\<lparr>io_buf := mem, io_len := io_len io - len\<rparr>)
   }"

definition mg_iobuf_free :: "(nat \<Rightarrow> bool) \<Rightarrow> mg_iobuf \<Rightarrow> mg_iobuf" where
  "mg_iobuf_free avail io = snd (mg_iobuf_resize avail 0 io)"

section \<open>The contract\<close>

text \<open>The size of a buffer is a multiple of its alignment, and no sum of sizes overflows.\<close>

definition io_room :: "nat \<Rightarrow> mg_iobuf \<Rightarrow> bool" where
  "io_room n io \<longleftrightarrow> io_len io + n + 2 * io_align io < 2 ^ 32"

lemma roundup_bounds:
  assumes "n + 2 * a < 2 ^ 32"
  shows "n \<le> roundup n a" "roundup n a < 2 ^ 32" "roundup (roundup n a) a = roundup n a"
    "roundup n a = 0 \<longleftrightarrow> n = 0"
proof -
  have "n \<le> roundup n a \<and> roundup n a < 2 ^ 32 \<and> roundup (roundup n a) a = roundup n a \<and> (roundup n a = 0 \<longleftrightarrow> n = 0)"
  proof (cases "a = 0")
    case True
    then show ?thesis using assms by (simp add: roundup_def)
  next
    case False
    let ?q = "(n + a - 1) div a"
    have le: "?q * a \<le> n + a - 1" by simp
    have "n + a - 1 < ?q * a + a" using False by (metis add.commute bot_nat_0.not_eq_extremum div_mult_mod_eq mod_less_divisor nat_add_left_cancel_less)
    then have ge: "n \<le> ?q * a" by linarith
    have lt: "?q * a < 2 ^ 32" using le assms by linarith
    have r: "roundup n a = ?q * a"
      using False assms mod_less[OF lt] by (simp add: roundup_def size_t_def)
    have "(?q * a + a - 1) div a = ?q"
      using False div_mult_self3[of a ?q "a - 1"] by (simp add: add.commute)
    moreover have "?q * a + a - 1 < 2 ^ 32" using le assms False by linarith
    ultimately have "roundup (?q * a) a = ?q * a"
      using False mod_less[OF lt] by (simp add: roundup_def size_t_def)
    moreover have "?q = 0 \<longleftrightarrow> n = 0"
      using False ge by (auto simp: div_eq_0_iff)
    ultimately show ?thesis using r ge lt False by simp
  qed
  then show "n \<le> roundup n a" "roundup n a < 2 ^ 32" "roundup (roundup n a) a = roundup n a"
    "roundup n a = 0 \<longleftrightarrow> n = 0" by auto
qed

lemma length_io_data [simp]: "io_ok io \<Longrightarrow> length (io_data io) = io_len io"
  by (simp add: io_data_def io_ok_def)

lemma split_list_at:
  "n \<le> length xs \<Longrightarrow> \<exists>ys zs. xs = ys @ zs \<and> length ys = n"
  by (metis append_take_drop_id length_take min_absorb2)

lemma mg_iobuf_del_inside:
  assumes "io_ok io" and "q + m \<le> io_len io"
  shows "\<exists>io'. mg_iobuf_del q m io = Some (m, io') \<and> io_ok io' \<and>
    io_data io' = take q (io_data io) @ drop (q + m) (io_data io) \<and> io_align io' = io_align io"
proof (cases "io_buf io = []")
  case True
  then show ?thesis
    using assms by (simp add: mg_iobuf_del_def io_ok_def io_data_def)
next
  case False
  have len: "io_len io \<le> length (io_buf io)" using assms(1) by (simp add: io_ok_def)
  obtain a r where ar: "io_buf io = a @ r" "length a = q"
    using split_list_at[of q "io_buf io"] len assms(2) by auto
  obtain b r' where br: "r = b @ r'" "length b = m"
    using split_list_at[of m r] len assms(2) ar by auto
  have "io_len io - q - m \<le> length r'" using len ar br by simp
  then obtain c d where cd: "r' = c @ d" "length c = io_len io - q - m"
    using split_list_at by blast
  have sum: "io_len io = length a + (length b + length c)" using assms(2) ar(2) br(2) cd(2) by simp
  have "mg_iobuf_del q m io = Some (m, io\<lparr>io_buf := a @ c @ replicate m 0 @ d, io_len := io_len io - m\<rparr>)"
    using False by (simp add: mg_iobuf_del_def Let_def ar(1) br(1) cd(1) sum ar(2) [symmetric] br(2) [symmetric])
  then show ?thesis
    by (simp add: io_ok_def io_data_def ar(1) br(1) cd(1) sum ar(2) [symmetric] br(2) [symmetric])
qed

lemma mg_iobuf_del_data [cstep]:
  assumes "io_ok io"
  shows "\<exists>io'. mg_iobuf_del ofs n io = Some (min n (io_len io - ofs), io') \<and> io_ok io' \<and>
    io_data io' = take ofs (io_data io) @ drop (ofs + n) (io_data io) \<and> io_align io' = io_align io"
proof -
  define q where "q = min ofs (io_len io)"
  define m where "m = min n (io_len io - ofs)"
  have "(if ofs > io_len io then io_len io else ofs) = q"
    "(if q + n > io_len io then io_len io - q else n) = m"
    "(if q > io_len io then io_len io else q) = q" "(if q + m > io_len io then io_len io - q else m) = m"
    by (auto simp: q_def m_def)
  then have "mg_iobuf_del ofs n io = mg_iobuf_del q m io"
    by (simp only: mg_iobuf_del_def Let_def)
  moreover have "q + m \<le> io_len io" by (auto simp: q_def m_def)
  moreover have "take q (io_data io) = take ofs (io_data io)" "drop (q + m) (io_data io) = drop (ofs + n) (io_data io)"
    using assms by (auto simp: q_def m_def min_def)
  ultimately show ?thesis
    using mg_iobuf_del_inside[OF assms, of q m] by (simp add: m_def)
qed

lemma mg_iobuf_resize_grow:
  assumes "io_ok io" and "io_len io \<le> n" and "roundup n (io_align io) = n" and "avail n \<or> length (io_buf io) = n"
  shows "\<exists>io'. mg_iobuf_resize avail n io = (True, io') \<and> length (io_buf io') = n \<and>
    io_len io' = io_len io \<and> take (io_len io) (io_buf io') = io_data io \<and> io_align io' = io_align io"
  using assms by (auto simp: mg_iobuf_resize_def io_ok_def io_data_def Let_def)

lemma mg_iobuf_add_end [cstep]:
  assumes "io_ok io" and "io_room (length bs) io"
    and "avail (roundup (io_len io + length bs) (io_align io)) \<or>
      length (io_buf io) = roundup (io_len io + length bs) (io_align io)"
  shows "\<exists>io'. mg_iobuf_add avail (io_len io) (Some bs) (length bs) io = Some (length bs, io') \<and>
    io_ok io' \<and> io_data io' = io_data io @ bs \<and> io_align io' = io_align io"
proof -
  let ?s = "roundup (io_len io + length bs) (io_align io)"
  have b: "io_len io + length bs + 2 * io_align io < 2 ^ 32" using assms(2) by (simp add: io_room_def)
  note r = roundup_bounds[OF b]
  have st: "size_t (io_len io + length bs) = io_len io + length bs" using b by (simp add: size_t_def)
  obtain io1 where io1: "mg_iobuf_resize avail ?s io = (True, io1)" "length (io_buf io1) = ?s"
    "io_len io1 = io_len io" "take (io_len io) (io_buf io1) = io_data io" "io_align io1 = io_align io"
    using mg_iobuf_resize_grow[where avail = avail, OF assms(1) _ r(3) assms(3)] r(1) by auto
  have "mg_iobuf_add avail (io_len io) (Some bs) (length bs) io = Some (length bs,
      io1\<lparr>io_buf := io_data io @ bs @ drop (io_len io + length bs) (io_buf io1), io_len := io_len io + length bs\<rparr>)"
    using io1 r(1) by (simp add: mg_iobuf_add_def st Let_def)
  moreover have "io_len io + length bs \<le> length (io_data io @ bs @ drop (io_len io + length bs) (io_buf io1))"
    using assms(1) by simp
  ultimately show ?thesis
    using assms(1) io1 by (simp add: io_ok_def io_data_def)
qed

text \<open>Without memory for the new size nothing is added and the bytes in use stay.\<close>

lemma mg_iobuf_add_fails [cstep]:
  assumes "io_ok io" and "io_room (length bs) io" and "bs \<noteq> []"
    and "\<not> avail (roundup (io_len io + length bs) (io_align io))"
    and "roundup (io_len io + length bs) (io_align io) \<noteq> length (io_buf io)"
  shows "mg_iobuf_add avail (io_len io) (Some bs) (length bs) io = Some (0, io)"
proof -
  have b: "io_len io + length bs + 2 * io_align io < 2 ^ 32" using assms(2) by (simp add: io_room_def)
  have "mg_iobuf_resize avail (roundup (io_len io + length bs) (io_align io)) io = (False, io)"
    using assms roundup_bounds[OF b] by (simp add: mg_iobuf_resize_def)
  moreover have "size_t (io_len io + length bs) = io_len io + length bs" using b by (simp add: size_t_def)
  ultimately show ?thesis
    using assms by (simp add: mg_iobuf_add_def io_ok_def)
qed

text \<open>All or nothing is added, whatever memory is left.\<close>

lemma mg_iobuf_add_any:
  assumes "io_ok io" and "io_room (length bs) io" and "bs \<noteq> []"
  shows "\<exists>n io'. mg_iobuf_add avail (io_len io) (Some bs) (length bs) io = Some (n, io') \<and> io_ok io' \<and>
    io_align io' = io_align io \<and>
    (n = length bs \<and> io_data io' = io_data io @ bs \<or> n = 0 \<and> io_data io' = io_data io)"
proof (cases "avail (roundup (io_len io + length bs) (io_align io)) \<or>
    length (io_buf io) = roundup (io_len io + length bs) (io_align io)")
  case True
  then show ?thesis using mg_iobuf_add_end[where avail = avail, OF assms(1,2)] by blast
next
  case False
  then show ?thesis using mg_iobuf_add_fails[OF assms, of avail] assms(1) by auto
qed

end
