(* ===== verification/Mongoose_Ws.thy ===== *)
theory Mongoose_Ws
  imports Mongoose_Iobuf
begin

text \<open>
  The WebSocket frames of the Mongoose library (src/ws.c in
  firmware/pico/lib/mongoose/mongoose.c): the parser of a frame, which unmasks it in place, the
  header a sender writes and its mask. A frame of any length the library writes is read back as
  the message it was made of.
\<close>

section \<open>Reading a frame\<close>

record ws_msg =
  ws_flags :: u8
  header_len :: nat
  data_len :: nat

definition be32 :: "u8 list \<Rightarrow> int \<Rightarrow> u32 option" where
  "be32 p i = do {
     p3 \<leftarrow> arr_get p (i + 3); p2 \<leftarrow> arr_get p (i + 2); p1 \<leftarrow> arr_get p (i + 1); p0 \<leftarrow> arr_get p i;
     Some (push_bit 0 (ucast p3) OR push_bit 8 (ucast p2) OR push_bit 16 (ucast p1) OR push_bit 24 (ucast p0))
   }"

text \<open>for (i = 0; i < n; i++) p[i] ^= m[i & 3], for the bytes from p and m on.\<close>

definition xor_mask :: "nat \<Rightarrow> nat \<Rightarrow> nat \<Rightarrow> u8 list \<Rightarrow> u8 list option" where
  "xor_mask p m n buf = for_each [0..<n] (\<lambda>i buf. do {
     x \<leftarrow> arr_get buf (int (p + i));
     k \<leftarrow> arr_get buf (int (m + (i AND 3)));
     arr_set buf (int (p + i)) (x XOR k) }) buf"

text \<open>
  ws_process of the bytes received: the number of bytes of the frame or 0 when it is not
  complete, the bytes with the payload unmasked, and the description of the frame. The 64-bit
  length is cast to a size_t of 32 bits.
\<close>

definition ws_header :: "u8 list \<Rightarrow> (nat \<times> ws_msg) option" where
  "ws_header buf =
    (let len = length buf; empty = \<lparr>ws_flags = 0, header_len = 0, data_len = 0\<rparr> in
     if len \<ge> 2 then do {
       b1 \<leftarrow> arr_get buf 1;
       let n = unat (b1 AND 0x7f);
       let mask_len = (if b1 AND 128 \<noteq> 0 then 4 else 0);
       b0 \<leftarrow> arr_get buf 0;
       let msg = empty\<lparr>ws_flags := b0\<rparr>;
       if n < 126 \<and> len \<ge> mask_len then
         Some (mask_len, msg\<lparr>data_len := n, header_len := 2 + mask_len\<rparr>)
       else if n = 126 \<and> len \<ge> 4 + mask_len then do {
         b2 \<leftarrow> arr_get buf 2; b3 \<leftarrow> arr_get buf 3;
         Some (mask_len, msg\<lparr>header_len := 4 + mask_len, data_len := push_bit 8 (unat b2) OR unat b3\<rparr>)
       } else if len \<ge> 10 + mask_len then do {
         hi \<leftarrow> be32 buf 2; lo \<leftarrow> be32 buf 6;
         Some (mask_len, msg\<lparr>header_len := 10 + mask_len,
           data_len := size_t (unat (push_bit 32 (ucast hi) + ucast lo :: 64 word))\<rparr>)
       } else Some (mask_len, msg)
     } else Some (0, empty))"

definition ws_process :: "u8 list \<Rightarrow> (nat \<times> u8 list \<times> ws_msg) option" where
  "ws_process buf = do {
     (mask_len, msg) \<leftarrow> ws_header buf;
     if data_len msg > 1024 * 1024 * 1024 then Some (0, buf, msg)
     else if header_len msg + data_len msg > length buf then Some (0, buf, msg)
     else do {
       buf \<leftarrow> (if mask_len > 0
         then xor_mask (header_len msg) (header_len msg - mask_len) (data_len msg) buf
         else Some buf);
       Some (header_len msg + data_len msg, buf, msg)
     }
   }"

section \<open>Writing a frame\<close>

text \<open>The bytes of a number in network order.\<close>

definition be_bytes16 :: "u16 \<Rightarrow> u8 list" where
  "be_bytes16 w = [ucast (drop_bit 8 w), ucast w]"

definition be_bytes32 :: "u32 \<Rightarrow> u8 list" where
  "be_bytes32 w = [ucast (drop_bit 24 w), ucast (drop_bit 16 w), ucast (drop_bit 8 w), ucast w]"

text \<open>mkhdr: the bytes of the header; rnd are the four bytes of mg_random.\<close>

definition mkhdr :: "nat \<Rightarrow> u8 \<Rightarrow> bool \<Rightarrow> u8 list \<Rightarrow> u8 list" where
  "mkhdr len op is_client rnd =
    (let b0 = op OR 128;
         (b1, ext) =
          (if len < 126 then (word_of_nat len, [])
           else if len < 65536 then (126, be_bytes16 (word_of_nat len))
           else (127, be_bytes32 (ucast (drop_bit 32 (word_of_nat len :: 64 word))) @
                      be_bytes32 (word_of_nat len AND 0xffffffff)))
     in if is_client then [b0, b1 OR push_bit 7 1] @ ext @ rnd else [b0, b1] @ ext)"

text \<open>The reference: the frame of a payload, with a mask or without.\<close>

definition masked :: "u8 list \<Rightarrow> u8 list \<Rightarrow> u8 list" where
  "masked m bs = map (\<lambda>i. bs ! i XOR m ! (i mod 4)) [0..<length bs]"

definition ws_frame :: "u8 \<Rightarrow> u8 list option \<Rightarrow> u8 list \<Rightarrow> u8 list" where
  "ws_frame op key bs =
    (case key of
       None \<Rightarrow> mkhdr (length bs) op False [] @ bs
     | Some m \<Rightarrow> mkhdr (length bs) op True m @ masked m bs)"

section \<open>Lemmas\<close>

lemma length_masked [simp]: "length (masked m bs) = length bs"
  by (simp add: masked_def)

lemma masked_twice [simp]: "masked m (masked m bs) = bs"
  by (rule nth_equalityI) (simp_all add: masked_def xor.assoc)

lemma and_3 [simp]: "(i::nat) AND 3 = i mod 4"
proof -
  have "(3::nat) = mask 2" by (simp add: mask_eq_exp_minus_1)
  then have "i AND 3 = take_bit 2 i" by (simp only: take_bit_eq_mask)
  then show ?thesis by (simp add: take_bit_eq_mod)
qed

text \<open>The loop masks the bytes after the four of the mask.\<close>

lemma xor_mask_eq [cstep]:
  assumes "length m = 4"
  shows "xor_mask (length h + 4) (length h) (length bs) (h @ m @ bs @ r) = Some (h @ m @ masked m bs @ r)"
proof -
  let ?I = "\<lambda>k buf. buf = h @ m @ take k (masked m bs) @ drop k bs @ r"
  have "\<exists>u. xor_mask (length h + 4) (length h) (length bs) (h @ m @ bs @ r) = Some u \<and> ?I (length [0..<length bs]) u"
    unfolding xor_mask_def
  proof (rule for_each_rule[where I = ?I])
    fix k buf assume "k < length [0..<length bs]" and buf: "?I k buf"
    then have k: "k < length bs" by simp
    have "arr_get buf (int (length h + 4 + k)) = Some (bs ! k)"
      using assms k by (simp add: buf arr_nat nth_append del: of_nat_add)
    moreover have "arr_get buf (int (length h + k mod 4)) = Some (m ! (k mod 4))"
      using assms k by (simp add: buf arr_nat nth_append del: of_nat_add)
    moreover have "arr_set buf (int (length h + 4 + k)) (bs ! k XOR m ! (k mod 4)) =
        Some (h @ m @ take (Suc k) (masked m bs) @ drop (Suc k) bs @ r)"
    proof -
      have "drop k bs = bs ! k # drop (Suc k) bs" using k by (simp add: Cons_nth_drop_Suc)
      moreover have "take (Suc k) (masked m bs) = take k (masked m bs) @ [bs ! k XOR m ! (k mod 4)]"
        using k by (simp add: take_Suc_conv_app_nth) (simp add: masked_def)
      ultimately show ?thesis
        using assms k by (simp add: buf arr_nat list_update_append del: of_nat_add)
    qed
    ultimately show "\<exists>u. (do { x \<leftarrow> arr_get buf (int (length h + 4 + [0..<length bs] ! k));
        ka \<leftarrow> arr_get buf (int (length h + ([0..<length bs] ! k AND 3)));
        arr_set buf (int (length h + 4 + [0..<length bs] ! k)) (x XOR ka) }) = Some u \<and> ?I (Suc k) u"
      using k by simp
  qed simp
  then show ?thesis by simp
qed

text \<open>The length fields.\<close>

lemma be32_bytes: "be32 (h @ be_bytes32 w @ r) (int (length h)) = Some w"
proof -
  have "push_bit 0 (ucast (ucast w :: u8)) OR push_bit 8 (ucast (ucast (drop_bit 8 w) :: u8)) OR
      push_bit 16 (ucast (ucast (drop_bit 16 w) :: u8)) OR push_bit 24 (ucast (ucast (drop_bit 24 w) :: u8)) = (w :: u32)"
  proof (rule bit_word_eqI)
    fix n assume "n < LENGTH(32)"
    then consider "n < 8" | "8 \<le> n" "n < 16" | "16 \<le> n" "n < 24" | "24 \<le> n" "n < 32" by force
    then show "bit (push_bit 0 (ucast (ucast w :: u8)) OR push_bit 8 (ucast (ucast (drop_bit 8 w) :: u8)) OR
      push_bit 16 (ucast (ucast (drop_bit 16 w) :: u8)) OR push_bit 24 (ucast (ucast (drop_bit 24 w) :: u8)) :: u32) n = bit w n"
      by cases (auto simp: bit_simps)
  qed
  then show ?thesis by (simp add: be32_def be_bytes32_def nth_append nat_add_distrib)
qed

lemma be16_word:
  "push_bit 8 (unat (ucast (drop_bit 8 w) :: u8)) OR unat (ucast w :: u8) = unat (w :: u16)"
proof (rule bit_eqI)
  fix n :: nat
  consider "n < 8" | "8 \<le> n" "n < 16" | "16 \<le> n" by force
  then show "bit (push_bit 8 (unat (ucast (drop_bit 8 w) :: u8)) OR unat (ucast w :: u8)) n = bit (unat w) n"
    by cases (auto simp: bit_simps dest: bit_imp_le_length)
qed

lemma and_7f: "(w :: u8) AND 0x7f = take_bit 7 w" 
    by (simp add: take_bit_eq_mask mask_eq_exp_minus_1)
lemma bit_7: "(128 :: u8) = push_bit 7 1" by simp

lemma and_7f_length:
  assumes "n < 126"
  shows "unat ((word_of_nat n :: u8) AND 0x7f) = n"
  using assms unfolding and_7f unsigned_take_bit_eq by (simp add: unsigned_of_nat take_bit_nat_eq_self)

lemma and_7f_masked: "((w :: u8) OR push_bit 7 1) AND 0x7f = w AND 0x7f"
  unfolding and_7f by (rule bit_word_eqI) (auto simp: bit_simps)
lemma mask_bit_set: "((w :: u8) OR push_bit 7 1) AND 128 \<noteq> 0"
proof
  assume "(w OR push_bit 7 1) AND 128 = 0"
  then have "bit ((w OR push_bit 7 1) AND push_bit 7 1) 7 = bit (0 :: u8) 7" unfolding bit_7 by simp
  then show False by (simp add: bit_simps del: push_bit_of_1)
qed
lemma mask_bit_clear:
  assumes "n < 126"
  shows "(word_of_nat n :: u8) AND 128 = 0"
proof -
  have w: "take_bit 7 (word_of_nat n) = (word_of_nat n :: u8)"
    using and_7f_length[OF assms] assms unfolding and_7f
    by (intro unsigned_word_eqI[where ?'a = nat]) (simp add: unsigned_of_nat take_bit_nat_eq_self)
  have "take_bit 7 (word_of_nat n :: u8) AND push_bit 7 1 = 0"
    by (rule bit_word_eqI) (auto simp: bit_simps simp del: push_bit_of_1)
  then show ?thesis unfolding bit_7 w .
qed

lemma length64_bytes: 
  assumes "n < 2^32"
  shows "unat (push_bit 32 (ucast (ucast (drop_bit 32 (word_of_nat n :: 64 word)) :: u32)) + ucast (word_of_nat n AND 0xffffffff :: u32) :: 64 word) = n"
proof -
  have "drop_bit 32 (word_of_nat n :: 64 word) = 0"
  proof -
    have "unat (drop_bit 32 (word_of_nat n :: 64 word)) = 0"
      using assms unfolding unsigned_drop_bit_eq by (simp add: unsigned_of_nat take_bit_nat_eq_self drop_bit_eq_div)
    then show ?thesis by (simp only: unsigned_eq_0_iff)
  qed
  moreover have "word_of_nat n AND 0xffffffff = (word_of_nat n :: u32)"
  proof -
    have "(0xffffffff :: u32) = -1" by simp
    then show ?thesis by (simp only: and.right_neutral)
  qed
  ultimately show ?thesis using assms by (simp add: unsigned_ucast_eq unsigned_of_nat take_bit_nat_eq_self)
qed
lemma length_be_bytes [simp]: "length (be_bytes16 w) = 2" "length (be_bytes32 v) = 4"
  by (simp_all add: be_bytes16_def be_bytes32_def)

lemma length_mkhdr:
  "length (mkhdr n op cl m) = (if n < 126 then 2 else if n < 65536 then 4 else 10) + (if cl then length m else 0)"
  by (simp add: mkhdr_def be_bytes16_def be_bytes32_def Let_def)

lemma ws_header_short:
  assumes "unat (b1 AND 0x7f) < 126" and "(if b1 AND 128 \<noteq> 0 then 4 else 0) = ml" and "ml \<le> length r + 2"
  shows "ws_header (b0 # b1 # r) = Some (ml, \<lparr>ws_flags = b0, header_len = 2 + ml, data_len = unat (b1 AND 0x7f)\<rparr>)"
  using assms by (simp add: ws_header_def Let_def)

lemma ws_header_medium:
  assumes "b1 AND 0x7f = 126" and "(if b1 AND 128 \<noteq> 0 then 4 else 0) = ml" and "ml \<le> length r"
  shows "ws_header (b0 # b1 # be_bytes16 w @ r) = Some (ml, \<lparr>ws_flags = b0, header_len = 4 + ml, data_len = unat w\<rparr>)"
  using assms be16_word[of w] by (simp add: ws_header_def Let_def be_bytes16_def)

lemma ws_header_long:
  assumes "b1 AND 0x7f = 127" and "(if b1 AND 128 \<noteq> 0 then 4 else 0) = ml" and "ml \<le> length r"
  shows "ws_header (b0 # b1 # be_bytes32 hi @ be_bytes32 lo @ r) =
    Some (ml, \<lparr>ws_flags = b0, header_len = 10 + ml, data_len = size_t (unat (push_bit 32 (ucast hi) + ucast lo :: 64 word))\<rparr>)"
proof -
  have "be32 (b0 # b1 # be_bytes32 hi @ be_bytes32 lo @ r) 2 = Some hi"
    using be32_bytes[of "[b0, b1]" hi "be_bytes32 lo @ r"] by simp
  moreover have "be32 (b0 # b1 # be_bytes32 hi @ be_bytes32 lo @ r) 6 = Some lo"
    using be32_bytes[of "[b0, b1] @ be_bytes32 hi" lo r] by (simp add: be_bytes32_def)
  moreover have "length (be_bytes32 hi) = 4" "length (be_bytes32 lo) = 4" by (simp_all add: be_bytes32_def)
  ultimately show ?thesis using assms by (simp add: ws_header_def Let_def)
qed

lemma ws_header_mkhdr:
  assumes "n \<le> 1073741824" and "length m = (if cl then 4 else 0)"
  shows "ws_header (mkhdr n op cl m @ r) =
    Some (if cl then 4 else 0, \<lparr>ws_flags = op OR 128, header_len = length (mkhdr n op cl m), data_len = n\<rparr>)"
proof -
  let ?b = "\<lambda>b. if cl then b OR push_bit 7 1 else b :: u8"
  have seven: "?b b AND 0x7f = b AND 0x7f" for b by (cases cl) (simp_all only: and_7f_masked simp_thms if_True if_False)
  have flag: "(if ?b b AND 128 \<noteq> 0 then 4 else 0) = (if cl then 4 else 0 :: nat)" if "b AND 128 = 0" for b
    using that mask_bit_set[of b] by simp
  consider "n < 126" | "126 \<le> n" "n < 65536" | "65536 \<le> n" by linarith
  then show ?thesis
  proof cases
    case 1
    have "unat (?b (word_of_nat n) AND 0x7f) < 126"
      unfolding seven using 1 by (simp add: and_7f_length)
    from ws_header_short[OF this flag[OF mask_bit_clear[OF 1]], of "m @ r" "op OR 128"] 1 assms(2)
    show ?thesis unfolding seven and_7f_length[OF 1]
      by (auto simp: mkhdr_def length_mkhdr split: if_splits)
  next
    case 2
    have w: "unat (word_of_nat n :: u16) = n" using 2 by (simp add: unsigned_of_nat take_bit_nat_eq_self)
    have "?b 126 AND 0x7f = 126" unfolding seven by simp
    from ws_header_medium[OF this flag, of "m @ r" "op OR 128" "word_of_nat n"] 2 assms(2) w
    show ?thesis by (auto simp: mkhdr_def length_mkhdr Let_def split: if_splits)
  next
    case 3
    then have n: "n < 2 ^ 32" using assms(1) by simp
    have "?b 127 AND 0x7f = 127" unfolding seven by simp
    from ws_header_long[OF this flag, of "m @ r" "op OR 128" "ucast (drop_bit 32 (word_of_nat n :: 64 word))" "word_of_nat n AND 0xffffffff"] 
    show ?thesis unfolding length64_bytes[OF n] using 3 n assms(2) 
     by (auto simp: mkhdr_def length_mkhdr Let_def size_t_def split: if_splits)
  qed
qed

text \<open>What is not inside a complete frame the parser leaves as it is.\<close>

lemma ws_header_safe:
  "\<exists>ml msg. ws_header buf = Some (ml, msg) \<and> (ml = 0 \<or> ml = 4) \<and>
     (header_len msg = 0 \<and> data_len msg = 0 \<or> 2 + ml \<le> header_len msg \<and> header_len msg \<le> 10 + ml)"
proof (cases "2 \<le> length buf")
  case True
  let ?n = "unat (buf ! 1 AND 0x7f)" and ?ml = "if buf ! 1 AND 128 \<noteq> 0 then 4 else 0 :: nat"
  have b: "arr_get buf 1 = Some (buf ! 1)" "arr_get buf 0 = Some (buf ! 0)"
    using True by (auto simp: arr_get_def)
  consider "?n < 126 \<and> ?ml \<le> length buf" | "\<not> (?n < 126 \<and> ?ml \<le> length buf)" "?n = 126 \<and> 4 + ?ml \<le> length buf"
    | "\<not> (?n < 126 \<and> ?ml \<le> length buf)" "\<not> (?n = 126 \<and> 4 + ?ml \<le> length buf)" "10 + ?ml \<le> length buf"
    | "\<not> (?n < 126 \<and> ?ml \<le> length buf)" "\<not> (?n = 126 \<and> 4 + ?ml \<le> length buf)" "\<not> 10 + ?ml \<le> length buf"
    by blast
  then show ?thesis
  proof cases
    case 1
    then show ?thesis using True unfolding ws_header_def Let_def b by simp
  next
    case 2
    then have "arr_get buf 2 = Some (buf ! 2)" "arr_get buf 3 = Some (buf ! 3)" by auto
    then show ?thesis using True 2 unfolding ws_header_def Let_def b by auto
  next
    case 3
    then obtain hi lo where "be32 buf 2 = Some hi" "be32 buf 6 = Some lo" by (simp add: be32_def)
    then show ?thesis using True 3 unfolding ws_header_def Let_def b by auto
  next
    case 4
    then show ?thesis using True unfolding ws_header_def Let_def b by auto
  qed
qed (simp add: ws_header_def Let_def)

lemma xor_mask_safe:
  assumes "p + n \<le> length buf" and "m + 4 \<le> p"
  shows "\<exists>buf'. xor_mask p m n buf = Some buf' \<and> length buf' = length buf \<and>
    take p buf' = take p buf \<and> drop (p + n) buf' = drop (p + n) buf"
proof -
  let ?I = "\<lambda>k b. length b = length buf \<and> take p b = take p buf \<and> drop (p + n) b = drop (p + n) buf"
  have "\<exists>u. xor_mask p m n buf = Some u \<and> ?I (length [0..<n]) u"
    unfolding xor_mask_def
  proof (rule for_each_rule[where I = ?I])
    fix k b assume "k < length [0..<n]" and b: "?I k b"
    then have k: "k < n" by simp
    have "k mod 4 < 4" by simp
    then have "m + k mod 4 < length b" using assms b by linarith
    moreover have "p + k < length b" using assms b k by simp
    ultimately show "\<exists>u. (do { x \<leftarrow> arr_get b (int (p + [0..<n] ! k));
        ka \<leftarrow> arr_get b (int (m + ([0..<n] ! k AND 3)));
        arr_set b (int (p + [0..<n] ! k)) (x XOR ka) }) = Some u \<and> ?I (Suc k) u"
      using b k by (simp add: arr_nat del: of_nat_add)
  qed simp
  then show ?thesis by simp
qed

lemma ws_process_safe:
  "\<exists>n buf' msg. ws_process buf = Some (n, buf', msg) \<and> n \<le> length buf \<and> length buf' = length buf \<and>
     take (header_len msg) buf' = take (header_len msg) buf \<and> drop n buf' = drop n buf \<and>
     (n = 0 \<and> buf' = buf \<or>
      n = header_len msg + data_len msg \<and> 2 \<le> header_len msg \<and> header_len msg \<le> 14 \<and> data_len msg \<le> 1073741824)"
proof -
  obtain ml msg where h: "ws_header buf = Some (ml, msg)" "ml = 0 \<or> ml = 4"
    "header_len msg = 0 \<and> data_len msg = 0 \<or> 2 + ml \<le> header_len msg \<and> header_len msg \<le> 10 + ml"
    using ws_header_safe by blast
  show ?thesis
  proof (cases "data_len msg > 1073741824 \<or> header_len msg + data_len msg > length buf")
    case True
    then show ?thesis using h by (auto simp: ws_process_def)
  next
    case False
    show ?thesis
    proof (cases "header_len msg = 0 \<or> ml = 0")
      case True
      then show ?thesis using h False by (auto simp: ws_process_def xor_mask_def)
    next
      case ml: False
      then have "header_len msg - ml + 4 \<le> header_len msg" using h by auto
      then obtain b where "xor_mask (header_len msg) (header_len msg - ml) (data_len msg) buf = Some b"
        "length b = length buf" "take (header_len msg) b = take (header_len msg) buf"
        "drop (header_len msg + data_len msg) b = drop (header_len msg + data_len msg) buf"
        using xor_mask_safe[of "header_len msg" "data_len msg" buf "header_len msg - ml"] False by auto
      then show ?thesis using h False ml by (auto simp: ws_process_def)
    qed
  qed
qed

lemma length_ws_frame:
  "length (ws_frame op key bs) = (if length bs < 126 then 2 else if length bs < 65536 then 4 else 10) +
     (case key of None \<Rightarrow> 0 | Some m \<Rightarrow> length m) + length bs"
  by (simp add: ws_frame_def length_mkhdr split: option.split)

lemma ws_process_frame:
  assumes "length bs \<le> 1073741824" and "\<And>m. key = Some m \<Longrightarrow> length m = 4"
  shows "\<exists>hd. ws_process (ws_frame op key bs @ r) = Some (length (ws_frame op key bs), hd @ bs @ r,
      \<lparr>ws_flags = op OR 128, header_len = length hd, data_len = length bs\<rparr>) \<and>
    length (ws_frame op key bs) = length hd + length bs"
proof (cases key)
  case None
  then show ?thesis
    using ws_header_mkhdr[of "length bs" "[]" False op "bs @ r"] assms(1)
    by (intro exI[of _ "mkhdr (length bs) op False []"]) (simp add: ws_process_def ws_frame_def)
next
  case (Some m)
  let ?h = "mkhdr (length bs) op True m"
  have m: "length m = 4" using assms(2) Some by simp
  obtain h0 where h0: "?h = h0 @ m" by (simp add: mkhdr_def Let_def case_prod_beta)
  have "ws_header (?h @ masked m bs @ r) = Some (4, \<lparr>ws_flags = op OR 128, header_len = length ?h, data_len = length bs\<rparr>)"
    using ws_header_mkhdr[of "length bs" m True op "masked m bs @ r"] assms(1) m by simp
  moreover have "xor_mask (length ?h) (length ?h - 4) (length bs) (?h @ masked m bs @ r) = Some (?h @ bs @ r)"
    using xor_mask_eq[OF m, of h0 "masked m bs" r] m by (simp add: h0)
  ultimately show ?thesis
    using assms(1) Some by (intro exI[of _ ?h]) (simp add: ws_process_def ws_frame_def)
qed
text \<open>
  The high half of a frame's 64-bit length is lost in the cast to size_t.
\<close>

theorem ws_length_truncated:
  assumes "b1 AND 0x7f = 127" "b1 AND 128 = 0"
  shows "\<exists>msg. ws_header (b0 # b1 # be_bytes32 hi @ be_bytes32 lo @ r) = Some (0, msg) \<and> data_len msg = unat lo"
proof -
  have "unat (push_bit 32 (ucast hi) + ucast lo :: 64 word) mod 2 ^ 32 = unat lo"
  proof -
    have "take_bit 32 (push_bit 32 (ucast hi) + ucast lo :: 64 word) = ucast lo"
    proof -
      have "push_bit 32 (ucast hi) + ucast lo = (push_bit 32 (ucast hi) OR ucast lo :: 64 word)"
        by (rule disjunctive_add) (auto simp: bit_simps dest: bit_imp_le_length)
      then show ?thesis by (simp, intro bit_word_eqI) (auto simp: bit_simps dest: bit_imp_le_length)
    qed
    moreover have "unat lo < 2 ^ 32" using unsigned_less[of lo, where ?'a = nat] by simp
    ultimately show ?thesis
      using arg_cong[of _ _ unat] unsigned_take_bit_eq[of 32 "push_bit 32 (ucast hi) + ucast lo :: 64 word", where ?'a = nat]
      by (simp add: take_bit_nat_def unsigned_ucast_eq take_bit_nat_eq_self)
  qed
  then show ?thesis
    using ws_header_long[OF assms(1), of 0 r b0 hi lo] assms(2) by (simp add: size_t_def)
qed
end
