(* ===== verification/C_Library.thy ===== *)
theory C_Library
  imports Prelude
begin

text \<open>
  The functions of the C library the network part of the firmware calls, on character arrays
  and strings, and the form encoding of a browser, which both provisioning portals decode. An
  array is the list of its characters; a string is what c_str reads of it. A result None is an
  access outside an array.
\<close>

section \<open>Copying and searching strings\<close>

text \<open>strncpy: n characters, zeros after the end of the source; it never adds a terminator.\<close>

definition c_strncpy :: "char list \<Rightarrow> char list \<Rightarrow> nat \<Rightarrow> char list option" where
  "c_strncpy dst src n =
     (if n \<le> length dst \<and> (NUL \<in> set src \<or> n \<le> length src)
      then Some (take n (c_str src @ replicate n NUL) @ drop n dst) else None)"

text \<open>strlcpy: at most n - 1 characters and a terminator.\<close>

definition c_strlcpy :: "char list \<Rightarrow> char list \<Rightarrow> nat \<Rightarrow> char list option" where
  "c_strlcpy dst src n =
     (if 0 < n \<and> n \<le> length dst \<and> NUL \<in> set src
      then (let m = min (c_strlen src) (n - 1)
            in Some (take m (c_str src) @ [NUL] @ drop (Suc m) dst)) else None)"

text \<open>strstr and strchr give the rest of the string from the first match on.\<close>

fun is_prefix :: "string \<Rightarrow> string \<Rightarrow> bool" where
  "is_prefix [] ys = True"
| "is_prefix (x # xs) [] = False"
| "is_prefix (x # xs) (y # ys) = (x = y \<and> is_prefix xs ys)"

fun c_strstr_in :: "string \<Rightarrow> string \<Rightarrow> string option" where
  "c_strstr_in needle [] = (if needle = [] then Some [] else None)"
| "c_strstr_in needle (c # cs) =
     (if is_prefix needle (c # cs) then Some (c # cs) else c_strstr_in needle cs)"

definition c_strstr :: "string \<Rightarrow> string \<Rightarrow> string option" where
  "c_strstr hay needle = c_strstr_in (c_str needle) (c_str hay)"

definition c_strchr :: "string \<Rightarrow> char \<Rightarrow> string option" where
  "c_strchr s c = (case dropWhile (\<lambda>x. x \<noteq> c) (c_str s) of [] \<Rightarrow> None | r \<Rightarrow> Some r)"

section \<open>Numbers and text\<close>

definition digit_char :: "nat \<Rightarrow> char" where
  "digit_char d = char_of (48 + d)"

text \<open>%d of a number that is not negative.\<close>

fun dec_digits :: "nat \<Rightarrow> string" where
  "dec_digits n = (if n < 10 then [digit_char n] else dec_digits (n div 10) @ [digit_char (n mod 10)])"

declare dec_digits.simps [simp del]

definition is_dec :: "char \<Rightarrow> bool" where
  "is_dec c \<longleftrightarrow> (let n = of_char c :: nat in 48 \<le> n \<and> n \<le> 57)"

text \<open>snprintf into a buffer of n bytes keeps the first n - 1 characters.\<close>

definition c_snprintf :: "nat \<Rightarrow> string \<Rightarrow> string" where
  "c_snprintf n s = take (n - 1) s"

definition isxdigit :: "char \<Rightarrow> bool" where
  "isxdigit c = (let n = of_char c :: nat in (48 \<le> n \<and> n \<le> 57) \<or> (97 \<le> n \<and> n \<le> 102) \<or> (65 \<le> n \<and> n \<le> 70))"

definition hex_value :: "char \<Rightarrow> nat" where
  "hex_value c = (let n = of_char c in if n \<le> 57 then n - 48 else if n \<le> 70 then n - 55 else n - 87)"

definition c_isspace :: "char \<Rightarrow> bool" where
  "c_isspace c = (let n = of_char c :: nat in n = 32 \<or> (9 \<le> n \<and> n \<le> 13))"

text \<open>strtol(s, NULL, 16), for strings too short to reach the limits of long.\<close>

definition strtol16 :: "string \<Rightarrow> int" where
  "strtol16 s =
    (let s = dropWhile c_isspace (c_str s);
         neg = (s \<noteq> [] \<and> hd s = CHR ''-'');
         s = (if s \<noteq> [] \<and> (hd s = CHR ''-'' \<or> hd s = CHR ''+'') then tl s else s);
         s = (if length s \<ge> 3 \<and> s ! 0 = CHR ''0'' \<and> (s ! 1 = CHR ''x'' \<or> s ! 1 = CHR ''X'') \<and> isxdigit (s ! 2)
              then drop 2 s else s);
         v = foldl (\<lambda>v c. 16 * v + int (hex_value c)) 0 (takeWhile isxdigit s)
     in if neg then - v else v)"

text \<open>
  atoi: white space, a sign, digits. The value out of the range of int that the standard leaves
  undefined is the nearest bound, as in strtol, by which the newlib of the targets defines atoi.
\<close>

definition c_atoi :: "string \<Rightarrow> int" where
  "c_atoi s =
    (let s = dropWhile c_isspace (c_str s);
         neg = (s \<noteq> [] \<and> hd s = CHR ''-'');
         s = (if s \<noteq> [] \<and> (hd s = CHR ''-'' \<or> hd s = CHR ''+'') then tl s else s);
         v = foldl (\<lambda>v c. 10 * v + int (of_char c - 48)) 0 (takeWhile is_dec s)
     in max (- (2 ^ 31)) (min (2 ^ 31 - 1) (if neg then - v else v)))"

section \<open>The form encoding of a browser\<close>

text \<open>
  application/x-www-form-urlencoded: letters, digits and * - . _ are sent as they are, a space
  as +, every other byte as % and two hexadecimal digits.
\<close>

definition form_safe :: "char \<Rightarrow> bool" where
  "form_safe c = (let n = of_char c :: nat in
     (48 \<le> n \<and> n \<le> 57) \<or> (97 \<le> n \<and> n \<le> 122) \<or> (65 \<le> n \<and> n \<le> 90) \<or> c \<in> set ''*-._'')"

definition hex_char :: "nat \<Rightarrow> char" where
  "hex_char d = char_of (if d < 10 then 48 + d else 55 + d)"

definition form_char :: "char \<Rightarrow> string" where
  "form_char c =
    (if c = CHR '' '' then ''+''
     else if form_safe c then [c]
     else [CHR ''%'', hex_char (of_char c div 16), hex_char (of_char c mod 16)])"

definition form_encode :: "string \<Rightarrow> string" where
  "form_encode s = concat (map form_char s)"

definition form_body :: "string \<Rightarrow> string \<Rightarrow> string" where
  "form_body ssid pass = ''ssid='' @ form_encode ssid @ ''&pass='' @ form_encode pass"

section \<open>Lemmas\<close>

lemma of_char_less [simp]: "(of_char c :: nat) < 256"
  by (metis of_char_mod_256 mod_less_divisor zero_less_numeral)

lemma below_16:
  assumes "n < (16::nat)"
  obtains "n = 0" | "n = 1" | "n = 2" | "n = 3" | "n = 4" | "n = 5" | "n = 6" | "n = 7"
    | "n = 8" | "n = 9" | "n = 10" | "n = 11" | "n = 12" | "n = 13" | "n = 14" | "n = 15"
  using assms by (auto simp: less_Suc_eq numeral_eq_Suc)

lemma hex_char_of [simp]: "n < 16 \<Longrightarrow> of_char (hex_char n) = (if n < 10 then 48 + n else 55 + n)"
  by (simp add: hex_char_def)

lemma isxdigit_hex_char [simp]: "n < 16 \<Longrightarrow> isxdigit (hex_char n)"
  by (auto simp: isxdigit_def Let_def)

lemma hex_value_hex_char [simp]: "n < 16 \<Longrightarrow> hex_value (hex_char n) = n"
  by (auto simp: hex_value_def Let_def)

lemma hex_value_less [simp]: "isxdigit c \<Longrightarrow> hex_value c < 16"
  by (auto simp: hex_value_def isxdigit_def Let_def)

lemma char_nibbles [simp]: "char_of (16 * (of_char c div 16) + of_char c mod 16 :: nat) = c"
  by simp

lemma form_safe_plain:
  assumes "form_safe c"
  shows "c \<noteq> CHR ''%''" "c \<noteq> CHR ''+''" "c \<noteq> CHR ''&''" "c \<noteq> CHR ''=''" "c \<noteq> CHR '' ''" "c \<noteq> NUL"
  using assms by (auto simp: form_safe_def Let_def)

text \<open>The encoding has no separator of the form body in it.\<close>

lemma form_encode_chars:
  assumes "d \<in> set (form_encode s)"
  shows "d \<noteq> CHR ''&''" "d \<noteq> CHR ''=''" "d \<noteq> NUL" "d \<noteq> CHR '' ''"
proof -
  have hex: "n < 16 \<Longrightarrow> form_safe (hex_char n)" for n
    by (auto simp: form_safe_def hex_char_def Let_def)
  obtain c where "d \<in> set (form_char c)"
    using assms by (auto simp: form_encode_def)
  then have "d = CHR ''+'' \<or> d = CHR ''%'' \<or> form_safe d"
    using hex[of "of_char c div 16"] hex[of "of_char c mod 16"]
    by (auto simp: form_char_def less_mult_imp_div_less split: if_splits)
  then show "d \<noteq> CHR ''&''" "d \<noteq> CHR ''=''" "d \<noteq> NUL" "d \<noteq> CHR '' ''"
    using form_safe_plain[of d] by auto
qed

lemma form_encode_free [simp]:
  "NUL \<notin> set (form_encode s)" "CHR ''='' \<notin> set (form_encode s)" "CHR ''&'' \<notin> set (form_encode s)"
  using form_encode_chars[of _ s] by blast+

lemma is_dec_digit: "d < 10 \<Longrightarrow> is_dec (digit_char d)"
  by (simp add: is_dec_def digit_char_def)

lemma is_dec_digits: "list_all is_dec (dec_digits n)"
proof (induction n rule: dec_digits.induct)
  case (1 n)
  then show ?case
    by (subst dec_digits.simps) (simp add: is_dec_digit)
qed

lemma length_dec_digits: "n < 10 ^ k \<Longrightarrow> 0 < k \<Longrightarrow> length (dec_digits n) \<le> k"
proof (induction n arbitrary: k rule: dec_digits.induct)
  case (1 n)
  show ?case
  proof (cases "n < 10")
    case True
    then show ?thesis using 1(3) by (subst dec_digits.simps) simp
  next
    case False
    then obtain j where k: "k = Suc j" "0 < j" using 1(2,3) by (cases k; cases "k - 1") auto
    then have "n div 10 < 10 ^ j" using 1(2) by (simp add: less_mult_imp_div_less mult.commute)
    from 1(1)[OF False this k(2)] show ?thesis using False k(1) by (subst dec_digits.simps) simp
  qed
qed

lemma dec_digits_nonempty: "dec_digits n \<noteq> []"
  by (subst dec_digits.simps) simp

lemma dec_value:
  "foldl (\<lambda>v c. 10 * v + int (of_char c - 48)) 0 (dec_digits n) = int n"
proof (induction n rule: dec_digits.induct)
  case (1 n)
  then show ?case by (subst dec_digits.simps) (auto simp: digit_char_def zdiv_int zmod_int)
qed

lemma c_atoi_digits:
  assumes "n < 2147483648" "r = [] \<or> \<not> is_dec (hd r)" "NUL \<notin> set r"
  shows "c_atoi (dec_digits n @ r) = int n"
proof -
  obtain d ds where d: "dec_digits n = d # ds" "is_dec d"
    using dec_digits_nonempty[of n] is_dec_digits[of n] by (cases "dec_digits n") auto
  have "\<not> is_dec NUL" by (simp add: is_dec_def)
  then have nul: "NUL \<notin> set (dec_digits n)"
    using is_dec_digits[of n] by (auto simp: list_all_iff)
  have s: "\<not> c_isspace d" "d \<noteq> CHR ''-''" "d \<noteq> CHR ''+''"
    using d(2) by (auto simp: is_dec_def c_isspace_def Let_def)
  have "takeWhile is_dec (dec_digits n @ r) = dec_digits n"
    using is_dec_digits[of n] assms(2) by (cases r) (auto simp: list_all_iff takeWhile_append)
  moreover have "c_str (dec_digits n @ r) = dec_digits n @ r"
    using assms(3) nul by (intro c_str_id) auto
  ultimately show ?thesis
    using s dec_value[of n] assms(1) by (simp add: c_atoi_def d(1))
qed

end
