(* ===== verification/Mongoose.thy ===== *)
theory Mongoose
  imports C_Library "HOL-Library.Monad_Syntax"
begin

text \<open>
  The functions of the Mongoose library the provisioning portal of the Pico rests on
  (firmware/pico/lib/mongoose/mongoose.c): the glob match of URIs and methods, the splitting of
  a form body into variables, and the percent decoding into a buffer. A struct mg_str is an
  option: None is the null pointer, Some the characters of the string.
\<close>

type_synonym mg_str = "string option"

definition mg_chars :: "mg_str \<Rightarrow> string" where
  "mg_chars s = (case s of None \<Rightarrow> [] | Some cs \<Rightarrow> cs)"

section \<open>Matching\<close>

text \<open>
  mg_match without captures: i and j walk over the pattern and the string, ni and nj remember
  where to resume after the last wildcard. The lengths stay those of the whole strings.
\<close>

partial_function (option) mg_match_from ::
    "string \<Rightarrow> string \<Rightarrow> nat \<Rightarrow> nat \<Rightarrow> nat \<Rightarrow> nat \<Rightarrow> bool option" where
  "mg_match_from s p i j ni nj =
    (if i < length p \<or> j < length s then
       if i < length p \<and> j < length s \<and>
          (p ! i = CHR ''?'' \<or> (p ! i \<noteq> CHR ''*'' \<and> p ! i \<noteq> CHR ''#'' \<and> s ! j = p ! i))
       then mg_match_from s p (i + 1) (j + 1) ni nj
       else if i < length p \<and> (p ! i = CHR ''*'' \<or> p ! i = CHR ''#'')
       then mg_match_from s p (i + 1) j i (j + 1)
       else if nj > 0 \<and> nj \<le> length s \<and>
          ((ni < length p \<and> p ! ni = CHR ''#'') \<or> (j < length s \<and> s ! j \<noteq> CHR ''/''))
       then mg_match_from s p ni nj ni nj
       else Some False
     else Some True)"

definition mg_match :: "string \<Rightarrow> string \<Rightarrow> bool option" where
  "mg_match s p = mg_match_from s p 0 0 0 0"

section \<open>Form variables\<close>

text \<open>mg_span: the part before the separator and the part after it.\<close>

definition mg_span :: "mg_str \<Rightarrow> char \<Rightarrow> (mg_str \<times> mg_str) option" where
  "mg_span s sep =
    (case s of None \<Rightarrow> None
     | Some cs \<Rightarrow>
         if cs = [] then None
         else (let a = takeWhile (\<lambda>c. c \<noteq> sep) cs; b = drop (length a) cs
               in Some (Some a, Some (if length a < length cs then tl b else b))))"

definition mg_lower :: "char \<Rightarrow> int" where
  "mg_lower c = (let n = of_char c :: int in if 65 \<le> n \<and> n \<le> 90 then n + 32 else n)"

text \<open>mg_ncasecmp, which reads at most n characters of each string.\<close>

fun mg_ncasecmp :: "string \<Rightarrow> string \<Rightarrow> nat \<Rightarrow> int option" where
  "mg_ncasecmp s1 s2 0 = Some 0"
| "mg_ncasecmp (c # cs) (d # ds) (Suc n) =
     (let diff = mg_lower c - mg_lower d
      in if diff = 0 \<and> c \<noteq> NUL \<and> n > 0 then mg_ncasecmp cs ds n else Some diff)"
| "mg_ncasecmp s1 s2 (Suc n) = None"

text \<open>mg_http_var: the value of the first variable with the name.\<close>

lemma mg_span_shorter:
  assumes "mg_span (Some cs) sep = Some (a, Some b)"
  shows "length b < length cs"
  using assms by (auto simp: mg_span_def Let_def split: if_splits)

lemma mg_span_Some:
  assumes "mg_span s sep = Some (a, b)"
  obtains cs x y where "s = Some cs" "a = Some x" "b = Some y" "length y < length cs"
proof -
  obtain cs where cs: "s = Some cs" "cs \<noteq> []"
    using assms by (cases s) (auto simp: mg_span_def split: if_splits)
  let ?x = "takeWhile (\<lambda>c. c \<noteq> sep) cs"
  have "a = Some ?x" and "\<exists>y. b = Some y"
    using assms cs by (auto simp: mg_span_def Let_def)
  then show thesis
    using that cs(1) mg_span_shorter assms by blast
qed

function mg_http_var :: "mg_str \<Rightarrow> string \<Rightarrow> mg_str option" where
  "mg_http_var buf name =
    (case mg_span buf CHR ''&'' of
       None \<Rightarrow> Some None
     | Some (entry, rest) \<Rightarrow>
         (case mg_span entry CHR ''='' of
            None \<Rightarrow> mg_http_var rest name
          | Some (k, v) \<Rightarrow>
              if length name = length (mg_chars k) then do {
                d \<leftarrow> mg_ncasecmp name (mg_chars k) (length (mg_chars k));
                if d = 0 then Some v else mg_http_var rest name
              } else mg_http_var rest name))"
  by pat_completeness auto
termination
  by (relation "measure (\<lambda>(buf, name). length (mg_chars buf))")
    (auto simp: mg_chars_def elim!: mg_span_Some)

declare mg_http_var.simps [simp del]

section \<open>Numbers\<close>

definition mg_digit :: "nat \<Rightarrow> char \<Rightarrow> nat option" where
  "mg_digit base c = (let n = of_char c in
     if base \<le> 10 then (if 48 \<le> n \<and> n < 48 + base then Some (n - 48) else None)
     else if 48 \<le> n \<and> n \<le> 57 then Some (n - 48)
     else if 65 \<le> n \<and> n \<le> 70 then Some (n - 55)
     else if 97 \<le> n \<and> n \<le> 102 then Some (n - 87)
     else None)"

text \<open>
  The three digit loops of mg_str_to_num, with the base as an argument: the result, the number
  of digits and the characters left, or None when the value exceeds max.
\<close>

fun mg_digits :: "nat \<Rightarrow> nat \<Rightarrow> nat \<Rightarrow> nat \<Rightarrow> string \<Rightarrow> (nat \<times> nat \<times> string) option" where
  "mg_digits base mx result ndigits [] = Some (result, ndigits, [])"
| "mg_digits base mx result ndigits (c # cs) =
    (case mg_digit base c of
       None \<Rightarrow> Some (result, ndigits, c # cs)
     | Some digit \<Rightarrow>
         if result > mx div base then None
         else if result * base > mx - digit then None
         else mg_digits base mx (result * base + digit) (ndigits + 1) cs)"

text \<open>
  mg_str_to_num: None is the result false, and the value is what it stores through val. The
  prefixes 0b and 0x are looked at when the base is 0.
\<close>

definition mg_str_to_num :: "string \<Rightarrow> nat \<Rightarrow> nat \<Rightarrow> nat option" where
  "mg_str_to_num str base val_len =
    (let mx = (if val_len = 1 then 0xFF else if val_len = 2 then 0xFFFF
               else if val_len = 4 then 0xFFFFFFFF else 2 ^ 64 - 1)
     in if mx = 2 ^ 64 - 1 \<and> val_len \<noteq> 8 then None
     else let (i, base) =
         (if base = 0 \<and> length str \<ge> 2 then
            if str ! 0 = CHR ''0'' then
              (let base = (if str ! 1 = CHR ''b'' then 2 else if str ! 1 = CHR ''x'' then 16 else 10)
               in (if base \<noteq> 10 then 2 else 1, base))
            else (0, 10)
          else (0, base))
     in if base \<noteq> 2 \<and> base \<noteq> 10 \<and> base \<noteq> 16 then None
     else do {
       (result, ndigits, rest) \<leftarrow> mg_digits base mx 0 0 (drop i str);
       if ndigits = 0 \<or> rest \<noteq> [] then None else Some result
     })"

section \<open>Percent decoding\<close>

text \<open>
  mg_url_decode from position i of the source, whose characters left are the first list, and
  position j of the destination. It returns the number of characters or -1, and the
  destination. A bad percent sequence returns at once, before the terminator is written.
\<close>

fun mg_url_decode_from :: "bool \<Rightarrow> string \<Rightarrow> nat \<Rightarrow> char list \<Rightarrow> int \<times> char list" where
  "mg_url_decode_from form [] j dst =
     (if j < length dst then (int j, dst[j := NUL]) else (-1, dst))"
| "mg_url_decode_from form (c # cs) j dst =
    (if \<not> j + 1 < length dst then (-1, if j < length dst then dst[j := NUL] else dst)
     else if c = CHR ''%'' then
       (case cs of
          h # l # rest \<Rightarrow>
            if isxdigit h \<and> isxdigit l
            then mg_url_decode_from form rest (j + 1)
                   (case mg_str_to_num [h, l] 16 1 of None \<Rightarrow> dst | Some v \<Rightarrow> dst[j := char_of v])
            else (-1, dst)
        | _ \<Rightarrow> (-1, dst))
     else if form \<and> c = CHR ''+'' then mg_url_decode_from form cs (j + 1) (dst[j := CHR '' ''])
     else mg_url_decode_from form cs (j + 1) (dst[j := c]))"

definition mg_url_decode :: "string \<Rightarrow> char list \<Rightarrow> bool \<Rightarrow> int \<times> char list" where
  "mg_url_decode src dst form = mg_url_decode_from form src 0 dst"

text \<open>mg_http_get_var: the length of the value or an error code, and the destination.\<close>

definition mg_http_get_var :: "mg_str \<Rightarrow> string \<Rightarrow> char list \<Rightarrow> (int \<times> char list) option" where
  "mg_http_get_var buf name dst =
    (if dst = [] then Some (-2, dst)
     else let dst = dst[0 := NUL] in
     if mg_chars buf = [] then Some (-1, dst)
     else do {
       v \<leftarrow> mg_http_var buf name;
       (case v of
          None \<Rightarrow> Some (-4, dst)
        | Some cs \<Rightarrow>
            (let (len, dst) = mg_url_decode cs dst True
             in Some (if len < 0 then -3 else len, dst)))
     })"

section \<open>Lemmas\<close>

text \<open>A pattern without wildcards matches itself only.\<close>

definition literal :: "string \<Rightarrow> bool" where
  "literal p = (\<forall>c\<in>set p. c \<noteq> CHR ''?'' \<and> c \<noteq> CHR ''*'' \<and> c \<noteq> CHR ''#'')"

lemma literal_nth [simp]:
  assumes "literal p" "i < length p"
  shows "p ! i \<noteq> CHR ''?''" "p ! i \<noteq> CHR ''*''" "p ! i \<noteq> CHR ''#''"
  using assms by (auto simp: literal_def)

lemma mg_match_from_literal:
  assumes "literal p" "i \<le> length p" "i \<le> length s"
  shows "mg_match_from s p i i 0 0 = Some (drop i s = drop i p)"
  using assms(2,3)
proof (induction "length p - i" arbitrary: i)
  case 0
  then show ?case by (subst mg_match_from.simps) (auto simp: assms(1))
next
  case (Suc n)
  show ?case
  proof (cases "i < length s \<and> s ! i = p ! i")
    case True
    then have "mg_match_from s p i i 0 0 = mg_match_from s p (Suc i) (Suc i) 0 0"
      using Suc.hyps by (subst mg_match_from.simps) (simp add: assms(1))
    also have "\<dots> = Some (drop (Suc i) s = drop (Suc i) p)"
      using Suc True by (intro Suc.hyps(1)) auto
    also have "(drop (Suc i) s = drop (Suc i) p) = (drop i s = drop i p)"
      using True Suc.hyps(2) by (metis Cons_nth_drop_Suc list.inject zero_less_Suc zero_less_diff)
    finally show ?thesis .
  next
    case False
    then have "drop i s \<noteq> drop i p"
      using Suc.hyps(2) by (metis drop_eq_Nil2 hd_drop_conv_nth linorder_not_le zero_less_Suc zero_less_diff)
    then show ?thesis
      using False Suc.hyps(2) by (subst mg_match_from.simps) (auto simp: assms(1))
  qed
qed

lemma mg_match_eq: "literal p \<Longrightarrow> mg_match s p = Some (s = p)"
  by (simp add: mg_match_def mg_match_from_literal)

lemma mg_span_at: "sep \<notin> set xs \<Longrightarrow> mg_span (Some (xs @ sep # ys)) sep = Some (Some xs, Some ys)"
  by (induction xs) (auto simp: mg_span_def Let_def split: if_splits)

lemma mg_span_none:
  assumes "sep \<notin> set xs" "xs \<noteq> []"
  shows "mg_span (Some xs) sep = Some (Some xs, Some [])"
proof -
  have tw: "takeWhile (\<lambda>c. c \<noteq> sep) xs = xs"
    using assms(1) by (auto simp: takeWhile_eq_all_conv)
  show ?thesis
    unfolding mg_span_def Let_def option.case tw using assms(2) by simp
qed

text \<open>Two hexadecimal digits always fit a byte.\<close>

lemma mg_digit_hex: "isxdigit c \<Longrightarrow> mg_digit 16 c = Some (hex_value c)"
  by (auto simp: isxdigit_def mg_digit_def hex_value_def Let_def)

lemma mg_str_to_num_hex:
  assumes "isxdigit h" "isxdigit l"
  shows "mg_str_to_num [h, l] 16 (Suc 0) = Some (16 * hex_value h + hex_value l)"
proof -
  have "hex_value h \<le> 15" "hex_value l \<le> 15"
    using hex_value_less[OF assms(1)] hex_value_less[OF assms(2)] by simp_all
  then have "\<not> 15 < hex_value h" "\<not> 255 - hex_value l < hex_value h * 16" "\<not> 15 < (0::nat)"
    "\<not> 255 - hex_value h < (0::nat)"
    by simp_all
  then show ?thesis
    using assms by (simp add: mg_str_to_num_def Let_def mg_digit_hex)
qed

text \<open>Decoding never leaves the destination, whatever the source.\<close>

lemma mg_url_decode_from_bounds:
  "mg_url_decode_from form src j dst = (n, d) \<Longrightarrow>
     length d = length dst \<and> -1 \<le> n \<and> n < int (length dst) \<and> (0 \<le> n \<longrightarrow> d ! nat n = NUL)"
proof (induction form src j dst arbitrary: n d rule: mg_url_decode_from.induct)
  case (1 form j dst)
  then show ?case by (auto split: if_splits)
next
  case (2 form c cs j dst)
  show ?case
  proof (cases "\<not> j + 1 < length dst")
    case True
    then show ?thesis using "2.prems" by (auto split: if_splits)
  next
    case room: False
    consider "c = CHR ''%''" | "c \<noteq> CHR ''%''" by blast
    then show ?thesis
    proof cases
      case 1
      show ?thesis
      proof (cases "\<exists>h l rest. cs = h # l # rest \<and> isxdigit h \<and> isxdigit l")
        case True
        then obtain h l rest where cs: "cs = h # l # rest" "isxdigit h \<and> isxdigit l"
          by blast
        show ?thesis
          using "2.prems" "2.IH"(1)[OF room 1 cs(1) refl cs(2)] room 1 cs
          by (simp add: mg_str_to_num_hex)
      next
        case False
        then show ?thesis
          using "2.prems" room 1 by (auto split: list.splits if_splits)
      qed
    next
      case 2
      show ?thesis
        using "2.prems" "2.IH"(2,3)[OF room 2] room 2
        by (cases "form \<and> c = CHR ''+''") auto
    qed
  qed
qed


text \<open>
  Decoding what a browser encodes: the string when the destination has room for it and a
  terminator, else its beginning, cut by the terminator, and the result -1.
\<close>

lemma decode_form_char:
  assumes "Suc j < length dst"
  shows "mg_url_decode_from True (form_char c @ rest) j dst =
    mg_url_decode_from True rest (Suc j) (dst[j := c])"
proof -
  have nibbles: "(of_char c :: nat) div 16 < 16" "(of_char c :: nat) mod 16 < 16"
    by (simp_all add: less_mult_imp_div_less)
  show ?thesis
    using assms form_safe_plain[of c] nibbles isxdigit_hex_char[OF nibbles(1)] isxdigit_hex_char[OF nibbles(2)]
    by (auto simp: form_char_def mg_str_to_num_hex)
qed

lemma decode_form_full:
  assumes "\<not> Suc j < length dst"
  shows "mg_url_decode_from True (form_char c @ rest) j dst = (-1, if j < length dst then dst[j := NUL] else dst)"
proof -
  obtain d ds where "form_char c = d # ds"
    by (cases "form_char c") (auto simp: form_char_def split: if_splits)
  then show ?thesis using assms by simp
qed

lemma decode_form_encode:
  assumes "j < length dst"
  shows "mg_url_decode_from True (form_encode s) j dst =
    (if j + length s < length dst
     then (int (j + length s), take j dst @ s @ NUL # drop (Suc (j + length s)) dst)
     else (-1, take j dst @ take (length dst - 1 - j) s @ [NUL]))"
  using assms
proof (induction s arbitrary: j dst)
  case Nil
  then show ?case by (simp add: form_encode_def upd_conv_take_nth_drop)
next
  case (Cons c s)
  show ?case
  proof (cases "Suc j < length dst")
    case True
    have "form_encode (c # s) = form_char c @ form_encode s"
      by (simp add: form_encode_def)
    then have "mg_url_decode_from True (form_encode (c # s)) j dst =
        mg_url_decode_from True (form_encode s) (Suc j) (dst[j := c])"
      using decode_form_char[OF True] by simp
    then show ?thesis
      using Cons.IH[of "Suc j" "dst[j := c]"] True
      by (auto simp: upd_conv_take_nth_drop take_Cons' min_def ac_simps)
  next
    case False
    then have "length dst = Suc j" using Cons.prems by simp
    moreover have "form_encode (c # s) = form_char c @ form_encode s"
      by (simp add: form_encode_def)
    ultimately show ?thesis
      using decode_form_full[OF False] by (simp add: upd_conv_take_nth_drop)
  qed
qed

lemma mg_http_var_form:
  "mg_http_var (Some (form_body ssid pass)) ''ssid'' = Some (Some (form_encode ssid))"
  "mg_http_var (Some (form_body ssid pass)) ''pass'' = Some (Some (form_encode pass))"
proof -
  have amp: "CHR ''&'' \<notin> set (form_encode s)" for s
    using form_encode_chars(1)[of _ s] by blast
  have outer: "mg_span (Some (form_body ssid pass)) CHR ''&'' =
      Some (Some (''ssid='' @ form_encode ssid), Some (''pass='' @ form_encode pass))"
    using mg_span_at[of "CHR ''&''" "''ssid='' @ form_encode ssid" "''pass='' @ form_encode pass"] amp
    by (simp add: form_body_def)
  have second: "mg_span (Some (''pass='' @ form_encode pass)) CHR ''&'' =
      Some (Some (''pass='' @ form_encode pass), Some [])"
    using mg_span_none[of "CHR ''&''" "''pass='' @ form_encode pass"] amp by simp
  have inner: "mg_span (Some (''ssid='' @ form_encode ssid)) CHR ''='' = Some (Some ''ssid'', Some (form_encode ssid))"
    "mg_span (Some (''pass='' @ form_encode pass)) CHR ''='' = Some (Some ''pass'', Some (form_encode pass))"
    using mg_span_at[of "CHR ''=''" "''ssid''" "form_encode ssid"]
      mg_span_at[of "CHR ''=''" "''pass''" "form_encode pass"] by simp_all
  have cmp: "mg_ncasecmp ''ssid'' ''ssid'' 4 = Some 0" "mg_ncasecmp ''pass'' ''pass'' 4 = Some 0"
    "mg_ncasecmp ''pass'' ''ssid'' 4 = Some (-3)"
    by (simp_all add: mg_lower_def Let_def numeral_eq_Suc)
  have final: "mg_http_var (Some (''pass='' @ form_encode pass)) ''pass'' = Some (Some (form_encode pass))"
    by (subst mg_http_var.simps) (simp add: inner[simplified] second[simplified] mg_chars_def cmp)
  show "mg_http_var (Some (form_body ssid pass)) ''ssid'' = Some (Some (form_encode ssid))"
    by (subst mg_http_var.simps) (simp add: outer inner[simplified] mg_chars_def cmp)
  show "mg_http_var (Some (form_body ssid pass)) ''pass'' = Some (Some (form_encode pass))"
    by (subst mg_http_var.simps) (simp add: outer inner[simplified] mg_chars_def mg_lower_def Let_def final[simplified])
qed

text \<open>What mg_http_get_var stores of a form variable: the value when it fits, else its beginning.\<close>

definition var_buffer :: "nat \<Rightarrow> string \<Rightarrow> char list" where
  "var_buffer n s = (let t = take (n - 1) s in t @ replicate (n - length t) NUL)"

lemma mg_http_get_var_form:
  assumes "name = ''ssid'' \<and> v = ssid \<or> name = ''pass'' \<and> v = pass" and "0 < n"
  shows "mg_http_get_var (Some (form_body ssid pass)) name (replicate n NUL) =
    Some (if length v < n then int (length v) else -3, var_buffer n v)"
proof -
  have var: "mg_http_var (Some (form_body ssid pass)) name = Some (Some (form_encode v))"
    using assms(1) mg_http_var_form by auto
  have zero: "(replicate n NUL)[0 := NUL] = replicate n NUL"
    using assms(2) by (cases n) auto
  have "mg_chars (Some (form_body ssid pass)) \<noteq> []"
    by (simp add: mg_chars_def form_body_def)
  moreover have "mg_url_decode_from True (form_encode v) 0 (replicate n NUL) =
      (if length v < n then int (length v) else -1, var_buffer n v)"
  proof (cases "length v < n")
    case True
    then have "replicate (n - length v) NUL = NUL # replicate (n - Suc (length v)) NUL"
      by (metis Suc_diff_Suc replicate_Suc)
    then show ?thesis
      using decode_form_encode[of 0 "replicate n NUL" v] True assms(2) by (simp add: var_buffer_def)
  next
    case False
    then have "n - length (take (n - 1) v) = 1" using assms(2) by simp
    then show ?thesis
      using decode_form_encode[of 0 "replicate n NUL" v] False assms(2) by (simp add: var_buffer_def Let_def)
  qed
  ultimately show ?thesis
    using assms(2) by (simp add: mg_http_get_var_def zero var mg_url_decode_def Let_def)
qed


text \<open>Any body and any name: the variables are read within their strings and written within the buffer.\<close>

lemma mg_ncasecmp_total:
  "n \<le> length s1 \<Longrightarrow> n \<le> length s2 \<Longrightarrow> \<exists>d. mg_ncasecmp s1 s2 n = Some d"
  by (induction s1 s2 n rule: mg_ncasecmp.induct) (auto simp: Let_def)

lemma mg_http_var_total: "\<exists>v. mg_http_var buf name = Some v"
proof (induction buf name rule: mg_http_var.induct)
  case (1 buf name)
  show ?case
  proof (cases "mg_span buf CHR ''&''")
    case None
    then show ?thesis by (subst mg_http_var.simps) simp
  next
    case (Some p)
    obtain entry rest where p: "p = (entry, rest)" by (cases p)
    show ?thesis
    proof (cases "mg_span entry CHR ''=''")
      case None
      then show ?thesis
        using "1.IH"(1)[OF Some p[symmetric] None] Some p by (subst mg_http_var.simps) simp
    next
      case kv: (Some q)
      obtain k v where q: "q = (k, v)" by (cases q)
      show ?thesis
      proof (cases "length name = length (mg_chars k)")
        case True
        then obtain d where "mg_ncasecmp name (mg_chars k) (length (mg_chars k)) = Some d"
          using mg_ncasecmp_total by (metis order_refl)
        then show ?thesis
          using "1.IH"(2)[OF Some p[symmetric] kv q[symmetric] True] Some p kv q True by (subst mg_http_var.simps) simp
      next
        case False
        then show ?thesis
          using "1.IH"(3)[OF Some p[symmetric] kv q[symmetric] False] Some p kv q by (subst mg_http_var.simps) simp
      qed
    qed
  qed
qed

lemma mg_http_get_var_total:
  "\<exists>len d. mg_http_get_var buf name dst = Some (len, d) \<and> length d = length dst \<and>
     len < int (length dst) \<and> (0 \<le> len \<longrightarrow> d ! nat len = NUL)"
proof -
  obtain v where v: "mg_http_var buf name = Some v"
    using mg_http_var_total by blast
  obtain n d where dec: "mg_url_decode (mg_chars v) (dst[0 := NUL]) True = (n, d)"
    by (cases "mg_url_decode (mg_chars v) (dst[0 := NUL]) True")
  have "length d = length dst \<and> -1 \<le> n \<and> n < int (length dst) \<and> (0 \<le> n \<longrightarrow> d ! nat n = NUL)"
    using mg_url_decode_from_bounds dec unfolding mg_url_decode_def by (metis length_list_update)
  then show ?thesis
    using v dec by (cases v) (auto simp: mg_http_get_var_def Let_def mg_chars_def)
qed

section \<open>Properties\<close>

definition wildcard :: "char \<Rightarrow> bool" where
  "wildcard c \<longleftrightarrow> c = CHR ''*'' \<or> c = CHR ''#''"

text \<open>
  The steps of the match decrease lexicographically: a wildcard is passed for good, a restart
  gives the last one a longer text, or the pattern gets shorter.
\<close>

lemma mg_match_from_returns:
  assumes "nj = 0 \<or> ni < i \<and> ni < length p \<and> wildcard (p ! ni)"
  shows "\<exists>b. mg_match_from s p i j ni nj = Some b"
  using assms
proof (induction "(if nj = 0 then Suc (length p) else length p - ni, Suc (length s) - nj, length p - i)"
    arbitrary: i j ni nj
    rule: wf_induct_rule[OF wf_lex_prod[OF wf_less_than wf_lex_prod[OF wf_less_than wf_less_than]]])
  case 1
  note IH = "1.hyps" and inv = "1.prems"
  let ?more = "i < length p \<or> j < length s"
  let ?same = "i < length p \<and> j < length s \<and>
    (p ! i = CHR ''?'' \<or> (p ! i \<noteq> CHR ''*'' \<and> p ! i \<noteq> CHR ''#'' \<and> s ! j = p ! i))"
  let ?wild = "i < length p \<and> (p ! i = CHR ''*'' \<or> p ! i = CHR ''#'')"
  let ?restart = "nj > 0 \<and> nj \<le> length s \<and>
    ((ni < length p \<and> p ! ni = CHR ''#'') \<or> (j < length s \<and> s ! j \<noteq> CHR ''/''))"
  consider (stop) "\<not> ?more" | (same) ?more ?same | (wild) ?more "\<not> ?same" ?wild
    | (restart) ?more "\<not> ?same" "\<not> ?wild" ?restart | (fail) ?more "\<not> ?same" "\<not> ?wild" "\<not> ?restart"
    by blast
  then show ?case
  proof cases
    case stop
    then show ?thesis by (subst mg_match_from.simps) auto
  next
    case same
    then have "mg_match_from s p i j ni nj = mg_match_from s p (i + 1) (j + 1) ni nj"
      by (subst mg_match_from.simps) auto
    then show ?thesis
      using IH[of nj ni "i + 1" "j + 1"] inv same(2) by auto
  next
    case wild
    then have "mg_match_from s p i j ni nj = mg_match_from s p (i + 1) j i (j + 1)"
      by (subst mg_match_from.simps) auto
    moreover have "length p - i < (if nj = 0 then Suc (length p) else length p - ni)"
      using wild(3) inv by (cases "nj = 0") auto
    ultimately show ?thesis
      using IH[of "j + 1" i "i + 1" j] wild(3) unfolding wildcard_def by fastforce
  next
    case restart
    then have ni: "ni < i" "ni < length p" "wildcard (p ! ni)" using inv by auto
    have "mg_match_from s p i j ni nj = mg_match_from s p ni nj ni nj"
      using restart by (subst mg_match_from.simps) auto
    also have "\<dots> = mg_match_from s p (ni + 1) nj ni (nj + 1)"
      using ni by (subst mg_match_from.simps) (auto simp: wildcard_def)
    finally have eq: "mg_match_from s p i j ni nj = mg_match_from s p (ni + 1) nj ni (nj + 1)" .
    have "length s - nj < Suc (length s) - nj" using restart(4) by auto
    then show ?thesis
      using IH[of "nj + 1" ni "ni + 1" nj] ni restart(4) unfolding eq by fastforce
  next
    case fail
    then show ?thesis by (subst mg_match_from.simps) auto
  qed
qed

text \<open>
  C21: the match ends for every string and every pattern, however the wildcards make it go
  back, and on a pattern without wildcards, such as the portal's /save and POST, it is equality.
\<close>

theorem mg_match_total:
  "(\<exists>b. mg_match s p = Some b) \<and> (literal p \<longrightarrow> mg_match s p = Some (s = p))"
  using mg_match_from_returns[of 0 0 0 p s 0] mg_match_eq[of p s] by (simp add: mg_match_def)

theorem mg_match_total_witness:
  "mg_match ''/save'' ''/save'' = Some True \<and> mg_match ''/savex'' ''/save'' = Some False"
  using mg_match_total[of "''/save''" "''/save''"] mg_match_total[of "''/savex''" "''/save''"]
  by (simp add: literal_def)

end
