(* ===== verification/Mongoose_Http.thy ===== *)
theory Mongoose_Http
  imports Mongoose
begin

text \<open>
  The HTTP parser of the Mongoose library (src/http.c in
  firmware/pico/lib/mongoose/mongoose.c), which reads the requests to the Pico's portal and the
  server's answer to the WebSocket handshake. The input is the list of the bytes received; a
  pointer is a position in it, and a read past the list is None.
\<close>

section \<open>Characters and lines\<close>

definition rd :: "string \<Rightarrow> nat \<Rightarrow> char option" where
  "rd s i = (if i < length s then Some (s ! i) else None)"

text \<open>The characters from position i to position j.\<close>

definition sub :: "string \<Rightarrow> nat \<Rightarrow> nat \<Rightarrow> string" where
  "sub s i j = take (j - i) (drop i s)"

definition CR :: char where "CR = CHR 0x0D"
definition LF :: char where "LF = CHR 0x0A"
definition TAB :: char where "TAB = CHR 0x09"

definition isok :: "char \<Rightarrow> bool" where
  "isok c \<longleftrightarrow> c = LF \<or> c = CR \<or> c = TAB \<or> (of_char c :: nat) \<ge> 32"

text \<open>
  mg_http_get_request_len: the position after the empty line that ends the head, 0 when there is
  none yet, -1 for a character that cannot be in a head. The loop from position i on.
\<close>

function request_len_from :: "string \<Rightarrow> nat \<Rightarrow> int" where
  "request_len_from buf i =
    (if i < length buf then
       if \<not> isok (buf ! i) then -1
       else if (i > 0 \<and> buf ! i = LF \<and> buf ! (i - 1) = LF) \<or>
          (i > 3 \<and> buf ! i = LF \<and> buf ! (i - 1) = CR \<and> buf ! (i - 2) = LF)
       then int i + 1
       else request_len_from buf (i + 1)
     else 0)"
  by pat_completeness auto
termination by (relation "measure (\<lambda>(buf, i). length buf - i)") auto

declare request_len_from.simps [simp del]

definition mg_http_get_request_len :: "string \<Rightarrow> int" where
  "mg_http_get_request_len buf = request_len_from buf 0"

text \<open>vcb: a continuation byte of UTF-8. clen: the bytes of the character at i, 0 if it is none.\<close>

definition vcb :: "string \<Rightarrow> nat \<Rightarrow> bool option" where
  "vcb s i = do { c \<leftarrow> rd s i; Some ((of_char c :: nat) AND 0xc0 = 0x80) }"

definition clen :: "string \<Rightarrow> nat \<Rightarrow> nat \<Rightarrow> nat option" where
  "clen s i e = do {
     ch \<leftarrow> rd s i;
     let c = (of_char ch :: nat);
     let n = e - i;
     if c > 32 \<and> c \<le> 126 then Some 1 else do {
     two \<leftarrow> (if c AND 0xe0 = 0xc0 \<and> n > 1 then vcb s (i + 1) else Some False);
     if two then Some 2 else do {
     three \<leftarrow> (if c AND 0xf0 = 0xe0 \<and> n > 2
       then do { a \<leftarrow> vcb s (i + 1); if a then vcb s (i + 2) else Some False } else Some False);
     if three then Some 3 else do {
     four \<leftarrow> (if c AND 0xf8 = 0xf0 \<and> n > 3
       then do { a \<leftarrow> vcb s (i + 1); if a then do { b \<leftarrow> vcb s (i + 2);
         if b then vcb s (i + 3) else Some False } else Some False } else Some False);
     Some (if four then 4 else 0) }}}
   }"

text \<open>while (s < end && s[0] != stop && (n = clen(s, end)) > 0) s += n\<close>

function skip_chars :: "char option \<Rightarrow> string \<Rightarrow> nat \<Rightarrow> nat \<Rightarrow> nat option" where
  "skip_chars stop s i e =
    (if i < e then do {
       c \<leftarrow> rd s i;
       if stop = Some c then Some i else do {
         n \<leftarrow> clen s i e;
         if n > 0 then skip_chars stop s (i + n) e else Some i
       }
     } else Some i)"
  by pat_completeness auto
termination by (relation "measure (\<lambda>(stop, s, i, e). e - i)") auto

text \<open>while (s < end && P(s[0])) s++\<close>

function skip_while :: "(char \<Rightarrow> bool) \<Rightarrow> string \<Rightarrow> nat \<Rightarrow> nat \<Rightarrow> nat option" where
  "skip_while P s i e =
    (if i < e then do {
       c \<leftarrow> rd s i;
       if P c then skip_while P s (i + 1) e else Some i
     } else Some i)"
  by pat_completeness auto
termination by (relation "measure (\<lambda>(P, s, i, e). e - i)") auto

declare skip_chars.simps [simp del] skip_while.simps [simp del]

text \<open>skiptorn: the position after the line and its text; the inner None is the null pointer.\<close>

definition skiptorn :: "string \<Rightarrow> nat \<Rightarrow> nat \<Rightarrow> (nat \<times> string) option option" where
  "skiptorn s i e = do {
     j \<leftarrow> skip_while (\<lambda>c. c \<noteq> LF \<and> c \<noteq> CR) s i e;
     let v = sub s i j;
     if j \<ge> e then Some None else do {
       c \<leftarrow> rd s j;
       stray \<leftarrow> (if c = CR then do { d \<leftarrow> rd s (j + 1); Some (d \<noteq> LF) } else Some False);
       if stray then Some None else do {
         let j = (if c = CR then j + 1 else j);
         if j \<ge> e then Some None else do {
           d \<leftarrow> rd s j;
           Some (if d \<noteq> LF then None else Some (j + 1, v))
         }
       }
     }
   }"

section \<open>Headers\<close>

definition mg_tolc :: "char \<Rightarrow> int" where
  "mg_tolc c = mg_lower c"

fun mg_strcasecmp :: "string \<Rightarrow> string \<Rightarrow> int" where
  "mg_strcasecmp (c # cs) (d # ds) =
     (if mg_tolc c < mg_tolc d then -1 else if mg_tolc c > mg_tolc d then 1 else mg_strcasecmp cs ds)"
| "mg_strcasecmp (c # cs) [] = 1"
| "mg_strcasecmp [] (d # ds) = -1"
| "mg_strcasecmp [] [] = 0"

type_synonym http_header = "string \<times> string"

definition mg_http_get_header :: "http_header list \<Rightarrow> string \<Rightarrow> string option option" where
  "mg_http_get_header h name =
    foldr (\<lambda>(k, v) rest. if length name = length k then do {
        d \<leftarrow> mg_ncasecmp k name (length name);
        if d = 0 then Some (Some v) else rest } else rest) h (Some None)"

definition blank :: "char \<Rightarrow> bool" where
  "blank c \<longleftrightarrow> c = CHR '' '' \<or> c = TAB"

definition trim_end :: "string \<Rightarrow> string" where
  "trim_end v = rev (dropWhile blank (rev v))"

text \<open>
  The counters of mg_http_parse_headers reject the second header of one of five names: k is a
  repetition when an earlier header has the same name.
\<close>

definition single_headers :: "string list" where
  "single_headers = [''Content-Length'', ''Transfer-Encoding'', ''Authorization'', ''Cookie'', ''Connection'']"

definition repeated_header :: "http_header list \<Rightarrow> string \<Rightarrow> bool" where
  "repeated_header h k \<longleftrightarrow> list_ex (\<lambda>name. mg_strcasecmp k name = 0 \<and>
     list_ex (\<lambda>(k', v). mg_strcasecmp k' name = 0) h) single_headers"

text \<open>The loop with max_hdrs rounds left and the headers h so far. The inner None is false.\<close>

fun mg_http_parse_headers :: "string \<Rightarrow> nat \<Rightarrow> nat \<Rightarrow> http_header list \<Rightarrow> nat \<Rightarrow> http_header list option option" where
  "mg_http_parse_headers s i e h 0 = Some (Some h)"
| "mg_http_parse_headers s i e h (Suc max_hdrs) =
    (if i \<ge> e then Some None else do {
       c \<leftarrow> rd s i;
       stop \<leftarrow> (if c = LF then Some True
         else if c = CR then do { d \<leftarrow> rd s (i + 1); Some (d = LF) } else Some False);
       if stop then Some (Some h) else do {
         j \<leftarrow> skip_chars (Some CHR '':'') s i e;
         let k = sub s i j;
         if k = [] then Some None
         else if j \<ge> e then Some None else do {
           n \<leftarrow> clen s j e;
           if n = 0 then Some None else do {
             c \<leftarrow> rd s j;
             if c \<noteq> CHR '':'' then Some None else do {
               i \<leftarrow> skip_while blank s (j + 1) e;
               l \<leftarrow> skiptorn s i e;
               (case l of
                  None \<Rightarrow> Some None
                | Some (i, v) \<Rightarrow>
                    if repeated_header h k then Some None
                    else mg_http_parse_headers s i e (h @ [(k, trim_end v)]) max_hdrs)
             }
           }
         }
       }
     })"

section \<open>The message\<close>

text \<open>mg_to_size_t: None is false.\<close>

fun size_digits :: "nat \<Rightarrow> nat \<Rightarrow> string \<Rightarrow> (nat \<times> nat \<times> string) option" where
  "size_digits result ndigits [] = Some (result, ndigits, [])"
| "size_digits result ndigits (c # cs) =
    (let mx = 2 ^ 32 - 1; n = of_char c :: nat in
     if n \<ge> 48 \<and> n \<le> 57 then
       if result > mx div 10 then None
       else if result * 10 > mx - (n - 48) then None
       else size_digits (result * 10 + (n - 48)) (ndigits + 1) cs
     else Some (result, ndigits, c # cs))"

definition mg_to_size_t :: "string \<Rightarrow> nat option" where
  "mg_to_size_t str =
    (let str = dropWhile blank str in
     if str \<noteq> [] \<and> hd str = CHR ''-'' then None
     else do {
       (result, ndigits, rest) \<leftarrow> size_digits 0 0 str;
       let rest = dropWhile blank rest;
       if ndigits = 0 then None else if rest \<noteq> [] then None else Some result
     })"

text \<open>The body is the bytes from head_len on; its length is infinite as size_t(-1).\<close>

record mg_http_message =
  hm_method :: string
  hm_uri :: string
  hm_query :: mg_str
  hm_proto :: string
  hm_headers :: "http_header list"
  head_len :: nat
  body_len :: nat
  message_len :: nat

definition NO_LEN :: nat where "NO_LEN = 2 ^ 32 - 1"

definition MG_MAX_HTTP_HEADERS :: nat where "MG_MAX_HTTP_HEADERS = 30"

text \<open>The test length > 5 && mg_ncasecmp(buf, "HTTP/", 5) == 0.\<close>

definition http_prefix :: "string \<Rightarrow> bool option" where
  "http_prefix v = (if length v > 5 then do { d \<leftarrow> mg_ncasecmp v ''HTTP/'' 5; Some (d = 0) } else Some False)"

definition version_bad :: "string \<Rightarrow> bool \<Rightarrow> bool" where
  "version_bad proto prefix_valid \<longleftrightarrow> length proto > 0 \<and>
     (\<not> prefix_valid \<or> length proto \<noteq> 8 \<or> \<not> is_dec (proto ! 5) \<or>
      proto ! 6 \<noteq> CHR ''.'' \<or> \<not> is_dec (proto ! 7))"

text \<open>
  The lengths of body and message, from the Content-Length header or without one; None when the
  header is no number.
\<close>

definition http_lengths :: "nat \<Rightarrow> bool \<Rightarrow> string \<Rightarrow> mg_str \<Rightarrow> (nat \<times> nat) option" where
  "http_lengths req_len is_response uri cl = do {
     (body, message) \<leftarrow> (case cl of None \<Rightarrow> Some (NO_LEN, NO_LEN)
       | Some v \<Rightarrow> do { n \<leftarrow> mg_to_size_t v; Some (n, (req_len + n) mod 2 ^ 32) });
     let (body, message) = (if body = NO_LEN \<and> \<not> is_response then (0, req_len) else (body, message));
     Some (if body = NO_LEN \<and> is_response \<and> mg_strcasecmp uri ''204'' = 0 then (0, req_len) else (body, message))
   }"

text \<open>
  mg_http_parse: the length of the head, 0 for an incomplete head or an unfinished first line, or
  -1, and with a positive result the message.
\<close>

definition mg_http_parse :: "string \<Rightarrow> (int \<times> mg_http_message option) option" where
  "mg_http_parse s =
    (let req_len = mg_http_get_request_len s; e = nat req_len in
     if req_len \<le> 0 then Some (req_len, None) else do {
       i \<leftarrow> skip_chars None s 0 e;
       let method = sub s 0 i;
       u \<leftarrow> skip_while (\<lambda>c. c = CHR '' '') s i e;
       j \<leftarrow> skip_chars None s u e;
       let uri = sub s u j;
       p \<leftarrow> skip_while (\<lambda>c. c = CHR '' '') s j e;
       is_response \<leftarrow> http_prefix method;
       l \<leftarrow> skiptorn s p e;
       (case l of None \<Rightarrow> Some (0, None)
        | Some (i, proto) \<Rightarrow> do {
            prefix_valid \<leftarrow> http_prefix proto;
            if \<not> is_response \<and> \<not> prefix_valid then Some (-1, None)
            else if \<not> is_response \<and> version_bad proto prefix_valid then Some (-1, None)
            else do {
              let path = takeWhile (\<lambda>c. c \<noteq> CHR ''?'') uri;
              let query = (if path \<noteq> uri then Some (drop (length path + 1) uri) else None);
              if method = [] \<or> path = [] then Some (-1, None) else do {
                hs \<leftarrow> mg_http_parse_headers s i e [] MG_MAX_HTTP_HEADERS;
                (case hs of None \<Rightarrow> Some (-1, None)
                 | Some h \<Rightarrow> do {
                     cl \<leftarrow> mg_http_get_header h ''Content-Length'';
                     (case http_lengths e is_response path cl of None \<Rightarrow> Some (-1, None)
                      | Some (body, message) \<Rightarrow>
                          if message < e then Some (-1, None)
                          else Some (req_len, Some \<lparr>hm_method = method, hm_uri = path, hm_query = query,
                            hm_proto = proto, hm_headers = h, head_len = e, body_len = body,
                            message_len = message\<rparr>))
                   })
              }
            }
          })
     })"

section \<open>No read outside the message\<close>

lemma rd_Some [simp]: "i < length s \<Longrightarrow> rd s i = Some (s ! i)"
  by (simp add: rd_def)

lemma line_chars [simp]: "CR \<noteq> LF" "LF \<noteq> CR"
  by (simp_all add: CR_def LF_def)

lemma request_len_from_bounds:
  "request_len_from s i = r \<Longrightarrow> 0 < r \<Longrightarrow> i < nat r \<and> nat r \<le> length s \<and> s ! (nat r - 1) = LF"
proof (induction s i arbitrary: r rule: request_len_from.induct)
  case (1 s i)
  let ?last = "(i > 0 \<and> s ! i = LF \<and> s ! (i - 1) = LF) \<or>
    (i > 3 \<and> s ! i = LF \<and> s ! (i - 1) = CR \<and> s ! (i - 2) = LF)"
  have eq: "request_len_from s i = (if i < length s then if \<not> isok (s ! i) then -1
      else if ?last then int i + 1 else request_len_from s (i + 1) else 0)"
    by (subst request_len_from.simps) simp
  have i: "i < length s" "isok (s ! i)" using "1.prems" eq by (auto split: if_splits)
  show ?case
  proof (cases ?last)
    case True
    then have "r = int i + 1" "s ! i = LF" using "1.prems"(1) eq i by auto
    then show ?thesis using i(1) by (simp add: nat_add_distrib)
  next
    case False
    then have "request_len_from s (i + 1) = r" using "1.prems"(1) eq i by auto
    then show ?thesis using "1.IH"[of r] False i "1.prems"(2) by auto
  qed
qed

lemma vcb_Some [simp]: "i < length s \<Longrightarrow> vcb s i = Some ((of_char (s ! i) :: nat) AND 0xc0 = 0x80)"
  by (simp add: vcb_def)

lemma clen_bounds:
  assumes "i < e" "e \<le> length s"
  shows "\<exists>n. clen s i e = Some n \<and> i + n \<le> e"
proof -
  define c where "c = (of_char (s ! i) :: nat)"
  have v: "i + k < e \<Longrightarrow> vcb s (i + k) = Some ((of_char (s ! (i + k)) :: nat) AND 0xc0 = 0x80)" for k
    using assms(2) by simp
  have "\<exists>two. (if c AND 0xe0 = 0xc0 \<and> e - i > 1 then vcb s (i + 1) else Some False) = Some two \<and>
      (two \<longrightarrow> i + 2 \<le> e)"
    using v[of 1] by (cases "c AND 0xe0 = 0xc0 \<and> e - i > 1") (auto simp: less_diff_conv)
  then obtain two where two: "(if c AND 0xe0 = 0xc0 \<and> e - i > 1 then vcb s (i + 1) else Some False) = Some two"
    "two \<Longrightarrow> i + 2 \<le> e" by blast
  have "\<exists>three. (if c AND 0xf0 = 0xe0 \<and> e - i > 2
      then do { a \<leftarrow> vcb s (i + 1); if a then vcb s (i + 2) else Some False } else Some False) = Some three \<and>
      (three \<longrightarrow> i + 3 \<le> e)"
    using v[of 1] v[of 2] by (cases "c AND 0xf0 = 0xe0 \<and> e - i > 2") (auto simp: less_diff_conv)
  then obtain three where three: "(if c AND 0xf0 = 0xe0 \<and> e - i > 2
      then do { a \<leftarrow> vcb s (i + 1); if a then vcb s (i + 2) else Some False } else Some False) = Some three"
    "three \<Longrightarrow> i + 3 \<le> e" by blast
  have "\<exists>four. (if c AND 0xf8 = 0xf0 \<and> e - i > 3
      then do { a \<leftarrow> vcb s (i + 1); if a then do { b \<leftarrow> vcb s (i + 2);
        if b then vcb s (i + 3) else Some False } else Some False } else Some False) = Some four \<and>
      (four \<longrightarrow> i + 4 \<le> e)"
    using v[of 1] v[of 2] v[of 3] by (cases "c AND 0xf8 = 0xf0 \<and> e - i > 3") (auto simp: less_diff_conv)
  then obtain four where four: "(if c AND 0xf8 = 0xf0 \<and> e - i > 3
      then do { a \<leftarrow> vcb s (i + 1); if a then do { b \<leftarrow> vcb s (i + 2);
        if b then vcb s (i + 3) else Some False } else Some False } else Some False) = Some four"
    "four \<Longrightarrow> i + 4 \<le> e" by blast
  have "rd s i = Some (s ! i)" using assms by simp
  then show ?thesis
    unfolding clen_def Let_def using two three four assms(1) by (simp add: c_def [symmetric])
qed

lemma skip_chars_bounds:
  "i \<le> e \<Longrightarrow> e \<le> length s \<Longrightarrow> \<exists>j. skip_chars stop s i e = Some j \<and> i \<le> j \<and> j \<le> e"
proof (induction stop s i e rule: skip_chars.induct)
  case (1 stop s i e)
  show ?case
  proof (cases "i < e \<and> stop \<noteq> Some (s ! i)")
    case True
    then obtain n where n: "clen s i e = Some n" "i + n \<le> e" using clen_bounds 1(3) by blast
    show ?thesis
      using 1(1)[of "s ! i" n] True n 1(2,3) by (subst skip_chars.simps) (force simp: less_le_trans)
  qed (use 1 in \<open>subst skip_chars.simps, auto\<close>)
qed

lemma skip_while_bounds:
  "i \<le> e \<Longrightarrow> e \<le> length s \<Longrightarrow>
    \<exists>j. skip_while P s i e = Some j \<and> i \<le> j \<and> j \<le> e \<and> (j < e \<longrightarrow> \<not> P (s ! j))"
proof (induction P s i e rule: skip_while.induct)
  case (1 P s i e)
  then show ?case
    by (cases "i < e \<and> P (s ! i)"; subst skip_while.simps) (force simp: less_le_trans)+
qed

lemma skiptorn_bounds:
  assumes "i \<le> e" "e \<le> length s" "s ! (e - 1) = LF"
  shows "\<exists>r. skiptorn s i e = Some r \<and> (\<forall>j v. r = Some (j, v) \<longrightarrow> i < j \<and> j \<le> e)"
proof -
  obtain j where j: "skip_while (\<lambda>c. c \<noteq> LF \<and> c \<noteq> CR) s i e = Some j" "i \<le> j" "j \<le> e"
    using skip_while_bounds[OF assms(1,2)] by blast
  show ?thesis
  proof (cases "j < e \<and> s ! j = CR")
    case True
    then have "j \<noteq> e - 1" using assms(3) by auto
    then have "j + 1 < e" using True by linarith
    then show ?thesis using j assms True by (simp add: skiptorn_def Let_def)
  next
    case False
    then show ?thesis using j assms by (auto simp: skiptorn_def Let_def)
  qed
qed

lemma mg_ncasecmp_Some: "length cs \<ge> n \<Longrightarrow> length ds \<ge> n \<Longrightarrow> \<exists>d. mg_ncasecmp cs ds n = Some d"
  by (induction cs ds n rule: mg_ncasecmp.induct) (auto simp: Let_def)

lemma mg_http_get_header_Some: "\<exists>v. mg_http_get_header h name = Some v"
proof (induction h)
  case (Cons x h)
  then show ?case
    using mg_ncasecmp_Some[of "length name" "fst x" name]
    by (cases x) (auto simp: mg_http_get_header_def)
qed (simp add: mg_http_get_header_def)

lemma http_prefix_Some: "\<exists>b. http_prefix v = Some b"
  using mg_ncasecmp_Some[of 5 v "''HTTP/''"] by (auto simp: http_prefix_def)

lemma mg_http_parse_headers_safe:
  assumes "e \<le> length s" "0 < e" "s ! (e - 1) = LF" "i \<le> e"
  shows "\<exists>r. mg_http_parse_headers s i e h n = Some r"
  using assms(4)
proof (induction n arbitrary: i h)
  case (Suc n)
  show ?case
  proof (cases "i < e")
    case True
    then have i: "i < length s" using assms(1) by simp
    have "s ! i = CR \<Longrightarrow> i \<noteq> e - 1" using assms(3) by auto
    then have cr: "s ! i = CR \<Longrightarrow> i + 1 < length s" using True assms(1) by simp
    obtain j where j: "skip_chars (Some CHR '':'') s i e = Some j" "i \<le> j" "j \<le> e"
      using skip_chars_bounds[OF Suc.prems assms(1)] by blast
    obtain k where k: "j < e \<Longrightarrow> clen s j e = Some k" using clen_bounds[OF _ assms(1)] by blast
    obtain b where b: "j < e \<Longrightarrow> skip_while blank s (j + 1) e = Some b" "j < e \<Longrightarrow> b \<le> e"
      using skip_while_bounds[of "j + 1" e s blank] assms(1) by (metis Suc_eq_plus1 Suc_leI)
    obtain r where r: "j < e \<Longrightarrow> skiptorn s b e = Some r" "\<And>q v. j < e \<Longrightarrow> r = Some (q, v) \<Longrightarrow> q \<le> e"
      using skiptorn_bounds[OF _ assms(1,3), of b] b(2) by (cases "j < e") blast+
    show ?thesis 
      using i cr True j k b r Suc.IH assms(1) 
      by (auto simp: Let_def split: option.splits)
  qed simp
qed simp

lemma mg_http_parse_safe: "\<exists>r hm. mg_http_parse s = Some (r, hm)"
proof -
  define r where "r = mg_http_get_request_len s"
  show ?thesis
  proof (cases "r \<le> 0")
    case False
    define e where "e = nat r"
    have e: "0 < e" "e \<le> length s" "s ! (e - 1) = LF"
      using request_len_from_bounds[of s 0 r] False by (auto simp: e_def r_def mg_http_get_request_len_def)
    obtain i where i: "skip_chars None s 0 e = Some i" "i \<le> e" using skip_chars_bounds[of 0 e s] e by blast
    obtain u where u: "skip_while (\<lambda>c. c = CHR '' '') s i e = Some u" "u \<le> e" using skip_while_bounds i e by blast
    obtain j where j: "skip_chars None s u e = Some j" "j \<le> e" using skip_chars_bounds u e by blast
    obtain p where p: "skip_while (\<lambda>c. c = CHR '' '') s j e = Some p" "p \<le> e" using skip_while_bounds j e by blast
    obtain l where l: "skiptorn s p e = Some l" "\<And>j v. l = Some (j, v) \<Longrightarrow> j \<le> e"
      using skiptorn_bounds[OF p(2) e(2,3)] by blast
    obtain b where b: "http_prefix (sub s 0 i) = Some b" using http_prefix_Some by blast
    show ?thesis
    proof (cases l)
      case None
      then show ?thesis using False i u j p l b by (simp add: mg_http_parse_def e_def r_def Let_def)
    next
      case (Some x)
      then obtain q proto where x: "l = Some (q, proto)" by (cases x) auto
      obtain b' where b': "http_prefix proto = Some b'" using http_prefix_Some by blast
      obtain hs where hs: "mg_http_parse_headers s q e [] MG_MAX_HTTP_HEADERS = Some hs"
        using mg_http_parse_headers_safe[OF e(2,1,3) l(2)[OF x]] by blast
      note run = False i u j p l b b' hs x mg_http_parse_def e_def [symmetric] r_def [symmetric] Let_def
      show ?thesis
      proof (cases hs)
        case None
        then show ?thesis by (simp add: run)
      next
        case (Some h)
        obtain cl where cl: "mg_http_get_header h ''Content-Length'' = Some cl"
          using mg_http_get_header_Some by blast
        define hl where "hl = http_lengths e b (takeWhile (\<lambda>c. c \<noteq> CHR ''?'') (sub s u j)) cl"
        have "mg_http_parse s \<noteq> None"
          using Some cl hl_def [symmetric] by (cases b; cases hl) (simp_all add: run split: prod.split)
        then show ?thesis by auto
      qed
    qed
  qed (simp add: mg_http_parse_def r_def)
qed
section \<open>Printing and parsing\<close>

definition CRLF :: string where "CRLF = [CR, LF]"

definition http_headers_text :: "http_header list \<Rightarrow> string" where
  "http_headers_text hs = concat (map (\<lambda>(k, v). k @ '': '' @ v @ CRLF) hs)"

definition http_head :: "string \<Rightarrow> string \<Rightarrow> string \<Rightarrow> http_header list \<Rightarrow> string" where
  "http_head a b c hs = a @ '' '' @ b @ '' '' @ c @ CRLF @ http_headers_text hs @ CRLF"

definition printable :: "char \<Rightarrow> bool" where
  "printable c \<longleftrightarrow> (let n = of_char c :: nat in 32 < n \<and> n \<le> 126)"

definition token :: "string \<Rightarrow> bool" where
  "token t \<longleftrightarrow> t \<noteq> [] \<and> list_all printable t"

definition line_text :: "string \<Rightarrow> bool" where
  "line_text v \<longleftrightarrow> list_all (\<lambda>c. isok c \<and> c \<noteq> CR \<and> c \<noteq> LF) v \<and>
     (v \<noteq> [] \<longrightarrow> \<not> blank (hd v) \<and> \<not> blank (last v))"

text \<open>A value as it stands on the line: the blanks after it belong to it until it is parsed.\<close>

definition raw_text :: "string \<Rightarrow> bool" where
  "raw_text v \<longleftrightarrow> list_all (\<lambda>c. isok c \<and> c \<noteq> CR \<and> c \<noteq> LF) v \<and> (v \<noteq> [] \<longrightarrow> \<not> blank (hd v))"

definition trimmed :: "http_header list \<Rightarrow> http_header list" where
  "trimmed hs = map (\<lambda>(k, v). (k, trim_end v)) hs"

definition raw_headers :: "http_header list \<Rightarrow> bool" where
  "raw_headers hs \<longleftrightarrow> length hs < MG_MAX_HTTP_HEADERS \<and>
     list_all (\<lambda>(k, v). token k \<and> CHR '':'' \<notin> set k \<and> raw_text v) hs \<and>
     list_all (\<lambda>i. \<not> repeated_header (take i hs) (fst (hs ! i))) [0..<length hs]"

definition headers_ok :: "http_header list \<Rightarrow> bool" where
  "headers_ok hs \<longleftrightarrow> length hs < MG_MAX_HTTP_HEADERS \<and>
     list_all (\<lambda>(k, v). token k \<and> CHR '':'' \<notin> set k \<and> line_text v) hs \<and>
     list_all (\<lambda>i. \<not> repeated_header (take i hs) (fst (hs ! i))) [0..<length hs]"

lemma nth_mid [simp]: "(pre @ c # post) ! length pre = c"
  by simp

lemma clen_printable: "i < length s \<Longrightarrow> printable (s ! i) \<Longrightarrow> clen s i e = Some 1"
  by (simp add: clen_def printable_def Let_def)

lemma clen_space: "i < length s \<Longrightarrow> s ! i = CHR '' '' \<Longrightarrow> clen s i e = Some 0"
  by (simp add: clen_def Let_def)

lemma skip_chars_token:
  assumes "list_all printable t" and "\<And>c. stop = Some c \<Longrightarrow> c \<notin> set t"
    and "stop = Some c \<or> c = CHR '' ''" and "length pre + length t < e"
  shows "skip_chars stop (pre @ t @ c # post) (length pre) e = Some (length pre + length t)"
  using assms
proof (induction t arbitrary: pre)
  case Nil
  then show ?case by (subst skip_chars.simps) (auto simp: clen_space)
next
  case (Cons x t)
  have "skip_chars stop ((pre @ [x]) @ t @ c # post) (length (pre @ [x])) e = Some (length (pre @ [x]) + length t)"
    using Cons.prems by (intro Cons.IH) (auto dest: Cons.prems(2))
  moreover have "stop \<noteq> Some x" using Cons.prems(2)[of x] by auto
  moreover have "clen (pre @ (x # t) @ c # post) (length pre) e = Some 1"
    using Cons.prems(1) by (intro clen_printable) auto
  ultimately show ?case
    using Cons.prems(4) by (subst skip_chars.simps) simp
qed

lemma skip_while_run:
  assumes "list_all P t" and "\<not> P c" and "length pre + length t < e"
  shows "skip_while P (pre @ t @ c # post) (length pre) e = Some (length pre + length t)"
  using assms
proof (induction t arbitrary: pre)
  case Nil
  then show ?case by (subst skip_while.simps) auto
next
  case (Cons x t)
  have "skip_while P ((pre @ [x]) @ t @ c # post) (length (pre @ [x])) e = Some (length (pre @ [x]) + length t)"
    using Cons.prems by (intro Cons.IH) auto
  then show ?case
    using Cons.prems by (subst skip_while.simps) simp
qed

lemma sub_mid [simp]: "sub (pre @ t @ post) (length pre) (length pre + length t) = t"
  by (simp add: sub_def)

lemma skiptorn_line:
  assumes "list_all (\<lambda>c. c \<noteq> LF \<and> c \<noteq> CR) v" and "length pre + length v + 2 \<le> e"
  shows "skiptorn (pre @ v @ CR # LF # post) (length pre) e = Some (Some (length pre + length v + 2, v))"
proof -
  have "skip_while (\<lambda>c. c \<noteq> LF \<and> c \<noteq> CR) (pre @ v @ CR # LF # post) (length pre) e = Some (length pre + length v)"
    using assms by (intro skip_while_run) auto
  moreover have "(pre @ v @ CR # LF # post) ! (length pre + length v) = CR"
    "(pre @ v @ CR # LF # post) ! (length pre + length v + 1) = LF"
    by (simp_all add: nth_append)
  ultimately show ?thesis using assms(2) by (simp add: skiptorn_def Let_def)
qed

lemma request_len_skip:
  assumes "list_all (\<lambda>c. isok c \<and> c \<noteq> LF) t"
  shows "request_len_from (pre @ t @ post) (length pre) = request_len_from (pre @ t @ post) (length pre + length t)"
  using assms
proof (induction t arbitrary: pre)
  case (Cons x t)
  have "request_len_from ((pre @ [x]) @ t @ post) (length (pre @ [x])) =
    request_len_from ((pre @ [x]) @ t @ post) (length (pre @ [x]) + length t)"
    using Cons.prems by (intro Cons.IH) auto
  then show ?case using Cons.prems by (subst request_len_from.simps) simp
qed simp

lemma line_ok [simp]: "isok CR" "isok LF"
  by (simp_all add: isok_def)

lemma request_len_line:
  assumes "list_all (\<lambda>c. isok c \<and> c \<noteq> LF) t" "t \<noteq> []"
  shows "request_len_from (pre @ t @ CR # LF # post) (length pre) =
    request_len_from (pre @ t @ CR # LF # post) (length (pre @ t @ CRLF))"
proof -
  have 1: "request_len_from (pre @ (t @ [CR]) @ LF # post) (length pre) =
      request_len_from (pre @ (t @ [CR]) @ LF # post) (length pre + length (t @ [CR]))"
    using assms(1) by (intro request_len_skip) auto
  have "last t \<noteq> LF" using assms by (auto simp: list_all_iff)
  then have "t ! (length t - 1) \<noteq> LF" using assms(2) by (simp add: last_conv_nth)
  moreover have "length pre + length t - 1 = length pre + (length t - 1)" using assms(2) by (cases t) auto
  ultimately have "(pre @ t @ CR # LF # post) ! (length pre + length t - 1) \<noteq> LF"
    using assms(2) by (simp add: nth_append)
  moreover have "(pre @ t @ CR # LF # post) ! (length pre + length t) = CR"
    "(pre @ t @ CR # LF # post) ! (length pre + length t + 1) = LF" by (simp_all add: nth_append)
  ultimately have "request_len_from (pre @ t @ CR # LF # post) (length pre + length t + 1) =
      request_len_from (pre @ t @ CR # LF # post) (length pre + length t + 2)"
    by (subst request_len_from.simps) (simp add: numeral_2_eq_2)
  with 1 show ?thesis by (simp add: CRLF_def)
qed

lemma request_len_end:
  assumes "3 \<le> length pre" "last pre = LF"
  shows "request_len_from (pre @ CR # LF # post) (length pre) = int (length pre + 2)"
proof -
  have l: "pre ! (length pre - 1) = LF" using assms by (metis last_conv_nth list.size(3) not_numeral_le_zero)
  have 1: "request_len_from (pre @ CR # LF # post) (length pre) = request_len_from (pre @ CR # LF # post) (length pre + 1)"
    by (subst request_len_from.simps) simp
  have "(pre @ CR # LF # post) ! (length pre + 1) = LF" "(pre @ CR # LF # post) ! (length pre - 1) = LF"
    using l assms by (auto simp: nth_append)
  then have "request_len_from (pre @ CR # LF # post) (length pre + 1) = int (length pre + 2)"
    using assms by (subst request_len_from.simps) simp
  with 1 show ?thesis by simp
qed

lemma token_no_control:
  "token t \<Longrightarrow> list_all (\<lambda>c. isok c \<and> c \<noteq> LF \<and> c \<noteq> CR \<and> c \<noteq> CHR '' '') t"
  by (auto simp: token_def list_all_iff printable_def isok_def LF_def CR_def Let_def)

lemma trim_end_text: "line_text v \<Longrightarrow> trim_end v = v"
  by (cases v rule: rev_cases) (auto simp: line_text_def trim_end_def)

lemma line_text_raw: "line_text v \<Longrightarrow> raw_text v"
  by (simp add: line_text_def raw_text_def)

lemma headers_ok_raw: "headers_ok hs \<Longrightarrow> raw_headers hs"
  by (auto simp: headers_ok_def raw_headers_def list_all_iff line_text_raw)

lemma trimmed_ok: "headers_ok hs \<Longrightarrow> trimmed hs = hs"
  by (auto simp: headers_ok_def trimmed_def list_all_iff trim_end_text intro!: map_idI)

lemma repeated_names: "map fst h = map fst h' \<Longrightarrow> repeated_header h k = repeated_header h' k"
proof -
  have eq: "list_ex (\<lambda>(k', v). mg_strcasecmp k' name = 0) h \<longleftrightarrow> (\<exists>k' \<in> set (map fst h). mg_strcasecmp k' name = 0)"
    for name and h :: "http_header list" by (force simp: list_ex_iff)
  then show "map fst h = map fst h' \<Longrightarrow> repeated_header h k = repeated_header h' k"
    unfolding repeated_header_def eq by (simp only:)
qed

lemma trimmed_names [simp]: "map fst (trimmed hs) = map fst hs"
  by (induction hs) (auto simp: trimmed_def)

lemma blank_control [simp]: "\<not> blank CR" "\<not> blank LF" "blank CHR '' ''"
  by (simp_all add: blank_def CR_def LF_def TAB_def)

text \<open>One header line.\<close>

lemma parse_header_line:
  assumes "token k" "CHR '':'' \<notin> set k" "raw_text v" "\<not> repeated_header h k"
    and "length pre + length k + 2 + length v + 2 \<le> e"
  shows "mg_http_parse_headers (pre @ k @ '': '' @ v @ CRLF @ post) (length pre) e h (Suc n) =
    mg_http_parse_headers (pre @ k @ '': '' @ v @ CRLF @ post) (length (pre @ k @ '': '' @ v @ CRLF)) e (h @ [(k, trim_end v)]) n"
proof -
  let ?s = "pre @ k @ '': '' @ v @ CRLF @ post"
  obtain x k' where k: "k = x # k'" using assms(1) by (cases k) (auto simp: token_def)
  have x: "?s ! length pre = x" "x \<noteq> LF" "x \<noteq> CR"
    using token_no_control[OF assms(1)] by (auto simp: k)
  have "skip_chars (Some CHR '':'') (pre @ k @ CHR '':'' # '' '' @ v @ CRLF @ post) (length pre) e = Some (length pre + length k)"
    using assms by (intro skip_chars_token) (auto simp: token_def)
  then have j: "skip_chars (Some CHR '':'') ?s (length pre) e = Some (length pre + length k)" by simp
  have colon: "?s ! (length pre + length k) = CHR '':''" by (simp add: nth_append)
  then have cl: "clen ?s (length pre + length k) e = Some 1"
    by (intro clen_printable) (simp_all add: printable_def)
  have b: "skip_while blank ?s (length pre + length k + 1) e = Some (length pre + length k + 2)"
  proof -
    obtain c r where "v @ CRLF @ post = c # r" "\<not> blank c"
      using assms(3) by (cases v) (auto simp: CRLF_def raw_text_def)
    then show ?thesis
      using skip_while_run[of blank "'' ''" c "pre @ k @ '':''" e r] assms(5) by simp
  qed
  have l: "skiptorn ?s (length pre + length k + 2) e = Some (Some (length (pre @ k @ '': '' @ v @ CRLF), v))"
    using skiptorn_line[of v "pre @ k @ '': ''" e post] assms(3,5)
    by (simp add: CRLF_def raw_text_def list_all_iff)
  have "sub ?s (length pre) (length pre + length k) = k" by (rule sub_mid)
  moreover have "k \<noteq> []" by (simp add: k)
  ultimately show ?thesis
    using x j colon cl b l assms(4,5) by (simp add: Let_def)
qed

lemma parse_header_lines:
  assumes "list_all (\<lambda>(k, v). token k \<and> CHR '':'' \<notin> set k \<and> raw_text v) hs"
    and "\<And>i. i < length hs \<Longrightarrow> \<not> repeated_header (h @ take i hs) (fst (hs ! i))"
    and "length hs < n" and "length (pre @ http_headers_text hs @ CRLF) \<le> e"
  shows "mg_http_parse_headers (pre @ http_headers_text hs @ CRLF @ post) (length pre) e h n = Some (Some (h @ trimmed hs))"
  using assms
proof (induction hs arbitrary: pre h n)
  case Nil
  then obtain m where "n = Suc m" by (cases n) auto
  then show ?case using Nil by (simp add: http_headers_text_def CRLF_def nth_append trimmed_def)
next
  case (Cons x hs)
  obtain k v where x: "x = (k, v)" by (cases x)
  obtain m where n: "n = Suc m" "length hs < m" using Cons.prems(3) by (cases n) auto
  have rep: "\<not> repeated_header ((h @ [(k, trim_end v)]) @ take i hs) (fst (hs ! i))" if "i < length hs" for i
    using Cons.prems(2)[of "Suc i"] that repeated_names[of "h @ (k, v) # take i hs" "(h @ [(k, trim_end v)]) @ take i hs"]
    by (simp add: x)
  have IH: "mg_http_parse_headers ((pre @ k @ '': '' @ v @ CRLF) @ http_headers_text hs @ CRLF @ post)
      (length (pre @ k @ '': '' @ v @ CRLF)) e (h @ [(k, trim_end v)]) m = Some (Some ((h @ [(k, trim_end v)]) @ trimmed hs))"
    using Cons.prems(1,4) n(2) rep by (intro Cons.IH) (auto simp: http_headers_text_def x)
  have "mg_http_parse_headers (pre @ k @ '': '' @ v @ CRLF @ http_headers_text hs @ CRLF @ post) (length pre) e h (Suc m) =
      mg_http_parse_headers (pre @ k @ '': '' @ v @ CRLF @ http_headers_text hs @ CRLF @ post)
        (length (pre @ k @ '': '' @ v @ CRLF)) e (h @ [(k, trim_end v)]) m"
    using Cons.prems(1,4) Cons.prems(2)[of 0]
    by (intro parse_header_line) (auto simp: http_headers_text_def x CRLF_def)
  then show ?case using IH by (simp add: http_headers_text_def x n(1) trimmed_def)
qed

lemma plain_text:
  "token t \<Longrightarrow> list_all (\<lambda>c. isok c \<and> c \<noteq> LF) t"
  "raw_text t \<Longrightarrow> list_all (\<lambda>c. isok c \<and> c \<noteq> LF) t"
  "isok CHR '':''" "isok CHR '' ''" "CHR '':'' \<noteq> LF" "CHR '' '' \<noteq> LF"
  using token_no_control[of t]
  by (auto simp: raw_text_def list_all_iff) (simp_all add: isok_def LF_def)

lemma request_len_headers:
  assumes "list_all (\<lambda>(k, v). token k \<and> raw_text v) hs" "3 \<le> length pre" "last pre = LF"
  shows "request_len_from (pre @ http_headers_text hs @ CRLF @ post) (length pre) =
    int (length (pre @ http_headers_text hs @ CRLF))"
  using assms
proof (induction hs arbitrary: pre)
  case Nil
  then show ?case using request_len_end[of pre post] by (simp add: http_headers_text_def CRLF_def)
next
  case (Cons x hs)
  obtain k v where x: "x = (k, v)" by (cases x)
  let ?l = "k @ '': '' @ v"
  have l: "list_all (\<lambda>c. isok c \<and> c \<noteq> LF) ?l" "?l \<noteq> []"
    using Cons.prems(1) plain_text by (simp_all add: x)
  have "request_len_from ((pre @ ?l @ CRLF) @ http_headers_text hs @ CRLF @ post) (length (pre @ ?l @ CRLF)) =
    int (length ((pre @ ?l @ CRLF) @ http_headers_text hs @ CRLF))"
    using Cons.prems by (intro Cons.IH) (auto simp: x CRLF_def)
  then show ?case
    using request_len_line[OF l, of pre "http_headers_text hs @ CRLF @ post"]
    by (simp add: http_headers_text_def x CRLF_def)
qed

lemma request_len_head:
  assumes "token a" "token b" "raw_text c" "list_all (\<lambda>(k, v). token k \<and> raw_text v) hs"
  shows "mg_http_get_request_len (http_head a b c hs @ body) = int (length (http_head a b c hs))"
proof -
  let ?l = "a @ '' '' @ b @ '' '' @ c"
  have l: "list_all (\<lambda>c. isok c \<and> c \<noteq> LF) ?l" "?l \<noteq> []"
    using assms(1-3) plain_text by simp_all
  have "3 \<le> length (?l @ CRLF)" "last (?l @ CRLF) = LF" by (simp_all add: CRLF_def)
  from request_len_headers[OF assms(4) this, of body] request_len_line[OF l, of "[]" "http_headers_text hs @ CRLF @ body"]
  show ?thesis by (simp add: mg_http_get_request_len_def http_head_def CRLF_def)
qed

text \<open>Every head that follows the syntax is parsed into its parts.\<close>

lemma mg_http_parse_head:
  assumes "token a" "token b" "CHR ''?'' \<notin> set b" "raw_text c" "raw_headers hs"
    and "http_prefix a = Some resp" and "\<not> resp \<longrightarrow> http_prefix c = Some True \<and> \<not> version_bad c True"
    and "mg_http_get_header (trimmed hs) ''Content-Length'' = Some cl"
    and "http_lengths (length (http_head a b c hs)) resp b cl = Some (bl, ml)" "length (http_head a b c hs) \<le> ml"
  shows "mg_http_parse (http_head a b c hs @ body) = Some (int (length (http_head a b c hs)),
    Some \<lparr>hm_method = a, hm_uri = b, hm_query = None, hm_proto = c, hm_headers = trimmed hs,
      head_len = length (http_head a b c hs), body_len = bl, message_len = ml\<rparr>)"
proof -
  define t where "t = http_headers_text hs @ CRLF @ body"
  define s where "s = a @ '' '' @ b @ '' '' @ c @ CRLF @ t"
  define e where "e = length (http_head a b c hs)"
  define u where "u = length a + 1"
  define p where "p = u + length b + 1"
  define q where "q = length (a @ '' '' @ b @ '' '' @ c @ CRLF)"
  have s: "http_head a b c hs @ body = s" by (simp add: http_head_def s_def t_def)
  have e: "u = length (a @ '' '')" "p = length (a @ '' '' @ b @ '' '')" "p + length c + 2 \<le> e"
    by (simp_all add: http_head_def CRLF_def u_def p_def e_def)
  have hs: "list_all (\<lambda>(k, v). token k \<and> CHR '':'' \<notin> set k \<and> raw_text v) hs"
    "list_all (\<lambda>(k, v). token k \<and> raw_text v) hs" "length hs < MG_MAX_HTTP_HEADERS"
    "\<And>i. i < length hs \<Longrightarrow> \<not> repeated_header ([] @ take i hs) (fst (hs ! i))"
    using assms(5) by (auto simp: raw_headers_def list_all_iff)
  obtain b0 b' where b: "b = b0 # b'" "b0 \<noteq> CHR '' ''"
    using assms(2) token_no_control[OF assms(2)] by (cases b) (auto simp: token_def)
  obtain d r where d: "c @ CRLF @ t = d # r" "d \<noteq> CHR '' ''"
    using assms(4) by (cases c) (auto simp: CRLF_def CR_def raw_text_def blank_def)
  have len: "mg_http_get_request_len s = int e"
    using request_len_head[OF assms(1,2,4) hs(2), of body] by (simp add: s e_def)
  have 1: "skip_chars None s 0 e = Some (length a)"
    using skip_chars_token[of a None "CHR '' ''" "[]" e "b @ '' '' @ c @ CRLF @ t"] assms(1) e(3)
    by (simp add: token_def s_def u_def p_def)
  have 2: "skip_while (\<lambda>c. c = CHR '' '') s (length a) e = Some u"
    using skip_while_run[of "\<lambda>c. c = CHR '' ''" "'' ''" b0 a e "b' @ '' '' @ c @ CRLF @ t"] e(3)
    by (simp add: b s_def u_def p_def)
  have 3: "skip_chars None s u e = Some (u + length b)"
    using skip_chars_token[of b None "CHR '' ''" "a @ '' ''" e "c @ CRLF @ t"] assms(2) e(3)
    by (simp add: token_def s_def u_def p_def)
  have 4: "skip_while (\<lambda>c. c = CHR '' '') s (u + length b) e = Some p"
    using skip_while_run[of "\<lambda>c. c = CHR '' ''" "'' ''" d "a @ '' '' @ b" e r] e(3) d
    by (simp add: s_def u_def p_def)
  have 5: "skiptorn s p e = Some (Some (q, c))"
    using skiptorn_line[of c "a @ '' '' @ b @ '' ''" e t] assms(4) e(3)
    by (simp add: CRLF_def raw_text_def list_all_iff s_def p_def u_def q_def)
  have 6: "mg_http_parse_headers s q e [] MG_MAX_HTTP_HEADERS = Some (Some (trimmed hs))"
    using parse_header_lines[OF hs(1,4,3), of "a @ '' '' @ b @ '' '' @ c @ CRLF" e body]
    by (simp add: http_head_def s_def t_def q_def e_def)
  have 7: "sub s 0 (length a) = a" "sub s u (u + length b) = b"
    using sub_mid[of "[]" a "'' '' @ b @ '' '' @ c @ CRLF @ t"] sub_mid[of "a @ '' ''" b "'' '' @ c @ CRLF @ t"]
    by (simp_all add: s_def u_def)
  have k: "takeWhile (\<lambda>c. c \<noteq> CHR ''?'') b = b" using assms(3) by (auto simp: takeWhile_eq_all_conv)
  have ne: "a \<noteq> []" "b \<noteq> []" "0 < e" using assms(1,2) by (auto simp: token_def http_head_def e_def)
  obtain v where v: "http_prefix c = Some v" using http_prefix_Some by blast
  show ?thesis
    using ne assms(6-10) v unfolding s e_def [symmetric]
    by (cases resp) (simp_all add: mg_http_parse_def Let_def len 1 2 3 4 5 6 7 k)
qed
section \<open>Requests\<close>

lemma size_digits_append:
  "size_digits r k xs = Some (r', k', []) \<Longrightarrow> size_digits r k (xs @ ys) = size_digits r' k' ys"
  by (induction r k xs rule: size_digits.induct) (auto simp: Let_def split: if_splits)

lemma of_digit_char: "d < 10 \<Longrightarrow> of_char (digit_char d) = 48 + d"
  by (simp add: digit_char_def)

lemma size_digits_dec:
  "n < 4294967296 \<Longrightarrow> size_digits 0 0 (dec_digits n) = Some (n, length (dec_digits n), [])"
proof (induction n rule: dec_digits.induct)
  case (1 n)
  show ?case
  proof (cases "n < 10")
    case True
    then show ?thesis by (subst (1 2) dec_digits.simps) (simp add: of_digit_char Let_def)
  next
    case False
    let ?q = "n div 10" and ?d = "n mod 10"
    have q: "size_digits 0 0 (dec_digits ?q) = Some (?q, length (dec_digits ?q), [])"
      using 1 False by simp
    have "?q \<le> 429496729" using 1(2) by simp
    moreover have "?q * 10 + ?d = n" by simp
    moreover from this have "?q * 10 \<le> 4294967295 - ?d" using 1(2) by linarith
    ultimately have "size_digits ?q (length (dec_digits ?q)) [digit_char ?d] = Some (n, length (dec_digits ?q) + 1, [])"
      by (simp add: of_digit_char Let_def)
    then have "size_digits 0 0 (dec_digits ?q @ [digit_char ?d]) = Some (n, length (dec_digits ?q) + 1, [])"
      using size_digits_append[OF q] by simp
    then show ?thesis using False by (subst (1 2) dec_digits.simps) simp
  qed
qed

lemma mg_to_size_t_dec:
  assumes "n < 4294967296"
  shows "mg_to_size_t (dec_digits n) = Some n"
proof -
  obtain d ds where d: "dec_digits n = d # ds" "is_dec d"
    using dec_digits_nonempty[of n] is_dec_digits[of n] by (cases "dec_digits n") auto
  then have "\<not> blank d" "d \<noteq> CHR ''-''" by (auto simp: blank_def TAB_def is_dec_def)
  then show ?thesis
    using size_digits_dec[OF assms] d(1) by (simp add: mg_to_size_t_def Let_def)
qed


definition save_headers :: "http_header list" where
  "save_headers = [(''Host'', ''192.168.4.1''), (''Content-Length'', ''19'')]"

section \<open>Headers and numbers\<close>

lemma mg_lower_nul: "mg_lower c = mg_lower d \<Longrightarrow> d \<noteq> NUL \<Longrightarrow> c \<noteq> NUL"
proof
  assume "mg_lower c = mg_lower d" "d \<noteq> NUL" "c = NUL"
  then have "(of_char d :: int) = 0" by (auto simp: mg_lower_def Let_def split: if_splits)
  then have "of_char d = (of_char NUL :: int)" by simp
  with \<open>d \<noteq> NUL\<close> show False by (simp only: of_char_eq_iff)
qed

lemma ncasecmp_strcasecmp:
  "length cs = length ds \<Longrightarrow> NUL \<notin> set ds \<Longrightarrow> mg_ncasecmp cs ds (length ds) = Some 0 \<Longrightarrow> mg_strcasecmp cs ds = 0"
proof (induction cs ds rule: list_induct2)
  case (Cons c cs d ds)
  have eq: "mg_lower c = mg_lower d"
    using Cons.prems(2) by (auto simp: Let_def split: if_splits)
  then have "c \<noteq> NUL" using mg_lower_nul Cons.prems(1) by auto
  then show ?case
    using Cons eq by (cases "ds = []") (auto simp: Let_def mg_tolc_def)
qed simp

lemma get_header_append:
  "mg_http_get_header (h @ h') name =
    do { v \<leftarrow> mg_http_get_header h name; if v = None then mg_http_get_header h' name else Some v }"
proof (induction h)
  case Nil
  then show ?case by (simp add: mg_http_get_header_def)
next
  case (Cons x h)
  then show ?case
    using mg_ncasecmp_Some[of "length name" "fst x" name]
    by (cases x) (auto simp: mg_http_get_header_def)
qed

lemma not_repeated_absent:
  assumes "name \<in> set single_headers" "NUL \<notin> set name" "\<not> repeated_header h name" "mg_strcasecmp name name = 0"
  shows "mg_http_get_header h name = Some None"
proof -
  have no: "mg_strcasecmp k name \<noteq> 0" if "(k, v) \<in> set h" for k v
    using assms that by (auto simp: repeated_header_def list_ex_iff)
  then show ?thesis
  proof (induction h)
    case Nil
    then show ?case by (simp add: mg_http_get_header_def)
  next
    case (Cons x h)
    obtain k v where x: "x = (k, v)" by (cases x)
    have "mg_http_get_header h name = Some None" by (rule Cons.IH) (use Cons.prems in auto)
    moreover have "mg_strcasecmp k name \<noteq> 0" using Cons.prems[of k v] x by simp
    ultimately show ?case
      using ncasecmp_strcasecmp[of k name] assms(2) mg_ncasecmp_Some[of "length name" k name]
      by (auto simp: mg_http_get_header_def x)
  qed
qed

lemma dec_digits_token: "token (dec_digits n)" "CHR ''?'' \<notin> set (dec_digits n)"
  using is_dec_digits[of n] dec_digits_nonempty[of n]
  by (auto simp: token_def list_all_iff is_dec_def printable_def Let_def)

lemma mg_ncasecmp_short: "mg_ncasecmp [] t (Suc n) = None" "mg_ncasecmp s [] (Suc n) = None"
  by (cases s) simp_all

lemma ncasecmp_lower:
  "map mg_lower ds = map mg_lower es \<Longrightarrow> mg_ncasecmp cs ds n = mg_ncasecmp cs es n"
proof (induction cs ds n arbitrary: es rule: mg_ncasecmp.induct)
  case (2 c cs d ds n)
  then obtain e es' where e: "es = e # es'" "mg_lower d = mg_lower e" "map mg_lower ds = map mg_lower es'" by (cases es) auto
  show ?case using 2(1)[OF refl, of es'] e by (simp add: Let_def)
qed (auto simp: mg_ncasecmp_short)

lemma content_length_case: "mg_http_get_header h ''Content-length'' = mg_http_get_header h ''Content-Length''"
proof -
  have "mg_ncasecmp k ''Content-length'' n = mg_ncasecmp k ''Content-Length'' n" for k n
    by (rule ncasecmp_lower) (simp add: mg_lower_def Let_def)
  moreover have "length ''Content-length'' = length ''Content-Length''" by simp
  ultimately show ?thesis unfolding mg_http_get_header_def by (simp only:)
qed

text \<open>A part of a head is no head yet.\<close>

lemma request_len_part:
  "request_len_from s i = r \<Longrightarrow> 0 < r \<Longrightarrow> k < nat r \<Longrightarrow> i \<le> k \<Longrightarrow> request_len_from (take k s) i = 0"
proof (induction s i arbitrary: r rule: request_len_from.induct)
  case (1 s i)
  let ?last = "\<lambda>s. (i > 0 \<and> s ! i = LF \<and> s ! (i - 1) = LF) \<or>
    (i > 3 \<and> s ! i = LF \<and> s ! (i - 1) = CR \<and> s ! (i - 2) = LF)"
  have eq: "request_len_from s i = (if i < length s then if \<not> isok (s ! i) then -1
      else if ?last s then int i + 1 else request_len_from s (i + 1) else 0)" for s
    by (subst request_len_from.simps) simp
  have i: "i < length s" "isok (s ! i)" using "1.prems" eq[of s] by (auto split: if_splits)
  show ?case
  proof (cases "i < k")
    case False
    then show ?thesis using "1.prems"(4) by (subst request_len_from.simps) simp
  next
    case True
    have "r = int i + 1" if "?last s"
      using "1.prems"(1) eq[of s] i that by (simp only: if_True not_True_eq_False if_False)
    then have last: "\<not> ?last s" using "1.prems"(3) True by linarith
    then have r: "request_len_from s (i + 1) = r" using "1.prems"(1) eq[of s] i by (simp only: if_True if_False not_True_eq_False)
    have "request_len_from (take k s) (i + 1) = 0"
      using "1.IH"[OF i(1) _ last r "1.prems"(2,3)] i True by simp
    moreover have "?last (take k s) = ?last s" "(take k s) ! i = s ! i" using True by auto
    ultimately show ?thesis using eq[of "take k s"] i last True by simp
  qed
qed

lemma http_prefix_long: "http_prefix v = Some True \<Longrightarrow> 5 < length v"
  by (auto simp: http_prefix_def split: if_splits)

lemma length_sub: "length (sub s i j) \<le> length s"
  by (simp add: sub_def)

lemma skiptorn_text: "skiptorn s i e = Some (Some (j, v)) \<Longrightarrow> length v \<le> length s"
  using length_sub by (auto simp: skiptorn_def Let_def bind_eq_Some_conv split: if_splits)

text \<open>What a parsed message says of its bytes.\<close>

lemma mg_http_parse_msg:
  assumes "mg_http_parse s = Some (n, Some hm)"
  shows "n = mg_http_get_request_len s" "0 < n" "head_len hm = nat n" "nat n \<le> length s" "5 < length s"
    "length (hm_proto hm) \<le> 8 \<or> 5 < length (hm_method hm)"
proof -
  define r where "r = mg_http_get_request_len s"
  define e where "e = nat r"
  have r: "\<not> r \<le> 0" using assms by (auto simp: mg_http_parse_def r_def Let_def split: if_splits)
  note a = assms[unfolded mg_http_parse_def Let_def, folded r_def, folded e_def]
  obtain i u j p where ijk: "skip_chars None s 0 e = Some i" "skip_while (\<lambda>c. c = CHR '' '') s i e = Some u"
    "skip_chars None s u e = Some j" "skip_while (\<lambda>c. c = CHR '' '') s j e = Some p"
    using a r by (auto simp: bind_eq_Some_conv)
  obtain b l where bl: "http_prefix (sub s 0 i) = Some b" "skiptorn s p e = Some l"
    using a r ijk by (auto simp: bind_eq_Some_conv)
  obtain q proto where l: "l = Some (q, proto)" using a r ijk bl by (cases l) auto
  obtain b' where b': "http_prefix proto = Some b'" using http_prefix_Some by blast
  have v: "b \<or> b' \<and> \<not> version_bad proto b'" using a r ijk bl l b' by (auto split: if_splits)
  obtain hs where hs: "mg_http_parse_headers s q e [] MG_MAX_HTTP_HEADERS = Some (Some hs)"
    using a r ijk bl l b' by (auto simp: bind_eq_Some_conv split: if_splits option.splits)
  have ne: "\<not> (sub s 0 i = [] \<or> takeWhile (\<lambda>c. c \<noteq> CHR ''?'') (sub s u j) = [])"
    using a r ijk bl l b' by (auto split: if_splits)
  obtain cl where cl: "mg_http_get_header hs ''Content-Length'' = Some cl" using mg_http_get_header_Some by blast
  obtain body message where bm: "http_lengths e b (takeWhile (\<lambda>c. c \<noteq> CHR ''?'') (sub s u j)) cl = Some (body, message)"
    using a r ijk bl l b' hs ne v cl
    by (cases "http_lengths e b (takeWhile (\<lambda>c. c \<noteq> CHR ''?'') (sub s u j)) cl") (auto split: if_splits)
  have hm: "n = r" "head_len hm = e" "hm_method hm = sub s 0 i" "hm_proto hm = proto"
    using a r ijk bl l b' hs ne v cl bm by (auto split: if_splits)
  show n: "n = mg_http_get_request_len s" "0 < n" "head_len hm = nat n" using hm r by (simp_all add: r_def e_def)
  then show "nat n \<le> length s"
    using request_len_from_bounds[of s 0 n] by (simp add: mg_http_get_request_len_def)
  have "length (hm_method hm) \<le> length s" "length (hm_proto hm) \<le> length s"
    using hm length_sub skiptorn_text bl(2) l by auto
  then show "5 < length s" "length (hm_proto hm) \<le> 8 \<or> 5 < length (hm_method hm)"
    using v http_prefix_long[of "hm_method hm"] http_prefix_long[of "hm_proto hm"] hm bl b' by (auto simp: version_bad_def)
qed

end
