(* ===== verification/Mongoose_Conn.thy ===== *)
theory Mongoose_Conn
  imports Mongoose_Ws Mongoose_Http
begin

text \<open>
  A WebSocket connection of the Mongoose library (src/ws.c, and mg_send and the receiving of
  data in the TCP stack, in firmware/pico/lib/mongoose/mongoose.c): the buffers and flags of
  struct mg_connection the code uses, the sending of frames, the client's side of the
  handshake, and mg_ws_cb, which turns received bytes into events. The events are the calls of
  mg_call to the user's handler, in order; the handlers of the firmware do not change the
  connection.
\<close>

section \<open>State\<close>

datatype mg_event =
    EV_ERROR string
  | EV_WS_OPEN
  | EV_WS_MSG u8 "u8 list"
  | EV_WS_CTL u8 "u8 list"

record mg_connection =
  c_recv :: mg_iobuf
  c_send :: mg_iobuf
  pfn_data :: nat
  pfn_null :: bool
  is_client :: bool
  is_accepted :: bool
  is_websocket :: bool
  is_draining :: bool
  is_closing :: bool
  is_resp :: bool
  rnd_pos :: nat
  c_events :: "mg_event list"

text \<open>
  The surroundings: whether the network interface is up, for which sizes memory is left, and
  the numbers get_rand_32 of the SDK returns.
\<close>

record mg_net =
  net_up :: bool
  avail :: "nat \<Rightarrow> bool"
  rand_32 :: "nat \<Rightarrow> u32"

definition mg_call :: "mg_event \<Rightarrow> mg_connection \<Rightarrow> mg_connection" where
  "mg_call ev c = c\<lparr>c_events := c_events c @ [ev]\<rparr>"

definition mg_error :: "string \<Rightarrow> mg_connection \<Rightarrow> mg_connection" where
  "mg_error msg c = mg_call (EV_ERROR msg) (c\<lparr>is_closing := True\<rparr>)"

definition mg_random :: "mg_net \<Rightarrow> nat \<Rightarrow> mg_connection \<Rightarrow> u8 list \<times> mg_connection" where
  "mg_random net n c =
     (map (\<lambda>i. ucast (rand_32 net (rnd_pos c + i) AND 255)) [0..<n], c\<lparr>rnd_pos := rnd_pos c + n\<rparr>)"

section \<open>Sending\<close>

text \<open>mg_send of a TCP connection.\<close>

definition mg_send :: "mg_net \<Rightarrow> u8 list \<Rightarrow> mg_connection \<Rightarrow> (bool \<times> mg_connection) option" where
  "mg_send net bs c =
    (if \<not> net_up net then Some (False, mg_error ''net down'' c)
     else if bs = [] then Some (True, c)
     else do {
       (n, io) \<leftarrow> mg_iobuf_add (avail net) (io_len (c_send c)) (Some bs) (length bs) (c_send c);
       Some (n > 0, c\<lparr>c_send := io\<rparr>)
     })"

definition mg_ws_mask :: "nat \<Rightarrow> mg_connection \<Rightarrow> mg_connection option" where
  "mg_ws_mask len c =
    (let io = c_send c in
     if is_client c \<and> io_buf io \<noteq> [] \<and> len > 0 then
       if io_len io < len + 4 then None
       else do {
         mem \<leftarrow> xor_mask (io_len io - len) (io_len io - len - 4) len (io_buf io);
         Some (c\<lparr>c_send := io\<lparr>io_buf := mem\<rparr>\<rparr>)
       }
     else Some c)"

definition mg_ws_send :: "mg_net \<Rightarrow> u8 list \<Rightarrow> u8 \<Rightarrow> mg_connection \<Rightarrow> (nat \<times> mg_connection) option" where
  "mg_ws_send net bs op c = do {
     let (rnd, c) = (if is_client c then mg_random net 4 c else ([], c));
     let header = mkhdr (length bs) op (is_client c) rnd;
     (ok, c) \<leftarrow> mg_send net header c;
     if \<not> ok then Some (0, c) else do {
       (ok, c) \<leftarrow> mg_send net bs c;
       if \<not> ok then Some (length header, c) else do {
         c \<leftarrow> mg_ws_mask (length bs) c;
         Some (length header + length bs, c)
       }
     }
   }"

section \<open>Receiving\<close>

text \<open>The answer to the handshake. The result True waits for the rest of it.\<close>

definition recv_del :: "nat \<Rightarrow> nat \<Rightarrow> mg_connection \<Rightarrow> mg_connection option" where
  "recv_del ofs n c = do { (m, io) \<leftarrow> mg_iobuf_del ofs n (c_recv c); Some (c\<lparr>c_recv := io\<rparr>) }"

definition mg_ws_client_handshake :: "mg_connection \<Rightarrow> (bool \<times> mg_connection) option" where
  "mg_ws_client_handshake c =
    (let s = byte_chars (io_data (c_recv c)); n = mg_http_get_request_len s in
     if n < 0 then Some (False, mg_error ''not http'' c)
     else if n > 0 then do {
       c \<leftarrow> (if n < 15 \<or> sub s 9 12 \<noteq> ''101'' then Some (mg_error ''ws handshake error'' c)
         else do {
           (r, hm) \<leftarrow> mg_http_parse s;
           Some (if r \<noteq> 0 then mg_call EV_WS_OPEN (c\<lparr>is_websocket := True\<rparr>)
                 else mg_error ''ws handshake error'' c)
         });
       c \<leftarrow> recv_del 0 (nat n) c;
       Some (False, c)
     } else Some (True, c))"

text \<open>The frames: what a complete one does, by its operation.\<close>

definition WEBSOCKET_OP_CONTINUE :: u8 where "WEBSOCKET_OP_CONTINUE = 0"
definition WEBSOCKET_OP_TEXT :: u8 where "WEBSOCKET_OP_TEXT = 1"
definition WEBSOCKET_OP_BINARY :: u8 where "WEBSOCKET_OP_BINARY = 2"
definition WEBSOCKET_OP_CLOSE :: u8 where "WEBSOCKET_OP_CLOSE = 8"
definition WEBSOCKET_OP_PING :: u8 where "WEBSOCKET_OP_PING = 9"
definition WEBSOCKET_OP_PONG :: u8 where "WEBSOCKET_OP_PONG = 10"

lemmas ws_ops = WEBSOCKET_OP_CONTINUE_def WEBSOCKET_OP_TEXT_def WEBSOCKET_OP_BINARY_def
  WEBSOCKET_OP_CLOSE_def WEBSOCKET_OP_PING_def WEBSOCKET_OP_PONG_def

definition ws_dispatch :: "mg_net \<Rightarrow> u8 \<Rightarrow> u8 list \<Rightarrow> mg_connection \<Rightarrow> mg_connection option" where
  "ws_dispatch net flags data c =
    (let final = (flags AND 128 \<noteq> 0); op = flags AND 15 in
     if op = WEBSOCKET_OP_CONTINUE then Some (mg_call (EV_WS_CTL flags data) c)
     else if op = WEBSOCKET_OP_PING then do {
       (n, c) \<leftarrow> mg_ws_send net data WEBSOCKET_OP_PONG c;
       Some (mg_call (EV_WS_CTL flags data) c)
     }
     else if op = WEBSOCKET_OP_PONG then Some (mg_call (EV_WS_CTL flags data) c)
     else if op = WEBSOCKET_OP_TEXT \<or> op = WEBSOCKET_OP_BINARY then
       Some (if final then mg_call (EV_WS_MSG flags data) c else c)
     else if op = WEBSOCKET_OP_CLOSE then do {
       (n, c) \<leftarrow> mg_ws_send net data WEBSOCKET_OP_CLOSE (mg_call (EV_WS_CTL flags data) c);
       Some (c\<lparr>is_draining := True\<rparr>)
     }
     else Some (mg_error (''unknown WS op '' @ dec_digits (unat op)) c))"

text \<open>
  What follows in the loop: a fragment stays in the buffer without its header, the first one
  with the byte of its flags before it; a whole frame is removed; the last fragment delivers
  the message.
\<close>

definition ws_fragment :: "u8 \<Rightarrow> nat \<Rightarrow> ws_msg \<Rightarrow> mg_connection \<Rightarrow> (nat \<times> mg_connection) option" where
  "ws_fragment flags ofs msg c = do {
     let final = (flags AND 128 \<noteq> 0);
     let op = flags AND 15;
     let len = header_len msg + data_len msg;
     (ofs, c) \<leftarrow> (if \<not> final \<or> op = 0 then do {
         let (ofs, len, hl) = (if op \<noteq> 0 then (ofs + 1, len - 1, header_len msg - 1) else (ofs, len, header_len msg));
         c \<leftarrow> recv_del ofs hl c;
         let ofs = ofs + (len - hl);
         Some (ofs, c\<lparr>pfn_data := ofs\<rparr>)
       } else Some (ofs, c));
     c \<leftarrow> (if final \<and> op \<noteq> 0 then recv_del ofs len c else Some c);
     if final \<and> op = 0 \<and> ofs > 0 then do {
       f \<leftarrow> arr_get (io_buf (c_recv c)) 0;
       data \<leftarrow> arr_slice (io_buf (c_recv c)) 1 (int ofs - 1);
       c \<leftarrow> recv_del 0 ofs (mg_call (EV_WS_MSG f data) c);
       Some (0, c\<lparr>pfn_data := 0\<rparr>)
     } else Some (ofs, c)
   }"

text \<open>One round of the loop: None when no complete frame is left.\<close>

definition ws_next :: "mg_net \<Rightarrow> nat \<Rightarrow> mg_connection \<Rightarrow> (nat \<times> mg_connection) option option" where
  "ws_next net ofs c = do {
     let io = c_recv c;
     (n, frame, msg) \<leftarrow> ws_process (drop ofs (io_data io));
     if n = 0 then Some None else do {
       let c = c\<lparr>c_recv := io\<lparr>io_buf := take ofs (io_buf io) @ frame @ drop (io_len io) (io_buf io)\<rparr>\<rparr>;
       data \<leftarrow> arr_slice frame (int (header_len msg)) (int (data_len msg));
       c \<leftarrow> ws_dispatch net (ws_flags msg) data c;
       r \<leftarrow> ws_fragment (ws_flags msg) ofs msg c;
       Some (Some r)
     }
   }"

partial_function (option) ws_loop :: "mg_net \<Rightarrow> nat \<Rightarrow> mg_connection \<Rightarrow> mg_connection option" where
  "ws_loop net ofs c = do {
     r \<leftarrow> ws_next net ofs c;
     (case r of None \<Rightarrow> Some c | Some (ofs, c) \<Rightarrow> ws_loop net ofs c)
   }"

text \<open>mg_ws_cb for the event MG_EV_READ; for the others it does nothing.\<close>

definition mg_ws_cb :: "mg_net \<Rightarrow> mg_connection \<Rightarrow> mg_connection option" where
  "mg_ws_cb net c = do {
     let ofs = pfn_data c;
     (wait, c) \<leftarrow> (if is_client c \<and> \<not> is_websocket c then mg_ws_client_handshake c else Some (False, c));
     if wait then Some c else ws_loop net ofs c
   }"

text \<open>
  The new data of a packet in the right order (read_conn): into the buffer, and when there was
  memory for it, the event MG_EV_READ.
\<close>

definition recv_copy :: "u8 list \<Rightarrow> mg_connection \<Rightarrow> mg_connection option" where
  "recv_copy pay c = do {
     let io = c_recv c;
     mem \<leftarrow> arr_copy (io_buf io) (int (io_len io)) pay;
     Some (c\<lparr>c_recv := io\<lparr>io_buf := mem, io_len := io_len io + length pay\<rparr>\<rparr>)
   }"

definition recv_append :: "mg_net \<Rightarrow> u8 list \<Rightarrow> mg_connection \<Rightarrow> (bool \<times> mg_connection) option" where
  "recv_append net pay c = do {
     let io = c_recv c;
     let (ok, io) = (if length (io_buf io) - io_len io < length pay
       then mg_iobuf_resize (avail net) (io_len io + length pay) io else (True, io));
     if \<not> ok then Some (False, mg_error ''oom'' c) else do {
       c \<leftarrow> recv_copy pay (c\<lparr>c_recv := io\<rparr>);
       Some (True, c)
     }
   }"

definition read_data :: "mg_net \<Rightarrow> u8 list \<Rightarrow> mg_connection \<Rightarrow> mg_connection option" where
  "read_data net pay c = do {
     (ok, c) \<leftarrow> recv_append net pay c;
     if ok then mg_ws_cb net c else Some c
   }"

section \<open>Sending and receiving stay inside the buffers\<close>

text \<open>What sending does not touch.\<close>

definition same_in :: "mg_connection \<Rightarrow> mg_connection \<Rightarrow> bool" where
  "same_in c d \<longleftrightarrow> c_recv d = c_recv c \<and> pfn_data d = pfn_data c \<and> is_client d = is_client c \<and>
     is_websocket d = is_websocket c \<and> (is_closing c \<longrightarrow> is_closing d) \<and>
     io_align (c_send d) = io_align (c_send c)"

lemma same_in_refl [simp]: "same_in c c"
  by (simp add: same_in_def)

lemma same_in_call [simp]: "same_in c (mg_call ev d) = same_in c d" "same_in c d \<Longrightarrow> same_in c (mg_error m d)"
  "c_send (mg_call ev d) = c_send d" "c_send (mg_error m d) = c_send d"
  "is_client (mg_call ev d) = is_client d" "is_client (mg_error m d) = is_client d"
  by (auto simp: same_in_def mg_call_def mg_error_def)

lemma same_in_trans: "same_in c d \<Longrightarrow> same_in d e \<Longrightarrow> same_in c e"
  by (auto simp: same_in_def)

lemma mg_send_safe:
  assumes "io_ok (c_send c)" and "io_room (length bs) (c_send c)"
  shows "\<exists>ok d. mg_send net bs c = Some (ok, d) \<and> same_in c d \<and> io_ok (c_send d) \<and>
    (ok \<and> io_data (c_send d) = io_data (c_send c) @ bs \<or> \<not> ok \<and> io_data (c_send d) = io_data (c_send c))"
proof (cases "net_up net \<and> bs \<noteq> []")
  case True
  then obtain n io where "mg_iobuf_add (avail net) (io_len (c_send c)) (Some bs) (length bs) (c_send c) = Some (n, io)"
    "io_ok io" "io_align io = io_align (c_send c)"
    "n = length bs \<and> io_data io = io_data (c_send c) @ bs \<or> n = 0 \<and> io_data io = io_data (c_send c)"
    using mg_iobuf_add_any[OF assms, of "avail net"] by blast
  then show ?thesis using True by (auto simp: mg_send_def same_in_def)
qed (use assms in \<open>auto simp: mg_send_def\<close>)

lemma mg_ws_mask_safe:
  assumes "io_ok (c_send c)" and "len + 4 \<le> io_len (c_send c) \<or> len = 0 \<or> \<not> is_client c"
  shows "\<exists>d. mg_ws_mask len c = Some d \<and> same_in c d \<and> io_ok (c_send d) \<and> io_len (c_send d) = io_len (c_send c)"
proof (cases "is_client c \<and> io_buf (c_send c) \<noteq> [] \<and> len > 0")
  case True
  let ?io = "c_send c"
  have "io_len ?io - len + len \<le> length (io_buf ?io)" "io_len ?io - len - 4 + 4 \<le> io_len ?io - len"
    using assms True by (auto simp: io_ok_def)
  from xor_mask_safe[OF this] obtain mem where
    "xor_mask (io_len ?io - len) (io_len ?io - len - 4) len (io_buf ?io) = Some mem" "length mem = length (io_buf ?io)"
    by blast
  then show ?thesis using assms True by (auto simp: mg_ws_mask_def Let_def same_in_def io_ok_def)
qed (use assms in \<open>auto simp: mg_ws_mask_def Let_def\<close>)

lemma mg_ws_send_safe:
  assumes "io_ok (c_send c)" and "io_room (length bs + 14) (c_send c)"
  shows "\<exists>n d. mg_ws_send net bs op c = Some (n, d) \<and> same_in c d \<and> io_ok (c_send d) \<and>
    io_len (c_send d) \<le> io_len (c_send c) + length bs + 14"
proof -
  obtain rnd c0 where rnd: "(if is_client c then mg_random net 4 c else ([], c)) = (rnd, c0)" by force
  then have c0: "same_in c c0" "c_send c0 = c_send c" "is_client c0 = is_client c" "length rnd = (if is_client c then 4 else 0)"
    by (auto simp: mg_random_def same_in_def split: if_splits)
  define h where "h = mkhdr (length bs) op (is_client c0) rnd"
  have h: "length h \<le> 14" "is_client c \<Longrightarrow> 6 \<le> length h"
    using c0 by (auto simp: h_def length_mkhdr)
  have "io_room (length h) (c_send c0)" using assms(2) h(1) c0 by (simp add: io_room_def)
  from mg_send_safe[OF _ this, of net] assms(1) c0 obtain ok1 c1 where c1: "mg_send net h c0 = Some (ok1, c1)" "same_in c0 c1"
    "io_ok (c_send c1)" "ok1 \<and> io_data (c_send c1) = io_data (c_send c) @ h \<or> \<not> ok1 \<and> io_data (c_send c1) = io_data (c_send c)"
    by force
  have l1: "io_len (c_send c1) = io_len (c_send c) + (if ok1 then length h else 0)"
    using c1(4) length_io_data[OF c1(3)] length_io_data[OF assms(1)] by auto
  show ?thesis
  proof (cases ok1)
    case False
    then show ?thesis using rnd c1 l1 same_in_trans[OF c0(1) c1(2)] by (simp add: mg_ws_send_def h_def)
  next
    case True
    have "io_room (length bs) (c_send c1)"
      using assms(2) h(1) l1 c1(2) c0 True by (simp add: io_room_def same_in_def)
    from mg_send_safe[OF c1(3) this, of net] obtain ok2 c2 where c2: "mg_send net bs c1 = Some (ok2, c2)" "same_in c1 c2"
      "io_ok (c_send c2)" "ok2 \<and> io_data (c_send c2) = io_data (c_send c1) @ bs \<or> \<not> ok2 \<and> io_data (c_send c2) = io_data (c_send c1)"
      by blast
    have l2: "io_len (c_send c2) = io_len (c_send c1) + (if ok2 then length bs else 0)"
      using c2(4) length_io_data[OF c2(3)] length_io_data[OF c1(3)] by auto
    have cl: "is_client c2 = is_client c" using c0 c1(2) c2(2) by (simp add: same_in_def)
    have s2: "same_in c c2" using same_in_trans c0(1) c1(2) c2(2) by blast
    show ?thesis
    proof (cases ok2)
      case False
      then show ?thesis using rnd c1 c2 l1 l2 h True s2 by (simp add: mg_ws_send_def h_def)
    next
      case ok2: True
      have "length bs + 4 \<le> io_len (c_send c2) \<or> length bs = 0 \<or> \<not> is_client c2"
        using l1 l2 h(2) True ok2 cl by auto
      from mg_ws_mask_safe[OF c2(3) this] obtain d where "mg_ws_mask (length bs) c2 = Some d" "same_in c2 d"
        "io_ok (c_send d)" "io_len (c_send d) = io_len (c_send c2)" by blast
      then show ?thesis
        using rnd c1 c2 l1 l2 h True ok2 same_in_trans[OF s2] by (simp add: mg_ws_send_def h_def)
    qed
  qed
qed

lemma ws_dispatch_safe:
  assumes "io_ok (c_send c)" and "io_room (length data + 14) (c_send c)"
  shows "\<exists>d. ws_dispatch net flags data c = Some d \<and> same_in c d \<and> io_ok (c_send d) \<and>
    io_len (c_send d) \<le> io_len (c_send c) + length data + 14"
proof -
  obtain n d where ping: "mg_ws_send net data WEBSOCKET_OP_PONG c = Some (n, d)" "same_in c d" "io_ok (c_send d)"
    "io_len (c_send d) \<le> io_len (c_send c) + length data + 14"
    using mg_ws_send_safe[OF assms] by blast
  let ?c = "mg_call (EV_WS_CTL flags data) c"
  have "io_ok (c_send ?c)" "io_room (length data + 14) (c_send ?c)" using assms by simp_all
  from mg_ws_send_safe[OF this] obtain m e where close: "mg_ws_send net data WEBSOCKET_OP_CLOSE ?c = Some (m, e)"
    "same_in ?c e" "io_ok (c_send e)" "io_len (c_send e) \<le> io_len (c_send c) + length data + 14"
    by fastforce
  have "same_in c (e\<lparr>is_draining := True\<rparr>)"
    using close(2) by (simp add: same_in_def mg_call_def)
  with ping close assms show ?thesis
    by (auto simp: ws_dispatch_def Let_def)
qed

lemma recv_del_ok:
  assumes "io_ok (c_recv c)" and "ofs + n \<le> io_len (c_recv c)"
  obtains io where "recv_del ofs n c = Some (c\<lparr>c_recv := io\<rparr>)" "io_ok io"
    "io_data io = take ofs (io_data (c_recv c)) @ drop (ofs + n) (io_data (c_recv c))"
    "io_len io = io_len (c_recv c) - n" "io_align io = io_align (c_recv c)"
proof -
  obtain io where io: "mg_iobuf_del ofs n (c_recv c) = Some (min n (io_len (c_recv c) - ofs), io)" "io_ok io"
    "io_data io = take ofs (io_data (c_recv c)) @ drop (ofs + n) (io_data (c_recv c))" "io_align io = io_align (c_recv c)"
    using mg_iobuf_del_data[OF assms(1)] by blast
  have "io_len io = io_len (c_recv c) - n"
    using io(3) length_io_data[OF io(2)] length_io_data[OF assms(1)] assms(2) by simp
  with io that show thesis by (simp add: recv_del_def)
qed
text \<open>What the receiving side leaves alone.\<close>

definition same_out :: "mg_connection \<Rightarrow> mg_connection \<Rightarrow> bool" where
  "same_out c d \<longleftrightarrow> c_send d = c_send c \<and> is_client d = is_client c \<and> is_websocket d = is_websocket c \<and>
     is_closing d = is_closing c"

lemma ws_fragment_safe:
  assumes "io_ok (c_recv c)" "pfn_data c = ofs" "ofs + header_len msg + data_len msg \<le> io_len (c_recv c)"
    "2 \<le> header_len msg"
  shows "\<exists>ofs' d. ws_fragment flags ofs msg c = Some (ofs', d) \<and> io_ok (c_recv d) \<and> pfn_data d = ofs' \<and>
    ofs' \<le> io_len (c_recv d) \<and> same_out c d \<and>
    drop ofs' (io_data (c_recv d)) = drop (ofs + header_len msg + data_len msg) (io_data (c_recv c))"
proof -
  let ?f = "flags AND 128 \<noteq> 0" and ?op = "flags AND 15"
  let ?n = "header_len msg + data_len msg"
  have len: "length (io_data (c_recv c)) = io_len (c_recv c)" using assms(1) by simp
  consider "?f" "?op \<noteq> 0" | "\<not> ?f" "?op \<noteq> 0" | "?op = 0" by blast
  then show ?thesis
  proof cases
    case 1
    obtain io where io: "recv_del ofs ?n c = Some (c\<lparr>c_recv := io\<rparr>)" "io_ok io"
      "io_data io = take ofs (io_data (c_recv c)) @ drop (ofs + ?n) (io_data (c_recv c))"
      "io_len io = io_len (c_recv c) - ?n"
      using recv_del_ok[of c ofs ?n] assms by (metis add.assoc)
    then show ?thesis using 1 assms len
      by (auto simp: ws_fragment_def Let_def same_out_def add.assoc)
  next
    case 2
    obtain io where io: "recv_del (ofs + 1) (header_len msg - 1) c = Some (c\<lparr>c_recv := io\<rparr>)" "io_ok io"
      "io_data io = take (ofs + 1) (io_data (c_recv c)) @ drop (ofs + 1 + (header_len msg - 1)) (io_data (c_recv c))"
      "io_len io = io_len (c_recv c) - (header_len msg - 1)"
      using recv_del_ok[of c "ofs + 1" "header_len msg - 1"] assms by auto
    have o: "ofs + 1 + (?n - 1 - (header_len msg - 1)) = ofs + 1 + data_len msg"
      "ofs + 1 + (header_len msg - 1) = ofs + header_len msg" using assms(4) by auto
    have "drop (ofs + 1 + data_len msg) (io_data io) = drop (ofs + ?n) (io_data (c_recv c))"
      using io(3) assms len by (simp add: add.commute add.left_commute)
    then show ?thesis using 2 io assms len o
      by (simp add: ws_fragment_def Let_def same_out_def add.assoc)
  next
    case 3
    obtain io where io: "recv_del ofs (header_len msg) c = Some (c\<lparr>c_recv := io\<rparr>)" "io_ok io"
      "io_data io = take ofs (io_data (c_recv c)) @ drop (ofs + header_len msg) (io_data (c_recv c))"
      "io_len io = io_len (c_recv c) - header_len msg"
      using recv_del_ok[of c ofs "header_len msg"] assms by auto
    let ?o = "ofs + data_len msg"
    let ?c = "c\<lparr>c_recv := io, pfn_data := ?o\<rparr>"
    have le: "?o \<le> io_len io" using io(4) assms by simp
    have d: "drop ?o (io_data io) = drop (ofs + header_len msg + data_len msg) (io_data (c_recv c))"
      using io(3) assms len by (simp add: add.commute add.left_commute)
    show ?thesis
    proof (cases "?f \<and> ?o > 0")
      case False
      then show ?thesis using 3 io le d by (auto simp: ws_fragment_def Let_def same_out_def)
    next
      case True
      have b: "?o \<le> length (io_buf io)" using le io(2) by (simp add: io_ok_def)
      obtain f where f: "arr_get (io_buf io) 0 = Some f" using b True by (cases "io_buf io") (auto simp: arr_get_def)
      obtain data where data: "arr_slice (io_buf io) 1 (int ?o - 1) = Some data"
        using b True by (auto simp: arr_slice_def)
      let ?e = "mg_call (EV_WS_MSG f data) ?c"
      have e: "io_ok (c_recv ?e)" "0 + ?o \<le> io_len (c_recv ?e)" "c_recv ?e = io"
        using io(2) le by (simp_all add: mg_call_def)
      from recv_del_ok[OF e(1,2)] obtain io2 where io2: "recv_del 0 ?o ?e = Some (?e\<lparr>c_recv := io2\<rparr>)" "io_ok io2"
        "io_data io2 = drop ?o (io_data io)" "io_len io2 = io_len io - ?o"
        using e(3) by auto
      then show ?thesis using 3 io True f data d
        by (simp add: ws_fragment_def Let_def same_out_def mg_call_def)
    qed
  qed
qed

text \<open>The invariant of the loop: no read outside the buffers, and room for the answers.\<close>

definition loop_inv :: "nat \<Rightarrow> mg_connection \<Rightarrow> bool" where
  "loop_inv ofs c \<longleftrightarrow> io_ok (c_recv c) \<and> io_ok (c_send c) \<and> pfn_data c = ofs \<and> ofs \<le> io_len (c_recv c) \<and>
     io_len (c_send c) + 8 * (io_len (c_recv c) - ofs) + 2 * io_align (c_send c) < 2 ^ 32"

lemma ws_next_safe:
  assumes "loop_inv ofs c"
  shows "(ws_next net ofs c = Some None \<and> (\<exists>b msg. ws_process (drop ofs (io_data (c_recv c))) = Some (0, b, msg))) \<or>
    (\<exists>ofs' d. ws_next net ofs c = Some (Some (ofs', d)) \<and> loop_inv ofs' d \<and>
      io_len (c_recv d) - ofs' < io_len (c_recv c) - ofs \<and> is_client d = is_client c \<and>
      is_websocket d = is_websocket c \<and> (is_closing c \<longrightarrow> is_closing d))"
proof -
  let ?io = "c_recv c" and ?b = "drop ofs (io_data (c_recv c))"
  have inv: "io_ok ?io" "io_ok (c_send c)" "pfn_data c = ofs" "ofs \<le> io_len ?io"
    "io_len (c_send c) + 8 * (io_len ?io - ofs) + 2 * io_align (c_send c) < 2 ^ 32"
    using assms by (auto simp: loop_inv_def)
  have blen: "length ?b = io_len ?io - ofs" using inv(1) by simp
  obtain n fr msg where p: "ws_process ?b = Some (n, fr, msg)" "n \<le> length ?b" "length fr = length ?b"
    "n = 0 \<and> fr = ?b \<or> n = header_len msg + data_len msg \<and> 2 \<le> header_len msg \<and> header_len msg \<le> 14"
    using ws_process_safe[of ?b] by blast
  show ?thesis
  proof (cases "n = 0")
    case True
    then show ?thesis using p by (simp add: ws_next_def)
  next
    case False
    then have n: "n = header_len msg + data_len msg" "2 \<le> header_len msg" "header_len msg \<le> 14" using p(4) by auto
    define io1 where "io1 = ?io\<lparr>io_buf := take ofs (io_buf ?io) @ fr @ drop (io_len ?io) (io_buf ?io)\<rparr>"
    define c1 where "c1 = c\<lparr>c_recv := io1\<rparr>"
    have io1: "io_ok io1" "io_len io1 = io_len ?io"
      using inv(1,4) p(3) blen by (auto simp: io1_def io_ok_def)
    obtain data where data: "arr_slice fr (int (header_len msg)) (int (data_len msg)) = Some data" "length data = data_len msg"
      using p(2,3) n(1) by (auto simp: arr_slice_def)
    have "io_ok (c_send c1)" "io_room (length data + 14) (c_send c1)"
      using inv(2,5) n p(2) blen data(2) by (simp_all add: c1_def io_room_def)
    from ws_dispatch_safe[OF this, of net "ws_flags msg"] obtain c2 where c2: "ws_dispatch net (ws_flags msg) data c1 = Some c2"
      "same_in c1 c2" "io_ok (c_send c2)" "io_len (c_send c2) \<le> io_len (c_send c) + data_len msg + 14"
      using data(2) by (auto simp: c1_def)
    have r2: "io_ok (c_recv c2)" "pfn_data c2 = ofs" "ofs + header_len msg + data_len msg \<le> io_len (c_recv c2)"
      "io_len (c_recv c2) = io_len ?io"
      using c2(2) io1 inv p(2) blen n(1) by (auto simp: same_in_def c1_def)
    from ws_fragment_safe[OF r2(1-3) n(2), of "ws_flags msg"] obtain o2 d where d: "ws_fragment (ws_flags msg) ofs msg c2 = Some (o2, d)"
      "io_ok (c_recv d)" "pfn_data d = o2" "o2 \<le> io_len (c_recv d)" "same_out c2 d"
      "drop o2 (io_data (c_recv d)) = drop (ofs + header_len msg + data_len msg) (io_data (c_recv c2))"
      by blast
    have len: "io_len (c_recv d) - o2 = io_len ?io - ofs - n"
      using arg_cong[OF d(6), of length] d(2) r2(1,4) n(1) by simp
    have "io_len (c_send d) + 8 * (io_len (c_recv d) - o2) + 2 * io_align (c_send d) < 2 ^ 32"
      using inv(5) len d(5) c2(2,4) n p(2) blen by (simp add: same_out_def same_in_def c1_def)
    then have "loop_inv o2 d" using d c2(3) by (simp add: loop_inv_def same_out_def)
    moreover have "ws_next net ofs c = Some (Some (o2, d))"
      using p(1) False data(1) c2(1) d(1) by (simp add: ws_next_def c1_def io1_def Let_def)
    moreover have "io_len (c_recv d) - o2 < io_len ?io - ofs" using len n p(2) blen by simp
    ultimately show ?thesis using d(5) c2(2) by (auto simp: same_out_def same_in_def c1_def)
  qed
qed

lemma ws_loop_safe:
  "loop_inv ofs c \<Longrightarrow> \<exists>d. ws_loop net ofs c = Some d \<and> loop_inv (pfn_data d) d \<and>
     (\<exists>b msg. ws_process (drop (pfn_data d) (io_data (c_recv d))) = Some (0, b, msg)) \<and>
     is_client d = is_client c \<and> is_websocket d = is_websocket c \<and> (is_closing c \<longrightarrow> is_closing d)"
proof (induction "io_len (c_recv c) - ofs" arbitrary: ofs c rule: less_induct)
  case less
  from ws_next_safe[OF less.prems, of net] show ?case
  proof (elim disjE exE conjE)
    fix b msg assume "ws_next net ofs c = Some None" "ws_process (drop ofs (io_data (c_recv c))) = Some (0, b, msg)"
    then show ?thesis using less.prems by (subst ws_loop.simps) (auto simp: loop_inv_def)
  next
    fix ofs' d assume d: "ws_next net ofs c = Some (Some (ofs', d))" "loop_inv ofs' d"
      "io_len (c_recv d) - ofs' < io_len (c_recv c) - ofs" "is_client d = is_client c"
      "is_websocket d = is_websocket c" "is_closing c \<longrightarrow> is_closing d"
    from less.hyps[OF d(3,2)] d show ?thesis by (subst ws_loop.simps) auto
  qed
qed

text \<open>A connection between two reads.\<close>

definition conn_ok :: "mg_connection \<Rightarrow> bool" where
  "conn_ok c \<longleftrightarrow> io_ok (c_recv c) \<and> io_ok (c_send c) \<and> pfn_data c \<le> io_len (c_recv c) \<and>
     (is_client c \<and> \<not> is_websocket c \<and> \<not> is_closing c \<longrightarrow> pfn_data c = 0)"

lemma handshake_safe:
  assumes "io_ok (c_recv c)" "pfn_data c = 0"
  shows "\<exists>w d. mg_ws_client_handshake c = Some (w, d) \<and> io_ok (c_recv d) \<and> pfn_data d = 0 \<and>
    io_len (c_recv d) \<le> io_len (c_recv c) \<and> c_send d = c_send c \<and> is_client d = is_client c \<and>
    (w \<longrightarrow> d = c) \<and> (\<not> w \<and> \<not> is_websocket d \<longrightarrow> is_closing d)"
proof -
  let ?s = "byte_chars (io_data (c_recv c))"
  let ?n = "mg_http_get_request_len ?s"
  obtain r hm where p: "mg_http_parse ?s = Some (r, hm)" using mg_http_parse_safe by blast
  show ?thesis
  proof (cases "?n > 0")
    case False
    then show ?thesis using assms by (auto simp: mg_ws_client_handshake_def Let_def mg_error_def mg_call_def)
  next
    case True
    then have n: "nat ?n \<le> io_len (c_recv c)"
      using request_len_from_bounds[of ?s 0 ?n] assms(1) by (auto simp: mg_http_get_request_len_def byte_chars_def)
    obtain d where d: "(if ?n < 15 \<or> sub ?s 9 12 \<noteq> ''101'' then Some (mg_error ''ws handshake error'' c)
        else do { (r, hm) \<leftarrow> mg_http_parse ?s;
          Some (if r \<noteq> 0 then mg_call EV_WS_OPEN (c\<lparr>is_websocket := True\<rparr>) else mg_error ''ws handshake error'' c) }) = Some d"
      "c_recv d = c_recv c" "pfn_data d = 0" "c_send d = c_send c" "is_client d = is_client c" "is_websocket d \<or> is_closing d"
      using p assms(2) by (cases "?n < 15 \<or> sub ?s 9 12 \<noteq> ''101''"; cases "r = 0") (auto simp: mg_call_def mg_error_def)
    obtain io where "recv_del 0 (nat ?n) d = Some (d\<lparr>c_recv := io\<rparr>)" "io_ok io" "io_len io = io_len (c_recv c) - nat ?n"
      using recv_del_ok[of d 0 "nat ?n"] assms(1) n d(2) by auto
    then show ?thesis
      using True d by (auto simp: mg_ws_client_handshake_def Let_def)
  qed
qed


definition garbage_conn :: mg_connection where
  "garbage_conn = \<lparr>c_recv = \<lparr>io_buf = [137, 131, 1, 2, 3, 4, 5], io_len = 7, io_align = 0\<rparr>,
     c_send = \<lparr>io_buf = [], io_len = 0, io_align = 512\<rparr>, pfn_data = 0, pfn_null = False, is_client = True,
     is_accepted = False, is_websocket = True, is_draining = False, is_closing = False, is_resp = False, rnd_pos = 0, c_events = []\<rparr>"


section \<open>The stream of the server\<close>

text \<open>A text message as the server sends it: one frame, without a mask.\<close>

definition text_frame :: "u8 list \<Rightarrow> u8 list" where
  "text_frame m = ws_frame WEBSOCKET_OP_TEXT None m"

lemma text_frame_nonempty [simp]: "text_frame m \<noteq> []"
  using length_ws_frame[of WEBSOCKET_OP_TEXT None m] by (auto simp: text_frame_def)

text \<open>A part of a frame is left in the buffer.\<close>

lemma ws_header_unfinished:
  assumes "2 \<le> length p" "p ! 1 AND 128 = 0" "p ! 1 AND 0x7f = 126 \<and> length p < 4 \<or> p ! 1 AND 0x7f = 127 \<and> length p < 10"
  shows "ws_header p = Some (0, \<lparr>ws_flags = p ! 0, header_len = 0, data_len = 0\<rparr>)"
proof -
  have "arr_get p 1 = Some (p ! 1)" "arr_get p 0 = Some (p ! 0)" using assms(1) by (auto simp: arr_get_def)
  then show ?thesis using assms unfolding ws_header_def Let_def by auto
qed

lemma mkhdr_server:
  "mkhdr n op False [] = (if n < 126 then [op OR 128, word_of_nat n]
     else if n < 65536 then [op OR 128, 126] @ be_bytes16 (word_of_nat n)
     else [op OR 128, 127] @ be_bytes32 (ucast (drop_bit 32 (word_of_nat n :: 64 word))) @
       be_bytes32 (word_of_nat n AND 0xffffffff))"
  by (simp add: mkhdr_def Let_def)

lemma ws_process_unfinished:
  assumes "k < length (ws_frame op None m)" "length m \<le> 1073741824"
  shows "\<exists>b msg. ws_process (take k (ws_frame op None m)) = Some (0, b, msg)"
proof -
  let ?h = "mkhdr (length m) op False []" and ?n = "length m"
  let ?p = "take k (ws_frame op None m)"
  have F: "ws_frame op None m = ?h @ m" by (simp add: ws_frame_def)
  have lp: "length ?p = k" using assms(1) by simp
  consider "k < 2" | "2 \<le> k" "k < length ?h" | "length ?h \<le> k" by linarith
  then show ?thesis
  proof cases
    case 1
    then have "ws_header ?p = Some (0, \<lparr>ws_flags = 0, header_len = 0, data_len = 0\<rparr>)"
      using lp by (simp add: ws_header_def Let_def)
    then show ?thesis by (simp add: ws_process_def)
  next
    case 2
    then have big: "126 \<le> ?n" by (simp add: length_mkhdr split: if_splits)
    have "?p ! 1 = ?h ! 1" using 2 by (simp add: F nth_append)
    then have "?p ! 1 AND 128 = 0" "?p ! 1 AND 0x7f = 126 \<and> length ?p < 4 \<or> ?p ! 1 AND 0x7f = 127 \<and> length ?p < 10"
      using big 2 lp by (simp_all add: mkhdr_server length_mkhdr split: if_splits)
    from ws_header_unfinished[OF _ this] 2 lp show ?thesis by (simp add: ws_process_def)
  next
    case 3
    then have "?p = ?h @ take (k - length ?h) m" by (simp add: F)
    moreover have "ws_header (?h @ take (k - length ?h) m) = Some (0, \<lparr>ws_flags = op OR 128, header_len = length ?h, data_len = ?n\<rparr>)"
      using ws_header_mkhdr[of ?n "[]" False op] assms(2) by simp
    moreover have "length ?h + ?n > k" using assms(1) by (simp add: F)
    ultimately show ?thesis using lp by (simp add: ws_process_def)
  qed
qed

lemma io_data_replace:
  assumes "io_ok io" "length bs = io_len io"
  shows "io_data (io\<lparr>io_buf := bs @ drop (io_len io) (io_buf io)\<rparr>) = bs"
    "io_ok (io\<lparr>io_buf := bs @ drop (io_len io) (io_buf io)\<rparr>)"
  using assms by (simp_all add: io_data_def io_ok_def)

lemma ws_next_text:
  assumes "io_ok (c_recv c)" "pfn_data c = 0" "io_data (c_recv c) = text_frame m @ r" "length m \<le> 1073741824"
  shows "\<exists>io. ws_next net 0 c = Some (Some (0, c\<lparr>c_recv := io, c_events := c_events c @ [EV_WS_MSG 129 m]\<rparr>)) \<and>
    io_ok io \<and> io_data io = r \<and> io_align io = io_align (c_recv c)"
proof -
  let ?io = "c_recv c" and ?F = "text_frame m"
  obtain hd where p: "ws_process (?F @ r) = Some (length ?F, hd @ m @ r,
      \<lparr>ws_flags = WEBSOCKET_OP_TEXT OR 128, header_len = length hd, data_len = length m\<rparr>)" "length ?F = length hd + length m"
    using ws_process_frame[of m None WEBSOCKET_OP_TEXT r] assms(4) unfolding text_frame_def by auto
  have fl: "WEBSOCKET_OP_TEXT OR 128 = (129 :: u8)" by (simp add: ws_ops)
  have len: "length (hd @ m @ r) = io_len ?io"
    using assms(3) length_io_data[OF assms(1)] p(2) by simp
  define c1 where "c1 = c\<lparr>c_recv := ?io\<lparr>io_buf := (hd @ m @ r) @ drop (io_len ?io) (io_buf ?io)\<rparr>\<rparr>"
  have c1: "io_ok (c_recv c1)" "io_data (c_recv c1) = hd @ m @ r" "io_len (c_recv c1) = io_len ?io"
    using io_data_replace[OF assms(1) len] by (simp_all add: c1_def)
  let ?c2 = "mg_call (EV_WS_MSG 129 m) c1"
  have "0 + (length hd + length m) \<le> io_len (c_recv ?c2)" "io_ok (c_recv ?c2)"
    using c1 len by (simp_all add: mg_call_def)
  from recv_del_ok[OF this(2,1)] obtain io where io: "recv_del 0 (length hd + length m) ?c2 = Some (?c2\<lparr>c_recv := io\<rparr>)"
    "io_ok io" "io_data io = r" "io_align io = io_align ?io"
    using c1 by (auto simp: mg_call_def c1_def)
  have ne: "hd = [] \<longrightarrow> m \<noteq> []" using p(2) text_frame_nonempty[of m] by (auto simp del: text_frame_nonempty)
  have "ws_next net 0 c = Some (Some (0, ?c2\<lparr>c_recv := io\<rparr>))"
    using p io(1) assms(2,3) fl ne
    by (simp add: ws_next_def ws_dispatch_def ws_fragment_def Let_def ws_ops c1_def)
  then show ?thesis using io(2-) by (intro exI[of _ io]) (simp add: mg_call_def c1_def)
qed

definition small :: "u8 list \<Rightarrow> bool" where "small m \<longleftrightarrow> length m \<le> 1073741824"

lemma ws_loop_texts:
  assumes "io_ok (c_recv c)" "pfn_data c = 0" "io_data (c_recv c) = concat (map text_frame ms) @ p"
    "list_all small ms" "\<exists>b msg. ws_process p = Some (0, b, msg)"
  shows "\<exists>io. ws_loop net 0 c = Some (c\<lparr>c_recv := io, c_events := c_events c @ map (EV_WS_MSG 129) ms\<rparr>) \<and>
    io_ok io \<and> io_data io = p \<and> io_align io = io_align (c_recv c)"
  using assms
proof (induction ms arbitrary: c)
  case Nil
  then have "ws_next net 0 c = Some None" by (auto simp: ws_next_def)
  then have "ws_loop net 0 c = Some c" by (subst ws_loop.simps) simp
  then show ?case using Nil by (intro exI[of _ "c_recv c"]) simp
next
  case (Cons m ms)
  obtain io where io: "ws_next net 0 c = Some (Some (0, c\<lparr>c_recv := io, c_events := c_events c @ [EV_WS_MSG 129 m]\<rparr>))"
    "io_ok io" "io_data io = concat (map text_frame ms) @ p" "io_align io = io_align (c_recv c)"
    using ws_next_text[of c m "concat (map text_frame ms) @ p" net] Cons.prems by (auto simp: small_def)
  let ?c = "c\<lparr>c_recv := io, c_events := c_events c @ [EV_WS_MSG 129 m]\<rparr>"
  have "\<exists>io'. ws_loop net 0 ?c = Some (?c\<lparr>c_recv := io', c_events := c_events ?c @ map (EV_WS_MSG 129) ms\<rparr>) \<and>
    io_ok io' \<and> io_data io' = p \<and> io_align io' = io_align (c_recv ?c)"
    using io Cons.prems by (intro Cons.IH) auto
  then show ?case using io(1,4) by (subst ws_loop.simps) auto
qed

lemma recv_append_ok:
  assumes "io_ok (c_recv c)" "io_room (length pay) (c_recv c)" "\<And>n. avail net n"
  shows "\<exists>io. recv_append net pay c = Some (True, c\<lparr>c_recv := io\<rparr>) \<and> io_ok io \<and>
    io_data io = io_data (c_recv c) @ pay \<and> io_align io = io_align (c_recv c)"
proof -
  let ?io = "c_recv c"
  have b: "io_len ?io + length pay + 2 * io_align ?io < 2 ^ 32" using assms(2) by (simp add: io_room_def)
  obtain io1 where io1: "(if length (io_buf ?io) - io_len ?io < length pay
       then mg_iobuf_resize (avail net) (io_len ?io + length pay) ?io else (True, ?io)) = (True, io1)"
    "io_len io1 = io_len ?io" "io_len ?io + length pay \<le> length (io_buf io1)" "io_data io1 = io_data ?io" "io_align io1 = io_align ?io"
  proof (cases "length (io_buf ?io) - io_len ?io < length pay")
    case False
    then show thesis using that[of ?io] assms(1) by (simp add: io_ok_def)
  next
    case True
    let ?s = "roundup (io_len ?io + length pay) (io_align ?io)"
    note r = roundup_bounds[OF b]
    have "?s \<noteq> 0" using True r(4) by auto
    then have "mg_iobuf_resize (avail net) (io_len ?io + length pay) ?io =
        (True, ?io\<lparr>io_buf := io_data ?io @ replicate (?s - io_len ?io) 0\<rparr>)" if "?s \<noteq> length (io_buf ?io)"
      using that r(1) assms(1,3) by (simp add: mg_iobuf_resize_def io_data_def Let_def min_absorb2)
    moreover have "?s \<noteq> length (io_buf ?io)" using True r(1) assms(1) by (auto simp: io_ok_def)
    ultimately show thesis
      using that[of "?io\<lparr>io_buf := io_data ?io @ replicate (?s - io_len ?io) 0\<rparr>"] True r(1) assms(1)
      by (simp add: io_data_def min_absorb2 io_ok_def)
  qed
  let ?mem = "take (io_len ?io) (io_buf io1) @ pay @ drop (io_len ?io + length pay) (io_buf io1)"
  have "recv_append net pay c = Some (True, c\<lparr>c_recv := io1\<lparr>io_buf := ?mem, io_len := io_len ?io + length pay\<rparr>\<rparr>)"
    using io1 by (simp add: recv_append_def recv_copy_def Let_def)
  moreover have "io_data (io1\<lparr>io_buf := ?mem, io_len := io_len ?io + length pay\<rparr>) = io_data ?io @ pay"
    "io_ok (io1\<lparr>io_buf := ?mem, io_len := io_len ?io + length pay\<rparr>)"
    using io1(2,3,4) assms(1) by (simp_all add: io_data_def io_ok_def)
  ultimately show ?thesis using io1(5) by auto
qed

lemma read_data_buffer:
  assumes "io_ok (c_recv c)" "io_room (length pay) (c_recv c)" "\<And>n. avail net n"
  shows "\<exists>io. read_data net pay c = mg_ws_cb net (c\<lparr>c_recv := io\<rparr>) \<and> io_ok io \<and>
    io_data io = io_data (c_recv c) @ pay \<and> io_align io = io_align (c_recv c)"
  using recv_append_ok[OF assms] by (auto simp: read_data_def)

text \<open>Where a stream of frames is cut.\<close>

lemma cut_frames:
  assumes "q @ r = concat (map text_frame ms)"
  shows "\<exists>ms1 ms2 p. ms = ms1 @ ms2 \<and> q = concat (map text_frame ms1) @ p \<and> p @ r = concat (map text_frame ms2) \<and>
    (p = [] \<or> (\<exists>m ms'. ms2 = m # ms' \<and> length p < length (text_frame m)))"
proof -
  from cut_concat[OF assms] obtain ys zs p where c: "map text_frame ms = ys @ zs" "q = concat ys @ p" "p @ r = concat zs"
    "p = [] \<or> (\<exists>z zs'. zs = z # zs' \<and> length p < length z)" by blast
  from c(1) obtain ms1 ms2 where ms: "ms = ms1 @ ms2" "ys = map text_frame ms1" "zs = map text_frame ms2"
    by (auto simp: map_eq_append_conv)
  with c(4) have "p = [] \<or> (\<exists>m ms'. ms2 = m # ms' \<and> length p < length (text_frame m))" by (cases ms2) auto
  with c(2,3) ms show ?thesis by (intro exI[of _ ms1] exI[of _ ms2] exI[of _ p]) simp
qed

lemma ws_stream_step:
  assumes "io_ok (c_recv c)" "pfn_data c = 0" "is_client c \<longrightarrow> is_websocket c" "\<And>n. avail net n"
    and "io_data (c_recv c) @ concat chunks = concat (map text_frame ms)" "list_all small ms"
    and "length (io_data (c_recv c) @ concat chunks) + 2 * io_align (c_recv c) < 2 ^ 32"
    and "chunks = [] \<longrightarrow> io_data (c_recv c) = []"
  shows "\<exists>io. for_each chunks (read_data net) c =
    Some (c\<lparr>c_recv := io, c_events := c_events c @ map (EV_WS_MSG 129) ms\<rparr>) \<and> io_ok io \<and> io_data io = []"
  using assms
proof (induction chunks arbitrary: c ms)
  case Nil
  then have "ms = []" by (cases ms) (auto dest: arg_cong[of _ _ length])
  then show ?case using Nil by (intro exI[of _ "c_recv c"]) simp
next
  case (Cons x xs)
  let ?q = "io_data (c_recv c) @ x"
  have "io_room (length x) (c_recv c)"
    using Cons.prems(7) length_io_data[OF Cons.prems(1)] by (simp add: io_room_def)
  from read_data_buffer[OF Cons.prems(1) this Cons.prems(4)] obtain io where io:
    "read_data net x c = mg_ws_cb net (c\<lparr>c_recv := io\<rparr>)" "io_ok io" "io_data io = ?q" "io_align io = io_align (c_recv c)"
    by blast
  have "?q @ concat xs = concat (map text_frame ms)" using Cons.prems(5) by simp
  from cut_frames[OF this] obtain ms1 ms2 p where cut: "ms = ms1 @ ms2" "?q = concat (map text_frame ms1) @ p"
    "p @ concat xs = concat (map text_frame ms2)"
    "p = [] \<or> (\<exists>m ms'. ms2 = m # ms' \<and> length p < length (text_frame m))" by blast
  have "\<exists>b msg. ws_process p = Some (0, b, msg)"
  proof (cases "p = []")
    case True
    then show ?thesis by (simp add: ws_process_def ws_header_def)
  next
    case False
    then obtain m ms' where m: "ms2 = m # ms'" "length p < length (text_frame m)" using cut(4) by blast
    then have "p = take (length p) (text_frame m)"
      using cut(3) by (simp add: append_eq_append_conv_if split: if_splits)
    moreover have "length m \<le> 1073741824" using Cons.prems(6) cut(1) m(1) by (simp add: small_def)
    ultimately show ?thesis
      using ws_process_unfinished[of "length p" WEBSOCKET_OP_TEXT m] m(2) by (simp add: text_frame_def)
  qed
  then obtain io2 where io2: "ws_loop net 0 (c\<lparr>c_recv := io\<rparr>) =
      Some (c\<lparr>c_recv := io2, c_events := c_events c @ map (EV_WS_MSG 129) ms1\<rparr>)" "io_ok io2" "io_data io2 = p" "io_align io2 = io_align io"
    using ws_loop_texts[of "c\<lparr>c_recv := io\<rparr>" ms1 p net] Cons.prems(2,6) io cut(1,2) by auto
  let ?c = "c\<lparr>c_recv := io2, c_events := c_events c @ map (EV_WS_MSG 129) ms1\<rparr>"
  have step: "read_data net x c = Some ?c"
    using io(1) io2(1) Cons.prems(2,3) by (auto simp: mg_ws_cb_def)
  have "xs = [] \<longrightarrow> p = []" using cut(3,4) by auto
  moreover have "length (p @ concat xs) \<le> length (?q @ concat xs)" by (simp add: cut(2))
  ultimately have "\<exists>io. for_each xs (read_data net) ?c =
      Some (?c\<lparr>c_recv := io, c_events := c_events ?c @ map (EV_WS_MSG 129) ms2\<rparr>) \<and> io_ok io \<and> io_data io = []"
    using Cons.prems cut io2 io(4) by (intro Cons.IH) auto
  then show ?case using step by (auto simp: cut(1))
qed
section \<open>A message and its frame\<close>

lemma mg_send_ok:
  assumes "io_ok (c_send c)" "io_room (length bs) (c_send c)" "net_up net" "\<And>n. avail net n"
  shows "\<exists>io. mg_send net bs c = Some (True, c\<lparr>c_send := io\<rparr>) \<and> io_ok io \<and>
    io_data io = io_data (c_send c) @ bs \<and> io_align io = io_align (c_send c)"
proof (cases "bs = []")
  case True
  then show ?thesis using assms by (intro exI[of _ "c_send c"]) (simp add: mg_send_def)
next
  case False
  then show ?thesis
    using assms mg_iobuf_add_end[OF assms(1,2), of "avail net"] by (auto simp: mg_send_def)
qed


definition fresh_conn :: "bool \<Rightarrow> mg_connection" where
  "fresh_conn client = \<lparr>c_recv = \<lparr>io_buf = [], io_len = 0, io_align = 512\<rparr>, c_send = \<lparr>io_buf = [], io_len = 0, io_align = 512\<rparr>,
     pfn_data = 0, pfn_null = False, is_client = client, is_accepted = False, is_websocket = False,
     is_draining = False, is_closing = False, is_resp = False,
     rnd_pos = 0, c_events = []\<rparr>"

definition good_net :: mg_net where
  "good_net = \<lparr>net_up = True, avail = (\<lambda>n. True), rand_32 = (\<lambda>i. word_of_nat (77 * i + 5))\<rparr>"


end
