(* ===== verification/Mongoose_Url.thy ===== *)
theory Mongoose_Url
  imports Mongoose
begin

text \<open>
  The parts of a URL (src/url.c in firmware/pico/lib/mongoose/mongoose.c): the scanner and the
  functions that read host, port, path and user from its positions.
\<close>

section \<open>Scanning\<close>

text \<open>struct url: positions in the string, 0 for a part that is not there.\<close>

record url =
  url_user :: nat
  url_pass :: nat
  url_host :: nat
  url_port :: nat
  url_uri :: nat
  url_end :: nat

definition no_url :: url where
  "no_url = \<lparr>url_user = 0, url_pass = 0, url_host = 0, url_port = 0, url_uri = 0, url_end = 0\<rparr>"

text \<open>One round of the loop at position i, after the character prev.\<close>

definition url_char :: "char \<Rightarrow> nat \<Rightarrow> char \<Rightarrow> url \<Rightarrow> url" where
  "url_char prev i c u =
    (if c = CHR ''/'' \<and> i > 0 \<and> url_host u = 0 \<and> prev = CHR ''/'' then u\<lparr>url_host := i + 1, url_port := 0\<rparr>
     else if c = CHR '']'' then u\<lparr>url_port := 0\<rparr>
     else if c = CHR '':'' \<and> url_port u = 0 \<and> url_uri u = 0 then u\<lparr>url_port := i + 1\<rparr>
     else if c = CHR ''@'' \<and> url_user u = 0 \<and> url_pass u = 0 \<and> url_uri u = 0 then
       u\<lparr>url_user := url_host u, url_pass := url_port u, url_host := i + 1, url_port := 0\<rparr>
     else if c = CHR ''/'' \<and> url_host u \<noteq> 0 \<and> url_uri u = 0 then u\<lparr>url_uri := i\<rparr>
     else u)"

fun urlparse_from :: "char \<Rightarrow> nat \<Rightarrow> string \<Rightarrow> url \<Rightarrow> url" where
  "urlparse_from prev i [] u = u\<lparr>url_end := i\<rparr>"
| "urlparse_from prev i (c # cs) u = urlparse_from c (i + 1) cs (url_char prev i c u)"

definition urlparse :: "string \<Rightarrow> url" where
  "urlparse url = urlparse_from NUL 0 (c_str url) no_url"

section \<open>The parts\<close>

definition starts_with :: "string \<Rightarrow> string \<Rightarrow> bool" where
  "starts_with url p \<longleftrightarrow> is_prefix p (c_str url)"

definition mg_url_is_ssl :: "string \<Rightarrow> bool" where
  "mg_url_is_ssl url \<longleftrightarrow> starts_with url ''wss:'' \<or> starts_with url ''https:'' \<or>
     starts_with url ''mqtts:'' \<or> starts_with url ''ssl:'' \<or> starts_with url ''tls:'' \<or>
     starts_with url ''tcps:''"

text \<open>
  The lengths are differences of size_t; a string longer than what is left of the URL is None.
\<close>

definition url_part :: "string \<Rightarrow> nat \<Rightarrow> int \<Rightarrow> string option" where
  "url_part url i n = arr_slice (c_str url) (int i) n"

definition mg_url_host :: "string \<Rightarrow> string option" where
  "mg_url_host url =
    (let u = urlparse url;
         n = (if url_port u \<noteq> 0 then int (url_port u) - int (url_host u) - 1
              else if url_uri u \<noteq> 0 then int (url_uri u) - int (url_host u)
              else int (url_end u) - int (url_host u))
     in url_part url (url_host u) n)"

definition mg_url_uri :: "string \<Rightarrow> string" where
  "mg_url_uri url = (let u = urlparse url in if url_uri u \<noteq> 0 then drop (url_uri u) (c_str url) else ''/'')"

definition mg_url_port :: "string \<Rightarrow> u16" where
  "mg_url_port url =
    (let u = urlparse url; port = 0;
         port = (if starts_with url ''http:'' \<or> starts_with url ''ws:'' then 80 else port);
         port = (if starts_with url ''wss:'' \<or> starts_with url ''https:'' then 443 else port);
         port = (if starts_with url ''mqtt:'' then 1883 else port);
         port = (if starts_with url ''mqtts:'' then 8883 else port)
     in if url_port u \<noteq> 0 then word_of_int (c_atoi (drop (url_port u) (c_str url))) else port)"

definition mg_url_user :: "string \<Rightarrow> string option" where
  "mg_url_user url =
    (let u = urlparse url
     in if url_user u \<noteq> 0 \<and> (url_pass u \<noteq> 0 \<or> url_host u \<noteq> 0)
        then url_part url (url_user u)
          (if url_pass u \<noteq> 0 then int (url_pass u) - int (url_user u) - 1
           else int (url_host u) - int (url_user u) - 1)
        else Some [])"

definition mg_url_pass :: "string \<Rightarrow> string option" where
  "mg_url_pass url =
    (let u = urlparse url
     in if url_pass u \<noteq> 0 \<and> url_host u \<noteq> 0
        then url_part url (url_pass u) (int (url_host u) - int (url_pass u) - 1) else Some [])"

section \<open>URLs of the form the firmware builds\<close>

definition plain_host :: "string \<Rightarrow> bool" where
  "plain_host h \<longleftrightarrow> list_all (\<lambda>c. c \<notin> set ''/]:@'') h"

lemma urlparse_plain:
  "plain_host cs \<Longrightarrow> urlparse_from prev i (cs @ rest) u = urlparse_from (last (prev # cs)) (i + length cs) rest u"
  by (induction cs arbitrary: prev i) (simp_all add: plain_host_def url_char_def)

lemma urlparse_path:
  assumes "CHR '']'' \<notin> set cs" "url_uri u \<noteq> 0" "url_host u \<noteq> 0"
  shows "urlparse_from prev i cs u = u\<lparr>url_end := i + length cs\<rparr>"
  using assms by (induction cs arbitrary: prev i) (auto simp: url_char_def)

lemma urlparse_ws:
  assumes "plain_host h" "h \<noteq> []" "plain_host p" "CHR '']'' \<notin> set path" "NUL \<notin> set (h @ p @ path)"
  shows "urlparse (''ws://'' @ h @ '':'' @ p @ ''/'' @ path) =
    \<lparr>url_user = 0, url_pass = 0, url_host = 5, url_port = 6 + length h,
     url_uri = 6 + length h + length p, url_end = 7 + length h + length p + length path\<rparr>"
proof -
  have l: "last (CHR ''/'' # h) \<noteq> CHR ''/''" "last (CHR '':'' # p) \<noteq> CHR ''/''"
    using assms(1-3) last_in_set[of h] last_in_set[of p] by (auto simp: plain_host_def list_all_iff)
  have "c_str (''ws://'' @ h @ '':'' @ p @ ''/'' @ path) = ''ws://'' @ h @ '':'' @ p @ ''/'' @ path"
    using assms(5) by (intro c_str_id) auto
  then have "urlparse (''ws://'' @ h @ '':'' @ p @ ''/'' @ path) =
      urlparse_from NUL 0 (''ws://'' @ h @ '':'' @ p @ ''/'' @ path) no_url" by (simp add: urlparse_def)
  also have "\<dots> = urlparse_from CHR ''/'' 5 (h @ '':'' @ p @ ''/'' @ path) (no_url\<lparr>url_host := 5\<rparr>)"
    by (simp add: url_char_def no_url_def numeral_eq_Suc)
  also have "\<dots> = urlparse_from (last (CHR ''/'' # h)) (5 + length h) (CHR '':'' # p @ ''/'' @ path) (no_url\<lparr>url_host := 5\<rparr>)"
    using urlparse_plain[OF assms(1)] by simp
  also have "\<dots> = urlparse_from CHR '':'' (6 + length h) (p @ ''/'' @ path) (no_url\<lparr>url_host := 5, url_port := 6 + length h\<rparr>)"
    by (simp add: url_char_def no_url_def)
  also have "\<dots> = urlparse_from (last (CHR '':'' # p)) (6 + length h + length p) (CHR ''/'' # path)
      (no_url\<lparr>url_host := 5, url_port := 6 + length h\<rparr>)"
    using urlparse_plain[OF assms(3)] by simp
  also have "\<dots> = urlparse_from CHR ''/'' (7 + length h + length p) path
      (no_url\<lparr>url_host := 5, url_port := 6 + length h, url_uri := 6 + length h + length p\<rparr>)"
    using l by (simp add: url_char_def no_url_def add.assoc)
  also have "\<dots> = (no_url\<lparr>url_host := 5, url_port := 6 + length h, url_uri := 6 + length h + length p\<rparr>)
      \<lparr>url_end := 7 + length h + length p + length path\<rparr>"
    using assms(4) by (intro urlparse_path) (simp_all add: no_url_def)
  finally show ?thesis by (simp add: no_url_def)
qed

lemma dec_digits_plain: "plain_host (dec_digits n)" "dec_digits n \<noteq> []"
proof -
  show "plain_host (dec_digits n)"
    using is_dec_digits[of n] by (auto simp: plain_host_def list_all_iff is_dec_def Let_def)
  show "dec_digits n \<noteq> []" by (rule dec_digits_nonempty)
qed

end
