(* ===== verification/Hardware.thy ===== *)
theory Hardware
  imports Prelude
begin

text \<open>
  The hardware side of the drivers. The pico-sdk and ESP-IDF calls of the firmware are code
  outside the repository; each is modelled by what the firmware relies on: it hands its
  arguments to the hardware, in the order of the calls. An operation of a driver therefore
  appends events to the output of the device, and reads the busy line from an input tape.

  The record dev holds the static variables of a display driver (s_fb or s_rows in fb,
  s_bitmap or the static array bmp of display_text in bmp, s_bitmap_len in bmp_len), the
  tape of future readings of the busy line and the output so far.
\<close>

section \<open>Events and device state\<close>

datatype gpio_func = GPIO_FUNC_SPI | GPIO_FUNC_I2C

datatype hw =
    Gpio nat bool                 \<comment> \<open>gpio_put, gpio_set_level\<close>
  | Spi "u8 list"                 \<comment> \<open>spi_write_blocking\<close>
  | SpiTx "u8 list"               \<comment> \<open>spi_device_polling_transmit: the bytes clocked out\<close>
  | I2c u8 "u8 list"              \<comment> \<open>i2c_write_blocking, i2c_master_write_to_device\<close>
  | Delay u32                     \<comment> \<open>sleep_ms, vTaskDelay(pdMS_TO_TICKS(..))\<close>
  | GpioFunc nat gpio_func
  | GpioInit nat
  | GpioDir nat bool
  | GpioPullUp nat
  | SpiInit u32
  | I2cInit u32
  | GpioConfig "64 word" bool     \<comment> \<open>gpio_config: pin_bit_mask, output mode\<close>
  | SpiBus nat nat                \<comment> \<open>spi_bus_initialize: MOSI and SCLK pins\<close>
  | SpiDevice u32 "nat option"    \<comment> \<open>spi_bus_add_device: clock, CS pin (None for -1)\<close>
  | I2cConfig nat nat u32         \<comment> \<open>i2c_param_config: SDA, SCL, clock\<close>
  | I2cInstall

record dev =
  fb :: "u8 list"
  bmp :: "u8 list"
  bmp_len :: int
  busy_in :: "bool list"
  out :: "hw list"

definition emit :: "hw list \<Rightarrow> dev \<Rightarrow> dev" where
  "emit es s = s\<lparr>out := out s @ es\<rparr>"

lemma emit_Nil [simp]: "emit [] s = s"
  by (simp add: emit_def)

lemma emit_emit [simp]: "emit b (emit a s) = emit (a @ b) s"
  by (simp add: emit_def)

lemma emit_fields [simp]:
  "fb (emit es s) = fb s" "bmp (emit es s) = bmp s" "bmp_len (emit es s) = bmp_len s"
  "busy_in (emit es s) = busy_in s" "out (emit es s) = out s @ es"
  by (simp_all add: emit_def)

lemma emit_update [simp]:
  "(emit es s)\<lparr>fb := v\<rparr> = emit es (s\<lparr>fb := v\<rparr>)"
  "(emit es s)\<lparr>bmp := w\<rparr> = emit es (s\<lparr>bmp := w\<rparr>)"
  "(emit es s)\<lparr>bmp_len := n\<rparr> = emit es (s\<lparr>bmp_len := n\<rparr>)"
  "(emit es s)\<lparr>busy_in := b\<rparr> = emit es (s\<lparr>busy_in := b\<rparr>)"
  by (simp_all add: emit_def)

text \<open>A loop whose body only emits.\<close>

lemma for_each_emit:
  assumes "\<And>x t. x \<in> set xs \<Longrightarrow> fb t = fb s \<Longrightarrow> bmp t = bmp s \<Longrightarrow> bmp_len t = bmp_len s \<Longrightarrow>
    f x t = Some (emit (g x) t)"
  shows "for_each xs f s = Some (emit (concat (map g xs)) s)"
  using assms
proof (induction xs arbitrary: s)
  case Nil
  then show ?case by simp
next
  case (Cons x xs)
  then have "f x s = Some (emit (g x) s)" by simp
  moreover have "for_each xs f (emit (g x) s) = Some (emit (concat (map g xs)) (emit (g x) s))"
    by (rule Cons.IH) (simp add: Cons.prems)
  ultimately show ?case by simp
qed

text \<open>A loop whose body runs a list of steps, each with its events.\<close>

lemma for_each_steps:
  assumes "\<And>x t. f x t = Some (emit (concat (map ev (g x))) t)"
  shows "for_each xs f s = Some (emit (concat (map ev (concat (map g xs)))) s)"
  by (induction xs arbitrary: s) (simp_all add: assms)

text \<open>A counted loop that emits the same events each time.\<close>

lemma for_each_repeat:
  assumes "\<And>i t. f i t = Some (emit g t)"
  shows "for_each [0..int n - 1] f s = Some (emit (concat (replicate n g)) s)"
proof -
  have "for_each [0..int n - 1] f s = Some (emit (concat (map (\<lambda>_. g) [0..int n - 1])) s)"
    by (rule for_each_emit) (rule assms)
  then show ?thesis by (simp add: map_replicate_const)
qed

lemma fold_emit: "(\<And>x t. f x t = emit (g x) t) \<Longrightarrow> fold f xs s = emit (concat (map g xs)) s"
  by (induction xs arbitrary: s) simp_all

text \<open>A function that delays by a number of milliseconds, sleep_ms or vTaskDelay.\<close>

type_synonym delay = "u32 \<Rightarrow> dev \<Rightarrow> dev"

section \<open>pico-sdk\<close>

definition gpio_put :: "nat \<Rightarrow> bool \<Rightarrow> dev \<Rightarrow> dev" where
  "gpio_put pin v = emit [Gpio pin v]"

definition spi_write_blocking :: "u8 list \<Rightarrow> dev \<Rightarrow> dev" where
  "spi_write_blocking bs = emit [Spi bs]"

definition i2c_write_blocking :: "u8 \<Rightarrow> u8 list \<Rightarrow> dev \<Rightarrow> dev" where
  "i2c_write_blocking addr bs = emit [I2c addr bs]"

definition sleep_ms :: "u32 \<Rightarrow> dev \<Rightarrow> dev" where
  "sleep_ms n = emit [Delay n]"

text \<open>gpio_init, gpio_set_dir(.., GPIO_OUT) and gpio_put of a pin, as every SPI driver does.\<close>

definition gpio_out_pin :: "nat \<Rightarrow> bool \<Rightarrow> hw list" where
  "gpio_out_pin pin v = [GpioInit pin, GpioDir pin True, Gpio pin v]"

section \<open>ESP-IDF\<close>

definition gpio_set_level :: "nat \<Rightarrow> bool \<Rightarrow> dev \<Rightarrow> dev" where
  "gpio_set_level pin v = emit [Gpio pin v]"

text \<open>
  A polling transaction of a number of bits from a buffer: the driver reads that many bits,
  which is undefined when the buffer is shorter.
\<close>

definition spi_device_polling_transmit :: "int \<Rightarrow> u8 list \<Rightarrow> dev \<Rightarrow> dev option" where
  "spi_device_polling_transmit bits buf s =
     (if 0 \<le> bits \<and> bits mod 8 = 0 \<and> bits div 8 \<le> int (length buf)
      then Some (emit [SpiTx (take (nat (bits div 8)) buf)] s) else None)"

lemma spi_transmit_all [simp]:
  "bits = 8 * int (length buf) \<Longrightarrow> spi_device_polling_transmit bits buf s = Some (emit [SpiTx buf] s)"
  by (simp add: spi_device_polling_transmit_def)

definition i2c_master_write_to_device :: "u8 \<Rightarrow> u8 list \<Rightarrow> dev \<Rightarrow> dev" where
  "i2c_master_write_to_device addr bs = emit [I2c addr bs]"

definition vTaskDelay_ms :: "u32 \<Rightarrow> dev \<Rightarrow> dev" where
  "vTaskDelay_ms n = emit [Delay n]"

lemmas hw_ops = gpio_put_def spi_write_blocking_def i2c_write_blocking_def sleep_ms_def
  gpio_set_level_def i2c_master_write_to_device_def vTaskDelay_ms_def

declare hw_ops [cstep]

section \<open>Pin assignment of the ESP32 builds (config.h)\<close>

datatype chip = ESP32S2_S3 | ESP32_RISCV | ESP32_CLASSIC

record pins =
  SPI_MOSI_PIN :: nat
  SPI_CLK_PIN :: nat
  SPI_CS_PIN :: nat
  SPI_DC_PIN :: nat
  SPI_RST_PIN :: nat
  SPI_BUSY_PIN :: nat
  I2C_SDA_PIN :: nat
  I2C_SCL_PIN :: nat

fun chip_pins :: "chip \<Rightarrow> pins" where
  "chip_pins ESP32S2_S3 = \<lparr>SPI_MOSI_PIN = 35, SPI_CLK_PIN = 36, SPI_CS_PIN = 34, SPI_DC_PIN = 37,
     SPI_RST_PIN = 38, SPI_BUSY_PIN = 33, I2C_SDA_PIN = 8, I2C_SCL_PIN = 9\<rparr>"
| "chip_pins ESP32_RISCV = \<lparr>SPI_MOSI_PIN = 7, SPI_CLK_PIN = 6, SPI_CS_PIN = 10, SPI_DC_PIN = 3,
     SPI_RST_PIN = 4, SPI_BUSY_PIN = 5, I2C_SDA_PIN = 8, I2C_SCL_PIN = 9\<rparr>"
| "chip_pins ESP32_CLASSIC = \<lparr>SPI_MOSI_PIN = 23, SPI_CLK_PIN = 18, SPI_CS_PIN = 5, SPI_DC_PIN = 2,
     SPI_RST_PIN = 4, SPI_BUSY_PIN = 15, I2C_SDA_PIN = 21, I2C_SCL_PIN = 22\<rparr>"

text \<open>The output pins of a gpio_config mask (1ULL << pin) | ...\<close>

definition pin_mask :: "nat list \<Rightarrow> 64 word" where
  "pin_mask ps = foldr (\<lambda>p m. push_bit p 1 OR m) ps 0"

text \<open>
  The bus set-up the SPI drivers of the ESP32 share: the bus on the chip's MOSI and SCLK pins,
  then one device with the clock and chip select of the driver.
\<close>

definition esp32_spi_bus :: "pins \<Rightarrow> u32 \<Rightarrow> nat option \<Rightarrow> hw list" where
  "esp32_spi_bus p hz cs = [SpiBus (SPI_MOSI_PIN p) (SPI_CLK_PIN p), SpiDevice hz cs]"

definition esp32_i2c_bus :: "pins \<Rightarrow> hw list" where
  "esp32_i2c_bus p = [I2cConfig (I2C_SDA_PIN p) (I2C_SCL_PIN p) 400000, I2cInstall]"

section \<open>What a panel on an SPI bus sees\<close>

text \<open>
  The bytes clocked out, each with the level of the data/command line at that time. This is
  what a display controller on the bus receives.
\<close>

fun spi_stream :: "nat \<Rightarrow> bool \<Rightarrow> hw list \<Rightarrow> (bool \<times> u8) list" where
  "spi_stream dc l [] = []"
| "spi_stream dc l (Gpio n v # es) = spi_stream dc (if n = dc then v else l) es"
| "spi_stream dc l (Spi bs # es) = map (Pair l) bs @ spi_stream dc l es"
| "spi_stream dc l (SpiTx bs # es) = map (Pair l) bs @ spi_stream dc l es"
| "spi_stream dc l (_ # es) = spi_stream dc l es"

fun spi_level :: "nat \<Rightarrow> bool \<Rightarrow> hw list \<Rightarrow> bool" where
  "spi_level dc l [] = l"
| "spi_level dc l (Gpio n v # es) = spi_level dc (if n = dc then v else l) es"
| "spi_level dc l (_ # es) = spi_level dc l es"

lemma spi_stream_append [simp]:
  "spi_stream dc l (xs @ ys) = spi_stream dc l xs @ spi_stream dc (spi_level dc l xs) ys"
  by (induction dc l xs rule: spi_stream.induct) simp_all

lemma spi_level_append [simp]: "spi_level dc l (xs @ ys) = spi_level dc (spi_level dc l xs) ys"
  by (induction dc l xs rule: spi_level.induct) simp_all

text \<open>A list of event groups that do not depend on the level they start at.\<close>

lemma spi_stream_concat:
  "(\<And>x l. x \<in> set xs \<Longrightarrow> spi_stream dc l (g x) = h x) \<Longrightarrow>
   spi_stream dc l (concat (map g xs)) = concat (map h xs)"
  by (induction xs arbitrary: l) simp_all

end
