(* ===== verification/Messages.thy ===== *)
theory Messages
  imports Hardware C_Library Complex_Main
begin

text \<open>
  The messages of the server (json_parser.c, the same file on both platforms) and the OTA
  trigger (ota.c). The cJSON library is a parameter; what the code relies on of it is the
  predicate parses. A message is turned into one call of display_text or of ota_trigger.
\<close>

section \<open>The cJSON library\<close>

text \<open>A double is a finite number or not; a conversion to int truncates and must fit.\<close>

datatype c_double = Finite rat | Not_finite

definition int_of_double :: "c_double \<Rightarrow> int option" where
  "int_of_double d =
    (case d of Finite r \<Rightarrow> c_int (if r < 0 then \<lceil>r\<rceil> else \<lfloor>r\<rfloor>) | Not_finite \<Rightarrow> None)"

text \<open>The result None of the first two operations is the null pointer.\<close>

record 'j cjson_api =
  cJSON_Parse :: "string \<Rightarrow> 'j option"
  cJSON_GetObjectItemCaseSensitive :: "'j \<Rightarrow> string \<Rightarrow> 'j option"
  is_string_item :: "'j \<Rightarrow> bool"
  is_number_item :: "'j \<Rightarrow> bool"
  valuestring :: "'j \<Rightarrow> string"
  valuedouble :: "'j \<Rightarrow> c_double"

text \<open>cJSON_IsString and cJSON_IsNumber are false of the null pointer.\<close>

definition cJSON_IsString :: "'j cjson_api \<Rightarrow> 'j option \<Rightarrow> bool" where
  "cJSON_IsString api item = (case item of None \<Rightarrow> False | Some j \<Rightarrow> is_string_item api j)"

definition cJSON_IsNumber :: "'j cjson_api \<Rightarrow> 'j option \<Rightarrow> bool" where
  "cJSON_IsNumber api item = (case item of None \<Rightarrow> False | Some j \<Rightarrow> is_number_item api j)"

section \<open>The message handler\<close>

type_synonym 's display = "string \<Rightarrow> string \<Rightarrow> int \<Rightarrow> int \<Rightarrow> int \<Rightarrow> 's \<Rightarrow> 's option"

definition string_or :: "'j cjson_api \<Rightarrow> 'j option \<Rightarrow> string \<Rightarrow> string" where
  "string_or api item dflt =
     (if cJSON_IsString api item then valuestring api (the item) else dflt)"

definition int_or :: "'j cjson_api \<Rightarrow> 'j option \<Rightarrow> int \<Rightarrow> int option" where
  "int_or api item dflt =
     (if cJSON_IsNumber api item then int_of_double (valuedouble api (the item)) else Some dflt)"

definition parse_message ::
    "'j cjson_api \<Rightarrow> ('s \<Rightarrow> 's) \<Rightarrow> 's display \<Rightarrow> string \<Rightarrow> 's \<Rightarrow> 's option" where
  "parse_message api ota_trigger display_text data s =
    (case cJSON_Parse api (c_str data) of
       None \<Rightarrow> Some s
     | Some obj \<Rightarrow>
         (let item = cJSON_GetObjectItemCaseSensitive api obj;
              cmd = item ''command''
          in if cJSON_IsString api cmd \<and> c_streq (valuestring api (the cmd)) ''ota''
             then Some (ota_trigger s)
             else do {
               let text_s = string_or api (item ''text'') '''';
               let effect = string_or api (item ''effect'') ''SCROLL'';
               speed \<leftarrow> int_or api (item ''speed'') 50;
               blink_period \<leftarrow> int_or api (item ''blinkPeriod'') 500;
               fade_steps \<leftarrow> int_or api (item ''fadeSteps'') 8;
               display_text text_s effect speed blink_period fade_steps s
             }))"

section \<open>The two platforms\<close>

text \<open>
  The state of the running firmware: the display device, and the requests to reboot or to log.
  The Pico's ota_trigger depends on whether the picowota boot loader is built in; the ESP32's
  only logs.
\<close>

datatype sys_call =
    Picowota_reboot bool
  | Watchdog_reboot u32 u32 u32
  | Log_info string string

record app =
  screen :: dev
  sys_calls :: "sys_call list"

definition pico_ota_trigger :: "bool \<Rightarrow> app \<Rightarrow> app" where
  "pico_ota_trigger picowota s =
     s\<lparr>sys_calls := sys_calls s @ [if picowota then Picowota_reboot True else Watchdog_reboot 0 0 10]\<rparr>"

definition esp32_ota_trigger :: "app \<Rightarrow> app" where
  "esp32_ota_trigger s = s\<lparr>sys_calls := sys_calls s @ [Log_info ''ota''
     (''OTA triggered '' @ [CHR 0xE2, CHR 0x80, CHR 0x94] @ '' reboot into OTA partition not yet implemented'')]\<rparr>"

text \<open>A driver's display_text as a call of the running firmware.\<close>

definition on_screen :: "dev display \<Rightarrow> app display" where
  "on_screen dt text_s effect speed blink fade s =
     do { d \<leftarrow> dt text_s effect speed blink fade (screen s); Some (s\<lparr>screen := d\<rparr>) }"

definition pico_parse_message :: "'j cjson_api \<Rightarrow> bool \<Rightarrow> dev display \<Rightarrow> string \<Rightarrow> app \<Rightarrow> app option" where
  "pico_parse_message api picowota dt = parse_message api (pico_ota_trigger picowota) (on_screen dt)"

definition esp32_parse_message :: "'j cjson_api \<Rightarrow> dev display \<Rightarrow> string \<Rightarrow> app \<Rightarrow> app option" where
  "esp32_parse_message api dt = parse_message api esp32_ota_trigger (on_screen dt)"

section \<open>Specification\<close>

text \<open>
  The members of a JSON object, and what the code relies on of cJSON for one: it parses, and
  looking up a name gives an item of the member's kind with its value, or the null pointer.
\<close>

datatype jvalue = JString string | JNumber c_double | JOther

definition item_is :: "'j cjson_api \<Rightarrow> 'j option \<Rightarrow> jvalue option \<Rightarrow> bool" where
  "item_is api item v =
    (case (item, v) of
       (None, None) \<Rightarrow> True
     | (Some j, Some (JString s)) \<Rightarrow> is_string_item api j \<and> \<not> is_number_item api j \<and> valuestring api j = s
     | (Some j, Some (JNumber d)) \<Rightarrow> is_number_item api j \<and> \<not> is_string_item api j \<and> valuedouble api j = d
     | (Some j, Some JOther) \<Rightarrow> \<not> is_string_item api j \<and> \<not> is_number_item api j
     | _ \<Rightarrow> False)"

definition parses :: "'j cjson_api \<Rightarrow> string \<Rightarrow> (string \<Rightarrow> jvalue option) \<Rightarrow> bool" where
  "parses api data members =
    (\<exists>obj. cJSON_Parse api data = Some obj \<and>
       (\<forall>k. item_is api (cJSON_GetObjectItemCaseSensitive api obj k) (members k)))"

datatype message = Ota | Show string string int int int

definition text_field :: "jvalue option \<Rightarrow> string \<Rightarrow> string" where
  "text_field v d = (case v of Some (JString s) \<Rightarrow> s | _ \<Rightarrow> d)"

definition number_field :: "jvalue option \<Rightarrow> int \<Rightarrow> int option" where
  "number_field v d = (case v of Some (JNumber x) \<Rightarrow> int_of_double x | _ \<Rightarrow> Some d)"

text \<open>The message an object denotes; None when a number it uses is no int.\<close>

definition message_of :: "(string \<Rightarrow> jvalue option) \<Rightarrow> message option" where
  "message_of members =
    (if c_streq (text_field (members ''command'') []) ''ota'' then Some Ota
     else do {
       speed \<leftarrow> number_field (members ''speed'') 50;
       blink \<leftarrow> number_field (members ''blinkPeriod'') 500;
       fade \<leftarrow> number_field (members ''fadeSteps'') 8;
       Some (Show (text_field (members ''text'') []) (text_field (members ''effect'') ''SCROLL'') speed blink fade)
     })"

lemma string_or_field: "item_is api item v \<Longrightarrow> string_or api item d = text_field v d"
  by (auto simp: item_is_def string_or_def text_field_def cJSON_IsString_def split: option.splits jvalue.splits)

lemma int_or_field: "item_is api item v \<Longrightarrow> int_or api item d = number_field v d"
  by (auto simp: item_is_def int_or_def number_field_def cJSON_IsNumber_def split: option.splits jvalue.splits)

lemma is_ota_field:
  "item_is api item v \<Longrightarrow>
   (cJSON_IsString api item \<and> c_streq (valuestring api (the item)) ''ota'') = c_streq (text_field v []) ''ota''"
  by (auto simp: item_is_def text_field_def cJSON_IsString_def c_streq_def c_str_def
      split: option.splits jvalue.splits)

lemma parse_message_fields:
  assumes "parses api (c_str data) members"
  shows "parse_message api ota dt data s =
    (case message_of members of
       None \<Rightarrow> None
     | Some Ota \<Rightarrow> Some (ota s)
     | Some (Show t e sp bl fa) \<Rightarrow> dt t e sp bl fa s)"
proof -
  obtain obj where obj: "cJSON_Parse api (c_str data) = Some obj"
    "\<And>k. item_is api (cJSON_GetObjectItemCaseSensitive api obj k) (members k)"
    using assms by (auto simp: parses_def)
  note members = is_ota_field[OF obj(2)] string_or_field[OF obj(2)] int_or_field[OF obj(2)]
  show ?thesis
    by (simp add: parse_message_def obj(1) Let_def members message_of_def split: option.splits bind_split)
qed

lemma parse_message_invalid:
  "cJSON_Parse api (c_str data) = None \<Longrightarrow> parse_message api ota dt data s = Some s"
  by (simp add: parse_message_def)

section \<open>The display interface (common/display.h)\<close>

text \<open>
  What the message handler relies on of a driver: from a well-formed device, for a text whose
  width in pixels is an int and a number of fade steps that does not overflow the intensity,
  display_text returns with the device well-formed and the driver's script sent.
\<close>

definition shows_limits :: "string \<Rightarrow> int \<Rightarrow> bool" where
  "shows_limits str fade \<longleftrightarrow> c_strlen str \<le> 357913941 \<and> fade \<le> 143165577"

locale display_driver =
  fixes dt :: "dev display" and wf :: "dev \<Rightarrow> bool"
    and sent :: "string \<Rightarrow> string \<Rightarrow> int \<Rightarrow> int \<Rightarrow> int \<Rightarrow> hw list"
  assumes shows_script: "wf d \<Longrightarrow> shows_limits str fade \<Longrightarrow>
    \<exists>d'. dt str effect speed blink fade d = Some d' \<and> wf d' \<and> out d' = out d @ sent str effect speed blink fade"
begin

lemma on_screen_shows:
  assumes "wf (screen s)" "shows_limits str fade"
  shows "\<exists>t. on_screen dt str effect speed blink fade s = Some t \<and> wf (screen t) \<and>
    sys_calls t = sys_calls s \<and> out (screen t) = out (screen s) @ sent str effect speed blink fade"
  using shows_script[OF assms, of effect speed blink] by (auto simp: on_screen_def)

text \<open>One message, on a platform with its own OTA trigger.\<close>

lemma message_shows:
  assumes "wf (screen s)" "parses api (c_str data) members"
    and "message_of members = Some (Show str effect speed blink fade)" "shows_limits str fade"
  shows "\<exists>t. parse_message api ota (on_screen dt) data s = Some t \<and> wf (screen t) \<and>
    sys_calls t = sys_calls s \<and> out (screen t) = out (screen s) @ sent str effect speed blink fade"
  using on_screen_shows[OF assms(1,4), of effect speed blink] assms(3)
  by (simp add: parse_message_fields[OF assms(2)])

lemma message_ota:
  assumes "parses api (c_str data) members" "message_of members = Some Ota"
  shows "parse_message api ota (on_screen dt) data s = Some (ota s)"
  using assms by (simp add: parse_message_fields)

end

end
