(* ===== verification/Font.thy ===== *)
theory Font
  imports Prelude
begin

text \<open>
  The 5 by 8 font of firmware/common/font/font5x8.h: one row of five column bytes for each
  character from 0x20 on, bit r of a byte being the pixel of row r. All drivers look a
  character up in the same way, with the blank for characters outside the table.
\<close>

definition FONT_CHAR_WIDTH :: int where "FONT_CHAR_WIDTH = 5"

definition FONT_CHAR_GAP :: int where "FONT_CHAR_GAP = 1"

definition FONT_TABLE_SIZE :: int where "FONT_TABLE_SIZE = 96"

definition font5x8 :: "u8 list list" where
  "font5x8 =
  [[0x00, 0x00, 0x00, 0x00, 0x00],
   [0x00, 0x00, 0x5F, 0x00, 0x00],
   [0x00, 0x07, 0x00, 0x07, 0x00],
   [0x14, 0x7F, 0x14, 0x7F, 0x14],
   [0x24, 0x2A, 0x7F, 0x2A, 0x12],
   [0x23, 0x13, 0x08, 0x64, 0x62],
   [0x36, 0x49, 0x55, 0x22, 0x50],
   [0x00, 0x05, 0x03, 0x00, 0x00],
   [0x00, 0x1C, 0x22, 0x41, 0x00],
   [0x00, 0x41, 0x22, 0x1C, 0x00],
   [0x14, 0x08, 0x3E, 0x08, 0x14],
   [0x08, 0x08, 0x3E, 0x08, 0x08],
   [0x00, 0x50, 0x30, 0x00, 0x00],
   [0x08, 0x08, 0x08, 0x08, 0x08],
   [0x00, 0x60, 0x60, 0x00, 0x00],
   [0x20, 0x10, 0x08, 0x04, 0x02],
   [0x3E, 0x51, 0x49, 0x45, 0x3E],
   [0x00, 0x42, 0x7F, 0x40, 0x00],
   [0x62, 0x51, 0x49, 0x49, 0x46],
   [0x22, 0x41, 0x49, 0x49, 0x36],
   [0x18, 0x14, 0x12, 0x7F, 0x10],
   [0x27, 0x45, 0x45, 0x45, 0x39],
   [0x3C, 0x4A, 0x49, 0x49, 0x30],
   [0x01, 0x71, 0x09, 0x05, 0x03],
   [0x36, 0x49, 0x49, 0x49, 0x36],
   [0x06, 0x49, 0x49, 0x29, 0x1E],
   [0x00, 0x36, 0x36, 0x00, 0x00],
   [0x00, 0x56, 0x36, 0x00, 0x00],
   [0x08, 0x14, 0x22, 0x41, 0x00],
   [0x14, 0x14, 0x14, 0x14, 0x14],
   [0x00, 0x41, 0x22, 0x14, 0x08],
   [0x02, 0x01, 0x51, 0x09, 0x06],
   [0x32, 0x49, 0x79, 0x41, 0x3E],
   [0x7E, 0x11, 0x11, 0x11, 0x7E],
   [0x7F, 0x49, 0x49, 0x49, 0x36],
   [0x3E, 0x41, 0x41, 0x41, 0x22],
   [0x7F, 0x41, 0x41, 0x22, 0x1C],
   [0x7F, 0x49, 0x49, 0x49, 0x41],
   [0x7F, 0x09, 0x09, 0x09, 0x01],
   [0x3E, 0x41, 0x49, 0x49, 0x7A],
   [0x7F, 0x08, 0x08, 0x08, 0x7F],
   [0x00, 0x41, 0x7F, 0x41, 0x00],
   [0x20, 0x40, 0x41, 0x3F, 0x01],
   [0x7F, 0x08, 0x14, 0x22, 0x41],
   [0x7F, 0x40, 0x40, 0x40, 0x40],
   [0x7F, 0x02, 0x0C, 0x02, 0x7F],
   [0x7F, 0x04, 0x08, 0x10, 0x7F],
   [0x3E, 0x41, 0x41, 0x41, 0x3E],
   [0x7F, 0x09, 0x09, 0x09, 0x06],
   [0x3E, 0x41, 0x51, 0x21, 0x5E],
   [0x7F, 0x09, 0x19, 0x29, 0x46],
   [0x26, 0x49, 0x49, 0x49, 0x32],
   [0x01, 0x01, 0x7F, 0x01, 0x01],
   [0x3F, 0x40, 0x40, 0x40, 0x3F],
   [0x1F, 0x20, 0x40, 0x20, 0x1F],
   [0x3F, 0x40, 0x38, 0x40, 0x3F],
   [0x63, 0x14, 0x08, 0x14, 0x63],
   [0x03, 0x04, 0x78, 0x04, 0x03],
   [0x61, 0x51, 0x49, 0x45, 0x43],
   [0x00, 0x7F, 0x41, 0x41, 0x00],
   [0x02, 0x04, 0x08, 0x10, 0x20],
   [0x00, 0x41, 0x41, 0x7F, 0x00],
   [0x04, 0x02, 0x01, 0x02, 0x04],
   [0x40, 0x40, 0x40, 0x40, 0x40],
   [0x00, 0x01, 0x02, 0x04, 0x00],
   [0x20, 0x54, 0x54, 0x54, 0x78],
   [0x7F, 0x48, 0x44, 0x44, 0x38],
   [0x38, 0x44, 0x44, 0x44, 0x20],
   [0x38, 0x44, 0x44, 0x48, 0x7F],
   [0x38, 0x54, 0x54, 0x54, 0x18],
   [0x08, 0x7E, 0x09, 0x01, 0x02],
   [0x0C, 0x52, 0x52, 0x52, 0x3E],
   [0x7F, 0x08, 0x04, 0x04, 0x78],
   [0x00, 0x44, 0x7D, 0x40, 0x00],
   [0x20, 0x40, 0x44, 0x3D, 0x00],
   [0x7F, 0x10, 0x28, 0x44, 0x00],
   [0x00, 0x41, 0x7F, 0x40, 0x00],
   [0x7C, 0x04, 0x18, 0x04, 0x78],
   [0x7C, 0x08, 0x04, 0x04, 0x78],
   [0x38, 0x44, 0x44, 0x44, 0x38],
   [0x7C, 0x14, 0x14, 0x14, 0x08],
   [0x08, 0x14, 0x14, 0x18, 0x7C],
   [0x7C, 0x08, 0x04, 0x04, 0x08],
   [0x48, 0x54, 0x54, 0x54, 0x20],
   [0x04, 0x3F, 0x44, 0x40, 0x20],
   [0x3C, 0x40, 0x40, 0x20, 0x7C],
   [0x1C, 0x20, 0x40, 0x20, 0x1C],
   [0x3C, 0x40, 0x30, 0x40, 0x3C],
   [0x44, 0x28, 0x10, 0x28, 0x44],
   [0x0C, 0x50, 0x50, 0x50, 0x3C],
   [0x44, 0x64, 0x54, 0x4C, 0x44],
   [0x00, 0x08, 0x36, 0x41, 0x00],
   [0x00, 0x00, 0x7F, 0x00, 0x00],
   [0x00, 0x41, 0x36, 0x08, 0x00],
   [0x10, 0x08, 0x08, 0x10, 0x08],
   [0x78, 0x46, 0x41, 0x46, 0x78]]"

text \<open>The table index of a character: c - 0x20, or 0 when that is outside the table.\<close>

definition font_idx :: "char \<Rightarrow> int" where
  "font_idx c = (let fi = of_char c - 0x20 in if fi < 0 \<or> fi \<ge> FONT_TABLE_SIZE then 0 else fi)"

text \<open>The access font5x8[fi][col].\<close>

definition font_byte :: "int \<Rightarrow> int \<Rightarrow> u8 option" where
  "font_byte fi col = do { row \<leftarrow> arr_get font5x8 fi; arr_get row col }"

section \<open>Glyphs\<close>

definition glyph :: "char \<Rightarrow> u8 list" where
  "glyph c = font5x8 ! nat (font_idx c)"

lemma length_font5x8 [simp]: "length font5x8 = 96"
  by (simp add: font5x8_def)

lemma font5x8_rows: "list_all (\<lambda>r. length r = 5) font5x8"
  by (simp add: font5x8_def)

lemma font_idx_range: "0 \<le> font_idx c" "font_idx c < 96"
  by (auto simp: font_idx_def Let_def FONT_TABLE_SIZE_def)

lemma length_glyph [simp]: "length (glyph c) = 5"
proof -
  have "glyph c \<in> set font5x8"
    unfolding glyph_def using font_idx_range[of c] by (intro nth_mem) simp
  then show ?thesis using font5x8_rows by (simp add: list_all_iff)
qed

lemma font_byte_glyph [cstep]:
  "0 \<le> col \<Longrightarrow> col < 5 \<Longrightarrow> font_byte (font_idx c) col = Some (glyph c ! nat col)"
proof -
  assume "0 \<le> col" "col < 5"
  moreover have "length (font5x8 ! nat (font_idx c)) = 5"
    using length_glyph[of c] by (simp add: glyph_def)
  ultimately show ?thesis
    using font_idx_range[of c] by (simp add: font_byte_def glyph_def)
qed

text \<open>The five columns of a glyph, read one after the other.\<close>

lemma glyph_columns: "map (\<lambda>k. glyph c ! nat (0 + int k)) [0..<5] = glyph c"
  by (rule nth_equalityI) simp_all

lemma glyph_outside: "of_char c < (32::int) \<or> 128 \<le> (of_char c :: int) \<Longrightarrow> glyph c = [0, 0, 0, 0, 0]"
  by (auto simp: glyph_def font_idx_def Let_def FONT_TABLE_SIZE_def font5x8_def)

end
