(* ===== verification/Text_Bitmap.thy ===== *)
theory Text_Bitmap
  imports Font
begin

text \<open>
  The text rendering the drivers share: the function build_text_bitmap (build_bitmap in some
  files), which turns a string into a row of column bytes, the reversal of a text for the
  REVERSE effect and the clamping of the speed argument. The code is repeated in each driver
  file; the drivers' theories instantiate it with their widths and buffer sizes.
\<close>

section \<open>The code\<close>

text \<open>The statement out[idx++] = b.\<close>

definition put_byte :: "u8 \<Rightarrow> u8 list \<times> int \<Rightarrow> (u8 list \<times> int) option" where
  "put_byte b p = (case p of (xs, idx) \<Rightarrow> do { xs \<leftarrow> arr_set xs idx b; Some (xs, idx + 1) })"

text \<open>
  The first loop: while characters are left and idx < lim, the five columns of the glyph
  and one blank column.
\<close>

fun render_chars :: "int \<Rightarrow> string \<Rightarrow> u8 list \<times> int \<Rightarrow> (u8 list \<times> int) option" where
  "render_chars lim [] p = Some p"
| "render_chars lim (c # cs) p =
     (if snd p < lim
      then do {
        let fi = font_idx c;
        p \<leftarrow> for_each [0..FONT_CHAR_WIDTH - 1] (\<lambda>col p. do { b \<leftarrow> font_byte fi col; put_byte b p }) p;
        p \<leftarrow> put_byte 0x00 p;
        render_chars lim cs p
      }
      else Some p)"

text \<open>The second loop: up to n blank columns, while idx < lim.\<close>

fun pad_zeros :: "nat \<Rightarrow> int \<Rightarrow> u8 list \<times> int \<Rightarrow> (u8 list \<times> int) option" where
  "pad_zeros 0 lim p = Some p"
| "pad_zeros (Suc n) lim p =
     (if snd p < lim then do { p \<leftarrow> put_byte 0x00 p; pad_zeros n lim p } else Some p)"

text \<open>
  build_text_bitmap(text, out, max_bytes) of a display of the given width; the result is
  the buffer and the number of columns written.
\<close>

definition build_text_bitmap :: "nat \<Rightarrow> string \<Rightarrow> u8 list \<Rightarrow> int \<Rightarrow> (u8 list \<times> int) option" where
  "build_text_bitmap width text xs max_bytes = do {
     p \<leftarrow> render_chars (max_bytes - (FONT_CHAR_WIDTH + 1)) (c_str text) (xs, 0);
     pad_zeros width max_bytes p
   }"

definition clamp_speed :: "int \<Rightarrow> int" where
  "clamp_speed s = (if s < 1 then 1 else if s > 5000 then 5000 else s)"

text \<open>
  The local array rev of the REVERSE effect: char rev[128], the loop that fills its first
  copy_len characters from the end of that prefix of the text, and the terminator. The initial
  contents of the array are unspecified in C and are a parameter here.
\<close>

definition reverse_text :: "string \<Rightarrow> string \<Rightarrow> string option" where
  "reverse_text rev0 text = do {
     let len = int_of_size (c_strlen text);
     let copy_len = (if len < 127 then len else 127);
     r \<leftarrow> for_each [0..copy_len - 1]
       (\<lambda>i r. do { c \<leftarrow> arr_get (c_str text) (copy_len - 1 - i); arr_set r i c }) rev0;
     arr_set r copy_len NUL
   }"

text \<open>The stack array as one run of the code finds it.\<close>

definition stack_rev :: string where
  "stack_rev = replicate 128 NUL"

section \<open>Specification: the columns of a text\<close>

definition text_cols :: "string \<Rightarrow> u8 list" where
  "text_cols cs = concat (map (\<lambda>c. glyph c @ [0]) cs)"

text \<open>The number of characters that start below the limit, six columns each.\<close>

definition chars_below :: "int \<Rightarrow> nat" where
  "chars_below lim = nat ((lim + 5) div 6)"

text \<open>
  The bitmap of a text: the columns of as many characters as fit, then blanks, as many as
  the display is wide but no more than the buffer holds.
\<close>

definition bitmap_cols :: "int \<Rightarrow> nat \<Rightarrow> nat \<Rightarrow> string \<Rightarrow> u8 list" where
  "bitmap_cols lim width cap text =
     (let cols = text_cols (take (chars_below lim) (c_str text))
      in cols @ replicate (min width (cap - length cols)) 0)"

lemma length_text_cols [simp]: "length (text_cols cs) = 6 * length cs"
  by (induction cs) (simp_all add: text_cols_def)

lemma text_cols_simps [simp]:
  "text_cols [] = []" "text_cols (c # cs) = glyph c @ 0 # text_cols cs"
  by (simp_all add: text_cols_def)

lemma text_cols_append: "text_cols (xs @ ys) = text_cols xs @ text_cols ys"
  by (simp add: text_cols_def)

text \<open>The column of a bitmap at an index, blank after its end.\<close>

definition column :: "u8 list \<Rightarrow> nat \<Rightarrow> u8" where
  "column b i = (if i < length b then b ! i else 0)"

text \<open>The read (i < len) ? bmp[i] : 0 of the drivers.\<close>

lemma read_column:
  assumes "take (length b) xs = b" and "0 \<le> i"
  shows "(if i < int (length b) then arr_get xs i else Some 0) = Some (column b (nat i))"
proof -
  have "length b \<le> length xs" using assms(1) by (metis length_take min.cobounded1)
  then show ?thesis
    using assms nth_take[of "nat i" "length b" xs] by (auto simp: column_def)
qed

text \<open>The pixel of a text at a column and a row of the glyphs; blank after the text.\<close>

definition text_bit :: "string \<Rightarrow> nat \<Rightarrow> nat \<Rightarrow> bool" where
  "text_bit cs col row = bit (column (text_cols cs) col) row"

lemma text_bit_Cons:
  "text_bit (c # cs) k r = (if k < 5 then bit (glyph c ! k) r else if k = 5 then False else text_bit cs (k - 6) r)"
  by (auto simp: text_bit_def column_def nth_append nth_Cons')

lemma text_bit_drop: "text_bit (drop k cs) j r = text_bit cs (6 * k + j) r"
proof (induction k arbitrary: cs)
  case (Suc k)
  then show ?case
  proof (cases cs)
    case Nil
    then show ?thesis by (simp add: text_bit_def column_def)
  next
    case (Cons c ds)
    with Suc[of ds] show ?thesis by (simp add: text_bit_Cons)
  qed
qed simp

lemma text_bit_gap: "text_bit cs (6 * k + 5) r = False"
proof -
  have "text_bit (drop k cs) 5 r = False"
    by (cases "drop k cs") (simp_all add: text_bit_Cons, simp add: text_bit_def column_def)
  then show ?thesis by (simp add: text_bit_drop)
qed

section \<open>The code meets the specification\<close>

lemma put_byte_app [cstep]:
  "ys \<noteq> [] \<Longrightarrow> n = int (length xs) \<Longrightarrow>
   put_byte b (xs @ ys, n) = Some ((xs @ [b]) @ tl ys, int (length (xs @ [b])))"
  by (cases ys) (simp_all add: put_byte_def)

lemma put_bytes_app:
  assumes "n \<le> length ys"
  shows "for_each [0..int n - 1] (\<lambda>k. put_byte (bs k)) (xs @ ys, int (length xs)) =
    Some ((xs @ map (\<lambda>k. bs (int k)) [0..<n]) @ drop n ys, int (length xs + n))"
  using assms
proof (induction n)
  case 0
  then show ?case by simp
next
  case (Suc n)
  have "[0..int (Suc n) - 1] = [0..int n - 1] @ [int n]"
    using upto_rec2[of 0 "int n"] by simp
  moreover have "drop n ys \<noteq> []" using Suc.prems by simp
  moreover have "tl (drop n ys) = drop (Suc n) ys" by (simp add: tl_drop drop_Suc)
  ultimately show ?case
    using Suc by (simp add: for_each_append put_byte_app del: append_assoc)
qed

lemma render_glyph:
  assumes "6 \<le> length ys"
  shows "for_each [0..FONT_CHAR_WIDTH - 1] (\<lambda>col p. do { b \<leftarrow> font_byte (font_idx c) col; put_byte b p })
      (xs @ ys, int (length xs)) =
    Some ((xs @ glyph c) @ drop 5 ys, int (length (xs @ glyph c)))"
proof -
  have "for_each [0..FONT_CHAR_WIDTH - 1] (\<lambda>col p. do { b \<leftarrow> font_byte (font_idx c) col; put_byte b p }) p =
      for_each [0..int 5 - 1] (\<lambda>k. put_byte (glyph c ! nat k)) p" for p
    unfolding FONT_CHAR_WIDTH_def
    by (simp del: for_each.simps, rule for_each_cong_on) (auto simp: font_byte_glyph)
  moreover have "map (\<lambda>k. glyph c ! nat (int k)) [0..<5] = glyph c"
    using glyph_columns[of c] by simp
  ultimately show ?thesis
    using put_bytes_app[of 5 ys "\<lambda>k. glyph c ! nat k" xs] assms by simp
qed

lemma chars_below_pos: "0 < lim \<Longrightarrow> chars_below lim = Suc (chars_below (lim - 6))"
  unfolding chars_below_def by linarith

lemma chars_below_nonpos: "lim \<le> 0 \<Longrightarrow> chars_below lim = 0"
  unfolding chars_below_def by linarith

lemma render_chars_app:
  assumes "lim + 5 \<le> int (length xs + length ys)"
  shows "render_chars lim cs (xs @ ys, int (length xs)) =
    (let t = text_cols (take (chars_below (lim - int (length xs))) cs)
     in Some ((xs @ t) @ drop (length t) ys, int (length (xs @ t))))"
  using assms
proof (induction cs arbitrary: xs ys)
  case Nil
  then show ?case by simp
next
  case (Cons c cs)
  show ?case
  proof (cases "int (length xs) < lim")
    case False
    then show ?thesis by (simp add: chars_below_nonpos)
  next
    case True
    with Cons.prems have len: "6 \<le> length ys" by simp
    let ?xs = "xs @ glyph c @ [0]" and ?ys = "drop 6 ys"
    have ne: "drop 5 ys \<noteq> []" using len by simp
    have tl: "tl (drop 5 ys) = ?ys" by (simp add: tl_drop drop_Suc [symmetric] numeral_eq_Suc)
    have put: "put_byte 0 ((xs @ glyph c) @ drop 5 ys, int (length (xs @ glyph c))) =
        Some (?xs @ ?ys, int (length ?xs))"
      using put_byte_app[OF ne refl, of 0 "xs @ glyph c"] tl by simp
    have fits: "lim + 5 \<le> int (length ?xs + length ?ys)" using Cons.prems len by simp
    have arg: "lim - int (length ?xs) = lim - int (length xs) - 6" by simp
    from True have "chars_below (lim - int (length xs)) = Suc (chars_below (lim - int (length ?xs)))"
      by (subst arg) (rule chars_below_pos, simp)
    with True show ?thesis
      using Cons.IH[OF fits] render_glyph[OF len, of c xs] put
      by (simp add: Let_def add.commute)
  qed
qed

lemma pad_zeros_app:
  assumes "int (length xs) + int m = lim \<or> m = 0 \<and> lim \<le> int (length xs)" and "m \<le> length ys"
  shows "pad_zeros n lim (xs @ ys, int (length xs)) =
    Some (xs @ replicate (min n m) 0 @ drop (min n m) ys, int (length xs + min n m))"
  using assms
proof (induction n arbitrary: xs ys m)
  case 0
  then show ?case by simp
next
  case (Suc n)
  show ?case
  proof (cases m)
    case 0
    with Suc.prems show ?thesis by auto
  next
    case (Suc k)
    with Suc.prems have ne: "ys \<noteq> []" and lt: "int (length xs) < lim" by auto
    from Suc Suc.prems ne have
      k: "int (length (xs @ [0 :: u8])) + int k = lim \<or> k = 0 \<and> lim \<le> int (length (xs @ [0 :: u8]))"
        "k \<le> length (tl ys)"
      by auto
    from Suc.IH[OF k] put_byte_app[OF ne refl, of 0 xs] lt Suc show ?thesis
      by (simp add: drop_Suc)
  qed
qed

lemma length_fitting: "0 \<le> lim + 5 \<Longrightarrow> int (6 * min n (chars_below lim)) \<le> lim + 5"
  unfolding chars_below_def by linarith

lemma length_bitmap_cols:
  "length (bitmap_cols lim width cap text) =
    (let n = 6 * min (c_strlen text) (chars_below lim) in n + min width (cap - n))"
  by (simp add: bitmap_cols_def Let_def c_strlen_def min.commute)

lemma build_bitmap_eq:
  assumes "0 \<le> lim + 5" and "lim + 5 \<le> int cap" and "cap \<le> length xs"
  shows "do { p \<leftarrow> render_chars lim (c_str text) (xs, 0); pad_zeros width (int cap) p } =
    (let b = bitmap_cols lim width cap text in Some (b @ drop (length b) xs, int (length b)))"
proof -
  define t where "t = text_cols (take (chars_below lim) (c_str text))"
  have r: "render_chars lim (c_str text) (xs, 0) = Some (t @ drop (length t) xs, int (length t))"
    using render_chars_app[of lim "[]" xs "c_str text"] assms by (simp add: Let_def t_def)
  have t: "length t \<le> cap"
    using length_fitting[OF assms(1), of "length (c_str text)"] assms(2) by (simp add: t_def)
  have "pad_zeros width (int cap) (t @ drop (length t) xs, int (length t)) =
    Some (t @ replicate (min width (cap - length t)) 0 @
      drop (min width (cap - length t)) (drop (length t) xs),
      int (length t + min width (cap - length t)))"
    using assms t by (intro pad_zeros_app) auto
  then show ?thesis
    by (simp add: r bitmap_cols_def Let_def t_def [symmetric] add.commute)
qed

lemma build_text_bitmap_eq [cstep]:
  assumes "1 \<le> cap" and "cap \<le> length xs"
  shows "build_text_bitmap width text xs (int cap) =
    (let b = bitmap_cols (int cap - 6) width cap text
     in Some (b @ drop (length b) xs, int (length b)))"
  using build_bitmap_eq[of "int cap - 6" cap xs "text" width] assms
  by (simp add: build_text_bitmap_def FONT_CHAR_WIDTH_def)

lemma clamp_speed_range: "1 \<le> clamp_speed s" "clamp_speed s \<le> 5000"
  by (simp_all add: clamp_speed_def)

section \<open>Reversal\<close>

text \<open>
  Whatever the stack held, the string in rev is the reversal of the first 127 characters.
\<close>

lemma reverse_text_eq [cstep]:
  assumes "length rev0 = 128" and "c_strlen text < 2147483648"
  shows "\<exists>junk. reverse_text rev0 text = Some (rev (take 127 (c_str text)) @ NUL # junk)"
proof -
  define n where "n = min 127 (c_strlen text)"
  define t where "t = take 127 (c_str text)"
  have lt: "length t = n" by (simp add: n_def t_def c_strlen_def min.commute)
  have n: "n \<le> 127" by (simp add: n_def)
  have cl: "(if int_of_size (c_strlen text) < 127 then int_of_size (c_strlen text) else 127) = int n"
    using assms(2) by (simp add: n_def)
  let ?body = "\<lambda>i r. do { c \<leftarrow> arr_get (c_str text) (int n - 1 - i); arr_set r i c }"
  have nth: "c_str text ! k = t ! k" if "k < n" for k
    using that n by (simp add: t_def)
  have len: "n \<le> length (c_str text)" by (simp add: n_def c_strlen_def)
  have "\<exists>r. for_each [0..int n - 1] ?body rev0 = Some r \<and>
      length r = 128 \<and> take n r = take n (rev t)"
  proof (rule for_upto_rule[where I = "\<lambda>k r. length r = 128 \<and> take k r = take k (rev t)"])
    show "length rev0 = 128 \<and> take 0 rev0 = take 0 (rev t)" using assms(1) by simp
  next
    fix k r assume k: "k < n" and I: "length r = 128 \<and> take k r = take k (rev t)"
    have ix: "int n - 1 - (0 + int k) = int (n - Suc k)" using k by simp
    have "arr_get (c_str text) (int n - 1 - (0 + int k)) = Some (t ! (n - Suc k))"
      unfolding ix using k len nth[of "n - Suc k"] by (simp add: arr_get_def del: of_nat_diff)
    moreover have "take (Suc k) (r[k := t ! (n - Suc k)]) = take (Suc k) (rev t)"
      using k I n lt by (simp add: take_Suc_conv_app_nth rev_nth)
    ultimately show "\<exists>u. ?body (0 + int k) r = Some u \<and>
        (length u = 128 \<and> take (Suc k) u = take (Suc k) (rev t))"
      using I k n by simp
  qed simp
  then obtain r where r: "for_each [0..int n - 1] ?body rev0 = Some r" "length r = 128"
      "take n r = rev t"
    using lt by auto
  have "r[n := NUL] = rev t @ NUL # drop (Suc n) r"
    using r(2,3) n by (simp add: upd_conv_take_nth_drop)
  then have "reverse_text rev0 text = Some (rev t @ NUL # drop (Suc n) r)"
    using r n by (simp add: reverse_text_def cl)
  then show ?thesis by (auto simp: t_def)
qed

lemma reverse_text_c_str:
  assumes "length rev0 = 128" and "c_strlen text < 2147483648"
  shows "\<exists>r. reverse_text rev0 text = Some r \<and> c_str r = rev (take 127 (c_str text))"
proof -
  from reverse_text_eq[OF assms] obtain junk where
    j: "reverse_text rev0 text = Some (rev (take 127 (c_str text)) @ NUL # junk)" ..
  have "NUL \<notin> set (rev (take 127 (c_str text)))"
    using c_str_no_nul[of "text"] in_set_takeD by fastforce
  then have "c_str (rev (take 127 (c_str text)) @ NUL # junk) = rev (take 127 (c_str text))"
    by (rule c_str_append_nul)
  with j show ?thesis by blast
qed

lemma length_stack_rev [simp]: "length stack_rev = 128"
  by (simp add: stack_rev_def)

end
