(* ===== verification/Max7219.thy ===== *)
theory Max7219
  imports Text_Bitmap Hardware
begin

text \<open>
  The MAX7219 driver (firmware/pico/src/driver/max7219.c, firmware/esp32/main/driver/max7219.c):
  a chain of NUM_DEVICES 8 by 8 LED matrices. The two files differ in how a chain buffer is
  sent (chip select by hand, or an SPI transaction) and in the delay call; both are
  parameters of the definitions, fixed by the two instances at the end. NUM_DEVICES is the
  parameter N, so the theorems hold for every chain length.
\<close>

section \<open>The code\<close>

definition REG_DECODE_MODE :: u8 where "REG_DECODE_MODE = 0x09"
definition REG_INTENSITY :: u8 where "REG_INTENSITY = 0x0A"
definition REG_SCAN_LIMIT :: u8 where "REG_SCAN_LIMIT = 0x0B"
definition REG_SHUTDOWN :: u8 where "REG_SHUTDOWN = 0x0C"
definition REG_DISPLAY_TEST :: u8 where "REG_DISPLAY_TEST = 0x0F"
definition REG_ROW_BASE :: u8 where "REG_ROW_BASE = 0x01"

definition MAX_BITMAP_LEN :: "nat \<Rightarrow> nat" where
  "MAX_BITMAP_LEN N = 256 + N * 8"

type_synonym latch = "u8 list \<Rightarrow> dev \<Rightarrow> dev option"

text \<open>max7219_send: one device of the chain, the others get a no-op.\<close>

definition max7219_send :: "latch \<Rightarrow> nat \<Rightarrow> u8 \<Rightarrow> u8 \<Rightarrow> int \<Rightarrow> dev \<Rightarrow> dev option" where
  "max7219_send latch N reg dat device_index s = do {
     let buf = replicate (N * 2) 0;
     buf \<leftarrow> arr_set buf (device_index * 2) reg;
     buf \<leftarrow> arr_set buf (device_index * 2 + 1) dat;
     latch buf s
   }"

text \<open>max7219_send_all (spi_write_reg on the ESP32): the same register of every device.\<close>

definition max7219_send_all :: "latch \<Rightarrow> nat \<Rightarrow> u8 \<Rightarrow> u8 \<Rightarrow> dev \<Rightarrow> dev option" where
  "max7219_send_all latch N reg dat s = do {
     buf \<leftarrow> for_each [0..int N - 1]
       (\<lambda>i buf. do { buf \<leftarrow> arr_set buf (i * 2) reg; arr_set buf (i * 2 + 1) dat })
       (replicate (N * 2) 0);
     latch buf s
   }"

definition max7219_display_clear :: "latch \<Rightarrow> nat \<Rightarrow> dev \<Rightarrow> dev option" where
  "max7219_display_clear latch N s =
     for_each [0..7] (\<lambda>row. max7219_send_all latch N (REG_ROW_BASE + word_of_int row) 0x00) s"

text \<open>The five register writes that end display_init.\<close>

definition max7219_setup :: "latch \<Rightarrow> nat \<Rightarrow> dev \<Rightarrow> dev option" where
  "max7219_setup latch N s = do {
     s \<leftarrow> max7219_send_all latch N REG_DISPLAY_TEST 0x00 s;
     s \<leftarrow> max7219_send_all latch N REG_DECODE_MODE 0x00 s;
     s \<leftarrow> max7219_send_all latch N REG_SCAN_LIMIT 0x07 s;
     s \<leftarrow> max7219_send_all latch N REG_INTENSITY 0x04 s;
     max7219_send_all latch N REG_SHUTDOWN 0x01 s
   }"

definition max7219_render_columns :: "latch \<Rightarrow> nat \<Rightarrow> int \<Rightarrow> dev \<Rightarrow> dev option" where
  "max7219_render_columns latch N offset s =
     for_each [0..7] (\<lambda>row s. do {
       buf \<leftarrow> for_each [0..int N - 1] (\<lambda>d buf. do {
         let col_idx = offset + (int N - 1 - d) * 8 + row;
         col_byte \<leftarrow> (if col_idx < bmp_len s then arr_get (bmp s) col_idx else Some 0);
         buf \<leftarrow> arr_set buf (d * 2) (REG_ROW_BASE + word_of_int row);
         arr_set buf (d * 2 + 1) col_byte
       }) (replicate (N * 2) 0);
       latch buf s
     }) s"

definition max7219_build_text_bitmap :: "nat \<Rightarrow> string \<Rightarrow> u8 list \<Rightarrow> (u8 list \<times> int) option" where
  "max7219_build_text_bitmap N text xs = do {
     p \<leftarrow> render_chars (int (MAX_BITMAP_LEN N) - (int N * 8 + 1)) (c_str text) (xs, 0);
     pad_zeros (N * 8) (int (MAX_BITMAP_LEN N)) p
   }"

text \<open>The statement s_bitmap_len = build_text_bitmap(text), which every effect starts with.\<close>

definition max7219_load_text :: "nat \<Rightarrow> string \<Rightarrow> dev \<Rightarrow> dev option" where
  "max7219_load_text N text s = do {
     (xs, n) \<leftarrow> max7219_build_text_bitmap N text (bmp s);
     Some (s\<lparr>bmp := xs, bmp_len := n\<rparr>)
   }"

text \<open>display_text: the effects, then the function with its argument checks.\<close>

definition max7219_effect ::
    "latch \<Rightarrow> (u32 \<Rightarrow> dev \<Rightarrow> dev) \<Rightarrow> nat \<Rightarrow> string \<Rightarrow> string \<Rightarrow> int \<Rightarrow> int \<Rightarrow> int \<Rightarrow> dev \<Rightarrow> dev option" where
  "max7219_effect latch delay N text effect speed_ms blink_period_ms fade_steps s =
    (let display_w = int N * 8 in
     if c_streq effect ''SCROLL'' then do {
       s \<leftarrow> max7219_load_text N text s;
       for_each [0..bmp_len s - display_w] (\<lambda>offset s. do {
         s \<leftarrow> max7219_render_columns latch N offset s;
         Some (delay (word_of_int speed_ms) s)
       }) s
     }
     else if c_streq effect ''BLINK'' then do {
       s \<leftarrow> max7219_load_text N text s;
       s \<leftarrow> max7219_render_columns latch N 0 s;
       for_each [0..5] (\<lambda>i s. do {
         let s = delay (word_of_int blink_period_ms) s;
         s \<leftarrow> max7219_send_all latch N REG_SHUTDOWN 0x00 s;
         let s = delay (word_of_int blink_period_ms) s;
         s \<leftarrow> max7219_send_all latch N REG_SHUTDOWN 0x01 s;
         max7219_render_columns latch N 0 s
       }) s
     }
     else if c_streq effect ''REVERSE'' then do {
       s \<leftarrow> max7219_load_text N text s;
       let rev_offset = (if bmp_len s > display_w then bmp_len s - display_w else 0);
       for_each (down_by rev_offset 0 1) (\<lambda>rev_offset s. do {
         s \<leftarrow> max7219_render_columns latch N rev_offset s;
         Some (delay (word_of_int speed_ms) s)
       }) s
     }
     else if c_streq effect ''FADE'' then do {
       s \<leftarrow> max7219_load_text N text s;
       s \<leftarrow> max7219_render_columns latch N 0 s;
       let dv = (if fade_steps > 1 then fade_steps - 1 else 1);
       let ramp = (\<lambda>step s. do {
         p \<leftarrow> c_int (step * 15);
         s \<leftarrow> max7219_send_all latch N REG_INTENSITY (word_of_int (p div dv)) s;
         Some (delay (word_of_int (speed_ms div fade_steps)) s)
       });
       s \<leftarrow> for_each [0..fade_steps - 1] ramp s;
       s \<leftarrow> for_each (down_by (fade_steps - 1) 0 1) ramp s;
       max7219_send_all latch N REG_INTENSITY 0x04 s
     }
     else do {
       s \<leftarrow> max7219_load_text N text s;
       s \<leftarrow> max7219_render_columns latch N 0 s;
       Some (delay 2000 s)
     })"

definition max7219_display_text ::
    "latch \<Rightarrow> (u32 \<Rightarrow> dev \<Rightarrow> dev) \<Rightarrow> nat \<Rightarrow> string \<Rightarrow> string \<Rightarrow> int \<Rightarrow> int \<Rightarrow> int \<Rightarrow> dev \<Rightarrow> dev option" where
  "max7219_display_text latch delay N text effect speed_ms blink_period_ms fade_steps s =
    (let speed_ms = (if speed_ms \<le> 0 then 1 else speed_ms);
         speed_ms = (if speed_ms > 5000 then 5000 else speed_ms);
         blink_period_ms = (if blink_period_ms \<le> 0 then 500 else blink_period_ms);
         fade_steps = (if fade_steps \<le> 0 then 8 else fade_steps)
     in max7219_effect latch delay N text effect speed_ms blink_period_ms fade_steps s)"

text \<open>The Pico build: chip select on GPIO 17 around a blocking write.\<close>

definition pico_max7219_latch :: latch where
  "pico_max7219_latch buf s =
     Some (gpio_put 17 True (spi_write_blocking buf (gpio_put 17 False s)))"

definition pico_max7219_display_init :: "nat \<Rightarrow> dev \<Rightarrow> dev option" where
  "pico_max7219_display_init N s =
     max7219_setup pico_max7219_latch N
       (emit ([SpiInit 10000000, GpioFunc 19 GPIO_FUNC_SPI, GpioFunc 18 GPIO_FUNC_SPI] @
              gpio_out_pin 17 True) s)"

definition pico_max7219_display_text ::
    "nat \<Rightarrow> string \<Rightarrow> string \<Rightarrow> int \<Rightarrow> int \<Rightarrow> int \<Rightarrow> dev \<Rightarrow> dev option" where
  "pico_max7219_display_text = max7219_display_text pico_max7219_latch sleep_ms"

text \<open>The ESP32 build: one polling transaction of NUM_DEVICES * 16 bits, chip select by the driver.\<close>

definition esp32_max7219_latch :: "nat \<Rightarrow> latch" where
  "esp32_max7219_latch N buf s = spi_device_polling_transmit (int N * 16) buf s"

definition esp32_max7219_display_init :: "pins \<Rightarrow> nat \<Rightarrow> dev \<Rightarrow> dev option" where
  "esp32_max7219_display_init p N s =
     max7219_setup (esp32_max7219_latch N) N
       (emit (esp32_spi_bus p 10000000 (Some (SPI_CS_PIN p))) s)"

definition esp32_max7219_display_text ::
    "nat \<Rightarrow> string \<Rightarrow> string \<Rightarrow> int \<Rightarrow> int \<Rightarrow> int \<Rightarrow> dev \<Rightarrow> dev option" where
  "esp32_max7219_display_text N = max7219_display_text (esp32_max7219_latch N) vTaskDelay_ms N"

text \<open>The ESP32's file has its own copies of the operations below.\<close>

definition esp32_max7219_display_clear :: "nat \<Rightarrow> dev \<Rightarrow> dev option" where
  "esp32_max7219_display_clear N = max7219_display_clear (esp32_max7219_latch N) N"

definition esp32_max7219_build_text_bitmap :: "nat \<Rightarrow> string \<Rightarrow> u8 list \<Rightarrow> (u8 list \<times> int) option" where
  "esp32_max7219_build_text_bitmap = max7219_build_text_bitmap"

definition esp32_max7219_render_columns :: "nat \<Rightarrow> int \<Rightarrow> dev \<Rightarrow> dev option" where
  "esp32_max7219_render_columns N = max7219_render_columns (esp32_max7219_latch N) N"

section \<open>Specification\<close>

text \<open>The bitmap of a text, its column at an index, and the buffer that shows row r of a window.\<close>

definition max_bitmap :: "nat \<Rightarrow> string \<Rightarrow> u8 list" where
  "max_bitmap N text = bitmap_cols 255 (N * 8) (MAX_BITMAP_LEN N) text"

definition chain_buf :: "nat \<Rightarrow> u8 list \<Rightarrow> nat \<Rightarrow> nat \<Rightarrow> u8 list" where
  "chain_buf N b off r =
     concat (map (\<lambda>d. [REG_ROW_BASE + of_nat r, column b (off + (N - 1 - d) * 8 + r)]) [0..<N])"

text \<open>What an effect does, as a list of steps: show a window, write a register, wait.\<close>

datatype max_step = Window nat | Register u8 u8 | Wait u32

definition max_effect_script :: "nat \<Rightarrow> string \<Rightarrow> string \<Rightarrow> int \<Rightarrow> int \<Rightarrow> int \<Rightarrow> max_step list" where
  "max_effect_script N text effect speed blink fade =
    (let last = length (max_bitmap N text) - N * 8;
         level = (\<lambda>i. int i * 15 div max 1 (fade - 1));
         ramp = (\<lambda>i. [Register REG_INTENSITY (of_int (level i)), Wait (of_int (speed div fade))])
     in
     if c_streq effect ''SCROLL''
       then concat (map (\<lambda>k. [Window k, Wait (of_int speed)]) [0..<Suc last])
     else if c_streq effect ''BLINK''
       then Window 0 # concat (replicate 6 [Wait (of_int blink), Register REG_SHUTDOWN 0,
              Wait (of_int blink), Register REG_SHUTDOWN 1, Window 0])
     else if c_streq effect ''REVERSE''
       then concat (map (\<lambda>k. [Window k, Wait (of_int speed)]) (rev [0..<Suc last]))
     else if c_streq effect ''FADE''
       then Window 0 # concat (map ramp [0..<nat fade]) @ concat (map ramp (rev [0..<nat fade]))
              @ [Register REG_INTENSITY 0x04]
     else [Window 0, Wait 2000])"

definition max_script :: "nat \<Rightarrow> string \<Rightarrow> string \<Rightarrow> int \<Rightarrow> int \<Rightarrow> int \<Rightarrow> max_step list" where
  "max_script N text effect speed_ms blink_ms fade_steps =
     max_effect_script N text effect (max 1 (min 5000 speed_ms))
       (if blink_ms \<le> 0 then 500 else blink_ms) (if fade_steps \<le> 0 then 8 else fade_steps)"

text \<open>The events a step stands for, given how a chain buffer is sent.\<close>

fun max_events :: "(u8 list \<Rightarrow> hw list) \<Rightarrow> nat \<Rightarrow> u8 list \<Rightarrow> max_step \<Rightarrow> hw list" where
  "max_events send N b (Window k) = concat (map (\<lambda>r. send (chain_buf N b k r)) [0..<8])"
| "max_events send N b (Register r v) = send (concat (replicate N [r, v]))"
| "max_events send N b (Wait n) = [Delay n]"

definition max_wf :: "nat \<Rightarrow> dev \<Rightarrow> bool" where
  "max_wf N s \<longleftrightarrow> length (bmp s) = MAX_BITMAP_LEN N"

text \<open>The bitmap of a text is what s_bitmap holds up to s_bitmap_len.\<close>

definition loaded :: "nat \<Rightarrow> u8 list \<Rightarrow> dev \<Rightarrow> bool" where
  "loaded N b s \<longleftrightarrow> max_wf N s \<and> bmp_len s = int (length b) \<and> take (length b) (bmp s) = b"

section \<open>Building the bitmap\<close>

lemma max7219_build_eq [cstep]:
  assumes "1 \<le> N" and "length xs = MAX_BITMAP_LEN N"
  shows "max7219_build_text_bitmap N text xs =
    (let b = max_bitmap N text in Some (b @ drop (length b) xs, int (length b)))"
proof -
  have lim: "int (MAX_BITMAP_LEN N) - (int N * 8 + 1) = 255"
    by (simp add: MAX_BITMAP_LEN_def)
  show ?thesis
    unfolding max7219_build_text_bitmap_def lim max_bitmap_def
    by (rule build_bitmap_eq) (use assms in \<open>simp_all add: MAX_BITMAP_LEN_def\<close>)
qed

lemma chars_below_255 [simp]: "chars_below 255 = 43"
  by (simp add: chars_below_def)

lemma length_max_bitmap:
  "length (max_bitmap N text) =
    (let n = 6 * min (c_strlen text) 43 in n + min (N * 8) (MAX_BITMAP_LEN N - n))"
  by (simp add: max_bitmap_def length_bitmap_cols)

lemma max_bitmap_bounds:
  assumes "1 \<le> N"
  shows "length (max_bitmap N text) \<le> MAX_BITMAP_LEN N" "N * 8 \<le> length (max_bitmap N text)"
  using assms by (auto simp: length_max_bitmap MAX_BITMAP_LEN_def Let_def)

lemma max7219_load_text_ok:
  assumes "1 \<le> N" and "max_wf N s"
  shows "\<exists>t. max7219_load_text N text s = Some t \<and> loaded N (max_bitmap N text) t \<and> out t = out s"
  using assms max_bitmap_bounds(1)[of N "text"]
  by (auto simp: max7219_load_text_def max_wf_def loaded_def max7219_build_eq Let_def)

section \<open>The bus interface\<close>

text \<open>
  What the driver needs of its platform: a chain buffer of the right length is sent without
  fault, and a delay is a delay. The lemmas of the driver are proved once from this.
\<close>

locale max7219_bus =
  fixes latch :: "nat \<Rightarrow> latch"
    and delay :: "u32 \<Rightarrow> dev \<Rightarrow> dev"
    and send :: "u8 list \<Rightarrow> hw list"
  assumes latch_eq: "length buf = N * 2 \<Longrightarrow> latch N buf s = Some (emit (send buf) s)"
    and delay_eq: "delay n s = emit [Delay n] s"
begin

lemma send_all_eq:
  "max7219_send_all (latch N) N reg dat s = Some (emit (max_events send N b (Register reg dat)) s)"
proof -
  have "for_each [0..int N - 1] (\<lambda>i buf. do { buf \<leftarrow> arr_set buf (i * 2) reg; arr_set buf (i * 2 + 1) dat })
      (replicate (N * 2) 0) = Some (concat (map (\<lambda>k. [reg, dat]) [0..<N]))"
    by (rule fill_pairs) (simp_all add: nat_add_distrib nat_mult_distrib mult.commute)
  moreover have "concat (map (\<lambda>k. [reg, dat]) [0..<N]) = concat (replicate N [reg, dat])"
    by (simp add: map_replicate_const)
  ultimately show ?thesis
    by (simp add: max7219_send_all_def latch_eq)
qed

lemma setup_eq:
  "max7219_setup (latch N) N s = Some (emit (concat (map (max_events send N [])
     [Register REG_DISPLAY_TEST 0, Register REG_DECODE_MODE 0, Register REG_SCAN_LIMIT 7,
      Register REG_INTENSITY 4, Register REG_SHUTDOWN 1])) s)"
  by (simp add: max7219_setup_def send_all_eq[where b = "[]"] del: max_events.simps)

lemma render_eq:
  assumes "loaded N b s"
  shows "max7219_render_columns (latch N) N (int k) s = Some (emit (max_events send N b (Window k)) s)"
proof -
  have col: "(if i < bmp_len t then arr_get (bmp t) i else Some 0) = Some (column b (nat i))"
    if "0 \<le> i" "bmp t = bmp s" "bmp_len t = bmp_len s" for i t
    using read_column[of b "bmp s" i] that assms by (auto simp: loaded_def split: if_splits)
  have row: "for_each [0..int N - 1] (\<lambda>d buf. do {
         let col_idx = int k + (int N - 1 - d) * 8 + int r;
         col_byte \<leftarrow> (if col_idx < bmp_len t then arr_get (bmp t) col_idx else Some 0);
         buf \<leftarrow> arr_set buf (d * 2) (REG_ROW_BASE + word_of_int (int r));
         arr_set buf (d * 2 + 1) col_byte
       }) (replicate (N * 2) 0) = Some (chain_buf N b k r)"
    if "bmp t = bmp s" "bmp_len t = bmp_len s" for t r
    unfolding chain_buf_def
  proof (rule fill_pairs)
    fix d and buf :: "u8 list" assume d: "d < N" and len: "length buf = 2 * N"
    define i where "i = k + (N - 1 - d) * 8 + r"
    have ix: "int k + (int N - 1 - int d) * 8 + int r = int i"
      using d by (simp add: i_def algebra_simps)
    show "do {
         let col_idx = int k + (int N - 1 - int d) * 8 + int r;
         col_byte \<leftarrow> (if col_idx < bmp_len t then arr_get (bmp t) col_idx else Some 0);
         buf \<leftarrow> arr_set buf (int d * 2) (REG_ROW_BASE + word_of_int (int r));
         arr_set buf (int d * 2 + 1) col_byte
       } = Some (buf[2 * d := REG_ROW_BASE + of_nat r, 2 * d + 1 := column b (k + (N - 1 - d) * 8 + r)])"
      unfolding ix Let_def col[OF of_nat_0_le_iff that] i_def [symmetric] using d len
      by (simp add: nat_add_distrib nat_mult_distrib mult.commute)
  qed simp
  have "max7219_render_columns (latch N) N (int k) s =
      for_each [0..<8] (\<lambda>r s. do {
       buf \<leftarrow> for_each [0..int N - 1] (\<lambda>d buf. do {
         let col_idx = int k + (int N - 1 - d) * 8 + int r;
         col_byte \<leftarrow> (if col_idx < bmp_len s then arr_get (bmp s) col_idx else Some 0);
         buf \<leftarrow> arr_set buf (d * 2) (REG_ROW_BASE + word_of_int (int r));
         arr_set buf (d * 2 + 1) col_byte
       }) (replicate (N * 2) 0);
       latch N buf s
     }) s"
    using upto_ints[of 8] by (simp add: max7219_render_columns_def for_each_map)
  also have "\<dots> = Some (emit (concat (map (\<lambda>r. send (chain_buf N b k r)) [0..<8])) s)"
  proof (rule for_each_emit)
    fix r and t :: dev assume "bmp t = bmp s" "bmp_len t = bmp_len s"
    moreover have "length (chain_buf N b k r) = N * 2"
      by (simp add: chain_buf_def length_concat o_def sum_list_triv)
    ultimately show "do {
       buf \<leftarrow> for_each [0..int N - 1] (\<lambda>d buf. do {
         let col_idx = int k + (int N - 1 - d) * 8 + int r;
         col_byte \<leftarrow> (if col_idx < bmp_len t then arr_get (bmp t) col_idx else Some 0);
         buf \<leftarrow> arr_set buf (d * 2) (REG_ROW_BASE + word_of_int (int r));
         arr_set buf (d * 2 + 1) col_byte
       }) (replicate (N * 2) 0);
       latch N buf t
     } = Some (emit (send (chain_buf N b k r)) t)"
      by (simp only: row bind.bind_lunit latch_eq)
  qed
  finally show ?thesis by simp
qed

lemma loaded_emit [simp]: "loaded N b (emit es s) = loaded N b s"
  by (simp add: loaded_def max_wf_def)

text \<open>A loop of the effects: each turn emits the events of a list of steps.\<close>

lemma for_each_max_steps:
  assumes "loaded N b s"
    and "\<And>x t. x \<in> set xs \<Longrightarrow> loaded N b t \<Longrightarrow>
      f x t = Some (emit (concat (map (max_events send N b) (g x))) t)"
  shows "for_each xs f s = Some (emit (concat (map (max_events send N b) (concat (map g xs)))) s)"
  using assms
proof (induction xs arbitrary: s)
  case (Cons x xs)
  then have "f x s = Some (emit (concat (map (max_events send N b) (g x))) s)"
    by simp
  moreover have "for_each xs f (emit (concat (map (max_events send N b) (g x))) s) =
      Some (emit (concat (map (max_events send N b) (concat (map g xs))))
        (emit (concat (map (max_events send N b) (g x))) s))"
    by (rule Cons.IH) (use Cons.prems in simp_all)
  ultimately show ?case by simp
qed simp

lemma windows_eq:
  assumes "loaded N b s"
  shows "for_each (map int ks) (\<lambda>offset s. do {
      s \<leftarrow> max7219_render_columns (latch N) N offset s; Some (delay n s) }) s =
    Some (emit (concat (map (max_events send N b) (concat (map (\<lambda>k. [Window k, Wait n]) ks)))) s)"
  unfolding for_each_map
  by (rule for_each_max_steps[OF assms]) (simp add: render_eq delay_eq)

lemma blink_eq:
  assumes "loaded N b s"
  shows "for_each [0..5] (\<lambda>i s. do {
       let s = delay n s;
       s \<leftarrow> max7219_send_all (latch N) N REG_SHUTDOWN 0x00 s;
       let s = delay n s;
       s \<leftarrow> max7219_send_all (latch N) N REG_SHUTDOWN 0x01 s;
       max7219_render_columns (latch N) N 0 s
     }) s =
    Some (emit (concat (map (max_events send N b) (concat (replicate 6
      [Wait n, Register REG_SHUTDOWN 0, Wait n, Register REG_SHUTDOWN 1, Window 0])))) s)"
proof -
  have "map (\<lambda>i. [Wait n, Register REG_SHUTDOWN 0, Wait n, Register REG_SHUTDOWN 1, Window 0]) [0..5] =
      replicate 6 [Wait n, Register REG_SHUTDOWN 0, Wait n, Register REG_SHUTDOWN 1, Window 0]"
    by (simp add: map_replicate_const)
  moreover have "max7219_render_columns (latch N) N 0 t = Some (emit (max_events send N b (Window 0)) t)"
    if "loaded N b t" for t using render_eq[OF that, of 0] by simp
  ultimately show ?thesis
    using for_each_max_steps[OF assms, of "[0..5]" _
      "\<lambda>i. [Wait n, Register REG_SHUTDOWN 0, Wait n, Register REG_SHUTDOWN 1, Window 0]"]
    by (simp add: send_all_eq[where b = b] delay_eq del: max_events.simps(1,2) for_each.simps)
qed

lemma ramp_eq:
  assumes "loaded N b s" and "\<And>i. i \<in> set is \<Longrightarrow> int i \<le> 143165576"
  shows "for_each (map int is) (\<lambda>step s. do {
         p \<leftarrow> c_int (step * 15);
         s \<leftarrow> max7219_send_all (latch N) N REG_INTENSITY (word_of_int (p div dv)) s;
         Some (delay n s) }) s =
    Some (emit (concat (map (max_events send N b) (concat (map (\<lambda>i.
      [Register REG_INTENSITY (of_int (int i * 15 div dv)), Wait n]) is)))) s)"
  unfolding for_each_map
proof (rule for_each_max_steps[OF assms(1)])
  fix i t assume "i \<in> set is" "loaded N b t"
  then have "c_int (int i * 15) = Some (int i * 15)" using assms(2)[of i] by simp
  then show "do { p \<leftarrow> c_int (int i * 15);
      s \<leftarrow> max7219_send_all (latch N) N REG_INTENSITY (word_of_int (p div dv)) t;
      Some (delay n s) } =
    Some (emit (concat (map (max_events send N b)
      [Register REG_INTENSITY (of_int (int i * 15 div dv)), Wait n])) t)"
    by (simp add: send_all_eq[where b = b] delay_eq)
qed

lemma fade_eq:
  fixes dv :: int and w :: u32 and N :: nat
  defines "rampf \<equiv> \<lambda>step s. do {
         p \<leftarrow> c_int (step * 15);
         s \<leftarrow> max7219_send_all (latch N) N REG_INTENSITY (word_of_int (p div dv)) s;
         Some (delay w s) }"
    and "ramp \<equiv> \<lambda>i. [Register REG_INTENSITY (of_int (int i * 15 div dv)), Wait w]"
  assumes "loaded N b s" and "int n \<le> 143165577"
  shows "do {
      s \<leftarrow> for_each [0..int n - 1] rampf s;
      s \<leftarrow> for_each (down_by (int n - 1) 0 1) rampf s;
      max7219_send_all (latch N) N REG_INTENSITY 0x04 s } =
     Some (emit (concat (map (max_events send N b) (concat (map ramp [0..<n]) @
       concat (map ramp (rev [0..<n])) @ [Register REG_INTENSITY 0x04]))) s)"
proof -
  have "for_each (map int is) rampf t = Some (emit (concat (map (max_events send N b) (concat (map ramp is)))) t)"
    if "loaded N b t" "set is \<subseteq> {0..<n}" for "is" t
    unfolding rampf_def ramp_def by (rule ramp_eq) (use that assms(4) in auto)
  then show ?thesis
    using assms(3) by (simp add: upto_ints down_by_ints send_all_eq[where b = b])
qed

lemma effect_steps:
  assumes N: "1 \<le> N" and wf: "max_wf N s" and fs: "1 \<le> fade" "c_streq effect ''FADE'' \<Longrightarrow> fade \<le> 143165577"
  shows "\<exists>t. max7219_effect (latch N) delay N text effect speed blink fade s = Some t \<and>
    max_wf N t \<and> out t = out s @ concat (map (max_events send N (max_bitmap N text))
      (max_effect_script N text effect speed blink fade))"
proof -
  let ?b = "max_bitmap N text"
  obtain s1 where s1: "max7219_load_text N text s = Some s1" "loaded N ?b s1" "out s1 = out s"
    using max7219_load_text_ok[OF N wf] by blast
  have len: "bmp_len s1 = int (length ?b)" using s1(2) by (simp add: loaded_def)
  note b = max_bitmap_bounds[OF N, of "text"]
  have last: "bmp_len s1 - int N * 8 = int (Suc (length ?b - N * 8)) - 1"
    using b len by simp
  have rev_last: "(if bmp_len s1 > int N * 8 then bmp_len s1 - int N * 8 else 0) =
      int (Suc (length ?b - N * 8)) - 1"
    using b len by simp
  obtain n where n: "fade = int n" using fs nonneg_int_cases[of fade] by auto
  have dv: "(if 1 < int n then int n - 1 else 1) = max 1 (int n - 1)" using fs n by simp
  have render0: "max7219_render_columns (latch N) N 0 t = Some (emit (max_events send N ?b (Window 0)) t)"
    if "loaded N ?b t" for t using render_eq[OF that, of 0] by simp
  note defs = max7219_effect_def max_effect_script_def s1(1)
  consider (scroll) "c_streq effect ''SCROLL''"
    | (blink) "\<not> c_streq effect ''SCROLL''" "c_streq effect ''BLINK''"
    | (reverse) "\<not> c_streq effect ''SCROLL''" "\<not> c_streq effect ''BLINK''" "c_streq effect ''REVERSE''"
    | (fade) "\<not> c_streq effect ''SCROLL''" "\<not> c_streq effect ''BLINK''"
        "\<not> c_streq effect ''REVERSE''" "c_streq effect ''FADE''"
    | (other) "\<not> c_streq effect ''SCROLL''" "\<not> c_streq effect ''BLINK''"
        "\<not> c_streq effect ''REVERSE''" "\<not> c_streq effect ''FADE''"
    by blast
  then have "max7219_effect (latch N) delay N text effect speed blink fade s =
    Some (emit (concat (map (max_events send N ?b)
      (max_effect_script N text effect speed blink fade))) s1)"
  proof cases
    case scroll
    then show ?thesis
      using windows_eq[OF s1(2), of "[0..<Suc (length ?b - N * 8)]" "of_int speed"]
      by (simp add: defs last upto_ints Let_def del: max_events.simps upt_Suc of_nat_Suc)
  next
    case blink
    then show ?thesis
      using blink_eq[of N ?b "emit (max_events send N ?b (Window 0)) s1"] s1(2)
      by (simp add: defs render0 Let_def del: max_events.simps for_each.simps)
  next
    case reverse
    then show ?thesis
      using windows_eq[OF s1(2), of "rev [0..<Suc (length ?b - N * 8)]" "of_int speed"]
      by (simp add: defs rev_last down_by_ints Let_def del: max_events.simps upt_Suc of_nat_Suc)
  next
    case fade
    have small: "int n \<le> 143165577" using fs n fade by simp
    from fade show ?thesis
      by (simp only: defs Let_def n if_True if_False bind.bind_lunit render0[OF s1(2)] dv
          fade_eq[where b = ?b] small loaded_emit s1(2) nat_int) simp
  next
    case other
    then show ?thesis
      using s1(2) by (simp add: defs render0 delay_eq Let_def)
  qed
  moreover have "max_wf N s1" using s1(2) by (simp add: loaded_def)
  ultimately show ?thesis using s1(3) by (simp add: max_wf_def)
qed

lemma display_text_steps:
  assumes "1 \<le> N" and "max_wf N s" and "c_streq effect ''FADE'' \<Longrightarrow> fade_steps \<le> 143165577"
  shows "\<exists>t. max7219_display_text (latch N) delay N text effect speed_ms blink_ms fade_steps s = Some t \<and>
    max_wf N t \<and> out t = out s @ concat (map (max_events send N (max_bitmap N text))
      (max_script N text effect speed_ms blink_ms fade_steps))"
proof -
  have "(let s = (if speed_ms \<le> 0 then 1 else speed_ms) in if s > 5000 then 5000 else s) =
      max 1 (min 5000 speed_ms)"
    by (simp add: Let_def)
  then have "max7219_display_text (latch N) delay N text effect speed_ms blink_ms fade_steps s =
      max7219_effect (latch N) delay N text effect (max 1 (min 5000 speed_ms))
        (if blink_ms \<le> 0 then 500 else blink_ms) (if fade_steps \<le> 0 then 8 else fade_steps) s"
    by (simp add: max7219_display_text_def Let_def)
  then show ?thesis
    using effect_steps[OF assms(1,2), of "if fade_steps \<le> 0 then 8 else fade_steps"] assms(3)
    by (simp add: max_script_def)
qed

end

section \<open>The two platforms\<close>

definition pico_max_send :: "u8 list \<Rightarrow> hw list" where
  "pico_max_send b = [Gpio 17 False, Spi b, Gpio 17 True]"

definition esp32_max_send :: "u8 list \<Rightarrow> hw list" where
  "esp32_max_send b = [SpiTx b]"

interpretation pico_max: max7219_bus "\<lambda>N. pico_max7219_latch" sleep_ms pico_max_send
  by unfold_locales (simp_all add: pico_max7219_latch_def pico_max_send_def hw_ops)

interpretation esp32_max: max7219_bus esp32_max7219_latch vTaskDelay_ms esp32_max_send
  by unfold_locales (simp_all add: esp32_max7219_latch_def esp32_max_send_def hw_ops)

text \<open>
  C24: display_text of both MAX7219 builds returns, with every array access in bounds, for every
  text, effect and speed and, for FADE, every number of steps up to 143165577, and drives the
  chain exactly through the steps of the effect's script over the bitmap of the text.
\<close>

theorem max7219_display_text_correct:
  assumes "1 \<le> N" and "max_wf N s" and "c_streq effect ''FADE'' \<Longrightarrow> fade_steps \<le> 143165577"
  shows "(\<exists>t. pico_max7219_display_text N text effect speed_ms blink_ms fade_steps s = Some t \<and>
      max_wf N t \<and> out t = out s @ concat (map (max_events pico_max_send N (max_bitmap N text))
        (max_script N text effect speed_ms blink_ms fade_steps))) \<and>
    (\<exists>t. esp32_max7219_display_text N text effect speed_ms blink_ms fade_steps s = Some t \<and>
      max_wf N t \<and> out t = out s @ concat (map (max_events esp32_max_send N (max_bitmap N text))
        (max_script N text effect speed_ms blink_ms fade_steps)))"
  unfolding pico_max7219_display_text_def esp32_max7219_display_text_def
  using pico_max.display_text_steps[OF assms] esp32_max.display_text_steps[OF assms] by blast

definition max_dev0 :: "nat \<Rightarrow> dev" where
  "max_dev0 N = \<lparr>fb = [], bmp = replicate (MAX_BITMAP_LEN N) 0, bmp_len = 0, busy_in = [], out = []\<rparr>"

lemma max_wf_dev0 [simp]: "max_wf N (max_dev0 N)"
  by (simp add: max_wf_def max_dev0_def)

theorem max7219_display_text_correct_witness:
  "\<exists>t. pico_max7219_display_text 4 ''Hi'' ''FADE'' 50 0 8 (max_dev0 4) = Some t \<and> max_wf 4 t"
  using max7219_display_text_correct[of 4 "max_dev0 4" "''FADE''" 8 "''Hi''" 50 0] by auto

text \<open>
  Display_init and display_clear of both builds return; the initialisation takes every
  device out of display test, sets raw mode, eight digits and intensity 4 and wakes it up, and
  clearing writes zero to the eight digit registers.
\<close>

theorem max7219_init_clear:
  "(\<exists>t. pico_max7219_display_init N s = Some t \<and>
      out t = out s @ [SpiInit 10000000, GpioFunc 19 GPIO_FUNC_SPI, GpioFunc 18 GPIO_FUNC_SPI,
        GpioInit 17, GpioDir 17 True, Gpio 17 True] @
        concat (map (\<lambda>(r, v). pico_max_send (concat (replicate N [r, v])))
          [(0x0F, 0), (0x09, 0), (0x0B, 7), (0x0A, 4), (0x0C, 1)])) \<and>
   (\<exists>t. esp32_max7219_display_init p N s = Some t \<and>
      out t = out s @ [SpiBus (SPI_MOSI_PIN p) (SPI_CLK_PIN p), SpiDevice 10000000 (Some (SPI_CS_PIN p))] @
        concat (map (\<lambda>(r, v). esp32_max_send (concat (replicate N [r, v])))
          [(0x0F, 0), (0x09, 0), (0x0B, 7), (0x0A, 4), (0x0C, 1)])) \<and>
   (\<exists>t. max7219_display_clear pico_max7219_latch N s = Some t \<and>
      out t = out s @ concat (map (\<lambda>r. pico_max_send (concat (replicate N [1 + of_nat r, 0]))) [0..<8])) \<and>
   (\<exists>t. max7219_display_clear (esp32_max7219_latch N) N s = Some t \<and>
      out t = out s @ concat (map (\<lambda>r. esp32_max_send (concat (replicate N [1 + of_nat r, 0]))) [0..<8]))"
proof -
  note regs = REG_DISPLAY_TEST_def REG_DECODE_MODE_def REG_SCAN_LIMIT_def REG_INTENSITY_def
    REG_SHUTDOWN_def REG_ROW_BASE_def
  have rows: "[0..7] = map int [0..<8]" using upto_ints[of 8] by simp
  have c1: "max7219_display_clear pico_max7219_latch N s =
      Some (emit (concat (map (\<lambda>r. pico_max_send (concat (replicate N [1 + of_nat r, 0]))) [0..<8])) s)"
    unfolding max7219_display_clear_def rows for_each_map
    by (rule for_each_emit) (simp add: pico_max.send_all_eq[where b = "[]"] regs)
  have c2: "max7219_display_clear (esp32_max7219_latch N) N s =
      Some (emit (concat (map (\<lambda>r. esp32_max_send (concat (replicate N [1 + of_nat r, 0]))) [0..<8])) s)"
    unfolding max7219_display_clear_def rows for_each_map
    by (rule for_each_emit) (simp add: esp32_max.send_all_eq[where b = "[]"] regs)
  show ?thesis
    by (simp only: c1 c2 pico_max7219_display_init_def esp32_max7219_display_init_def
        pico_max.setup_eq esp32_max.setup_eq)
      (simp add: gpio_out_pin_def esp32_spi_bus_def regs)
qed

section \<open>What the chain shows\<close>

text \<open>
  The devices of the chain as the data sheet gives them: a buffer is shifted through all of
  them, so on the rising chip select device j (counted from the controller) holds the j-th
  pair from its end, and stores the pair's value in the register the pair names.
\<close>

type_synonym regs = "nat \<Rightarrow> u8 \<Rightarrow> u8"

definition latch_regs :: "nat \<Rightarrow> u8 list \<Rightarrow> regs \<Rightarrow> regs" where
  "latch_regs N buf regs = (\<lambda>j r.
     if j < N \<and> r = buf ! (2 * (N - 1 - j)) then buf ! (2 * (N - 1 - j) + 1) else regs j r)"

fun spi_buf :: "hw \<Rightarrow> u8 list list" where
  "spi_buf (Spi b) = [b]"
| "spi_buf (SpiTx b) = [b]"
| "spi_buf _ = []"

definition chain_bufs :: "hw list \<Rightarrow> u8 list list" where
  "chain_bufs es = concat (map spi_buf es)"

definition panel :: "nat \<Rightarrow> hw list \<Rightarrow> regs \<Rightarrow> regs" where
  "panel N es regs = fold (latch_regs N) (chain_bufs es) regs"

lemma chain_bufs_append [simp]: "chain_bufs (xs @ ys) = chain_bufs xs @ chain_bufs ys"
  by (simp add: chain_bufs_def)

lemma chain_bufs_Nil [simp]: "chain_bufs [] = []"
  by (simp add: chain_bufs_def)

lemma chain_bufs_send [simp]:
  "chain_bufs (pico_max_send b) = [b]" "chain_bufs (esp32_max_send b) = [b]"
  by (simp_all add: chain_bufs_def pico_max_send_def esp32_max_send_def)

lemma chain_bufs_concat: "chain_bufs (concat xss) = concat (map chain_bufs xss)"
  by (induction xss) simp_all

lemma pairs_nth:
  "d < n \<Longrightarrow> concat (map (\<lambda>k. [f k, g k]) [0..<n]) ! (2 * d) = f d"
  "d < n \<Longrightarrow> concat (map (\<lambda>k. [f k, g k]) [0..<n]) ! (2 * d + 1) = g d"
proof (induction n)
  case (Suc n)
  have len: "length (concat (map (\<lambda>k. [f k, g k]) [0..<n])) = 2 * n" by (induction n) simp_all
  {
    case 1
    then show ?case using Suc.IH(1) len by (cases "d < n") (auto simp: nth_append less_Suc_eq)
  next
    case 2
    then show ?case using Suc.IH(2) len by (cases "d < n") (auto simp: nth_append less_Suc_eq)
  }
qed simp_all

lemma latch_chain_buf:
  assumes "j < N"
  shows "latch_regs N (chain_buf N b off r) regs j q =
    (if q = REG_ROW_BASE + of_nat r then column b (off + j * 8 + r) else regs j q)"
proof -
  have d: "N - 1 - j < N" using assms by simp
  have "N - 1 - (N - 1 - j) = j" using assms by simp
  then show ?thesis
    using assms unfolding latch_regs_def chain_buf_def pairs_nth[OF d] by simp
qed

lemma row_reg_inj: "r < 8 \<Longrightarrow> r' < 8 \<Longrightarrow> (REG_ROW_BASE + of_nat r = REG_ROW_BASE + (of_nat r' :: u8)) = (r = r')"
  by (simp add: word_of_nat_eq_iff take_bit_nat_eq_self)

lemma panel_window:
  assumes "j < N" and "i < 8"
  shows "fold (latch_regs N) (map (chain_buf N b off) [0..<n]) regs j (REG_ROW_BASE + of_nat i) =
    (if i < n \<and> n \<le> 8 then column b (off + j * 8 + i)
     else fold (latch_regs N) (map (chain_buf N b off) [0..<n]) regs j (REG_ROW_BASE + of_nat i))"
proof (induction n)
  case (Suc n)
  show ?case
  proof (cases "i < Suc n \<and> Suc n \<le> 8")
    case True
    then have "n < 8" by simp
    have "fold (latch_regs N) (map (chain_buf N b off) [0..<Suc n]) regs j (REG_ROW_BASE + of_nat i) =
        (if i = n then column b (off + j * 8 + n)
         else fold (latch_regs N) (map (chain_buf N b off) [0..<n]) regs j (REG_ROW_BASE + of_nat i))"
      using latch_chain_buf[OF assms(1)] row_reg_inj[OF assms(2) \<open>n < 8\<close>] by simp
    with True Suc.IH show ?thesis by auto
  qed auto
qed simp

lemma chain_bufs_window:
  assumes "\<And>b. chain_bufs (send b) = [b]"
  shows "chain_bufs (max_events send N b (Window k)) = map (chain_buf N b k) [0..<8]"
  by (simp add: chain_bufs_concat assms o_def concat_map_singleton del: upt_rec_numeral)

lemma window_on_panel:
  assumes "x < 8 * N" and "\<And>b. chain_bufs (send b) = [b]"
  shows "panel N (max_events send N b (Window k)) regs (x div 8) (REG_ROW_BASE + of_nat (x mod 8)) =
    column b (k + x)"
proof -
  have "x div 8 < N" using assms(1) by (simp add: less_mult_imp_div_less mult.commute)
  moreover note chain_bufs_window[OF assms(2), of N b k]
  moreover have "k + x div 8 * 8 + x mod 8 = k + x" by simp
  ultimately show ?thesis
    using panel_window[of "x div 8" N "x mod 8" b k 8 regs] by (simp add: panel_def add.commute)
qed

text \<open>
  C28: after render_columns(k), display column x of the chain shows column k + x of the
  bitmap, for every column of the chain, on both builds.
\<close>

theorem max7219_render_shows_window:
  assumes "loaded N b s" and "x < 8 * N"
  shows "(\<exists>es. max7219_render_columns pico_max7219_latch N (int k) s = Some (emit es s) \<and>
      panel N es regs (x div 8) (REG_ROW_BASE + of_nat (x mod 8)) = column b (k + x)) \<and>
    (\<exists>es. max7219_render_columns (esp32_max7219_latch N) N (int k) s = Some (emit es s) \<and>
      panel N es regs (x div 8) (REG_ROW_BASE + of_nat (x mod 8)) = column b (k + x))"
  using pico_max.render_eq[OF assms(1), of k] esp32_max.render_eq[OF assms(1), of k]
    window_on_panel[OF assms(2), of pico_max_send b k regs]
    window_on_panel[OF assms(2), of esp32_max_send b k regs]
  by auto

theorem max7219_render_shows_window_witness:
  "\<exists>es. max7219_render_columns pico_max7219_latch 1 (int 2)
      \<lparr>fb = [], bmp = [9, 8, 7] @ replicate 261 0, bmp_len = 3, busy_in = [], out = []\<rparr> =
    Some (emit es \<lparr>fb = [], bmp = [9, 8, 7] @ replicate 261 0, bmp_len = 3, busy_in = [], out = []\<rparr>) \<and>
    panel 1 es (\<lambda>_ _. 0) (0 div 8) (REG_ROW_BASE + of_nat (0 mod 8)) = column [9, 8, 7] (2 + 0)"
  by (rule max7219_render_shows_window[THEN conjunct1])
    (simp_all add: loaded_def max_wf_def MAX_BITMAP_LEN_def)

section \<open>Effects on the chain\<close>

text \<open>
  SCROLL and REVERSE show the same windows of the text, every offset from 0 to the length
  of the bitmap less the width of the chain, in opposite orders, and wait the clamped speed
  after each.
\<close>

theorem max7219_reverse_is_scroll_backwards:
  assumes "1 \<le> N" and "max_wf N s"
  shows "\<exists>t u. pico_max7219_display_text N text ''SCROLL'' speed b f s = Some t \<and>
    pico_max7219_display_text N text ''REVERSE'' speed b g s = Some u \<and>
    (let frame = (\<lambda>k. max_events pico_max_send N (max_bitmap N text) (Window k) @
           [Delay (of_int (max 1 (min 5000 speed)))]);
         ks = [0..<Suc (length (max_bitmap N text) - 8 * N)]
     in out t = out s @ concat (map frame ks) \<and> out u = out s @ concat (map frame (rev ks)))"
proof -
  have scripts: "max_script N text ''SCROLL'' speed b f = concat (map (\<lambda>k. [Window k,
        Wait (of_int (max 1 (min 5000 speed)))]) [0..<Suc (length (max_bitmap N text) - 8 * N)])"
      "max_script N text ''REVERSE'' speed b g = concat (map (\<lambda>k. [Window k,
        Wait (of_int (max 1 (min 5000 speed)))]) (rev [0..<Suc (length (max_bitmap N text) - 8 * N)]))"
    by (simp_all add: max_script_def max_effect_script_def c_streq_def mult.commute Let_def
        del: upt_Suc)
  have frames: "concat (map (max_events pico_max_send N bb) (concat (map (\<lambda>k. [Window k, Wait w]) ks))) =
      concat (map (\<lambda>k. max_events pico_max_send N bb (Window k) @ [Delay w]) ks)" for bb w ks
    by (induction ks) simp_all
  have "\<not> c_streq ''SCROLL'' ''FADE''" "\<not> c_streq ''REVERSE'' ''FADE''"
    by (simp_all add: c_streq_def)
  with pico_max.display_text_steps[OF assms, of "''SCROLL''" f "text" speed b]
    pico_max.display_text_steps[OF assms, of "''REVERSE''" g "text" speed b]
  show ?thesis
    unfolding scripts frames pico_max7219_display_text_def Let_def by blast
qed

theorem max7219_reverse_is_scroll_backwards_witness:
  "\<exists>t u. pico_max7219_display_text 1 ''Hi'' ''SCROLL'' 50 0 0 (max_dev0 1) = Some t \<and>
    pico_max7219_display_text 1 ''Hi'' ''REVERSE'' 50 0 0 (max_dev0 1) = Some u"
  using max7219_reverse_is_scroll_backwards[of 1 "max_dev0 1" "''Hi''" 50 0 0 0]
  by (auto simp: Let_def)

text \<open>The values written to a register of all devices, read from the bus.\<close>

definition reg_writes :: "u8 \<Rightarrow> hw list \<Rightarrow> u8 list" where
  "reg_writes r es = map (\<lambda>b. b ! 1) (filter (\<lambda>b. b ! 0 = r) (chain_bufs es))"

lemma reg_writes_append [simp]: "reg_writes r (xs @ ys) = reg_writes r xs @ reg_writes r ys"
  by (simp add: reg_writes_def)

lemma reg_writes_Nil [simp]: "reg_writes r [] = []"
  by (simp add: reg_writes_def)

lemma reg_writes_concat: "reg_writes r (concat xss) = concat (map (reg_writes r) xss)"
  by (induction xss) (simp_all add: reg_writes_def)

lemma reg_writes_register:
  assumes "1 \<le> N" and "chain_bufs (send (concat (replicate N [q, v]))) = [concat (replicate N [q, v])]"
  shows "reg_writes r (max_events send N b (Register q v)) = (if q = r then [v] else [])"
  using assms by (cases N) (simp_all add: reg_writes_def)

lemma reg_writes_window:
  assumes "1 \<le> N" and "\<And>b. chain_bufs (send b) = [b]"
  shows "reg_writes REG_INTENSITY (max_events send N b (Window k)) = []"
proof -
  have "chain_buf N b k r ! 0 = REG_ROW_BASE + of_nat r" for r
    using pairs_nth(1)[of 0 N] assms(1) by (simp add: chain_buf_def)
  moreover have "(REG_ROW_BASE + of_nat r :: u8) \<noteq> REG_INTENSITY" if "r < 8" for r
  proof -
    from that have "r \<in> {0, 1, 2, 3, 4, 5, 6, 7}" by auto
    then show ?thesis by (auto simp: REG_ROW_BASE_def REG_INTENSITY_def)
  qed
  ultimately show ?thesis
    unfolding reg_writes_def chain_bufs_window[OF assms(2)]
    by (simp add: filter_empty_conv del: upt_rec_numeral)
qed

text \<open>
  FADE ramps the intensity register of every device from 0 up to 15 and back in fade_steps
  steps each way, never above 15, and leaves it at the resting level 4 of display_init.
\<close>

theorem max7219_fade_levels:
  assumes "1 \<le> N" and "max_wf N s" and "2 \<le> n" and "n \<le> 143165577"
  shows "\<exists>es. (\<exists>t. pico_max7219_display_text N text ''FADE'' speed b (int n) s = Some t \<and>
      out t = out s @ es) \<and>
    (let level = (\<lambda>i. i * 15 div (n - 1)) in
     reg_writes REG_INTENSITY es =
       map (\<lambda>i. of_nat (level i)) [0..<n] @ map (\<lambda>i. of_nat (level i)) (rev [0..<n]) @ [4] \<and>
     level 0 = 0 \<and> level (n - 1) = 15 \<and> (\<forall>i < n. level i \<le> 15) \<and>
     (\<forall>i j. i \<le> j \<longrightarrow> level i \<le> level j))"
proof -
  let ?es = "concat (map (max_events pico_max_send N (max_bitmap N text))
      (max_script N text ''FADE'' speed b (int n)))"
  define level where "level i = i * 15 div (n - 1)" for i
  define w where "w = (of_int (max 1 (min 5000 speed) div int n) :: u32)"
  have lv: "int i * 15 div (int n - 1) = int (level i)" for i
    using assms(3) by (simp add: level_def zdiv_int)
  have script: "max_script N text ''FADE'' speed b (int n) = Window 0 #
      concat (map (\<lambda>i. [Register REG_INTENSITY (of_nat (level i)), Wait w]) [0..<n]) @
      concat (map (\<lambda>i. [Register REG_INTENSITY (of_nat (level i)), Wait w]) (rev [0..<n])) @
      [Register REG_INTENSITY 4]"
    using assms(3) by (simp add: max_script_def max_effect_script_def c_streq_def lv w_def Let_def)
  have reg: "reg_writes REG_INTENSITY (max_events pico_max_send N bb (Register REG_INTENSITY v)) = [v]" for bb v
    using reg_writes_register[OF assms(1), of pico_max_send] by simp
  have wait: "reg_writes REG_INTENSITY (max_events pico_max_send N bb (Wait w)) = []" for bb
    by (simp add: reg_writes_def chain_bufs_def)
  have ramp: "reg_writes REG_INTENSITY (concat (map (max_events pico_max_send N bb)
      (concat (map (\<lambda>i. [Register REG_INTENSITY (of_nat (level i)), Wait w]) is)))) =
      map (\<lambda>i. of_nat (level i)) is" for bb "is"
    by (induction "is") (simp_all add: reg wait del: max_events.simps)
  have "reg_writes REG_INTENSITY ?es =
      map (\<lambda>i. of_nat (level i)) [0..<n] @ map (\<lambda>i. of_nat (level i)) (rev [0..<n]) @ [4]"
    by (simp add: script ramp reg reg_writes_window[OF assms(1), of pico_max_send] del: max_events.simps)
  moreover have mono: "level i \<le> level j" if "i \<le> j" for i j
    using that by (simp add: level_def div_le_mono)
  moreover have ends: "level 0 = 0" "level (n - 1) = 15" using assms(3) by (simp_all add: level_def)
  moreover have "\<forall>i < n. level i \<le> 15" using mono ends(2) by (metis Suc_pred' less_Suc_eq_le less_zeroE neq0_conv)
  moreover have "\<exists>t. pico_max7219_display_text N text ''FADE'' speed b (int n) s = Some t \<and>
      out t = out s @ ?es"
    unfolding pico_max7219_display_text_def
    using pico_max.display_text_steps[OF assms(1,2), of "''FADE''" "int n" "text" speed b] assms(4) by auto
  ultimately show ?thesis
    unfolding level_def [symmetric] Let_def by blast
qed

text \<open>
  The intensity product step * 15 leaves the range of int when a message asks for more
  than 143165577 fade steps: display_text then has no defined result.
\<close>

theorem max7219_fade_overflow:
  assumes "143165577 < fade_steps"
  shows "pico_max7219_display_text N text ''FADE'' speed b fade_steps s = None \<and>
    esp32_max7219_display_text N text ''FADE'' speed b fade_steps s = None"
proof -
  have "fade_steps - 1 \<in> set [0..fade_steps - 1]" using assms by simp
  then have "for_each [0..fade_steps - 1] (\<lambda>step s. do {
         p \<leftarrow> c_int (step * 15);
         s \<leftarrow> max7219_send_all latch N REG_INTENSITY (word_of_int (p div dv)) s;
         Some (delay w s) }) t = None" for latch dv delay and w :: u32 and t
    by (rule for_each_None) (use assms in simp)
  then have "max7219_effect latch delay N text ''FADE'' sp bl fade_steps s = None" for latch delay sp bl
    by (auto simp: max7219_effect_def c_streq_def Let_def split: Option.bind_splits)
  then show ?thesis
    using assms by (simp add: pico_max7219_display_text_def esp32_max7219_display_text_def
        max7219_display_text_def Let_def)
qed

text \<open>
  Build_text_bitmap never leaves its buffer, whatever the text, and shows no more than
  the first 43 characters: the rest of a longer text is dropped.
\<close>

theorem max7219_bitmap_truncates:
  assumes "1 \<le> N" and "length xs = MAX_BITMAP_LEN N"
  shows "\<exists>ys n. max7219_build_text_bitmap N text xs = Some (ys, int n) \<and>
    length ys = MAX_BITMAP_LEN N \<and> n \<le> MAX_BITMAP_LEN N \<and> N * 8 \<le> n \<and>
    take n ys = text_cols (take 43 (c_str text)) @ replicate (n - 6 * min 43 (c_strlen text)) 0 \<and>
    max7219_build_text_bitmap N (take 43 (c_str text)) xs = Some (ys, int n)"
proof -
  let ?b = "max_bitmap N text"
  note b = max_bitmap_bounds[OF assms(1), of "text"]
  have nul: "NUL \<notin> set (take 43 (c_str text))"
    using c_str_no_nul[of "text"] in_set_takeD by fastforce
  have "max_bitmap N (take 43 (c_str text)) = ?b"
    using nul by (simp add: max_bitmap_def bitmap_cols_def)
  then have "max7219_build_text_bitmap N (take 43 (c_str text)) xs = max7219_build_text_bitmap N text xs"
    by (simp add: max7219_build_eq[OF assms])
  moreover have "?b = text_cols (take 43 (c_str text)) @ replicate (length ?b - 6 * min 43 (c_strlen text)) 0"
    by (simp add: max_bitmap_def bitmap_cols_def Let_def c_strlen_def min.commute)
  moreover have "length (?b @ drop (length ?b) xs) = MAX_BITMAP_LEN N" using b assms(2) by simp
  moreover have "max7219_build_text_bitmap N text xs = Some (?b @ drop (length ?b) xs, int (length ?b))"
    by (simp add: max7219_build_eq[OF assms] Let_def)
  ultimately show ?thesis using b by fastforce
qed

text \<open>
  The function max7219_send writes the register of the addressed device only, the others get the no-op
  register; an index outside the chain is an access outside the buffer.
\<close>

theorem max7219_send_addresses_one:
  "max7219_send pico_max7219_latch N reg dat i s =
    (if 0 \<le> i \<and> i < int N
     then Some (emit (pico_max_send (replicate (2 * nat i) 0 @ [reg, dat] @
            replicate (2 * (N - 1 - nat i)) 0)) s)
     else None)"
proof (cases "0 \<le> i \<and> i < int N")
  case True
  then obtain k where k: "i = int k" "k < N" by (metis nonneg_int_cases of_nat_less_iff)
  then obtain m where m: "N = Suc (k + m)" using less_iff_Suc_add by auto
  have "N * 2 = 2 * k + (2 + 2 * m)" by (simp add: m)
  then have "replicate (N * 2) (0 :: u8) = replicate (2 * k) 0 @ replicate 2 0 @ replicate (2 * m) 0"
    by (simp only: replicate_add)
  moreover define zs where "zs = replicate (N * 2) (0 :: u8)"
  ultimately have "zs[2 * k := reg, 2 * k + 1 := dat] =
      replicate (2 * k) 0 @ [reg, dat] @ replicate (2 * m) 0"
    by (simp add: list_update_append numeral_2_eq_2)
  moreover have "length zs = N * 2" by (simp add: zs_def)
  ultimately show ?thesis
    using k by (simp add: max7219_send_def pico_max.latch_eq zs_def [symmetric] mult.commute
        nat_add_distrib nat_mult_distrib)
      (simp add: m pico_max7219_latch_def pico_max_send_def hw_ops mult.commute)
next
  case False
  then show ?thesis by (auto simp: max7219_send_def arr_set_def)
qed

end
