(* ===== verification/Paged_Oled.thy ===== *)
theory Paged_Oled
  imports Text_Bitmap Hardware
begin

text \<open>
  The drivers of the 128 by 64 OLED panels with page addressing: SSD1306, SSD1309 and SH1106
  on the Pico and on the ESP32. Their display_text functions are the same code over the
  driver's own command, flush and delay functions, which are parameters here. The frame
  buffer s_fb is eight pages of 128 column bytes; bmp is the static bitmap of 1024 bytes.
\<close>

section \<open>The code\<close>

definition OLED_WIDTH :: nat where "OLED_WIDTH = 128"
definition OLED_PAGES :: nat where "OLED_PAGES = 8"

text \<open>The double loop that copies 128 columns of the bitmap, from offset on, into every page.\<close>

definition oled_window :: "int \<Rightarrow> int \<Rightarrow> dev \<Rightarrow> dev option" where
  "oled_window n offset s =
     for_each [0..int OLED_PAGES - 1] (\<lambda>page s.
       for_each [0..int OLED_WIDTH - 1] (\<lambda>col s. do {
         v \<leftarrow> (if offset + col < n then arr_get (bmp s) (offset + col) else Some 0x00);
         xs \<leftarrow> arr_set (fb s) (page * int OLED_WIDTH + col) v;
         Some (s\<lparr>fb := xs\<rparr>)
       }) s) s"

text \<open>bmp_len = build_text_bitmap(text, bmp, sizeof(bmp)).\<close>

definition oled_load :: "string \<Rightarrow> dev \<Rightarrow> (int \<times> dev) option" where
  "oled_load text s = do {
     (xs, n) \<leftarrow> build_text_bitmap OLED_WIDTH text (bmp s) 1024;
     Some (n, s\<lparr>bmp := xs\<rparr>)
   }"

type_synonym oled_cmd = "u8 \<Rightarrow> dev \<Rightarrow> dev option"
type_synonym oled_flush = "dev \<Rightarrow> dev option"

text \<open>The scrolling loop, which SCROLL runs on the text and REVERSE on its reversal.\<close>

definition oled_scroll :: "oled_flush \<Rightarrow> delay \<Rightarrow> string \<Rightarrow> int \<Rightarrow> dev \<Rightarrow> dev option" where
  "oled_scroll flush delay text sp s = do {
     (n, s) \<leftarrow> oled_load text s;
     for_each [0..n - int OLED_WIDTH] (\<lambda>offset s. do {
       s \<leftarrow> oled_window n offset s;
       s \<leftarrow> flush s;
       Some (delay (word_of_int sp) s)
     }) s
   }"

text \<open>The still picture BLINK and FADE start with.\<close>

definition oled_still :: "oled_flush \<Rightarrow> string \<Rightarrow> dev \<Rightarrow> dev option" where
  "oled_still flush text s = do {
     (n, s) \<leftarrow> oled_load text s;
     s \<leftarrow> oled_window n 0 s;
     flush s
   }"

definition oled_contrast :: "oled_cmd \<Rightarrow> delay \<Rightarrow> int \<Rightarrow> int \<Rightarrow> dev \<Rightarrow> dev option" where
  "oled_contrast cmd delay step_delay v s = do {
     s \<leftarrow> cmd 0x81 s;
     s \<leftarrow> cmd (word_of_int v) s;
     Some (delay (word_of_int step_delay) s)
   }"

definition oled_display_text ::
    "oled_cmd \<Rightarrow> oled_flush \<Rightarrow> delay \<Rightarrow> string \<Rightarrow> string \<Rightarrow> int \<Rightarrow> int \<Rightarrow> int \<Rightarrow> dev \<Rightarrow> dev option" where
  "oled_display_text cmd flush delay text effect speed_ms blink_period_ms fade_steps s =
    (let sp = clamp_speed speed_ms in
     if c_streq effect ''SCROLL'' then oled_scroll flush delay text sp s
     else if c_streq effect ''BLINK'' then do {
       s \<leftarrow> oled_still flush text s;
       for_each [0..5] (\<lambda>i s. do {
         s \<leftarrow> cmd 0xAE (delay (word_of_int sp) s);
         cmd 0xAF (delay (word_of_int sp) s)
       }) s
     }
     else if c_streq effect ''REVERSE'' then do {
       rev \<leftarrow> reverse_text stack_rev text;
       oled_scroll flush delay rev sp s
     }
     else if c_streq effect ''FADE'' then do {
       s \<leftarrow> oled_still flush text s;
       let step_delay = sp div 32 + 1;
       s \<leftarrow> for_each (up_by 0 255 8) (oled_contrast cmd delay step_delay) s;
       s \<leftarrow> for_each (down_by 255 0 8) (oled_contrast cmd delay step_delay) s;
       s \<leftarrow> cmd 0x81 s;
       cmd 0xCF s
     }
     else Some s)"

text \<open>memset(s_fb, 0, sizeof(s_fb)), alone at the end of display_init, with a flush in display_clear.\<close>

definition oled_blank :: "dev \<Rightarrow> dev" where
  "oled_blank s = s\<lparr>fb := replicate (OLED_WIDTH * OLED_PAGES) 0\<rparr>"

definition oled_display_clear :: "oled_flush \<Rightarrow> dev \<Rightarrow> dev option" where
  "oled_display_clear flush s = flush (oled_blank s)"

section \<open>Specification\<close>

text \<open>
  A script of pictures, commands and pauses. A picture is one strip of 128 columns; the
  drivers repeat it on all eight pages.
\<close>

datatype oled_step = Picture "u8 list" | Command u8 | Pause u32

definition strip :: "nat \<Rightarrow> u8 list \<Rightarrow> nat \<Rightarrow> u8 list" where
  "strip w b k = map (\<lambda>c. column b (k + c)) [0..<w]"

definition oled_bitmap :: "string \<Rightarrow> u8 list" where
  "oled_bitmap text = bitmap_cols 1018 128 1024 text"

definition oled_scroll_script :: "string \<Rightarrow> int \<Rightarrow> oled_step list" where
  "oled_scroll_script text sp = (let b = oled_bitmap text in
     concat (map (\<lambda>k. [Picture (strip 128 b k), Pause (of_int sp)]) [0..<Suc (length b - 128)]))"

definition contrast_script :: "int \<Rightarrow> int list \<Rightarrow> oled_step list" where
  "contrast_script d vs = concat (map (\<lambda>v. [Command 0x81, Command (of_int v), Pause (of_int d)]) vs)"

definition oled_script :: "string \<Rightarrow> string \<Rightarrow> int \<Rightarrow> oled_step list" where
  "oled_script text effect speed_ms =
    (let sp = clamp_speed speed_ms; still = Picture (strip 128 (oled_bitmap text) 0) in
     if c_streq effect ''SCROLL'' then oled_scroll_script text sp
     else if c_streq effect ''BLINK''
       then still # concat (replicate 6 [Pause (of_int sp), Command 0xAE, Pause (of_int sp), Command 0xAF])
     else if c_streq effect ''REVERSE'' then oled_scroll_script (rev (take 127 (c_str text))) sp
     else if c_streq effect ''FADE''
       then still # contrast_script (sp div 32 + 1) (up_by 0 255 8) @
              contrast_script (sp div 32 + 1) (down_by 255 0 8) @ [Command 0x81, Command 0xCF]
     else [])"

definition oled_wf :: "dev \<Rightarrow> bool" where
  "oled_wf s \<longleftrightarrow> length (fb s) = 1024 \<and> length (bmp s) = 1024"

section \<open>Filling the frame buffer\<close>

text \<open>A loop that stores a row of values into s_fb from index base on.\<close>

lemma fill_row:
  assumes "base + w \<le> length (fb s)"
    and "\<And>c xs. c < w \<Longrightarrow> g (int c) (s\<lparr>fb := xs\<rparr>) = Some (f c)"
  shows "for_each [0..int w - 1] (\<lambda>col s. do {
      v \<leftarrow> g col s; xs \<leftarrow> arr_set (fb s) (int base + col) v; Some (s\<lparr>fb := xs\<rparr>) }) s =
    Some (s\<lparr>fb := take base (fb s) @ map f [0..<w] @ drop (base + w) (fb s)\<rparr>)"
proof -
  let ?F = "\<lambda>k. s\<lparr>fb := take base (fb s) @ map f [0..<k] @ drop (base + k) (fb s)\<rparr>"
  let ?body = "\<lambda>col s. do { v \<leftarrow> g col s; xs \<leftarrow> arr_set (fb s) (int base + col) v; Some (s\<lparr>fb := xs\<rparr>) }"
  have "\<exists>u. for_each [0..int w - 1] ?body s = Some u \<and> u = ?F w"
  proof (rule for_upto_rule[where I = "\<lambda>k t. t = ?F k"])
    fix k t assume k: "k < w" and t: "t = ?F k"
    let ?xs = "take base (fb s) @ map f [0..<k]"
    have "drop (base + k) (fb s) = fb s ! (base + k) # drop (base + Suc k) (fb s)"
      using k assms(1) by (simp add: Cons_nth_drop_Suc)
    then have "(?xs @ drop (base + k) (fb s))[base + k := f k] =
        ?xs @ f k # drop (base + Suc k) (fb s)"
      using k assms(1) by (simp add: list_update_append)
    then have "(fb t)[base + k := f k] = fb (?F (Suc k))" using t by simp
    moreover have "g (int k) t = Some (f k)" unfolding t by (rule assms(2)[OF k])
    moreover have "base + k < length (fb t)" using t k assms(1) by simp
    ultimately show "\<exists>u. ?body (0 + int k) t = Some u \<and> u = ?F (Suc k)"
      using t by (simp add: arr_set_def nat_int_add)
  qed simp_all
  then show ?thesis by simp
qed

lemma length_strip [simp]: "length (strip w b k) = w"
  by (simp add: strip_def)

lemma oled_window_eq:
  assumes "length (fb s) = 1024" and "take (length b) (bmp s) = b"
  shows "oled_window (int (length b)) (int k) s =
    Some (s\<lparr>fb := concat (replicate 8 (strip 128 b k))\<rparr>)"
proof -
  let ?F = "\<lambda>p. s\<lparr>fb := concat (replicate p (strip 128 b k)) @ drop (p * 128) (fb s)\<rparr>"
  have "\<exists>u. oled_window (int (length b)) (int k) s = Some u \<and> u = ?F 8"
    unfolding oled_window_def OLED_PAGES_def OLED_WIDTH_def
  proof (rule for_upto_rule[where I = "\<lambda>p t. t = ?F p"])
    fix p t assume p: "p < 8" and t: "t = ?F p"
    have len: "length (concat (replicate p (strip 128 b k))) = p * 128" by simp
    have "for_each [0..int 128 - 1] (\<lambda>col s. do {
         v \<leftarrow> (if int k + col < int (length b) then arr_get (bmp s) (int k + col) else Some 0x00);
         xs \<leftarrow> arr_set (fb s) (int (p * 128) + col) v;
         Some (s\<lparr>fb := xs\<rparr>) }) t =
      Some (t\<lparr>fb := take (p * 128) (fb t) @ map (\<lambda>c. column b (k + c)) [0..<128] @
        drop (p * 128 + 128) (fb t)\<rparr>)"
    proof (rule fill_row)
      show "p * 128 + 128 \<le> length (fb t)" using p t assms(1) by simp
      show "(if int k + int c < int (length b) then arr_get (bmp (t\<lparr>fb := xs\<rparr>)) (int k + int c) else Some 0) =
          Some (column b (k + c))" for c xs
        using read_column[OF assms(2), of "int k + int c"] t by (auto simp: nat_int_add split: if_splits)
    qed
    moreover have "t\<lparr>fb := take (p * 128) (fb t) @ map (\<lambda>c. column b (k + c)) [0..<128] @
        drop (p * 128 + 128) (fb t)\<rparr> = ?F (Suc p)"
      using t len by (simp add: strip_def concat_replicate_Suc add.commute
          del: upt_rec_numeral replicate_Suc)
    ultimately show "\<exists>u. for_each [0..int 128 - 1] (\<lambda>col s. do {
         v \<leftarrow> (if int k + col < int (length b) then arr_get (bmp s) (int k + col) else Some 0x00);
         xs \<leftarrow> arr_set (fb s) ((0 + int p) * int 128 + col) v;
         Some (s\<lparr>fb := xs\<rparr>) }) t = Some u \<and> u = ?F (Suc p)"
      by simp
  qed simp_all
  then show ?thesis using assms(1) by simp
qed

lemma length_oled_bitmap:
  "length (oled_bitmap text) = (let n = 6 * min (c_strlen text) 170 in n + min 128 (1024 - n))"
  by (simp add: oled_bitmap_def length_bitmap_cols chars_below_def)

lemma oled_bitmap_bounds: "128 \<le> length (oled_bitmap text)" "length (oled_bitmap text) \<le> 1024"
  by (auto simp: length_oled_bitmap Let_def)

lemma oled_load_eq:
  assumes "oled_wf s"
  shows "\<exists>t. oled_load text s = Some (int (length (oled_bitmap text)), t) \<and>
    oled_wf t \<and> take (length (oled_bitmap text)) (bmp t) = oled_bitmap text \<and> out t = out s"
  using build_text_bitmap_eq[of 1024 "bmp s" OLED_WIDTH "text"] assms oled_bitmap_bounds(2)[of "text"]
  by (auto simp: oled_load_def oled_wf_def oled_bitmap_def OLED_WIDTH_def Let_def)

section \<open>The driver interface\<close>

text \<open>
  What display_text needs of a driver: a command goes out without fault, a flush sends the
  whole frame buffer, a delay is a delay.
\<close>

locale paged_oled =
  fixes cmd :: oled_cmd
    and flush :: oled_flush
    and delay :: delay
    and cmd_out :: "u8 \<Rightarrow> hw list"
    and flush_out :: "u8 list \<Rightarrow> hw list"
  assumes cmd_eq: "cmd c s = Some (emit (cmd_out c) s)"
    and flush_eq: "length (fb s) = 1024 \<Longrightarrow> flush s = Some (emit (flush_out (fb s)) s)"
    and delay_eq: "delay n s = emit [Delay n] s"

text \<open>The events of a step, given those of a command and of a flush.\<close>

fun oled_events :: "(u8 \<Rightarrow> hw list) \<Rightarrow> (u8 list \<Rightarrow> hw list) \<Rightarrow> oled_step \<Rightarrow> hw list" where
  "oled_events c f (Picture p) = f (concat (replicate 8 p))"
| "oled_events c f (Command x) = c x"
| "oled_events c f (Pause n) = [Delay n]"

abbreviation oled_trace :: "(u8 \<Rightarrow> hw list) \<Rightarrow> (u8 list \<Rightarrow> hw list) \<Rightarrow> oled_step list \<Rightarrow> hw list" where
  "oled_trace c f xs \<equiv> concat (map (oled_events c f) xs)"

lemma oled_wf_emit [simp]: "oled_wf (emit es s) = oled_wf s"
  by (simp add: oled_wf_def)

context paged_oled begin

lemma window_flush:
  assumes "oled_wf s" and "take (length b) (bmp s) = b"
  shows "do { s \<leftarrow> oled_window (int (length b)) (int k) s; flush s } =
    Some (emit (oled_events cmd_out flush_out (Picture (strip 128 b k)))
      (s\<lparr>fb := concat (replicate 8 (strip 128 b k))\<rparr>))"
  using assms oled_window_eq[of s b k] by (simp add: oled_wf_def flush_eq)

lemma scroll_steps:
  assumes "oled_wf s"
  shows "\<exists>t. oled_scroll flush delay text sp s = Some t \<and> oled_wf t \<and>
    out t = out s @ oled_trace cmd_out flush_out (oled_scroll_script text sp)"
proof -
  let ?b = "oled_bitmap text"
  let ?n = "Suc (length ?b - 128)"
  obtain s1 where s1: "oled_load text s = Some (int (length ?b), s1)" "oled_wf s1"
      "take (length ?b) (bmp s1) = ?b" "out s1 = out s"
    using oled_load_eq[OF assms] by blast
  let ?f = "\<lambda>k. [Picture (strip 128 ?b k), Pause (of_int sp)]"
  let ?body = "\<lambda>offset s. do { s \<leftarrow> oled_window (int (length ?b)) offset s; s \<leftarrow> flush s;
       Some (delay (word_of_int sp) s) }"
  have "\<exists>t. for_each [0..int ?n - 1] ?body s1 = Some t \<and> (oled_wf t \<and> bmp t = bmp s1 \<and>
      out t = out s1 @ oled_trace cmd_out flush_out (concat (map ?f [0..<?n])))"
  proof (rule for_upto_rule[where I = "\<lambda>k t. oled_wf t \<and> bmp t = bmp s1 \<and>
      out t = out s1 @ oled_trace cmd_out flush_out (concat (map ?f [0..<k]))"])
    fix k t assume I: "oled_wf t \<and> bmp t = bmp s1 \<and>
      out t = out s1 @ oled_trace cmd_out flush_out (concat (map ?f [0..<k]))"
    have "?body (0 + int k) t = do { s \<leftarrow> do { s \<leftarrow> oled_window (int (length ?b)) (int k) t; flush s };
        Some (delay (word_of_int sp) s) }" by simp
    also have "\<dots> = Some (emit (oled_trace cmd_out flush_out (?f k))
        (t\<lparr>fb := concat (replicate 8 (strip 128 ?b k))\<rparr>))"
      using I s1(3) by (subst window_flush) (simp_all add: delay_eq)
    finally show "\<exists>u. ?body (0 + int k) t = Some u \<and> oled_wf u \<and> bmp u = bmp s1 \<and>
        out u = out s1 @ oled_trace cmd_out flush_out (concat (map ?f [0..<Suc k]))"
      using I by (auto simp: oled_wf_def)
  qed (use s1 in simp_all)
  moreover have "int (length ?b) - int OLED_WIDTH = int ?n - 1"
    using oled_bitmap_bounds(1)[of "text"] by (simp add: OLED_WIDTH_def)
  ultimately show ?thesis
    using s1 by (auto simp: oled_scroll_def oled_scroll_script_def Let_def simp del: upt_Suc of_nat_Suc)
qed

lemma still_steps:
  assumes "oled_wf s"
  shows "\<exists>t. oled_still flush text s = Some t \<and> oled_wf t \<and>
    out t = out s @ oled_events cmd_out flush_out (Picture (strip 128 (oled_bitmap text) 0))"
proof -
  let ?b = "oled_bitmap text"
  obtain s1 where s1: "oled_load text s = Some (int (length ?b), s1)" "oled_wf s1"
      "take (length ?b) (bmp s1) = ?b" "out s1 = out s"
    using oled_load_eq[OF assms] by blast
  with window_flush[OF s1(2,3), of 0] show ?thesis
    by (simp add: oled_still_def oled_wf_def)
qed

lemma contrast_steps:
  "for_each vs (oled_contrast cmd delay d) s =
    Some (emit (oled_trace cmd_out flush_out (contrast_script d vs)) s)"
  unfolding contrast_script_def
  by (rule for_each_steps) (simp add: oled_contrast_def cmd_eq delay_eq)

lemma display_text_steps:
  assumes wf: "oled_wf s"
    and len: "c_streq effect ''REVERSE'' \<Longrightarrow> c_strlen text < 2147483648"
  shows "\<exists>t. oled_display_text cmd flush delay text effect speed b f s = Some t \<and> oled_wf t \<and>
    out t = out s @ oled_trace cmd_out flush_out (oled_script text effect speed)"
proof -
  define sp where "sp = clamp_speed speed"
  obtain t where t: "oled_still flush text s = Some t" "oled_wf t"
    "out t = out s @ oled_events cmd_out flush_out (Picture (strip 128 (oled_bitmap text) 0))"
    using still_steps[OF wf] by blast
  consider (scroll) "c_streq effect ''SCROLL''"
    | (blink) "\<not> c_streq effect ''SCROLL''" "c_streq effect ''BLINK''"
    | (reverse) "\<not> c_streq effect ''SCROLL''" "\<not> c_streq effect ''BLINK''" "c_streq effect ''REVERSE''"
    | (fade) "\<not> c_streq effect ''SCROLL''" "\<not> c_streq effect ''BLINK''"
        "\<not> c_streq effect ''REVERSE''" "c_streq effect ''FADE''"
    | (other) "\<not> c_streq effect ''SCROLL''" "\<not> c_streq effect ''BLINK''"
        "\<not> c_streq effect ''REVERSE''" "\<not> c_streq effect ''FADE''"
    by blast
  then show ?thesis
  proof cases
    case scroll
    then show ?thesis
      using scroll_steps[OF wf] by (simp add: oled_display_text_def oled_script_def Let_def)
  next
    case blink
    have six: "replicate 6 x = map (\<lambda>_. x) [0..5]" for x :: "oled_step list"
      by (simp add: map_replicate_const)
    have "for_each [0..5] (\<lambda>i s. do { s \<leftarrow> cmd 0xAE (delay (word_of_int sp) s);
        cmd 0xAF (delay (word_of_int sp) s) }) t =
      Some (emit (oled_trace cmd_out flush_out (concat (map (\<lambda>_. [Pause (of_int sp), Command 0xAE,
        Pause (of_int sp), Command 0xAF]) [0..5]))) t)"
      by (rule for_each_steps) (simp add: cmd_eq delay_eq)
    with blink t show ?thesis
      by (simp add: oled_display_text_def oled_script_def Let_def sp_def [symmetric] six
          del: for_each.simps)
  next
    case reverse
    obtain r where r: "reverse_text stack_rev text = Some r" "c_str r = rev (take 127 (c_str text))"
      using reverse_text_c_str[OF length_stack_rev len[OF reverse(3)]] by blast
    have "oled_bitmap r = oled_bitmap (rev (take 127 (c_str text)))"
      using r(2) c_str_idem[of r] by (simp add: oled_bitmap_def bitmap_cols_def)
    with reverse r show ?thesis
      using scroll_steps[OF wf, of r sp]
      by (simp add: oled_display_text_def oled_script_def oled_scroll_script_def Let_def sp_def)
  next
    case fade
    with t show ?thesis
      by (simp add: oled_display_text_def oled_script_def Let_def contrast_steps cmd_eq)
  next
    case other
    with wf show ?thesis by (simp add: oled_display_text_def oled_script_def)
  qed
qed

lemma clear_eq:
  "oled_display_clear flush s = Some (emit (flush_out (replicate 1024 0)) (oled_blank s))"
  by (simp add: oled_display_clear_def oled_blank_def flush_eq OLED_WIDTH_def OLED_PAGES_def)

lemma cmds_eq: "for_each cs cmd s = Some (emit (concat (map cmd_out cs)) s)"
  by (rule for_each_emit) (rule cmd_eq)

end

text \<open>A device as the C start-up code leaves it: the static arrays zeroed.\<close>

definition oled_dev0 :: dev where
  "oled_dev0 = \<lparr>fb = replicate 1024 0, bmp = replicate 1024 0, bmp_len = 0, busy_in = [], out = []\<rparr>"

lemma oled_wf_dev0 [simp]: "oled_wf oled_dev0"
  by (simp add: oled_wf_def oled_dev0_def)

end
