(* ===== verification/Oled_Drivers.thy ===== *)
theory Oled_Drivers
  imports Paged_Oled
begin

text \<open>
  The six drivers of the paged OLED panels: SSD1306 and SSD1309 on I2C, SH1106 on SPI, each on
  the Pico (firmware/pico/src/driver) and on the ESP32 (firmware/esp32/main/driver). Each part
  gives the driver's command, flush, initialisation and display_text, and an interpretation of
  the driver interface of Paged_Oled.
\<close>

section \<open>I2C panels\<close>

text \<open>A command is the control byte 0x00 and the command; 0x3C is the address of the panel.\<close>

definition pico_ssd1306_cmd :: oled_cmd where
  "pico_ssd1306_cmd c s = Some (i2c_write_blocking 0x3C [0x00, c] s)"

definition pico_ssd1306_flush :: oled_flush where
  "pico_ssd1306_flush s = for_each [0..int OLED_PAGES - 1] (\<lambda>page s. do {
     let header = [0x00, 0xB0 OR word_of_int page, 0x00];
     let s = i2c_write_blocking 0x3C (take 1 header) s;
     s \<leftarrow> pico_ssd1306_cmd (0xB0 OR word_of_int page) s;
     s \<leftarrow> pico_ssd1306_cmd 0x00 s;
     s \<leftarrow> pico_ssd1306_cmd 0x10 s;
     row \<leftarrow> arr_slice (fb s) (page * int OLED_WIDTH) (int OLED_WIDTH);
     Some (i2c_write_blocking 0x3C (0x40 # row) s)
   }) s"

definition pico_ssd1309_cmd :: oled_cmd where
  "pico_ssd1309_cmd c s = Some (i2c_write_blocking 0x3C [0x00, c] s)"

definition pico_ssd1309_flush :: oled_flush where
  "pico_ssd1309_flush s = for_each [0..int OLED_PAGES - 1] (\<lambda>page s. do {
     s \<leftarrow> pico_ssd1309_cmd (0xB0 OR word_of_int page) s;
     s \<leftarrow> pico_ssd1309_cmd 0x00 s;
     s \<leftarrow> pico_ssd1309_cmd 0x10 s;
     row \<leftarrow> arr_slice (fb s) (page * int OLED_WIDTH) (int OLED_WIDTH);
     Some (i2c_write_blocking 0x3C (0x40 # row) s)
   }) s"

text \<open>The ESP32 drivers of both panels: ssd1306_write and ssd1309_write, and the same flush.\<close>

definition esp32_ssd1306_cmd :: oled_cmd where
  "esp32_ssd1306_cmd c s = Some (i2c_master_write_to_device 0x3C [0x00, c] s)"

definition esp32_ssd1306_flush :: oled_flush where
  "esp32_ssd1306_flush s = for_each [0..int OLED_PAGES - 1] (\<lambda>page s. do {
     s \<leftarrow> esp32_ssd1306_cmd (0xB0 OR word_of_int page) s;
     s \<leftarrow> esp32_ssd1306_cmd 0x00 s;
     s \<leftarrow> esp32_ssd1306_cmd 0x10 s;
     row \<leftarrow> arr_slice (fb s) (page * int OLED_WIDTH) (int OLED_WIDTH);
     Some (i2c_master_write_to_device 0x3C (0x40 # row) s)
   }) s"

definition esp32_ssd1309_cmd :: oled_cmd where
  "esp32_ssd1309_cmd c s = Some (i2c_master_write_to_device 0x3C [0x00, c] s)"

definition esp32_ssd1309_flush :: oled_flush where
  "esp32_ssd1309_flush s = for_each [0..int OLED_PAGES - 1] (\<lambda>page s. do {
     s \<leftarrow> esp32_ssd1309_cmd (0xB0 OR word_of_int page) s;
     s \<leftarrow> esp32_ssd1309_cmd 0x00 s;
     s \<leftarrow> esp32_ssd1309_cmd 0x10 s;
     row \<leftarrow> arr_slice (fb s) (page * int OLED_WIDTH) (int OLED_WIDTH);
     Some (i2c_master_write_to_device 0x3C (0x40 # row) s)
   }) s"

text \<open>The command sequences of display_init.\<close>

definition ssd1306_init_cmds :: "u8 list" where
  "ssd1306_init_cmds = [0xAE, 0xD5, 0x80, 0xA8, 63, 0xD3, 0x00, 0x40, 0x8D, 0x14, 0x20, 0x00,
     0xA1, 0xC8, 0xDA, 0x12, 0x81, 0xCF, 0xD9, 0xF1, 0xDB, 0x40, 0xA4, 0xA6, 0xAF]"

definition ssd1309_init_cmds :: "u8 list" where
  "ssd1309_init_cmds = [0xAE, 0xD5, 0x80, 0xA8, 63, 0xD3, 0x00, 0x40, 0x8D, 0x14, 0x20, 0x00,
     0xA1, 0xC8, 0xDA, 0x12, 0x81, 0xCF, 0xA4, 0xA6, 0xAF]"

text \<open>i2c_init at 400 kHz, pins 4 and 5 to I2C with pull-ups, as the Pico's I2C drivers start.\<close>

definition pico_i2c_bus :: "hw list" where
  "pico_i2c_bus = [I2cInit 400000, GpioFunc 4 GPIO_FUNC_I2C, GpioFunc 5 GPIO_FUNC_I2C,
     GpioPullUp 4, GpioPullUp 5]"

definition pico_ssd1306_display_init :: "dev \<Rightarrow> dev option" where
  "pico_ssd1306_display_init s = do {
     let s = sleep_ms 100 (emit pico_i2c_bus s);
     s \<leftarrow> for_each ssd1306_init_cmds pico_ssd1306_cmd s;
     Some (oled_blank s)
   }"

definition pico_ssd1309_display_init :: "dev \<Rightarrow> dev option" where
  "pico_ssd1309_display_init s = do {
     let s = sleep_ms 100 (emit pico_i2c_bus s);
     s \<leftarrow> for_each ssd1309_init_cmds pico_ssd1309_cmd s;
     Some (oled_blank s)
   }"

definition esp32_ssd1306_display_init :: "pins \<Rightarrow> dev \<Rightarrow> dev option" where
  "esp32_ssd1306_display_init p s = do {
     let s = vTaskDelay_ms 100 (emit (esp32_i2c_bus p) s);
     s \<leftarrow> for_each ssd1306_init_cmds esp32_ssd1306_cmd s;
     Some (oled_blank s)
   }"

definition esp32_ssd1309_display_init :: "pins \<Rightarrow> dev \<Rightarrow> dev option" where
  "esp32_ssd1309_display_init p s = do {
     let s = vTaskDelay_ms 100 (emit (esp32_i2c_bus p) s);
     s \<leftarrow> for_each ssd1309_init_cmds esp32_ssd1309_cmd s;
     Some (oled_blank s)
   }"

definition pico_ssd1306_display_clear :: "dev \<Rightarrow> dev option" where
  "pico_ssd1306_display_clear = oled_display_clear pico_ssd1306_flush"
definition pico_ssd1309_display_clear :: "dev \<Rightarrow> dev option" where
  "pico_ssd1309_display_clear = oled_display_clear pico_ssd1309_flush"
definition esp32_ssd1306_display_clear :: "dev \<Rightarrow> dev option" where
  "esp32_ssd1306_display_clear = oled_display_clear esp32_ssd1306_flush"
definition esp32_ssd1309_display_clear :: "dev \<Rightarrow> dev option" where
  "esp32_ssd1309_display_clear = oled_display_clear esp32_ssd1309_flush"

definition pico_ssd1306_display_text where
  "pico_ssd1306_display_text = oled_display_text pico_ssd1306_cmd pico_ssd1306_flush sleep_ms"
definition pico_ssd1309_display_text where
  "pico_ssd1309_display_text = oled_display_text pico_ssd1309_cmd pico_ssd1309_flush sleep_ms"
definition esp32_ssd1306_display_text where
  "esp32_ssd1306_display_text = oled_display_text esp32_ssd1306_cmd esp32_ssd1306_flush vTaskDelay_ms"
definition esp32_ssd1309_display_text where
  "esp32_ssd1309_display_text = oled_display_text esp32_ssd1309_cmd esp32_ssd1309_flush vTaskDelay_ms"

text \<open>build_text_bitmap of the six files.\<close>

definition oled_build_text_bitmap :: "string \<Rightarrow> u8 list \<Rightarrow> int \<Rightarrow> (u8 list \<times> int) option" where
  "oled_build_text_bitmap = build_text_bitmap OLED_WIDTH"
definition pico_ssd1309_build_text_bitmap where
  "pico_ssd1309_build_text_bitmap = oled_build_text_bitmap"
definition pico_sh1106_build_bitmap where
  "pico_sh1106_build_bitmap = oled_build_text_bitmap"
definition esp32_ssd1306_build_text_bitmap where
  "esp32_ssd1306_build_text_bitmap = oled_build_text_bitmap"
definition esp32_ssd1309_build_text_bitmap where
  "esp32_ssd1309_build_text_bitmap = oled_build_text_bitmap"
definition esp32_sh1106_build_bitmap where
  "esp32_sh1106_build_bitmap = oled_build_text_bitmap"

section \<open>SH1106\<close>

text \<open>Pico pins: CS 17, DC 20, RST 21. The panel's 132 columns start at 2.\<close>

definition SH1106_COL_OFFSET :: u8 where "SH1106_COL_OFFSET = 2"

definition pico_sh1106_cmd :: oled_cmd where
  "pico_sh1106_cmd c s =
     Some (gpio_put 17 True (spi_write_blocking [c] (gpio_put 17 False (gpio_put 20 False s))))"

definition pico_sh1106_data :: "u8 list \<Rightarrow> dev \<Rightarrow> dev" where
  "pico_sh1106_data buf s =
     gpio_put 17 True (spi_write_blocking buf (gpio_put 17 False (gpio_put 20 True s)))"

definition pico_sh1106_flush :: oled_flush where
  "pico_sh1106_flush s = for_each [0..int OLED_PAGES - 1] (\<lambda>page s. do {
     s \<leftarrow> pico_sh1106_cmd (0xB0 OR word_of_int page) s;
     s \<leftarrow> pico_sh1106_cmd (0x00 OR (SH1106_COL_OFFSET AND 0x0F)) s;
     s \<leftarrow> pico_sh1106_cmd (0x10 OR (drop_bit 4 SH1106_COL_OFFSET AND 0x0F)) s;
     row \<leftarrow> arr_slice (fb s) (page * int OLED_WIDTH) (int OLED_WIDTH);
     Some (pico_sh1106_data row s)
   }) s"

definition esp32_sh1106_cmd :: "pins \<Rightarrow> oled_cmd" where
  "esp32_sh1106_cmd p c s = spi_device_polling_transmit 8 [c] (gpio_set_level (SPI_DC_PIN p) False s)"

definition esp32_sh1106_data :: "pins \<Rightarrow> u8 list \<Rightarrow> dev \<Rightarrow> dev option" where
  "esp32_sh1106_data p buf s =
     spi_device_polling_transmit (int (length buf) * 8) buf (gpio_set_level (SPI_DC_PIN p) True s)"

definition esp32_sh1106_flush :: "pins \<Rightarrow> oled_flush" where
  "esp32_sh1106_flush p s = for_each [0..int OLED_PAGES - 1] (\<lambda>page s. do {
     s \<leftarrow> esp32_sh1106_cmd p (0xB0 OR word_of_int page) s;
     s \<leftarrow> esp32_sh1106_cmd p (0x00 OR (SH1106_COL_OFFSET AND 0x0F)) s;
     s \<leftarrow> esp32_sh1106_cmd p (0x10 OR (drop_bit 4 SH1106_COL_OFFSET AND 0x0F)) s;
     row \<leftarrow> arr_slice (fb s) (page * int OLED_WIDTH) (int OLED_WIDTH);
     esp32_sh1106_data p row s
   }) s"

definition sh1106_init_cmds :: "u8 list" where
  "sh1106_init_cmds = [0xAE, 0xD5, 0x80, 0xA8, 0x3F, 0xD3, 0x00, 0x40, 0xAD, 0x8B, 0xA1, 0xC8,
     0xDA, 0x12, 0x81, 0xCF, 0xD9, 0x1F, 0xDB, 0x40, 0xA4, 0xA6, 0xAF]"

text \<open>
  The SPI start-up of the Pico's drivers with chip select, data/command and reset lines:
  the bus clock, the two SPI pins, the three outputs with their first levels.
\<close>

definition pico_spi_bus :: "u32 \<Rightarrow> bool \<Rightarrow> hw list" where
  "pico_spi_bus hz dc = [SpiInit hz, GpioFunc 19 GPIO_FUNC_SPI, GpioFunc 18 GPIO_FUNC_SPI] @
     gpio_out_pin 17 True @ gpio_out_pin 20 dc @ gpio_out_pin 21 True"

definition pico_sh1106_display_init :: "dev \<Rightarrow> dev option" where
  "pico_sh1106_display_init s = do {
     let s = emit (pico_spi_bus 8000000 False) s;
     let s = sleep_ms 10 (gpio_put 21 False s);
     let s = sleep_ms 10 (gpio_put 21 True s);
     s \<leftarrow> for_each sh1106_init_cmds pico_sh1106_cmd s;
     Some (oled_blank s)
   }"

text \<open>
  The SPI start-up of the ESP32 drivers: the data/command and reset pins as outputs, their
  first levels, then the bus and the device.
\<close>

definition esp32_spi_pins :: "pins \<Rightarrow> bool \<Rightarrow> u32 \<Rightarrow> hw list" where
  "esp32_spi_pins p dc hz =
     [GpioConfig (pin_mask [SPI_DC_PIN p, SPI_RST_PIN p]) True,
      Gpio (SPI_DC_PIN p) dc, Gpio (SPI_RST_PIN p) True] @ esp32_spi_bus p hz (Some (SPI_CS_PIN p))"

definition esp32_sh1106_display_init :: "pins \<Rightarrow> dev \<Rightarrow> dev option" where
  "esp32_sh1106_display_init p s = do {
     let s = emit (esp32_spi_pins p False 8000000) s;
     let s = vTaskDelay_ms 10 (gpio_set_level (SPI_RST_PIN p) False s);
     let s = vTaskDelay_ms 10 (gpio_set_level (SPI_RST_PIN p) True s);
     s \<leftarrow> for_each sh1106_init_cmds (esp32_sh1106_cmd p) s;
     Some (oled_blank s)
   }"

definition pico_sh1106_display_clear :: "dev \<Rightarrow> dev option" where
  "pico_sh1106_display_clear = oled_display_clear pico_sh1106_flush"
definition esp32_sh1106_display_clear :: "pins \<Rightarrow> dev \<Rightarrow> dev option" where
  "esp32_sh1106_display_clear p = oled_display_clear (esp32_sh1106_flush p)"

definition pico_sh1106_display_text where
  "pico_sh1106_display_text = oled_display_text pico_sh1106_cmd pico_sh1106_flush sleep_ms"
definition esp32_sh1106_display_text where
  "esp32_sh1106_display_text p =
     oled_display_text (esp32_sh1106_cmd p) (esp32_sh1106_flush p) vTaskDelay_ms"

section \<open>What commands and flushes send\<close>

definition i2c_cmd_out :: "u8 \<Rightarrow> hw list" where
  "i2c_cmd_out c = [I2c 0x3C [0x00, c]]"

definition page_row :: "u8 list \<Rightarrow> nat \<Rightarrow> u8 list" where
  "page_row xs p = take 128 (drop (p * 128) xs)"

text \<open>A flush: for every page its address, the column address and the page's 128 bytes.\<close>

definition i2c_flush_out :: "u8 list \<Rightarrow> hw list" where
  "i2c_flush_out xs = concat (map (\<lambda>p. concat (map i2c_cmd_out [0xB0 OR of_nat p, 0x00, 0x10]) @
     [I2c 0x3C (0x40 # page_row xs p)]) [0..<8])"

text \<open>The Pico's SSD1306 driver sends a lone control byte before each page.\<close>

definition pico_ssd1306_flush_out :: "u8 list \<Rightarrow> hw list" where
  "pico_ssd1306_flush_out xs = concat (map (\<lambda>p. I2c 0x3C [0x00] #
     concat (map i2c_cmd_out [0xB0 OR of_nat p, 0x00, 0x10]) @
     [I2c 0x3C (0x40 # page_row xs p)]) [0..<8])"

definition pico_sh1106_cmd_out :: "u8 \<Rightarrow> hw list" where
  "pico_sh1106_cmd_out c = [Gpio 20 False, Gpio 17 False, Spi [c], Gpio 17 True]"

definition esp32_sh1106_cmd_out :: "pins \<Rightarrow> u8 \<Rightarrow> hw list" where
  "esp32_sh1106_cmd_out p c = [Gpio (SPI_DC_PIN p) False, SpiTx [c]]"

definition pico_sh1106_flush_out :: "u8 list \<Rightarrow> hw list" where
  "pico_sh1106_flush_out xs = concat (map (\<lambda>p.
     concat (map pico_sh1106_cmd_out [0xB0 OR of_nat p, 0x02, 0x10]) @
     [Gpio 20 True, Gpio 17 False, Spi (page_row xs p), Gpio 17 True]) [0..<8])"

definition esp32_sh1106_flush_out :: "pins \<Rightarrow> u8 list \<Rightarrow> hw list" where
  "esp32_sh1106_flush_out q xs = concat (map (\<lambda>p.
     concat (map (esp32_sh1106_cmd_out q) [0xB0 OR of_nat p, 0x02, 0x10]) @
     [Gpio (SPI_DC_PIN q) True, SpiTx (page_row xs p)]) [0..<8])"

lemma page_slice:
  "p < 8 \<Longrightarrow> length xs = 1024 \<Longrightarrow> arr_slice xs (int p * int OLED_WIDTH) (int OLED_WIDTH) = Some (page_row xs p)"
  by (simp add: OLED_WIDTH_def page_row_def nat_mult_distrib)

lemma pages_ints: "[0..int OLED_PAGES - 1] = map int [0..<8]"
  using upto_ints[of 8] by (simp add: OLED_PAGES_def)

lemma length_page_row: "p < 8 \<Longrightarrow> length xs = 1024 \<Longrightarrow> length (page_row xs p) = 128"
  by (simp add: page_row_def)

lemmas i2c_defs = pico_ssd1306_cmd_def pico_ssd1309_cmd_def esp32_ssd1306_cmd_def
  esp32_ssd1309_cmd_def i2c_cmd_out_def hw_ops

interpretation pico_ssd1306: paged_oled pico_ssd1306_cmd pico_ssd1306_flush sleep_ms
    i2c_cmd_out pico_ssd1306_flush_out
proof unfold_locales
  fix s :: dev assume len: "length (fb s) = 1024"
  show "pico_ssd1306_flush s = Some (emit (pico_ssd1306_flush_out (fb s)) s)"
    unfolding pico_ssd1306_flush_def pico_ssd1306_flush_out_def pages_ints for_each_map
    by (rule for_each_emit) (simp add: len page_slice i2c_defs Let_def)
qed (simp_all add: i2c_defs)

interpretation pico_ssd1309: paged_oled pico_ssd1309_cmd pico_ssd1309_flush sleep_ms
    i2c_cmd_out i2c_flush_out
proof unfold_locales
  fix s :: dev assume len: "length (fb s) = 1024"
  show "pico_ssd1309_flush s = Some (emit (i2c_flush_out (fb s)) s)"
    unfolding pico_ssd1309_flush_def i2c_flush_out_def pages_ints for_each_map
    by (rule for_each_emit) (simp add: len page_slice i2c_defs)
qed (simp_all add: i2c_defs)

interpretation esp32_ssd1306: paged_oled esp32_ssd1306_cmd esp32_ssd1306_flush vTaskDelay_ms
    i2c_cmd_out i2c_flush_out
proof unfold_locales
  fix s :: dev assume len: "length (fb s) = 1024"
  show "esp32_ssd1306_flush s = Some (emit (i2c_flush_out (fb s)) s)"
    unfolding esp32_ssd1306_flush_def i2c_flush_out_def pages_ints for_each_map
    by (rule for_each_emit) (simp add: len page_slice i2c_defs)
qed (simp_all add: i2c_defs)

interpretation esp32_ssd1309: paged_oled esp32_ssd1309_cmd esp32_ssd1309_flush vTaskDelay_ms
    i2c_cmd_out i2c_flush_out
proof unfold_locales
  fix s :: dev assume len: "length (fb s) = 1024"
  show "esp32_ssd1309_flush s = Some (emit (i2c_flush_out (fb s)) s)"
    unfolding esp32_ssd1309_flush_def i2c_flush_out_def pages_ints for_each_map
    by (rule for_each_emit) (simp add: len page_slice i2c_defs)
qed (simp_all add: i2c_defs)

lemmas sh1106_defs = pico_sh1106_cmd_def pico_sh1106_data_def pico_sh1106_cmd_out_def
  esp32_sh1106_cmd_def esp32_sh1106_data_def esp32_sh1106_cmd_out_def SH1106_COL_OFFSET_def hw_ops

interpretation pico_sh1106: paged_oled pico_sh1106_cmd pico_sh1106_flush sleep_ms
    pico_sh1106_cmd_out pico_sh1106_flush_out
proof unfold_locales
  fix s :: dev assume len: "length (fb s) = 1024"
  show "pico_sh1106_flush s = Some (emit (pico_sh1106_flush_out (fb s)) s)"
    unfolding pico_sh1106_flush_def pico_sh1106_flush_out_def pages_ints for_each_map
    by (rule for_each_emit) (simp add: len page_slice sh1106_defs)
qed (simp_all add: sh1106_defs)

interpretation esp32_sh1106: paged_oled "esp32_sh1106_cmd q" "esp32_sh1106_flush q" vTaskDelay_ms
    "esp32_sh1106_cmd_out q" "esp32_sh1106_flush_out q" for q
proof unfold_locales
  fix s :: dev assume len: "length (fb s) = 1024"
  show "esp32_sh1106_flush q s = Some (emit (esp32_sh1106_flush_out q (fb s)) s)"
    unfolding esp32_sh1106_flush_def esp32_sh1106_flush_out_def pages_ints for_each_map
    by (rule for_each_emit) (simp add: len page_slice sh1106_defs)
qed (simp_all add: sh1106_defs)

section \<open>Properties\<close>

lemmas oled_text_defs = pico_ssd1306_display_text_def pico_ssd1309_display_text_def
  pico_sh1106_display_text_def esp32_ssd1306_display_text_def esp32_ssd1309_display_text_def
  esp32_sh1106_display_text_def

text \<open>
  C25: display_text of each of the six paged OLED drivers returns with every access in bounds,
  keeps its buffers, and sends exactly the pictures, commands and pauses of the effect's
  script, for every text, effect and parameters (for REVERSE, texts whose length is an int).
\<close>

theorem oled_display_text_correct:
  assumes "oled_wf s" and "c_streq effect ''REVERSE'' \<Longrightarrow> c_strlen text < 2147483648"
  shows "list_all (\<lambda>(display_text, c, f). \<exists>t. display_text text effect speed b fade s = Some t \<and>
      oled_wf t \<and> out t = out s @ oled_trace c f (oled_script text effect speed))
    [(pico_ssd1306_display_text, i2c_cmd_out, pico_ssd1306_flush_out),
     (pico_ssd1309_display_text, i2c_cmd_out, i2c_flush_out),
     (pico_sh1106_display_text, pico_sh1106_cmd_out, pico_sh1106_flush_out),
     (esp32_ssd1306_display_text, i2c_cmd_out, i2c_flush_out),
     (esp32_ssd1309_display_text, i2c_cmd_out, i2c_flush_out),
     (esp32_sh1106_display_text p, esp32_sh1106_cmd_out p, esp32_sh1106_flush_out p)]"
  unfolding oled_text_defs
  using pico_ssd1306.display_text_steps[OF assms] pico_ssd1309.display_text_steps[OF assms]
    pico_sh1106.display_text_steps[OF assms] esp32_ssd1306.display_text_steps[OF assms]
    esp32_ssd1309.display_text_steps[OF assms]
    esp32_sh1106.display_text_steps[OF assms, where q = p]
  by simp

theorem oled_display_text_correct_witness:
  "\<exists>t. pico_sh1106_display_text ''Hello'' ''REVERSE'' 50 0 0 oled_dev0 = Some t \<and> oled_wf t"
  using oled_display_text_correct[of oled_dev0 "''REVERSE''" "''Hello''" 50 0 0]
  by (auto simp: c_strlen_def)

text \<open>
  The function display_init of each driver sends its whole command sequence, which starts with display
  off and ends with display on, and leaves a blank frame buffer of the full size.
\<close>

theorem oled_init_correct:
  "list_all (\<lambda>(r, pre, c, cmds). r = Some (oled_blank (emit (pre @ concat (map c cmds)) s)) \<and>
      hd cmds = 0xAE \<and> last cmds = 0xAF \<and> length (fb (the r)) = 1024)
    [(pico_ssd1306_display_init s, pico_i2c_bus @ [Delay 100], i2c_cmd_out, ssd1306_init_cmds),
     (pico_ssd1309_display_init s, pico_i2c_bus @ [Delay 100], i2c_cmd_out, ssd1309_init_cmds),
     (esp32_ssd1306_display_init p s, esp32_i2c_bus p @ [Delay 100], i2c_cmd_out, ssd1306_init_cmds),
     (esp32_ssd1309_display_init p s, esp32_i2c_bus p @ [Delay 100], i2c_cmd_out, ssd1309_init_cmds),
     (pico_sh1106_display_init s, pico_spi_bus 8000000 False @
        [Gpio 21 False, Delay 10, Gpio 21 True, Delay 10], pico_sh1106_cmd_out, sh1106_init_cmds),
     (esp32_sh1106_display_init p s, esp32_spi_pins p False 8000000 @
        [Gpio (SPI_RST_PIN p) False, Delay 10, Gpio (SPI_RST_PIN p) True, Delay 10],
        esp32_sh1106_cmd_out p, sh1106_init_cmds)]"
proof -
  have blank: "length (fb (oled_blank t)) = 1024" for t
    by (simp add: oled_blank_def OLED_WIDTH_def OLED_PAGES_def)
  have ends: "hd ssd1306_init_cmds = 0xAE" "last ssd1306_init_cmds = 0xAF"
    "hd ssd1309_init_cmds = 0xAE" "last ssd1309_init_cmds = 0xAF"
    "hd sh1106_init_cmds = 0xAE" "last sh1106_init_cmds = 0xAF"
    by (simp_all add: ssd1306_init_cmds_def ssd1309_init_cmds_def sh1106_init_cmds_def)
  show ?thesis
    by (simp add: blank ends pico_ssd1306_display_init_def pico_ssd1309_display_init_def
        esp32_ssd1306_display_init_def esp32_ssd1309_display_init_def pico_sh1106_display_init_def
        esp32_sh1106_display_init_def hw_ops pico_ssd1306.cmds_eq pico_ssd1309.cmds_eq
        esp32_ssd1306.cmds_eq esp32_ssd1309.cmds_eq pico_sh1106.cmds_eq esp32_sh1106.cmds_eq)
qed

text \<open>
  The display RAM of the SH1106 as its data sheet gives it: a byte sent with the data line low
  sets the page (0xB0 to 0xB7) or a nibble of the column, a byte sent with the line high is
  stored at the current page and column, and the column moves on.
\<close>

record sh1106_panel =
  ram :: "nat \<Rightarrow> nat \<Rightarrow> u8"
  cur_page :: nat
  cur_col :: nat
  dc_high :: bool

definition sh1106_byte :: "u8 \<Rightarrow> sh1106_panel \<Rightarrow> sh1106_panel" where
  "sh1106_byte b q =
    (if dc_high q then q\<lparr>ram := (ram q)(cur_page q := (ram q (cur_page q))(cur_col q := b)),
                         cur_col := cur_col q + 1\<rparr>
     else if b < 0x10 then q\<lparr>cur_col := (cur_col q div 16) * 16 + unat b\<rparr>
     else if b < 0x20 then q\<lparr>cur_col := (unat b - 16) * 16 + cur_col q mod 16\<rparr>
     else if 0xB0 \<le> b \<and> b < 0xB8 then q\<lparr>cur_page := unat b - 0xB0\<rparr>
     else q)"

fun sh1106_event :: "nat \<Rightarrow> hw \<Rightarrow> sh1106_panel \<Rightarrow> sh1106_panel" where
  "sh1106_event dc (Gpio n v) q = (if n = dc then q\<lparr>dc_high := v\<rparr> else q)"
| "sh1106_event dc (Spi bs) q = fold sh1106_byte bs q"
| "sh1106_event dc (SpiTx bs) q = fold sh1106_byte bs q"
| "sh1106_event dc _ q = q"

definition sh1106_panel_run :: "nat \<Rightarrow> hw list \<Rightarrow> sh1106_panel \<Rightarrow> sh1106_panel" where
  "sh1106_panel_run dc es q = fold (sh1106_event dc) es q"

lemma sh1106_data_run:
  "dc_high q \<Longrightarrow> fold sh1106_byte bs q =
    q\<lparr>ram := (ram q)(cur_page q := (\<lambda>c. if cur_col q \<le> c \<and> c < cur_col q + length bs
        then bs ! (c - cur_col q) else ram q (cur_page q) c)),
      cur_col := cur_col q + length bs\<rparr>"
proof (induction bs arbitrary: q)
  case Nil
  have "(\<lambda>c. if cur_col q \<le> c \<and> c < cur_col q then [] ! (c - cur_col q) else ram q (cur_page q) c) =
      ram q (cur_page q)" by (rule ext) auto
  then show ?case by simp
next
  case (Cons b bs)
  have "fold sh1106_byte (b # bs) q = fold sh1106_byte bs (sh1106_byte b q)" by simp
  also have "\<dots> = q\<lparr>ram := (ram q)(cur_page q := (\<lambda>c. if cur_col q \<le> c \<and> c < cur_col q + length (b # bs)
        then (b # bs) ! (c - cur_col q) else ram q (cur_page q) c)),
      cur_col := cur_col q + length (b # bs)\<rparr>"
    using Cons.prems by (subst Cons.IH) (auto simp: sh1106_byte_def fun_eq_iff nth_Cons')
  finally show ?case .
qed

lemma page_cmd:
  assumes "p < 8"
  shows "(0xB0 OR of_nat p :: u8) = 0xB0 + of_nat p" "0xB0 \<le> (0xB0 OR of_nat p :: u8)"
    "(0xB0 OR of_nat p :: u8) < 0xB8" "unat (0xB0 OR of_nat p :: u8) = 0xB0 + p"
proof -
  from assms have "p \<in> {0, 1, 2, 3, 4, 5, 6, 7}" by auto
  then show "(0xB0 OR of_nat p :: u8) = 0xB0 + of_nat p" "0xB0 \<le> (0xB0 OR of_nat p :: u8)"
    "(0xB0 OR of_nat p :: u8) < 0xB8" "unat (0xB0 OR of_nat p :: u8) = 0xB0 + p" by auto
qed

text \<open>Seen from the addressing bytes the data line of the panel does not move.\<close>

lemma sh1106_byte_dc [simp]: "dc_high (sh1106_byte b q) = dc_high q"
  by (simp add: sh1106_byte_def)

lemma sh1106_dc_low [simp]: "\<not> dc_high q \<Longrightarrow> q\<lparr>dc_high := False\<rparr> = q"
  by (cases q) simp

text \<open>One page of a flush: the addressing bytes put the page's bytes at columns 2 to 129.\<close>

definition page_stored :: "u8 list \<Rightarrow> nat \<Rightarrow> (nat \<Rightarrow> u8) \<Rightarrow> nat \<Rightarrow> u8" where
  "page_stored xs p old c = (if 2 \<le> c \<and> c < 130 then xs ! (p * 128 + (c - 2)) else old c)"

lemma sh1106_address:
  assumes "\<not> dc_high q" and "p < 8"
  shows "sh1106_byte 0x10 (sh1106_byte 0x02 (sh1106_byte (0xB0 OR of_nat p) q)) =
    q\<lparr>cur_page := p, cur_col := 2\<rparr>"
proof -
  have "\<not> (0xB0 OR of_nat p :: u8) < 0x10" "\<not> (0xB0 OR of_nat p :: u8) < 0x20"
    using page_cmd(2)[OF assms(2)] by (simp_all add: word_less_nat_alt word_le_nat_alt)
  moreover have "Suc (Suc (n div 16 * 16)) mod 16 = 2" for n :: nat by presburger
  ultimately show ?thesis
    using assms(1) page_cmd[OF assms(2)] by (simp add: sh1106_byte_def)
qed

lemma sh1106_page:
  assumes "\<not> dc_high q" and "p < 8" and "length xs = 1024"
  shows "ram (fold sh1106_byte (page_row xs p) ((sh1106_byte 0x10 (sh1106_byte 0x02
      (sh1106_byte (0xB0 OR of_nat p) q)))\<lparr>dc_high := True\<rparr>)) = (ram q)(p := page_stored xs p (ram q p))"
proof -
  have len: "length (page_row xs p) = 128" using length_page_row assms by blast
  have nth: "page_row xs p ! k = xs ! (p * 128 + k)" if "k < 128" for k
    using that assms by (simp add: page_row_def)
  show ?thesis
    unfolding sh1106_address[OF assms(1,2)]
    by (subst sh1106_data_run) (auto simp: len nth page_stored_def fun_eq_iff)
qed

lemma sh1106_flush_ram:
  assumes page: "\<And>p q. p < 8 \<Longrightarrow> ram (sh1106_panel_run dc (pg p) q) = (ram q)(p := page_stored xs p (ram q p))"
  shows "ram (sh1106_panel_run dc (concat (map pg [0..<8])) q) =
    (\<lambda>p. if p < 8 then page_stored xs p (ram q p) else ram q p)"
proof -
  have "ram (sh1106_panel_run dc (concat (map pg [0..<n])) q) =
      (\<lambda>p. if p < n then page_stored xs p (ram q p) else ram q p)" if "n \<le> 8" for n
    using that
  proof (induction n)
    case 0
    then show ?case by (simp add: sh1106_panel_run_def)
  next
    case (Suc n)
    have "sh1106_panel_run dc (concat (map pg [0..<Suc n])) q =
        sh1106_panel_run dc (pg n) (sh1106_panel_run dc (concat (map pg [0..<n])) q)"
      by (simp add: sh1106_panel_run_def)
    with Suc page[of n] show ?case by (auto simp: fun_eq_iff page_stored_def)
  qed
  from this[of 8] show ?thesis by (simp del: upt_rec_numeral)
qed

text \<open>The page events, seen from the data line the panel listens to.\<close>

lemma pico_sh1106_page_ram:
  assumes "p < 8" and "length xs = 1024"
  shows "ram (sh1106_panel_run 20 (concat (map pico_sh1106_cmd_out [0xB0 OR of_nat p, 0x02, 0x10]) @
      [Gpio 20 True, Gpio 17 False, Spi (page_row xs p), Gpio 17 True]) q) =
    (ram q)(p := page_stored xs p (ram q p))"
  using sh1106_page[of "q\<lparr>dc_high := False\<rparr>" p xs] assms
  by (simp add: sh1106_panel_run_def pico_sh1106_cmd_out_def sh1106_byte_dc)

lemma esp32_sh1106_page_ram:
  assumes "p < 8" and "length xs = 1024"
  shows "ram (sh1106_panel_run (SPI_DC_PIN w) (concat (map (esp32_sh1106_cmd_out w) [0xB0 OR of_nat p, 0x02, 0x10]) @
      [Gpio (SPI_DC_PIN w) True, SpiTx (page_row xs p)]) q) =
    (ram q)(p := page_stored xs p (ram q p))"
  using sh1106_page[of "q\<lparr>dc_high := False\<rparr>" p xs] assms
  by (simp add: sh1106_panel_run_def esp32_sh1106_cmd_out_def sh1106_byte_dc)

text \<open>
  A flush of the SH1106 drivers leaves the frame buffer in the panel's RAM: column c of
  page p at RAM column c + 2, where the 128 visible columns of the 132-column RAM start. The
  RAM outside those columns keeps its contents.
\<close>

theorem sh1106_flush_shows_buffer:
  assumes "length (fb s) = 1024"
  shows "list_all (\<lambda>(flush, dc). \<exists>t. flush s = Some t \<and>
      (\<forall>q p c. ram (sh1106_panel_run dc (drop (length (out s)) (out t)) q) p c =
         (if p < 8 \<and> 2 \<le> c \<and> c < 130 then fb s ! (p * 128 + (c - 2)) else ram q p c)))
    [(pico_sh1106_flush, 20), (esp32_sh1106_flush w, SPI_DC_PIN w)]"
proof -
  have pico: "ram (sh1106_panel_run 20 (pico_sh1106_flush_out (fb s)) q) =
      (\<lambda>p. if p < 8 then page_stored (fb s) p (ram q p) else ram q p)" for q
    unfolding pico_sh1106_flush_out_def
    by (rule sh1106_flush_ram, rule pico_sh1106_page_ram) (simp_all add: assms)
  have esp32: "ram (sh1106_panel_run (SPI_DC_PIN w) (esp32_sh1106_flush_out w (fb s)) q) =
      (\<lambda>p. if p < 8 then page_stored (fb s) p (ram q p) else ram q p)" for q
    unfolding esp32_sh1106_flush_out_def
    by (rule sh1106_flush_ram, rule esp32_sh1106_page_ram) (simp_all add: assms)
  show ?thesis
    using pico_sh1106.flush_eq[OF assms] esp32_sh1106.flush_eq[OF assms, where q = w]
    by (simp add: pico esp32 page_stored_def)
qed

theorem sh1106_flush_shows_buffer_witness:
  "\<exists>t. pico_sh1106_flush (oled_dev0\<lparr>fb := replicate 1024 7\<rparr>) = Some t \<and>
    (\<forall>q. ram (sh1106_panel_run 20 (out t) q) 3 5 = 7)"
proof -
  have "length (fb (oled_dev0\<lparr>fb := replicate 1024 7\<rparr>)) = 1024" by simp
  from sh1106_flush_shows_buffer[OF this, where w = "chip_pins ESP32_CLASSIC"]
  obtain t where "pico_sh1106_flush (oled_dev0\<lparr>fb := replicate 1024 7\<rparr>) = Some t"
    "\<forall>q p c. ram (sh1106_panel_run 20 (drop (length (out oled_dev0)) (out t)) q) p c =
       (if p < 8 \<and> 2 \<le> c \<and> c < 130 then replicate 1024 7 ! (p * 128 + (c - 2)) else ram q p c)"
    by (auto simp del: replicate.simps)
  then show ?thesis by (simp add: oled_dev0_def del: replicate.simps)
qed

text \<open>
  The data bytes an I2C panel receives: those of the transfers that open with the control byte
  0x40. A transfer that opens with 0x00 carries a command.
\<close>

fun i2c_data :: "hw list \<Rightarrow> u8 list" where
  "i2c_data [] = []"
| "i2c_data (I2c a (c # bs) # es) = (if c = 0x40 then bs else []) @ i2c_data es"
| "i2c_data (_ # es) = i2c_data es"

lemma i2c_data_append [simp]: "i2c_data (xs @ ys) = i2c_data xs @ i2c_data ys"
  by (induction xs rule: i2c_data.induct) simp_all

lemma i2c_data_concat: "i2c_data (concat (map g ps)) = concat (map (\<lambda>p. i2c_data (g p)) ps)"
  by (induction ps) simp_all

lemma pages_concat: "concat (map (page_row xs) [0..<n]) = take (n * 128) xs"
proof (induction n)
  case (Suc n)
  have "take (n * 128) xs @ page_row xs n = take (n * 128 + 128) xs"
    by (simp add: page_row_def take_add)
  with Suc show ?case by (simp add: add.commute)
qed simp

lemma i2c_flush_data:
  assumes "length xs = 1024"
  shows "i2c_data (i2c_flush_out xs) = xs" "i2c_data (pico_ssd1306_flush_out xs) = xs"
proof -
  have "i2c_data (i2c_flush_out xs) = concat (map (page_row xs) [0..<8])"
    "i2c_data (pico_ssd1306_flush_out xs) = concat (map (page_row xs) [0..<8])"
    unfolding i2c_flush_out_def pico_ssd1306_flush_out_def i2c_data_concat
    by (simp_all add: i2c_cmd_out_def del: upt_rec_numeral)
  with pages_concat[of xs 8] assms show "i2c_data (i2c_flush_out xs) = xs"
    "i2c_data (pico_ssd1306_flush_out xs) = xs" by (simp_all del: upt_rec_numeral)
qed

text \<open>
  The data bytes of one flush of the SSD1306 and SSD1309 drivers are the frame buffer, in
  order and nothing else: 1024 bytes, which is one round of the panel's address counter in the
  horizontal addressing mode the initialisation selects (0x20, 0x00). display_clear therefore
  sends 1024 zero bytes.
\<close>

theorem ssd130x_flush_data:
  assumes "length (fb s) = 1024"
  shows "list_all (\<lambda>(flush, clear).
      (\<exists>t. flush s = Some t \<and> i2c_data (drop (length (out s)) (out t)) = fb s) \<and>
      (\<exists>t. clear s = Some t \<and> i2c_data (drop (length (out s)) (out t)) = replicate 1024 0))
    [(pico_ssd1306_flush, pico_ssd1306_display_clear),
     (pico_ssd1309_flush, pico_ssd1309_display_clear),
     (esp32_ssd1306_flush, esp32_ssd1306_display_clear),
     (esp32_ssd1309_flush, esp32_ssd1309_display_clear)]"
proof -
  have zero: "i2c_data (i2c_flush_out (replicate 1024 0)) = replicate 1024 0"
    "i2c_data (pico_ssd1306_flush_out (replicate 1024 0)) = replicate 1024 0"
    by (rule i2c_flush_data, rule length_replicate)+
  have out_blank: "out (oled_blank s) = out s" by (simp add: oled_blank_def)
  show ?thesis
    using assms by (simp add: pico_ssd1306.flush_eq pico_ssd1309.flush_eq esp32_ssd1306.flush_eq
      esp32_ssd1309.flush_eq i2c_flush_data pico_ssd1306_display_clear_def
      pico_ssd1309_display_clear_def esp32_ssd1306_display_clear_def esp32_ssd1309_display_clear_def
      pico_ssd1306.clear_eq pico_ssd1309.clear_eq esp32_ssd1306.clear_eq esp32_ssd1309.clear_eq
      out_blank zero)
qed

end
