(* ===== verification/Pcd8544.thy ===== *)
theory Pcd8544
  imports Paged_Oled
begin

text \<open>
  The driver of the 84 by 48 PCD8544 (Nokia 5110) panel on the Pico and on the ESP32. The
  frame buffer s_fb holds six rows of 84 column bytes; text appears in the first row. The two
  files differ in how a byte goes out and are the same code over that function, which is a
  parameter of the definitions below.
\<close>

section \<open>The code\<close>

definition PCD8544_WIDTH :: nat where "PCD8544_WIDTH = 84"
definition PCD8544_ROWS :: nat where "PCD8544_ROWS = 6"

type_synonym pcd_write = "u8 \<Rightarrow> bool \<Rightarrow> dev \<Rightarrow> dev option"

definition pico_pcd8544_write :: pcd_write where
  "pico_pcd8544_write byte is_data s =
     Some (gpio_put 17 True (spi_write_blocking [byte] (gpio_put 17 False (gpio_put 20 is_data s))))"

definition esp32_pcd8544_write_byte :: "pins \<Rightarrow> pcd_write" where
  "esp32_pcd8544_write_byte p byte is_data s =
     spi_device_polling_transmit 8 [byte] (gpio_set_level (SPI_DC_PIN p) is_data s)"

definition pcd8544_flush :: "pcd_write \<Rightarrow> dev \<Rightarrow> dev option" where
  "pcd8544_flush wr s = do {
     s \<leftarrow> wr 0x40 False s;
     s \<leftarrow> wr 0x80 False s;
     for_each [0..int (PCD8544_WIDTH * PCD8544_ROWS) - 1]
       (\<lambda>i s. do { v \<leftarrow> arr_get (fb s) i; wr v True s }) s
   }"

definition pcd8544_build_bitmap :: "string \<Rightarrow> u8 list \<Rightarrow> int \<Rightarrow> (u8 list \<times> int) option" where
  "pcd8544_build_bitmap = build_text_bitmap PCD8544_WIDTH"

definition pcd8544_blank :: "dev \<Rightarrow> dev" where
  "pcd8544_blank s = s\<lparr>fb := replicate (PCD8544_WIDTH * PCD8544_ROWS) 0\<rparr>"

definition pcd8544_init_cmds :: "u8 list" where
  "pcd8544_init_cmds = [0x21, 0x13, 0xBF, 0x20, 0x0C]"

definition pico_pcd8544_display_init :: "dev \<Rightarrow> dev option" where
  "pico_pcd8544_display_init s = do {
     let s = emit ([SpiInit 4000000, GpioFunc 19 GPIO_FUNC_SPI, GpioFunc 18 GPIO_FUNC_SPI] @
       gpio_out_pin 17 True @ gpio_out_pin 20 False @ gpio_out_pin 21 True) s;
     let s = gpio_put 21 True (sleep_ms 10 (gpio_put 21 False s));
     s \<leftarrow> for_each pcd8544_init_cmds (\<lambda>c. pico_pcd8544_write c False) s;
     Some (pcd8544_blank s)
   }"

definition esp32_pcd8544_display_init :: "pins \<Rightarrow> dev \<Rightarrow> dev option" where
  "esp32_pcd8544_display_init p s = do {
     let s = emit ([GpioConfig (pin_mask [SPI_DC_PIN p, SPI_RST_PIN p]) True,
       Gpio (SPI_DC_PIN p) False, Gpio (SPI_RST_PIN p) True] @
       esp32_spi_bus p 4000000 (Some (SPI_CS_PIN p))) s;
     let s = gpio_set_level (SPI_RST_PIN p) True (vTaskDelay_ms 10 (gpio_set_level (SPI_RST_PIN p) False s));
     s \<leftarrow> for_each pcd8544_init_cmds (\<lambda>c. esp32_pcd8544_write_byte p c False) s;
     Some (pcd8544_blank s)
   }"

definition pcd8544_display_clear :: "pcd_write \<Rightarrow> dev \<Rightarrow> dev option" where
  "pcd8544_display_clear wr s = pcd8544_flush wr (pcd8544_blank s)"

text \<open>memset(s_fb, 0, sizeof(s_fb)) and the loop that copies 84 columns of the bitmap.\<close>

definition pcd8544_window :: "int \<Rightarrow> int \<Rightarrow> dev \<Rightarrow> dev option" where
  "pcd8544_window n offset s =
     for_each [0..int PCD8544_WIDTH - 1] (\<lambda>col s. do {
       v \<leftarrow> (if offset + col < n then arr_get (bmp s) (offset + col) else Some 0x00);
       xs \<leftarrow> arr_set (fb s) col v;
       Some (s\<lparr>fb := xs\<rparr>)
     }) (pcd8544_blank s)"

definition pcd8544_load :: "string \<Rightarrow> dev \<Rightarrow> (int \<times> dev) option" where
  "pcd8544_load text s = do {
     (xs, n) \<leftarrow> pcd8544_build_bitmap text (bmp s) 512;
     Some (n, s\<lparr>bmp := xs\<rparr>)
   }"

definition pcd8544_scroll :: "pcd_write \<Rightarrow> delay \<Rightarrow> string \<Rightarrow> int \<Rightarrow> dev \<Rightarrow> dev option" where
  "pcd8544_scroll wr delay text sp s = do {
     (n, s) \<leftarrow> pcd8544_load text s;
     for_each [0..n - int PCD8544_WIDTH] (\<lambda>offset s. do {
       s \<leftarrow> pcd8544_window n offset s;
       s \<leftarrow> pcd8544_flush wr s;
       Some (delay (word_of_int sp) s)
     }) s
   }"

definition pcd8544_still :: "pcd_write \<Rightarrow> string \<Rightarrow> dev \<Rightarrow> dev option" where
  "pcd8544_still wr text s = do {
     (n, s) \<leftarrow> pcd8544_load text s;
     s \<leftarrow> pcd8544_window n 0 s;
     pcd8544_flush wr s
   }"

definition pcd8544_contrast :: "pcd_write \<Rightarrow> delay \<Rightarrow> int \<Rightarrow> int \<Rightarrow> dev \<Rightarrow> dev option" where
  "pcd8544_contrast wr delay step_delay v s = do {
     s \<leftarrow> wr 0x21 False s;
     s \<leftarrow> wr (word_of_int (0x80 OR v)) False s;
     s \<leftarrow> wr 0x20 False s;
     Some (delay (word_of_int step_delay) s)
   }"

definition pcd8544_display_text ::
    "pcd_write \<Rightarrow> delay \<Rightarrow> string \<Rightarrow> string \<Rightarrow> int \<Rightarrow> int \<Rightarrow> int \<Rightarrow> dev \<Rightarrow> dev option" where
  "pcd8544_display_text wr delay text effect speed_ms blink_period_ms fade_steps s =
    (let sp = clamp_speed speed_ms in
     if c_streq effect ''SCROLL'' then pcd8544_scroll wr delay text sp s
     else if c_streq effect ''BLINK'' then do {
       s \<leftarrow> pcd8544_still wr text s;
       for_each [0..5] (\<lambda>i s. do {
         s \<leftarrow> wr 0x09 False (delay (word_of_int sp) s);
         wr 0x0C False (delay (word_of_int sp) s)
       }) s
     }
     else if c_streq effect ''REVERSE'' then do {
       rev \<leftarrow> reverse_text stack_rev text;
       pcd8544_scroll wr delay rev sp s
     }
     else if c_streq effect ''FADE'' then do {
       s \<leftarrow> pcd8544_still wr text s;
       let step_delay = sp div 64 + 1;
       s \<leftarrow> for_each (up_by 0 0x3F 2) (pcd8544_contrast wr delay step_delay) s;
       s \<leftarrow> for_each (down_by 0x3F 0 2) (pcd8544_contrast wr delay step_delay) s;
       s \<leftarrow> wr 0x21 False s;
       s \<leftarrow> wr 0xBF False s;
       wr 0x20 False s
     }
     else Some s)"

definition pico_pcd8544_display_text where
  "pico_pcd8544_display_text = pcd8544_display_text pico_pcd8544_write sleep_ms"
definition esp32_pcd8544_display_text where
  "esp32_pcd8544_display_text p = pcd8544_display_text (esp32_pcd8544_write_byte p) vTaskDelay_ms"
definition esp32_pcd8544_flush where
  "esp32_pcd8544_flush p = pcd8544_flush (esp32_pcd8544_write_byte p)"
definition esp32_pcd8544_display_clear where
  "esp32_pcd8544_display_clear p = pcd8544_display_clear (esp32_pcd8544_write_byte p)"
definition esp32_pcd8544_build_bitmap where
  "esp32_pcd8544_build_bitmap = pcd8544_build_bitmap"

section \<open>Specification\<close>

definition pcd_bitmap :: "string \<Rightarrow> u8 list" where
  "pcd_bitmap text = bitmap_cols 506 84 512 text"

definition pcd_scroll_script :: "string \<Rightarrow> int \<Rightarrow> oled_step list" where
  "pcd_scroll_script text sp = (let b = pcd_bitmap text in
     concat (map (\<lambda>k. [Picture (strip 84 b k), Pause (of_int sp)]) [0..<Suc (length b - 84)]))"

definition vop_script :: "int \<Rightarrow> int list \<Rightarrow> oled_step list" where
  "vop_script d vs = concat (map (\<lambda>v. [Command 0x21, Command (of_int (0x80 OR v)), Command 0x20,
     Pause (of_int d)]) vs)"

definition pcd_script :: "string \<Rightarrow> string \<Rightarrow> int \<Rightarrow> oled_step list" where
  "pcd_script text effect speed_ms =
    (let sp = clamp_speed speed_ms; still = Picture (strip 84 (pcd_bitmap text) 0) in
     if c_streq effect ''SCROLL'' then pcd_scroll_script text sp
     else if c_streq effect ''BLINK''
       then still # concat (replicate 6 [Pause (of_int sp), Command 0x09, Pause (of_int sp), Command 0x0C])
     else if c_streq effect ''REVERSE'' then pcd_scroll_script (rev (take 127 (c_str text))) sp
     else if c_streq effect ''FADE''
       then still # vop_script (sp div 64 + 1) (up_by 0 0x3F 2) @
              vop_script (sp div 64 + 1) (down_by 0x3F 0 2) @ [Command 0x21, Command 0xBF, Command 0x20]
     else [])"

definition pcd_wf :: "dev \<Rightarrow> bool" where
  "pcd_wf s \<longleftrightarrow> length (fb s) = 504 \<and> length (bmp s) = 512"

text \<open>A picture is the first row; the five rows below it are blank.\<close>

definition pcd_frame :: "u8 list \<Rightarrow> u8 list" where
  "pcd_frame row = row @ replicate 420 0"

lemma pcd_window_eq:
  assumes "take (length b) (bmp s) = b"
  shows "pcd8544_window (int (length b)) (int k) s = Some (s\<lparr>fb := pcd_frame (strip 84 b k)\<rparr>)"
proof -
  have "for_each [0..int 84 - 1] (\<lambda>col s. do {
       v \<leftarrow> (if int k + col < int (length b) then arr_get (bmp s) (int k + col) else Some 0x00);
       xs \<leftarrow> arr_set (fb s) (int 0 + col) v;
       Some (s\<lparr>fb := xs\<rparr>) }) (pcd8544_blank s) =
    Some ((pcd8544_blank s)\<lparr>fb := take 0 (fb (pcd8544_blank s)) @ map (\<lambda>c. column b (k + c)) [0..<84] @
        drop (0 + 84) (fb (pcd8544_blank s))\<rparr>)"
  proof (rule fill_row)
    show "0 + 84 \<le> length (fb (pcd8544_blank s))"
      by (simp add: pcd8544_blank_def PCD8544_WIDTH_def PCD8544_ROWS_def)
    show "(if int k + int c < int (length b)
        then arr_get (bmp ((pcd8544_blank s)\<lparr>fb := xs\<rparr>)) (int k + int c) else Some 0) =
        Some (column b (k + c))" for c xs
      using read_column[OF assms, of "int k + int c"]
      by (auto simp: nat_int_add pcd8544_blank_def split: if_splits)
  qed
  then show ?thesis
    by (simp add: pcd8544_window_def PCD8544_WIDTH_def PCD8544_ROWS_def pcd8544_blank_def
        pcd_frame_def strip_def del: upt_rec_numeral)
qed

lemma pcd_bitmap_bounds: "84 \<le> length (pcd_bitmap text)" "length (pcd_bitmap text) \<le> 512"
  by (auto simp: pcd_bitmap_def length_bitmap_cols chars_below_def Let_def)

lemma pcd_load_eq:
  assumes "pcd_wf s"
  shows "\<exists>t. pcd8544_load text s = Some (int (length (pcd_bitmap text)), t) \<and>
    pcd_wf t \<and> take (length (pcd_bitmap text)) (bmp t) = pcd_bitmap text \<and> out t = out s"
  using build_text_bitmap_eq[of 512 "bmp s" PCD8544_WIDTH "text"] assms pcd_bitmap_bounds(2)[of "text"]
  by (auto simp: pcd8544_load_def pcd8544_build_bitmap_def pcd_wf_def pcd_bitmap_def
      PCD8544_WIDTH_def Let_def)

lemma length_pcd_frame [simp]: "length (pcd_frame (strip 84 b k)) = 504"
  by (simp add: pcd_frame_def)

lemma pcd_wf_emit [simp]: "pcd_wf (emit es s) = pcd_wf s"
  by (simp add: pcd_wf_def)

section \<open>The driver interface\<close>

text \<open>
  A driver sends one byte with a level of the data/command line; on the bus that is the byte
  with that level.
\<close>

locale pcd8544_bus =
  fixes wr :: pcd_write
    and delay :: delay
    and wr_out :: "bool \<Rightarrow> u8 \<Rightarrow> hw list"
    and dc :: nat
  assumes write_eq: "wr b d s = Some (emit (wr_out d b) s)"
    and delay_eq: "delay n s = emit [Delay n] s"
    and wr_stream: "spi_stream dc l (wr_out d b) = [(d, b)]"

fun pcd_events :: "(bool \<Rightarrow> u8 \<Rightarrow> hw list) \<Rightarrow> oled_step \<Rightarrow> hw list" where
  "pcd_events w (Picture p) = w False 0x40 @ w False 0x80 @ concat (map (w True) (pcd_frame p))"
| "pcd_events w (Command x) = w False x"
| "pcd_events w (Pause n) = [Delay n]"

abbreviation pcd_trace :: "(bool \<Rightarrow> u8 \<Rightarrow> hw list) \<Rightarrow> oled_step list \<Rightarrow> hw list" where
  "pcd_trace w xs \<equiv> concat (map (pcd_events w) xs)"

context pcd8544_bus begin

lemma flush_eq:
  assumes "length (fb s) = 504"
  shows "pcd8544_flush wr s =
    Some (emit (wr_out False 0x40 @ wr_out False 0x80 @ concat (map (wr_out True) (fb s))) s)"
proof -
  have "for_each [0..int 504 - 1] (\<lambda>i s. do { v \<leftarrow> arr_get (fb s) i; wr v True s }) t =
      Some (emit (concat (map (wr_out True) (fb s))) t)" if "fb t = fb s" for t
  proof -
    have "for_each (map int [0..<504]) (\<lambda>i s. do { v \<leftarrow> arr_get (fb s) i; wr v True s }) t =
      Some (emit (concat (map (\<lambda>k. wr_out True (fb s ! k)) [0..<504])) t)"
      unfolding for_each_map by (rule for_each_emit) (use assms that in \<open>simp add: write_eq\<close>)
    moreover have "map (\<lambda>k. wr_out True (fb s ! k)) [0..<504] = map (wr_out True) (fb s)"
      using assms by (simp add: list_eq_iff_nth_eq del: upt_rec_numeral)
    ultimately show ?thesis unfolding upto_ints by simp
  qed
  then show ?thesis
    by (simp add: pcd8544_flush_def PCD8544_WIDTH_def PCD8544_ROWS_def write_eq)
qed

lemma window_flush:
  assumes "take (length b) (bmp s) = b"
  shows "do { s \<leftarrow> pcd8544_window (int (length b)) (int k) s; pcd8544_flush wr s } =
    Some (emit (pcd_events wr_out (Picture (strip 84 b k))) (s\<lparr>fb := pcd_frame (strip 84 b k)\<rparr>))"
  using pcd_window_eq[OF assms] by (simp add: flush_eq)

lemma scroll_steps:
  assumes "pcd_wf s"
  shows "\<exists>t. pcd8544_scroll wr delay text sp s = Some t \<and> pcd_wf t \<and>
    out t = out s @ pcd_trace wr_out (pcd_scroll_script text sp)"
proof -
  let ?b = "pcd_bitmap text"
  let ?n = "Suc (length ?b - 84)"
  obtain s1 where s1: "pcd8544_load text s = Some (int (length ?b), s1)" "pcd_wf s1"
      "take (length ?b) (bmp s1) = ?b" "out s1 = out s"
    using pcd_load_eq[OF assms] by blast
  let ?f = "\<lambda>k. [Picture (strip 84 ?b k), Pause (of_int sp)]"
  let ?body = "\<lambda>offset s. do { s \<leftarrow> pcd8544_window (int (length ?b)) offset s;
       s \<leftarrow> pcd8544_flush wr s; Some (delay (word_of_int sp) s) }"
  have "\<exists>t. for_each [0..int ?n - 1] ?body s1 = Some t \<and> (pcd_wf t \<and> bmp t = bmp s1 \<and>
      out t = out s1 @ pcd_trace wr_out (concat (map ?f [0..<?n])))"
  proof (rule for_upto_rule[where I = "\<lambda>k t. pcd_wf t \<and> bmp t = bmp s1 \<and>
      out t = out s1 @ pcd_trace wr_out (concat (map ?f [0..<k]))"])
    fix k t assume I: "pcd_wf t \<and> bmp t = bmp s1 \<and>
      out t = out s1 @ pcd_trace wr_out (concat (map ?f [0..<k]))"
    have "?body (0 + int k) t = do { s \<leftarrow> do { s \<leftarrow> pcd8544_window (int (length ?b)) (int k) t;
        pcd8544_flush wr s }; Some (delay (word_of_int sp) s) }" by simp
    also have "\<dots> = Some (emit (pcd_trace wr_out (?f k)) (t\<lparr>fb := pcd_frame (strip 84 ?b k)\<rparr>))"
      using I s1(3) by (subst window_flush) (simp_all add: delay_eq)
    finally show "\<exists>u. ?body (0 + int k) t = Some u \<and> pcd_wf u \<and> bmp u = bmp s1 \<and>
        out u = out s1 @ pcd_trace wr_out (concat (map ?f [0..<Suc k]))"
      using I by (auto simp: pcd_wf_def)
  qed (use s1 in simp_all)
  moreover have "int (length ?b) - int PCD8544_WIDTH = int ?n - 1"
    using pcd_bitmap_bounds(1)[of "text"] by (simp add: PCD8544_WIDTH_def)
  ultimately show ?thesis
    using s1 by (auto simp: pcd8544_scroll_def pcd_scroll_script_def Let_def simp del: upt_Suc of_nat_Suc)
qed

lemma still_steps:
  assumes "pcd_wf s"
  shows "\<exists>t. pcd8544_still wr text s = Some t \<and> pcd_wf t \<and>
    out t = out s @ pcd_events wr_out (Picture (strip 84 (pcd_bitmap text) 0))"
proof -
  let ?b = "pcd_bitmap text"
  obtain s1 where s1: "pcd8544_load text s = Some (int (length ?b), s1)" "pcd_wf s1"
      "take (length ?b) (bmp s1) = ?b" "out s1 = out s"
    using pcd_load_eq[OF assms] by blast
  with window_flush[OF s1(3), of 0] show ?thesis
    by (simp add: pcd8544_still_def pcd_wf_def)
qed

lemma contrast_steps:
  "for_each vs (pcd8544_contrast wr delay d) s = Some (emit (pcd_trace wr_out (vop_script d vs)) s)"
  unfolding vop_script_def
  by (rule for_each_steps) (simp add: pcd8544_contrast_def write_eq delay_eq)

lemma display_text_steps:
  assumes wf: "pcd_wf s"
    and len: "c_streq effect ''REVERSE'' \<Longrightarrow> c_strlen text < 2147483648"
  shows "\<exists>t. pcd8544_display_text wr delay text effect speed b f s = Some t \<and> pcd_wf t \<and>
    out t = out s @ pcd_trace wr_out (pcd_script text effect speed)"
proof -
  define sp where "sp = clamp_speed speed"
  obtain t where t: "pcd8544_still wr text s = Some t" "pcd_wf t"
    "out t = out s @ pcd_events wr_out (Picture (strip 84 (pcd_bitmap text) 0))"
    using still_steps[OF wf] by blast
  consider (scroll) "c_streq effect ''SCROLL''"
    | (blink) "\<not> c_streq effect ''SCROLL''" "c_streq effect ''BLINK''"
    | (reverse) "\<not> c_streq effect ''SCROLL''" "\<not> c_streq effect ''BLINK''" "c_streq effect ''REVERSE''"
    | (fade) "\<not> c_streq effect ''SCROLL''" "\<not> c_streq effect ''BLINK''"
        "\<not> c_streq effect ''REVERSE''" "c_streq effect ''FADE''"
    | (other) "\<not> c_streq effect ''SCROLL''" "\<not> c_streq effect ''BLINK''"
        "\<not> c_streq effect ''REVERSE''" "\<not> c_streq effect ''FADE''"
    by blast
  then show ?thesis
  proof cases
    case scroll
    then show ?thesis
      using scroll_steps[OF wf] by (simp add: pcd8544_display_text_def pcd_script_def Let_def)
  next
    case blink
    have six: "replicate 6 x = map (\<lambda>_. x) [0..5]" for x :: "oled_step list"
      by (simp add: map_replicate_const)
    have "for_each [0..5] (\<lambda>i s. do { s \<leftarrow> wr 0x09 False (delay (word_of_int sp) s);
        wr 0x0C False (delay (word_of_int sp) s) }) t =
      Some (emit (pcd_trace wr_out (concat (map (\<lambda>_. [Pause (of_int sp), Command 0x09,
        Pause (of_int sp), Command 0x0C]) [0..5]))) t)"
      by (rule for_each_steps) (simp add: write_eq delay_eq)
    with blink t show ?thesis
      by (simp add: pcd8544_display_text_def pcd_script_def Let_def sp_def [symmetric] six
          del: for_each.simps)
  next
    case reverse
    obtain r where r: "reverse_text stack_rev text = Some r" "c_str r = rev (take 127 (c_str text))"
      using reverse_text_c_str[OF length_stack_rev len[OF reverse(3)]] by blast
    have "pcd_bitmap r = pcd_bitmap (rev (take 127 (c_str text)))"
      using r(2) c_str_idem[of r] by (simp add: pcd_bitmap_def bitmap_cols_def)
    with reverse r show ?thesis
      using scroll_steps[OF wf, of r sp]
      by (simp add: pcd8544_display_text_def pcd_script_def pcd_scroll_script_def Let_def sp_def)
  next
    case fade
    with t show ?thesis
      by (simp add: pcd8544_display_text_def pcd_script_def Let_def contrast_steps write_eq)
  next
    case other
    with wf show ?thesis by (simp add: pcd8544_display_text_def pcd_script_def)
  qed
qed

end

section \<open>The panel\<close>

text \<open>
  The controller as its data sheet gives it: the display RAM of 504 bytes with the address
  (px, py), the instruction set selected (ext), the operating voltage and the display mode. A
  data byte goes to the address, which moves along the row and then to the next row.
\<close>

record pcd_panel =
  pram :: "u8 list"
  px :: nat
  py :: nat
  ext :: bool
  vop :: nat
  dmode :: u8

definition pcd_data :: "u8 \<Rightarrow> pcd_panel \<Rightarrow> pcd_panel" where
  "pcd_data b q = q\<lparr>pram := (pram q)[py q * 84 + px q := b],
     px := (if px q = 83 then 0 else px q + 1),
     py := (if px q = 83 then (if py q = 5 then 0 else py q + 1) else py q)\<rparr>"

definition pcd_command :: "u8 \<Rightarrow> pcd_panel \<Rightarrow> pcd_panel" where
  "pcd_command b q =
    (if b AND 0xF8 = 0x20 then q\<lparr>ext := bit b 0\<rparr>
     else if ext q then (if 0x80 \<le> b then q\<lparr>vop := unat b - 0x80\<rparr> else q)
     else if 0x80 \<le> b then q\<lparr>px := unat b - 0x80\<rparr>
     else if 0x40 \<le> b then q\<lparr>py := unat b - 0x40\<rparr>
     else if b AND 0xFA = 0x08 then q\<lparr>dmode := b\<rparr>
     else q)"

definition pcd_byte :: "bool \<times> u8 \<Rightarrow> pcd_panel \<Rightarrow> pcd_panel" where
  "pcd_byte x q = (if fst x then pcd_data (snd x) q else pcd_command (snd x) q)"

definition pcd_run :: "nat \<Rightarrow> hw list \<Rightarrow> pcd_panel \<Rightarrow> pcd_panel" where
  "pcd_run dc es q = fold pcd_byte (spi_stream dc False es) q"

lemma pcd_data_run:
  assumes "k \<le> 504" and "length bs = 504" and "length (pram q) = 504" and "px q = 0" and "py q = 0"
  shows "fold pcd_byte (map (Pair True) (take k bs)) q =
    q\<lparr>pram := take k bs @ drop k (pram q), px := k mod 84, py := k div 84 mod 6\<rparr>"
  using assms(1)
proof (induction k)
  case 0
  then show ?case using assms by (cases q) simp
next
  case (Suc k)
  then have k: "k < 504" by simp
  have split: "take (Suc k) bs = take k bs @ [bs ! k]"
    using k assms(2) by (simp add: take_Suc_conv_app_nth)
  have upd: "(take k bs @ drop k (pram q))[k := bs ! k] = take (Suc k) bs @ drop (Suc k) (pram q)"
    using list_update_prefix[of k "pram q" "take k bs" "bs ! k"] k assms(2,3) split by simp
  have pos: "k div 84 mod 6 * 84 + k mod 84 = k" using k by (simp add: div_mult_mod_eq)
  have one: "pcd_data b (q\<lparr>pram := xs, px := k mod 84, py := k div 84 mod 6\<rparr>) =
      q\<lparr>pram := xs[k := b], px := Suc k mod 84, py := Suc k div 84 mod 6\<rparr>" for b xs
    using pos by (simp add: pcd_data_def mod_Suc div_Suc)
  have "fold pcd_byte (map (Pair True) (take (Suc k) bs)) q =
      pcd_data (bs ! k) (fold pcd_byte (map (Pair True) (take k bs)) q)"
    unfolding split by (simp add: pcd_byte_def)
  also have "\<dots> = pcd_data (bs ! k)
      (q\<lparr>pram := take k bs @ drop k (pram q), px := k mod 84, py := k div 84 mod 6\<rparr>)"
    using Suc by simp
  also have "\<dots> = q\<lparr>pram := take (Suc k) bs @ drop (Suc k) (pram q), px := Suc k mod 84,
      py := Suc k div 84 mod 6\<rparr>"
    unfolding one upd ..
  finally show ?case .
qed

lemma pcd_frame_run:
  assumes "\<not> ext q" and "length (pram q) = 504" and "length bs = 504"
  shows "fold pcd_byte ([(False, 0x40), (False, 0x80)] @ map (Pair True) bs) q =
    q\<lparr>pram := bs, px := 0, py := 0\<rparr>"
proof -
  have "fold pcd_byte [(False, 0x40), (False, 0x80)] q = q\<lparr>px := 0, py := 0\<rparr>"
    using assms(1) by (simp add: pcd_byte_def pcd_command_def)
  then show ?thesis
    using pcd_data_run[of 504 bs "q\<lparr>px := 0, py := 0\<rparr>"] assms by (simp del: fold_simps)
qed

text \<open>What a step of a script does to the panel, given the basic instruction set.\<close>

fun pcd_stream :: "oled_step \<Rightarrow> (bool \<times> u8) list" where
  "pcd_stream (Picture p) = [(False, 0x40), (False, 0x80)] @ map (Pair True) (pcd_frame p)"
| "pcd_stream (Command x) = [(False, x)]"
| "pcd_stream (Pause n) = []"

context pcd8544_bus begin

lemma wr_bytes_stream: "spi_stream dc l (concat (map (wr_out d) bs)) = map (Pair d) bs"
  by (subst spi_stream_concat[where h = "\<lambda>b. [(d, b)]"]) (simp_all add: wr_stream concat_map_singleton)

lemma trace_stream: "spi_stream dc l (pcd_trace wr_out xs) = concat (map pcd_stream xs)"
proof (rule spi_stream_concat)
  show "spi_stream dc l (pcd_events wr_out x) = pcd_stream x" for x l
    by (cases x) (simp_all add: wr_stream wr_bytes_stream)
qed

end

text \<open>
  Commands that select and leave the extended instruction set in pairs, as the scripts do: the
  panel is back in the basic set, and shows the last picture.
\<close>

definition pcd_shows :: "u8 list \<Rightarrow> nat \<Rightarrow> u8 \<Rightarrow> pcd_panel \<Rightarrow> bool" where
  "pcd_shows row v m q \<longleftrightarrow> pram q = pcd_frame row \<and> vop q = v \<and> dmode q = m \<and> \<not> ext q"

abbreviation pcd_play :: "oled_step list \<Rightarrow> pcd_panel \<Rightarrow> pcd_panel" where
  "pcd_play xs q \<equiv> fold pcd_byte (concat (map pcd_stream xs)) q"

lemma pcd_play_picture:
  assumes "\<not> ext q" and "length (pram q) = 504" and "length row = 84"
  shows "pcd_shows row (vop q) (dmode q) (pcd_play [Picture row] q)"
    "length (pram (pcd_play [Picture row] q)) = 504"
  using pcd_frame_run[OF assms(1,2), of "pcd_frame row"] assms
  by (simp_all add: pcd_frame_def pcd_shows_def del: fold_simps append_Cons)

lemma pcd_play_scroll:
  assumes "\<not> ext q" and "length (pram q) = 504"
  shows "pcd_shows (strip 84 b n) (vop q) (dmode q)
      (pcd_play (concat (map (\<lambda>k. [Picture (strip 84 b k), Pause d]) [0..<Suc n])) q) \<and>
    length (pram (pcd_play (concat (map (\<lambda>k. [Picture (strip 84 b k), Pause d]) [0..<Suc n])) q)) = 504"
proof (induction n)
  case 0
  then show ?case using pcd_play_picture[OF assms, of "strip 84 b 0"] by simp
next
  case (Suc n)
  let ?q = "pcd_play (concat (map (\<lambda>k. [Picture (strip 84 b k), Pause d]) [0..<Suc n])) q"
  have "pcd_play (concat (map (\<lambda>k. [Picture (strip 84 b k), Pause d]) [0..<Suc (Suc n)])) q =
      pcd_play [Picture (strip 84 b (Suc n))] ?q" by simp
  with Suc pcd_play_picture[of ?q "strip 84 b (Suc n)"] show ?case by (simp add: pcd_shows_def)
qed

lemma vop_command:
  assumes "0 \<le> v" and "v \<le> 0x3F"
  shows "pcd_play [Command 0x21, Command (of_int (0x80 OR v)), Command 0x20, Pause d] q =
    q\<lparr>vop := nat v, ext := False\<rparr>"
proof -
  have "v \<in> set [0..0x3F]" using assms by simp
  then have "0x80 \<le> (word_of_int (0x80 OR v) :: u8) \<and> unat (word_of_int (0x80 OR v) :: u8) - 0x80 = nat v \<and>
      (word_of_int (0x80 OR v) :: u8) AND 0xF8 \<noteq> 0x20"
    by (simp add: upto.simps) auto
  then show ?thesis by (simp add: pcd_byte_def pcd_command_def)
qed

lemma vop_script_shows:
  assumes "pcd_shows row v m q" and "\<forall>x \<in> set vs. 0 \<le> x \<and> x \<le> 0x3F"
  shows "\<exists>v. pcd_shows row v m (pcd_play (vop_script d vs) q)"
  using assms
proof (induction vs arbitrary: q v)
  case Nil
  then show ?case by (auto simp: vop_script_def)
next
  case (Cons x vs)
  have "pcd_play (vop_script d (x # vs)) q = pcd_play (vop_script d vs)
      (pcd_play [Command 0x21, Command (of_int (0x80 OR x)), Command 0x20, Pause (of_int d)] q)"
    by (simp add: vop_script_def)
  also have "\<dots> = pcd_play (vop_script d vs) (q\<lparr>vop := nat x, ext := False\<rparr>)"
    using Cons.prems(2) by (subst vop_command) simp_all
  finally show ?case
    using Cons.IH[of "nat x" "q\<lparr>vop := nat x, ext := False\<rparr>"] Cons.prems by (simp add: pcd_shows_def)
qed

definition pcd_last_row :: "string \<Rightarrow> string \<Rightarrow> u8 list" where
  "pcd_last_row text effect =
    (let b = pcd_bitmap (if c_streq effect ''REVERSE'' then rev (take 127 (c_str text)) else text)
     in strip 84 b (if c_streq effect ''BLINK'' \<or> c_streq effect ''FADE'' then 0 else length b - 84))"

lemma blink_play:
  assumes "pcd_shows row v m q" "0 < n"
  shows "pcd_shows row v 0x0C (pcd_play (concat (replicate n [Pause d, Command 0x09, Pause d, Command 0x0C])) q)"
  using assms
proof (induction n arbitrary: q m)
  case (Suc n)
  have step: "pcd_play [Pause d, Command 0x09, Pause d, Command 0x0C] q = q\<lparr>dmode := 0x0C\<rparr>"
    using Suc.prems by (simp add: pcd_byte_def pcd_command_def pcd_shows_def)
  have split: "pcd_play (concat (replicate (Suc n) xs)) q = pcd_play (concat (replicate n xs)) (pcd_play xs q)"
    for xs by simp
  have "pcd_shows row v 0x0C (q\<lparr>dmode := 0x0C\<rparr>)" using Suc.prems by (simp add: pcd_shows_def)
  then show ?case unfolding split step using Suc.IH[of "0x0C" "q\<lparr>dmode := 0x0C\<rparr>"] by (cases n) simp_all
qed simp

lemma script_panel:
  assumes "\<not> ext q" and "length (pram q) = 504"
    and known: "list_ex (c_streq effect) [''SCROLL'', ''BLINK'', ''REVERSE'', ''FADE'']"
  shows "pcd_shows (pcd_last_row text effect) (if c_streq effect ''FADE'' then 0x3F else vop q)
    (if c_streq effect ''BLINK'' then 0x0C else dmode q) (pcd_play (pcd_script text effect speed) q)"
proof -
  have distinct: "c_streq effect a \<Longrightarrow> c_streq effect b \<Longrightarrow> c_str a = c_str b" for a b
    by (simp add: c_streq_def)
  let ?p = "strip 84 (pcd_bitmap text) 0"
  have still: "pcd_shows ?p (vop q) (dmode q) (pcd_play [Picture ?p] q)"
    using pcd_play_picture[OF assms(1,2)] by simp
  have still': "fold pcd_byte (pcd_stream (Picture ?p)) q = pcd_play [Picture ?p] q" by simp
  define d where "d = clamp_speed speed div 64 + 1"
  consider "c_streq effect ''SCROLL''" | "c_streq effect ''BLINK''" | "c_streq effect ''REVERSE''"
    | "c_streq effect ''FADE''" using known by auto
  then show ?thesis
  proof cases
    case 1
    then show ?thesis
      using pcd_play_scroll[OF assms(1,2)]
      by (auto simp: pcd_script_def pcd_scroll_script_def pcd_last_row_def Let_def c_streq_def)
  next
    case 2
    then show ?thesis
      using blink_play[OF still, of 6 "word_of_int (clamp_speed speed)"] 
      by (simp add: pcd_script_def pcd_last_row_def Let_def c_streq_def del: replicate_Suc pcd_stream.simps(1))
  next
    case 3
    then show ?thesis
      using pcd_play_scroll[OF assms(1,2)]
      by (auto simp: pcd_script_def pcd_scroll_script_def pcd_last_row_def Let_def c_streq_def)
  next
    case 4
    obtain v1 where v1: "pcd_shows ?p v1 (dmode q)
        (pcd_play (vop_script d (up_by 0 0x3F 2)) (pcd_play [Picture ?p] q))"
      using vop_script_shows[OF still] up_by_bounds by blast
    obtain v2 where v2: "pcd_shows ?p v2 (dmode q) (pcd_play (vop_script d (down_by 0x3F 0 2))
        (pcd_play (vop_script d (up_by 0 0x3F 2)) (pcd_play [Picture ?p] q)))"
      using vop_script_shows[OF v1] down_by_bounds by blast
    have "pcd_shows ?p 0x3F (dmode q) (pcd_play [Command 0x21, Command 0xBF, Command 0x20] r)"
      if "pcd_shows ?p v2 (dmode q) r" for r
      using that by (simp add: pcd_byte_def pcd_command_def pcd_shows_def)
    from this[OF v2] 4 show ?thesis
      by (simp add: pcd_script_def pcd_last_row_def Let_def c_streq_def d_def del: pcd_stream.simps(1))
  qed
qed

section \<open>The two drivers\<close>

definition pico_pcd8544_out :: "bool \<Rightarrow> u8 \<Rightarrow> hw list" where
  "pico_pcd8544_out d b = [Gpio 20 d, Gpio 17 False, Spi [b], Gpio 17 True]"

definition esp32_pcd8544_out :: "pins \<Rightarrow> bool \<Rightarrow> u8 \<Rightarrow> hw list" where
  "esp32_pcd8544_out p d b = [Gpio (SPI_DC_PIN p) d, SpiTx [b]]"

interpretation pico_pcd: pcd8544_bus pico_pcd8544_write sleep_ms pico_pcd8544_out 20
  by unfold_locales (simp_all add: pico_pcd8544_write_def pico_pcd8544_out_def hw_ops)

interpretation esp32_pcd: pcd8544_bus "esp32_pcd8544_write_byte p" vTaskDelay_ms
    "esp32_pcd8544_out p" "SPI_DC_PIN p" for p
  by unfold_locales (simp_all add: esp32_pcd8544_write_byte_def esp32_pcd8544_out_def hw_ops)

definition pcd_dev0 :: dev where
  "pcd_dev0 = \<lparr>fb = replicate 504 0, bmp = replicate 512 0, bmp_len = 0, busy_in = [], out = []\<rparr>"

definition pcd_panel0 :: pcd_panel where
  "pcd_panel0 = \<lparr>pram = replicate 504 0xFF, px = 3, py = 2, ext = False, vop = 0, dmode = 0x08\<rparr>"

section \<open>Properties\<close>

text \<open>
  display_text of both PCD8544 drivers returns with every access in bounds, keeps its
  buffers and sends exactly the script of the effect, byte by byte with its data/command level.
\<close>

theorem pcd8544_display_text_correct:
  assumes "pcd_wf s" and "c_streq effect ''REVERSE'' \<Longrightarrow> c_strlen text < 2147483648"
  shows "list_all (\<lambda>(display_text, w). \<exists>t. display_text text effect speed b fade s = Some t \<and>
      pcd_wf t \<and> out t = out s @ pcd_trace w (pcd_script text effect speed))
    [(pico_pcd8544_display_text, pico_pcd8544_out), (esp32_pcd8544_display_text p, esp32_pcd8544_out p)]"
  unfolding pico_pcd8544_display_text_def esp32_pcd8544_display_text_def
  using pico_pcd.display_text_steps[OF assms] esp32_pcd.display_text_steps[OF assms, where p = p] by simp

theorem pcd8544_display_text_correct_witness:
  "\<exists>t. pico_pcd8544_display_text ''Hi'' ''REVERSE'' 50 0 0 pcd_dev0 = Some t \<and> pcd_wf t"
  using pcd8544_display_text_correct[of pcd_dev0 "''REVERSE''" "''Hi''" 50 0 0]
  by (auto simp: c_strlen_def pcd_wf_def pcd_dev0_def)

text \<open>
  C27: what the panel shows. From a panel in the basic instruction set, after display_text
  with one of the four effects the whole display RAM is the last picture of the effect over
  blank rows, the panel is in the basic set again, FADE leaves the operating voltage at 0x3F
  and BLINK leaves the display on.
\<close>

theorem pcd8544_panel_shows:
  assumes "pcd_wf s" and "c_streq effect ''REVERSE'' \<Longrightarrow> c_strlen text < 2147483648"
    and "\<not> ext q" and "length (pram q) = 504"
    and "list_ex (c_streq effect) [''SCROLL'', ''BLINK'', ''REVERSE'', ''FADE'']"
  shows "list_all (\<lambda>(display_text, dc). \<exists>t. display_text text effect speed b fade s = Some t \<and>
      pcd_shows (pcd_last_row text effect) (if c_streq effect ''FADE'' then 0x3F else vop q)
        (if c_streq effect ''BLINK'' then 0x0C else dmode q)
        (pcd_run dc (drop (length (out s)) (out t)) q))
    [(pico_pcd8544_display_text, 20), (esp32_pcd8544_display_text p, SPI_DC_PIN p)]"
proof -
  note panel = script_panel[OF assms(3-5), of "text" speed]
  obtain t where t: "pico_pcd8544_display_text text effect speed b fade s = Some t"
    "out t = out s @ pcd_trace pico_pcd8544_out (pcd_script text effect speed)"
    using pico_pcd.display_text_steps[OF assms(1,2), where speed = speed and b = b and f = fade]
    unfolding pico_pcd8544_display_text_def by blast
  obtain u where u: "esp32_pcd8544_display_text p text effect speed b fade s = Some u"
    "out u = out s @ pcd_trace (esp32_pcd8544_out p) (pcd_script text effect speed)"
    using esp32_pcd.display_text_steps[OF assms(1,2), where p = p and speed = speed and b = b and f = fade]
    unfolding esp32_pcd8544_display_text_def by blast
  show ?thesis
    using panel by (simp add: t u pcd_run_def pico_pcd.trace_stream esp32_pcd.trace_stream)
qed

theorem pcd8544_panel_shows_witness:
  "\<exists>t. pico_pcd8544_display_text ''Hi'' ''FADE'' 50 0 0 pcd_dev0 = Some t \<and>
    vop (pcd_run 20 (out t) pcd_panel0) = 0x3F"
proof -
  have "pcd_wf pcd_dev0" "\<not> ext pcd_panel0" "length (pram pcd_panel0) = 504"
    by (simp_all add: pcd_wf_def pcd_dev0_def pcd_panel0_def)
  from pcd8544_panel_shows[OF this(1) _ this(2,3), of "''FADE''" "''Hi''" 50 0 0]
  show ?thesis by (auto simp: c_streq_def c_str_def pcd_shows_def pcd_dev0_def)
qed

end
