(* ===== verification/Tft.thy ===== *)
theory Tft
  imports Text_Bitmap Hardware
begin

text \<open>
  The drivers of the colour panels: ST7735 (128 by 160), ST7789 (240 by 240) and ILI9225 (176
  by 220). They keep no frame buffer: text is drawn as filled rectangles, one per pixel, over a
  banner at the top of the panel. draw_char, render_text and display_text are the same code in
  the six files over the driver's fill_rect; its coordinates are bytes for the ST7735 and
  16-bit words for the other two, so that the definitions here are over a word length.
\<close>

section \<open>The code\<close>

type_synonym 'c tft_fill = "'c word \<Rightarrow> 'c word \<Rightarrow> 'c word \<Rightarrow> 'c word \<Rightarrow> u16 \<Rightarrow> dev \<Rightarrow> dev option"

definition tft_draw_char ::
    "('c :: len) tft_fill \<Rightarrow> 'c word \<Rightarrow> 'c word \<Rightarrow> char \<Rightarrow> u16 \<Rightarrow> u16 \<Rightarrow> dev \<Rightarrow> dev option" where
  "tft_draw_char fill x y c fg bg s = (let fi = font_idx c in
     for_each [0..FONT_CHAR_WIDTH - 1] (\<lambda>col s. do {
       column_byte \<leftarrow> font_byte fi col;
       for_each [0..7] (\<lambda>row s.
         let color = (if bit column_byte (nat row) then fg else bg)
         in fill (word_of_int (uint x + col)) (word_of_int (uint y + row)) 1 1 color s) s
     }) s)"

text \<open>The loop of render_text over the characters, with its x.\<close>

fun tft_chars ::
    "('c :: len) tft_fill \<Rightarrow> nat \<Rightarrow> 'c word \<Rightarrow> u16 \<Rightarrow> u16 \<Rightarrow> string \<Rightarrow> int \<Rightarrow> dev \<Rightarrow> dev option" where
  "tft_chars fill width y fg bg [] x s = Some s"
| "tft_chars fill width y fg bg (c # cs) x s =
     (if int width \<le> x then Some s
      else do {
        s \<leftarrow> (if x + FONT_CHAR_WIDTH > 0
             then tft_draw_char fill (word_of_int (if x < 0 then 0 else x)) y c fg bg s
             else Some s);
        tft_chars fill width y fg bg cs (x + (FONT_CHAR_WIDTH + FONT_CHAR_GAP)) s
      })"

text \<open>The size of a panel: its width, the height of the banner and the row the text starts at.\<close>

record banner =
  width :: nat
  height :: nat
  base :: nat

definition tft_render_text ::
    "('c :: len) tft_fill \<Rightarrow> banner \<Rightarrow> string \<Rightarrow> int \<Rightarrow> u16 \<Rightarrow> u16 \<Rightarrow> dev \<Rightarrow> dev option" where
  "tft_render_text fill z text x_offset fg bg s = do {
     s \<leftarrow> fill 0 0 (of_nat (width z)) (of_nat (height z)) bg s;
     tft_chars fill (width z) (of_nat (base z)) fg bg (c_str text) (- x_offset) s
   }"

text \<open>The number of pixels of a text; the product is undefined when it leaves the int range.\<close>

definition tft_text_px :: "int \<Rightarrow> int option" where
  "tft_text_px n = c_int (n * (FONT_CHAR_WIDTH + FONT_CHAR_GAP))"

definition tft_scroll ::
    "('c :: len) tft_fill \<Rightarrow> banner \<Rightarrow> delay \<Rightarrow> string \<Rightarrow> int \<Rightarrow> int \<Rightarrow> dev \<Rightarrow> dev option" where
  "tft_scroll fill z delay text px sp s = for_each [0..px] (\<lambda>offset s. do {
     s \<leftarrow> tft_render_text fill z text offset 0xFFFF 0x0000 s;
     Some (delay (word_of_int sp) s)
   }) s"

definition fade_color :: "int \<Rightarrow> u16" where
  "fade_color v = word_of_int (push_bit 11 v OR push_bit 5 (v * 2) OR v)"

definition tft_fade ::
    "('c :: len) tft_fill \<Rightarrow> banner \<Rightarrow> delay \<Rightarrow> string \<Rightarrow> int \<Rightarrow> int \<Rightarrow> dev \<Rightarrow> dev option" where
  "tft_fade fill z delay text step_delay v s = do {
     s \<leftarrow> tft_render_text fill z text 0 (fade_color v) 0x0000 s;
     Some (delay (word_of_int step_delay) s)
   }"

text \<open>
  display_text. The two halves of a blink, which differ between the drivers, are parameters;
  the second may need the text.
\<close>

definition tft_display_text ::
    "('c :: len) tft_fill \<Rightarrow> banner \<Rightarrow> delay \<Rightarrow> (dev \<Rightarrow> dev option) \<Rightarrow> (string \<Rightarrow> dev \<Rightarrow> dev option) \<Rightarrow>
     string \<Rightarrow> string \<Rightarrow> int \<Rightarrow> int \<Rightarrow> int \<Rightarrow> dev \<Rightarrow> dev option" where
  "tft_display_text fill z delay blink_off blink_on text effect speed_ms blink_period_ms fade_steps s = do {
     let sp = clamp_speed speed_ms;
     text_px \<leftarrow> tft_text_px (int_of_size (c_strlen text));
     if c_streq effect ''SCROLL'' then tft_scroll fill z delay text text_px sp s
     else if c_streq effect ''BLINK'' then do {
       s \<leftarrow> tft_render_text fill z text 0 0xFFFF 0x0000 s;
       for_each [0..5] (\<lambda>i s. do {
         s \<leftarrow> blink_off (delay (word_of_int sp) s);
         blink_on text (delay (word_of_int sp) s)
       }) s
     }
     else if c_streq effect ''REVERSE'' then do {
       let len = int_of_size (c_strlen text);
       let cl = (if len < 127 then len else 127);
       rev \<leftarrow> reverse_text stack_rev text;
       rev_px \<leftarrow> tft_text_px cl;
       tft_scroll fill z delay rev rev_px sp s
     }
     else if c_streq effect ''FADE'' then do {
       s \<leftarrow> tft_render_text fill z text 0 0xFFFF 0x0000 s;
       let step_delay = sp div 32 + 1;
       s \<leftarrow> for_each [0..31] (tft_fade fill z delay text step_delay) s;
       s \<leftarrow> for_each (down_by 31 0 1) (tft_fade fill z delay text step_delay) s;
       tft_render_text fill z text 0 0xFFFF 0x0000 s
     }
     else Some s
   }"

section \<open>Specification: scripts of rectangles\<close>

datatype tft_step = Rect nat nat nat nat u16 | Blink_off | Blink_on | Wait u32

definition glyph_rects :: "nat \<Rightarrow> nat \<Rightarrow> char \<Rightarrow> u16 \<Rightarrow> u16 \<Rightarrow> tft_step list" where
  "glyph_rects x y c fg bg = concat (map (\<lambda>col. map (\<lambda>row.
     Rect (x + col) (y + row) 1 1 (if bit (glyph c ! col) row then fg else bg)) [0..<8]) [0..<5])"

fun char_rects :: "nat \<Rightarrow> nat \<Rightarrow> u16 \<Rightarrow> u16 \<Rightarrow> string \<Rightarrow> int \<Rightarrow> tft_step list" where
  "char_rects w y fg bg [] x = []"
| "char_rects w y fg bg (c # cs) x =
     (if int w \<le> x then []
      else (if - 5 < x then glyph_rects (nat x) y c fg bg else []) @ char_rects w y fg bg cs (x + 6))"

definition render_script :: "banner \<Rightarrow> string \<Rightarrow> int \<Rightarrow> u16 \<Rightarrow> tft_step list" where
  "render_script z text offset fg =
     Rect 0 0 (width z) (height z) 0 # char_rects (width z) (base z) fg 0 (c_str text) (- offset)"

definition tft_scroll_script :: "banner \<Rightarrow> string \<Rightarrow> int \<Rightarrow> tft_step list" where
  "tft_scroll_script z text sp = concat (map (\<lambda>offset.
     render_script z text offset 0xFFFF @ [Wait (of_int sp)]) [0..6 * int (c_strlen text)])"

definition tft_fade_script :: "banner \<Rightarrow> string \<Rightarrow> int \<Rightarrow> int list \<Rightarrow> tft_step list" where
  "tft_fade_script z text d vs = concat (map (\<lambda>v.
     render_script z text 0 (fade_color v) @ [Wait (of_int d)]) vs)"

definition tft_script :: "banner \<Rightarrow> string \<Rightarrow> string \<Rightarrow> int \<Rightarrow> tft_step list" where
  "tft_script z text effect speed_ms =
    (let sp = clamp_speed speed_ms; still = render_script z text 0 0xFFFF in
     if c_streq effect ''SCROLL'' then tft_scroll_script z text sp
     else if c_streq effect ''BLINK''
       then still @ concat (replicate 6 [Wait (of_int sp), Blink_off, Wait (of_int sp), Blink_on])
     else if c_streq effect ''REVERSE'' then tft_scroll_script z (rev (take 127 (c_str text))) sp
     else if c_streq effect ''FADE''
       then still @ tft_fade_script z text (sp div 32 + 1) [0..31] @
              tft_fade_script z text (sp div 32 + 1) (down_by 31 0 1) @ still
     else [])"

text \<open>The events of a step, given those of fill_rect and of the two halves of a blink.\<close>

fun tft_events ::
    "(('c :: len) word \<Rightarrow> 'c word \<Rightarrow> 'c word \<Rightarrow> 'c word \<Rightarrow> u16 \<Rightarrow> hw list) \<Rightarrow> hw list \<Rightarrow> hw list \<Rightarrow>
     tft_step \<Rightarrow> hw list" where
  "tft_events f off on (Rect x y w h c) = f (of_nat x) (of_nat y) (of_nat w) (of_nat h) c"
| "tft_events f off on Blink_off = off"
| "tft_events f off on Blink_on = on"
| "tft_events f off on (Wait n) = [Delay n]"

abbreviation tft_trace where
  "tft_trace f off on xs \<equiv> concat (map (tft_events f off on) xs)"

section \<open>The driver interface\<close>

text \<open>Filling a rectangle, which is all that drawing a text needs of a driver.\<close>

locale tft_rects =
  fixes fill :: "('c :: len) tft_fill"
    and fill_out :: "'c word \<Rightarrow> 'c word \<Rightarrow> 'c word \<Rightarrow> 'c word \<Rightarrow> u16 \<Rightarrow> hw list"
    and z :: banner
  assumes fill_eq: "unat w * unat h \<le> 2147483647 \<Longrightarrow> fill x y w h c s = Some (emit (fill_out x y w h c) s)"
    and banner_fits: "unat (of_nat (width z) :: 'c word) * unat (of_nat (height z) :: 'c word) \<le> 2147483647"
begin

lemma draw_char_eq:
  "tft_draw_char fill (of_nat x) (of_nat y) c fg bg s =
    Some (emit (tft_trace fill_out off on (glyph_rects x y c fg bg)) s)"
proof -
  let ?color = "\<lambda>b row. if bit (b :: u8) row then fg else bg"
  let ?rects = "\<lambda>col. map (\<lambda>row. Rect (x + col) (y + row) 1 1 (?color (glyph c ! col) row)) [0..<8]"
  have inner: "for_each [0..7] (\<lambda>row. fill (of_nat x + of_nat col) (of_nat y + word_of_int row) 1 1
        (?color b (nat row))) t =
      Some (emit (tft_trace fill_out off on
        (map (\<lambda>row. Rect (x + col) (y + row) 1 1 (?color b row)) [0..<8])) t)" for b col t
  proof -
    have rows: "[0..7] = map int [0..<8]" using upto_ints[of 8] by simp
    show ?thesis
      unfolding rows for_each_map
      by (subst for_each_emit[where g = "\<lambda>row. fill_out (of_nat (x + col)) (of_nat (y + row)) 1 1 (?color b row)"])
        (simp_all add: fill_eq Let_def comp_def del: upt_rec_numeral)
  qed
  have cols: "[0..FONT_CHAR_WIDTH - 1] = map int [0..<5]"
    using upto_ints[of 5] by (simp add: FONT_CHAR_WIDTH_def)
  have "for_each (map int [0..<5]) (\<lambda>col s. do { b \<leftarrow> font_byte (font_idx c) col;
      for_each [0..7] (\<lambda>row s. let color = ?color b (nat row)
        in fill (word_of_int (uint (of_nat x :: 'c word) + col))
             (word_of_int (uint (of_nat y :: 'c word) + row)) 1 1 color s) s }) s =
    Some (emit (concat (map (\<lambda>col. tft_trace fill_out off on (?rects col)) [0..<5])) s)"
    unfolding for_each_map
    by (rule for_each_emit) (simp add: font_byte_glyph inner del: upt_rec_numeral)
  also have "concat (map (\<lambda>col. tft_trace fill_out off on (?rects col)) [0..<5]) =
      tft_trace fill_out off on (concat (map ?rects [0..<5]))"
    by (rule concat_map_nested)
  finally show ?thesis
    unfolding tft_draw_char_def glyph_rects_def cols Let_def .
qed

lemma chars_eq:
  "tft_chars fill w (of_nat y) fg bg cs x s =
    Some (emit (tft_trace fill_out off on (char_rects w y fg bg cs x)) s)"
proof (induction cs arbitrary: x s)
  case Nil
  then show ?case by simp
next
  case (Cons c cs)
  have pos: "(word_of_int (if x < 0 then 0 else x) :: 'c word) = of_nat (nat x)" by simp
  show ?case
    using Cons draw_char_eq[of "nat x" y c fg bg s off on]
    unfolding tft_chars.simps char_rects.simps pos
    by (simp add: FONT_CHAR_WIDTH_def FONT_CHAR_GAP_def add.commute)
qed

lemma render_eq:
  "tft_render_text fill z text offset fg 0 s =
    Some (emit (tft_trace fill_out off on (render_script z text offset fg)) s)"
  by (simp add: tft_render_text_def render_script_def fill_eq banner_fits
      chars_eq[where off = off and on = on])

end

text \<open>What display_text needs beside that: a delay and the two halves of a blink.\<close>

locale tft_bus = tft_rects fill fill_out z
  for fill :: "('c :: len) tft_fill" and fill_out and z +
  fixes delay :: delay
    and blink_off :: "dev \<Rightarrow> dev option"
    and blink_on :: "string \<Rightarrow> dev \<Rightarrow> dev option"
    and off_out :: "hw list"
    and on_out :: "string \<Rightarrow> hw list"
  assumes delay_eq: "delay n s = emit [Delay n] s"
    and off_eq: "blink_off s = Some (emit off_out s)"
    and on_eq: "blink_on text s = Some (emit (on_out text) s)"
begin

lemma scroll_eq:
  assumes "c_strlen text = n"
  shows "tft_scroll fill z delay text (6 * int n) sp s =
    Some (emit (tft_trace fill_out off on (tft_scroll_script z text sp)) s)"
  unfolding tft_scroll_def tft_scroll_script_def assms
  by (rule for_each_steps) (simp add: render_eq[where off = off and on = on] delay_eq)

lemma fade_eq:
  "for_each vs (tft_fade fill z delay text d) s =
    Some (emit (tft_trace fill_out off on (tft_fade_script z text d vs)) s)"
  unfolding tft_fade_script_def
  by (rule for_each_steps) (simp add: tft_fade_def render_eq[where off = off and on = on] delay_eq)

lemma tft_scroll_script_c_str: "c_str a = c_str b \<Longrightarrow> tft_scroll_script z a sp = tft_scroll_script z b sp"
  by (simp add: tft_scroll_script_def render_script_def c_strlen_def)

lemma display_text_steps:
  assumes len: "c_strlen text \<le> 357913941"
  shows "tft_display_text fill z delay blink_off blink_on text effect speed b f s =
    Some (emit (tft_trace fill_out off_out (on_out text) (tft_script z text effect speed)) s)"
proof -
  define sp where "sp = clamp_speed speed"
  define n where "n = c_strlen text"
  have px: "tft_text_px (int_of_size n) = Some (6 * int n)"
    using len by (simp add: tft_text_px_def FONT_CHAR_WIDTH_def FONT_CHAR_GAP_def n_def)
  have len': "c_strlen text < 2147483648" using len by simp
  consider (scroll) "c_streq effect ''SCROLL''"
    | (blink) "\<not> c_streq effect ''SCROLL''" "c_streq effect ''BLINK''"
    | (reverse) "\<not> c_streq effect ''SCROLL''" "\<not> c_streq effect ''BLINK''" "c_streq effect ''REVERSE''"
    | (fade) "\<not> c_streq effect ''SCROLL''" "\<not> c_streq effect ''BLINK''"
        "\<not> c_streq effect ''REVERSE''" "c_streq effect ''FADE''"
    | (other) "\<not> c_streq effect ''SCROLL''" "\<not> c_streq effect ''BLINK''"
        "\<not> c_streq effect ''REVERSE''" "\<not> c_streq effect ''FADE''"
    by blast
  then show ?thesis
  proof cases
    case scroll
    then show ?thesis
      using scroll_eq[OF n_def [symmetric], of sp s off_out "on_out text"] px
      by (simp add: tft_display_text_def tft_script_def Let_def sp_def n_def)
  next
    case blink
    have six: "replicate 6 x = map (\<lambda>_. x) [0..5]" for x :: "tft_step list"
      by (simp add: map_replicate_const)
    have "for_each [0..5] (\<lambda>i s. do { s \<leftarrow> blink_off (delay (word_of_int sp) s);
        blink_on text (delay (word_of_int sp) s) }) t =
      Some (emit (tft_trace fill_out off_out (on_out text) (concat (map (\<lambda>_. [Wait (of_int sp), Blink_off,
        Wait (of_int sp), Blink_on]) [0..5]))) t)" for t
      by (rule for_each_steps) (simp add: off_eq on_eq delay_eq)
    with blink px show ?thesis
      by (simp add: tft_display_text_def tft_script_def Let_def sp_def [symmetric] six n_def
          render_eq[where off = off_out and on = "on_out text"] del: for_each.simps)
  next
    case reverse
    obtain r where r: "reverse_text stack_rev text = Some r" "c_str r = rev (take 127 (c_str text))"
      using reverse_text_c_str[OF length_stack_rev len'] by blast
    define cl where "cl = (if int_of_size n < 127 then int_of_size n else 127)"
    have cl: "cl = int (c_strlen r)"
      using r(2) len' by (simp add: cl_def c_strlen_def n_def min_def)
    have "c_strlen r \<le> 127" using r(2) by (simp add: c_strlen_def)
    then have px_rev: "tft_text_px cl = Some (6 * int (c_strlen r))"
      by (simp add: tft_text_px_def FONT_CHAR_WIDTH_def FONT_CHAR_GAP_def cl)
    have same: "tft_scroll_script z r sp = tft_scroll_script z (rev (take 127 (c_str text))) sp"
      using r(2) c_str_idem[of r] by (intro tft_scroll_script_c_str) simp
    have "tft_display_text fill z delay blink_off blink_on text effect speed b f s =
        tft_scroll fill z delay r (6 * int (c_strlen r)) sp s"
      using reverse px r(1) px_rev
      by (simp add: tft_display_text_def Let_def sp_def n_def [symmetric] cl_def [symmetric])
    also have "\<dots> = Some (emit (tft_trace fill_out off_out (on_out text) (tft_scroll_script z r sp)) s)"
      by (rule scroll_eq) (rule refl)
    finally show ?thesis
      using reverse by (simp add: same[unfolded sp_def] tft_script_def Let_def sp_def)
  next
    case fade
    with px show ?thesis
      by (simp add: tft_display_text_def tft_script_def Let_def n_def fade_eq [where off = off_out and on = "on_out text"]
          render_eq [where off = off_out and on = "on_out text"] sp_def)
  next
    case other
    with px show ?thesis by (simp add: tft_display_text_def tft_script_def Let_def n_def)
  qed
qed

text \<open>A text whose pixel count leaves the int range is undefined before any effect runs.\<close>

lemma display_text_overflow:
  assumes "357913941 < c_strlen text" and "c_strlen text < 2147483648"
  shows "tft_display_text fill z delay blink_off blink_on text effect speed b f s = None"
  using assms by (simp add: tft_display_text_def tft_text_px_def FONT_CHAR_WIDTH_def FONT_CHAR_GAP_def)

end

section \<open>What the rectangles draw\<close>

text \<open>The picture on the panel, by column and row.\<close>

type_synonym canvas = "nat \<Rightarrow> nat \<Rightarrow> u16"

fun paint :: "tft_step \<Rightarrow> canvas \<Rightarrow> canvas" where
  "paint (Rect x y w h c) cv =
     (\<lambda>px py. if x \<le> px \<and> px < x + w \<and> y \<le> py \<and> py < y + h then c else cv px py)"
| "paint _ cv = cv"

lemma paint_column:
  "fold paint (map (\<lambda>row. Rect x (y + row) 1 1 (f row)) [0..<n]) cv px py =
    (if px = x \<and> y \<le> py \<and> py < y + n then f (py - y) else cv px py)"
  by (induction n) (auto intro: arg_cong[where f = f])

lemma paint_columns:
  "fold paint (concat (map (\<lambda>col. map (\<lambda>row. Rect (x + col) (y + row) 1 1 (f col row)) [0..<8]) [0..<m])) cv px py =
    (if x \<le> px \<and> px < x + m \<and> y \<le> py \<and> py < y + 8 then f (px - x) (py - y) else cv px py)"
proof (induction m)
  case (Suc m)
  have "fold paint (concat (map (\<lambda>col. map (\<lambda>row. Rect (x + col) (y + row) 1 1 (f col row)) [0..<8]) [0..<Suc m])) cv px py =
      fold paint (map (\<lambda>row. Rect (x + m) (y + row) 1 1 (f m row)) [0..<8])
        (fold paint (concat (map (\<lambda>col. map (\<lambda>row. Rect (x + col) (y + row) 1 1 (f col row)) [0..<8]) [0..<m])) cv) px py"
    by (simp del: upt_rec_numeral)
  also have "\<dots> = (if px = x + m \<and> y \<le> py \<and> py < y + 8 then f m (py - y) else
      if x \<le> px \<and> px < x + m \<and> y \<le> py \<and> py < y + 8 then f (px - x) (py - y) else cv px py)"
    unfolding paint_column Suc ..
  finally show ?case by auto
qed auto

lemma paint_glyph:
  "fold paint (glyph_rects x y c fg bg) cv px py =
    (if x \<le> px \<and> px < x + 5 \<and> y \<le> py \<and> py < y + 8
     then (if bit (glyph c ! (px - x)) (py - y) then fg else bg) else cv px py)"
  unfolding glyph_rects_def by (rule paint_columns)

lemma paint_chars:
  assumes "px < w" and "\<And>a b. x \<le> a \<Longrightarrow> y \<le> b \<Longrightarrow> b < y + 8 \<Longrightarrow> a < w \<Longrightarrow> x' \<le> a \<Longrightarrow> cv a b = 0" and "x' \<le> x + 5"
    and "\<And>a b. x \<le> a \<Longrightarrow> a < x' \<Longrightarrow> cs \<noteq> []"
  shows "fold paint (char_rects w y fg 0 cs (int x)) cv px py =
    (if x \<le> px \<and> y \<le> py \<and> py < y + 8 then (if text_bit cs (px - x) (py - y) then fg else 0) else cv px py)"
  using assms
proof (induction cs arbitrary: x x' cv)
  case Nil
  have "cv px py = 0" if "x \<le> px" "y \<le> py" "py < y + 8"
    using Nil.prems(1,2,4) that by (meson not_le)
  then show ?case by (simp add: text_bit_def column_def)
next
  case (Cons c cs)
  show ?case
  proof (cases "int w \<le> int x")
    case True
    with Cons.prems(1) show ?thesis by simp
  next
    case False
    let ?cv = "fold paint (glyph_rects x y c fg 0) cv"
    have "fold paint (char_rects w y fg 0 cs (int (x + 6))) ?cv px py =
        (if x + 6 \<le> px \<and> y \<le> py \<and> py < y + 8
         then (if text_bit cs (px - (x + 6)) (py - y) then fg else 0) else ?cv px py)"
    proof (rule Cons.IH[where x' = "x + 6"])
      show "?cv a b = 0" if "x + 6 \<le> a" "y \<le> b" "b < y + 8" "a < w" for a b
        using that Cons.prems(2)[of a b] Cons.prems(3) by (simp add: paint_glyph)
    qed (use Cons.prems in auto)
    then show ?thesis
      using False Cons.prems(1) Cons.prems(2)[of px py] Cons.prems(3)
      by (auto simp: paint_glyph text_bit_Cons add.commute not_le)
  qed
qed

text \<open>Characters that end left of the panel are skipped.\<close>

lemma char_rects_skip:
  assumes "x \<le> 1"
  shows "char_rects w y fg bg cs (x - 6 * int k) = char_rects w y fg bg (drop k cs) x"
proof (induction k arbitrary: cs)
  case (Suc k)
  show ?case
  proof (cases cs)
    case (Cons c ds)
    have "char_rects w y fg bg cs (x - 6 * int (Suc k)) = char_rects w y fg bg ds (x - 6 * int k)"
      using assms by (simp add: Cons)
    with Suc[of ds] show ?thesis by (simp add: Cons)
  qed simp
qed simp

text \<open>The picture after render_text: the banner is blank but for the text rows.\<close>

definition window_ok :: "banner \<Rightarrow> string \<Rightarrow> nat \<Rightarrow> u16 \<Rightarrow> canvas \<Rightarrow> canvas \<Rightarrow> bool" where
  "window_ok z text k fg cv cv' \<longleftrightarrow> (\<forall>px py. px < width z \<longrightarrow> cv' px py =
     (if height z \<le> py then cv px py
      else if base z \<le> py \<and> py < base z + 8 \<and> text_bit (c_str text) (k + px) (py - base z) then fg
      else 0))"

lemma paint_render_aligned:
  assumes "base z + 8 \<le> height z" and "k mod 6 = 0 \<or> k mod 6 = 5"
  shows "window_ok z text k fg cv (fold paint (render_script z text (int k) fg) cv)"
proof -
  let ?cs = "c_str text"
  let ?cv = "paint (Rect 0 0 (width z) (height z) 0) cv"
  obtain j x where jx: "- int k = int x - 6 * int j" "x \<le> 1" "k + x = 6 * j" "x = 1 \<Longrightarrow> k = 6 * (j - 1) + 5"
  proof (cases "k mod 6 = 0")
    case True
    then show ?thesis using that[of 0 "k div 6"] by (simp add: mod_eq_0_iff_dvd)
  next
    case False
    with assms(2) have "k = 6 * (k div 6) + 5" by (metis mult_div_mod_eq)
    then show ?thesis using that[of 1 "Suc (k div 6)"] by simp
  qed
  have "fold paint (render_script z text (int k) fg) cv =
      fold paint (char_rects (width z) (base z) fg 0 (drop j ?cs) (int x)) ?cv"
    using jx(1,2) char_rects_skip[of "int x"] by (simp add: render_script_def)
  moreover have "fold paint (char_rects (width z) (base z) fg 0 (drop j ?cs) (int x)) ?cv px py =
     (if x \<le> px \<and> base z \<le> py \<and> py < base z + 8
      then (if text_bit (drop j ?cs) (px - x) (py - base z) then fg else 0) else ?cv px py)"
    if "px < width z" for px py
    by (rule paint_chars[where x' = x]) (use that assms(1) in auto)
  moreover have "text_bit (drop j ?cs) (px - x) r = text_bit ?cs (k + px) r" if "x \<le> px" for px r
  proof -
    have "6 * j + (px - x) = k + px" using jx(3) that by linarith
    then show ?thesis by (simp add: text_bit_drop)
  qed
  moreover have "text_bit ?cs (k + px) r = False" if "px < x" for px r
    using that jx(2,4) text_bit_gap[of ?cs "j - 1" r] by (cases x) auto
  ultimately show ?thesis
    using assms(1) by (auto simp: window_ok_def not_le)
qed

text \<open>
  At the other offsets a character is cut by the left edge: it is drawn from its first column
  on at the edge, instead of from the column the offset gives.
\<close>

lemma paint_render_clipped:
  assumes "base z + 8 \<le> height z" and "1 \<le> r" and "r \<le> 4" and "j < length (c_str text)"
    and "px < width z" and "base z \<le> py" and "py < base z + 8"
  shows "fold paint (render_script z text (int (6 * j + r)) fg) cv px py =
    (if px < 6 - r then (if bit (glyph (c_str text ! j) ! px) (py - base z) then fg else 0)
     else if Suc j < length (c_str text) then
       (if text_bit (c_str text) (6 * j + r + px) (py - base z) then fg else 0)
     else if px < 5 then (if bit (glyph (c_str text ! j) ! px) (py - base z) then fg else 0)
     else 0)"
proof -
  let ?cs = "c_str text"
  let ?cv = "paint (Rect 0 0 (width z) (height z) 0) cv"
  let ?cv' = "fold paint (glyph_rects 0 (base z) (?cs ! j) fg 0) ?cv"
  have cons: "drop j ?cs = ?cs ! j # drop (Suc j) ?cs"
    using assms(4) by (simp add: Cons_nth_drop_Suc)
  have w: "0 < width z" using assms(5) by simp
  have "char_rects (width z) (base z) fg 0 ?cs (- int (6 * j + r)) =
      char_rects (width z) (base z) fg 0 (drop j ?cs) (- int r)"
    using char_rects_skip[of "- int r" "width z" "base z" fg 0 ?cs j] assms(2,3)
    by (simp add: algebra_simps)
  also have "\<dots> = glyph_rects 0 (base z) (?cs ! j) fg 0 @
      char_rects (width z) (base z) fg 0 (drop (Suc j) ?cs) (int (6 - r))"
    unfolding cons using assms(2,3) w by simp
  finally have run: "fold paint (render_script z text (int (6 * j + r)) fg) cv =
      fold paint (char_rects (width z) (base z) fg 0 (drop (Suc j) ?cs) (int (6 - r))) ?cv'"
    by (simp add: render_script_def)
  show ?thesis
  proof (cases "Suc j < length ?cs")
    case True
    have "fold paint (char_rects (width z) (base z) fg 0 (drop (Suc j) ?cs) (int (6 - r))) ?cv' px py =
       (if 6 - r \<le> px \<and> base z \<le> py \<and> py < base z + 8
        then (if text_bit (drop (Suc j) ?cs) (px - (6 - r)) (py - base z) then fg else 0) else ?cv' px py)"
      by (rule paint_chars[where x' = 5]) (use True assms in \<open>auto simp: paint_glyph\<close>)
    moreover have "text_bit (drop (Suc j) ?cs) (px - (6 - r)) q = text_bit ?cs (6 * j + r + px) q"
      if "6 - r \<le> px" for q
    proof -
      from that obtain e where e: "px = (6 - r) + e" using le_Suc_ex by blast
      have "r + (6 - r) = 6" using assms(3) by simp
      with e have "6 * Suc j + (px - (6 - r)) = 6 * j + r + px" by simp
      then show ?thesis by (simp only: text_bit_drop)
    qed
    ultimately show ?thesis
      unfolding run using True assms by (auto simp: paint_glyph)
  next
    case False
    then have nil: "drop (Suc j) ?cs = []" by simp
    show ?thesis
      unfolding run nil using False assms by (auto simp: paint_glyph)
  qed
qed

end
