(* ===== verification/Tft_Drivers.thy ===== *)
theory Tft_Drivers
  imports Tft
begin

text \<open>
  The colour panel drivers: ST7735, ST7789 and ILI9225 on the Pico (firmware/pico/src/driver)
  and on the ESP32 (firmware/esp32/main/driver). Each part gives how a command, a window and a
  filled rectangle go out, display_init and display_text. The last part models the controllers
  of the panels and shows that the bytes of a rectangle fill it.
\<close>

section \<open>Sending bytes\<close>

text \<open>st7735_cmd, st7735_data, st7789_cmd and st7789_data of the Pico.\<close>

definition pico_tft_cmd :: "u8 \<Rightarrow> dev \<Rightarrow> dev" where
  "pico_tft_cmd c s = gpio_put 17 True (spi_write_blocking [c] (gpio_put 17 False (gpio_put 20 False s)))"

definition pico_tft_data :: "u8 list \<Rightarrow> dev \<Rightarrow> dev" where
  "pico_tft_data bs s = gpio_put 17 True (spi_write_blocking bs (gpio_put 17 False (gpio_put 20 True s)))"

text \<open>The same functions of the ESP32; the transaction length is in bits.\<close>

definition esp32_tft_cmd :: "pins \<Rightarrow> u8 \<Rightarrow> dev \<Rightarrow> dev option" where
  "esp32_tft_cmd p c s = spi_device_polling_transmit 8 [c] (gpio_set_level (SPI_DC_PIN p) False s)"

definition esp32_tft_data :: "pins \<Rightarrow> u8 list \<Rightarrow> dev \<Rightarrow> dev option" where
  "esp32_tft_data p bs s =
     spi_device_polling_transmit (int (length bs) * 8) bs (gpio_set_level (SPI_DC_PIN p) True s)"

text \<open>The two bytes of a 16-bit value, high byte first.\<close>

definition be16 :: "u16 \<Rightarrow> u8 list" where
  "be16 v = [ucast (drop_bit 8 v), ucast (v AND 0xFF)]"

text \<open>The sizes of the panels and where the text goes.\<close>

definition st7735_banner :: banner where
  "st7735_banner = \<lparr>width = 128, height = 8, base = 0\<rparr>"
definition st7789_banner :: banner where
  "st7789_banner = \<lparr>width = 240, height = 16, base = 4\<rparr>"
definition ili9225_banner :: banner where
  "ili9225_banner = \<lparr>width = 176, height = 16, base = 4\<rparr>"

definition ST7735_HEIGHT :: u8 where "ST7735_HEIGHT = 160"
definition ST7789_HEIGHT :: u16 where "ST7789_HEIGHT = 240"
definition ILI9225_HEIGHT :: u16 where "ILI9225_HEIGHT = 220"

text \<open>The number of iterations of a loop for (i = 0; i < w * h; i++) on promoted operands.\<close>

definition rect_px :: "('c :: len) word \<Rightarrow> 'c word \<Rightarrow> int option" where
  "rect_px w h = c_int (uint w * uint h)"

section \<open>ST7735\<close>

definition pico_st7735_set_window :: "u8 \<Rightarrow> u8 \<Rightarrow> u8 \<Rightarrow> u8 \<Rightarrow> dev \<Rightarrow> dev" where
  "pico_st7735_set_window x0 y0 x1 y1 s =
     (let s = pico_tft_cmd 0x2A s;
          s = pico_tft_data [0] s; s = pico_tft_data [x0] s;
          s = pico_tft_data [0] s; s = pico_tft_data [x1] s;
          s = pico_tft_cmd 0x2B s;
          s = pico_tft_data [0] s; s = pico_tft_data [y0] s;
          s = pico_tft_data [0] s; s = pico_tft_data [y1] s
      in pico_tft_cmd 0x2C s)"

definition pico_st7735_fill_rect :: "8 tft_fill" where
  "pico_st7735_fill_rect x y w h color s = do {
     let s = pico_st7735_set_window x y (x + w - 1) (y + h - 1) s;
     let s = gpio_put 17 False (gpio_put 20 True s);
     n \<leftarrow> rect_px w h;
     s \<leftarrow> for_each [0..n - 1] (\<lambda>i s. Some (spi_write_blocking (be16 color) s)) s;
     Some (gpio_put 17 True s)
   }"

definition esp32_st7735_set_window :: "pins \<Rightarrow> u8 \<Rightarrow> u8 \<Rightarrow> u8 \<Rightarrow> u8 \<Rightarrow> dev \<Rightarrow> dev option" where
  "esp32_st7735_set_window p x0 y0 x1 y1 s = do {
     s \<leftarrow> esp32_tft_cmd p 0x2A s;
     s \<leftarrow> esp32_tft_data p [0] s; s \<leftarrow> esp32_tft_data p [x0] s;
     s \<leftarrow> esp32_tft_data p [0] s; s \<leftarrow> esp32_tft_data p [x1] s;
     s \<leftarrow> esp32_tft_cmd p 0x2B s;
     s \<leftarrow> esp32_tft_data p [0] s; s \<leftarrow> esp32_tft_data p [y0] s;
     s \<leftarrow> esp32_tft_data p [0] s; s \<leftarrow> esp32_tft_data p [y1] s;
     esp32_tft_cmd p 0x2C s
   }"

definition esp32_st7735_fill_rect :: "pins \<Rightarrow> 8 tft_fill" where
  "esp32_st7735_fill_rect p x y w h color s = do {
     s \<leftarrow> esp32_st7735_set_window p x y (x + w - 1) (y + h - 1) s;
     n \<leftarrow> rect_px w h;
     for_each [0..n - 1] (\<lambda>i. esp32_tft_data p (be16 color)) s
   }"

text \<open>The start-up shared by the ST77xx drivers up to the panel's own commands.\<close>

definition pico_spi_pins :: "u32 \<Rightarrow> bool \<Rightarrow> hw list" where
  "pico_spi_pins hz dc = [SpiInit hz, GpioFunc 19 GPIO_FUNC_SPI, GpioFunc 18 GPIO_FUNC_SPI] @
     gpio_out_pin 17 True @ gpio_out_pin 20 dc @ gpio_out_pin 21 True"

definition esp32_spi_start :: "pins \<Rightarrow> u32 \<Rightarrow> hw list" where
  "esp32_spi_start p hz =
     [GpioConfig (pin_mask [SPI_DC_PIN p, SPI_RST_PIN p]) True,
      Gpio (SPI_DC_PIN p) False, Gpio (SPI_RST_PIN p) True] @ esp32_spi_bus p hz (Some (SPI_CS_PIN p))"

definition pico_st7735_display_clear :: "dev \<Rightarrow> dev option" where
  "pico_st7735_display_clear =
     pico_st7735_fill_rect 0 0 (of_nat (width st7735_banner)) ST7735_HEIGHT 0x0000"

definition esp32_st7735_display_clear :: "pins \<Rightarrow> dev \<Rightarrow> dev option" where
  "esp32_st7735_display_clear p =
     esp32_st7735_fill_rect p 0 0 (of_nat (width st7735_banner)) ST7735_HEIGHT 0x0000"

definition pico_st7735_display_init :: "dev \<Rightarrow> dev option" where
  "pico_st7735_display_init s =
     (let s = emit (pico_spi_pins 8000000 False) s;
          s = sleep_ms 10 (gpio_put 21 False s);
          s = sleep_ms 120 (gpio_put 21 True s);
          s = sleep_ms 150 (pico_tft_cmd 0x01 s);
          s = sleep_ms 255 (pico_tft_cmd 0x11 s);
          s = pico_tft_data [0x05] (pico_tft_cmd 0x3A s);
          s = pico_tft_data [0x00] (pico_tft_cmd 0x36 s);
          s = pico_tft_cmd 0x29 s
      in pico_st7735_fill_rect 0 0 (of_nat (width st7735_banner)) ST7735_HEIGHT 0x0000 s)"

definition esp32_st7735_display_init :: "pins \<Rightarrow> dev \<Rightarrow> dev option" where
  "esp32_st7735_display_init p s = do {
     let s = emit (esp32_spi_start p 16000000) s;
     let s = vTaskDelay_ms 10 (gpio_set_level (SPI_RST_PIN p) False s);
     let s = vTaskDelay_ms 120 (gpio_set_level (SPI_RST_PIN p) True s);
     s \<leftarrow> esp32_tft_cmd p 0x01 s;
     s \<leftarrow> esp32_tft_cmd p 0x11 (vTaskDelay_ms 150 s);
     s \<leftarrow> esp32_tft_cmd p 0x3A (vTaskDelay_ms 255 s);
     s \<leftarrow> esp32_tft_data p [0x05] s;
     s \<leftarrow> esp32_tft_cmd p 0x36 s;
     s \<leftarrow> esp32_tft_data p [0x00] s;
     s \<leftarrow> esp32_tft_cmd p 0x29 s;
     esp32_st7735_fill_rect p 0 0 (of_nat (width st7735_banner)) ST7735_HEIGHT 0x0000 s
   }"

definition pico_st7735_display_text where
  "pico_st7735_display_text = tft_display_text pico_st7735_fill_rect st7735_banner sleep_ms
     (\<lambda>s. Some (pico_tft_cmd 0x28 s)) (\<lambda>text s. Some (pico_tft_cmd 0x29 s))"

text \<open>The ESP32 driver blinks by clearing the banner and drawing the text again.\<close>

definition esp32_st7735_display_text where
  "esp32_st7735_display_text p = tft_display_text (esp32_st7735_fill_rect p) st7735_banner vTaskDelay_ms
     (esp32_st7735_fill_rect p 0 0 (of_nat (width st7735_banner)) (of_nat (height st7735_banner)) 0x0000)
     (\<lambda>text. tft_render_text (esp32_st7735_fill_rect p) st7735_banner text 0 0xFFFF 0x0000)"

section \<open>ST7789\<close>

definition pico_st7789_set_window :: "u16 \<Rightarrow> u16 \<Rightarrow> u16 \<Rightarrow> u16 \<Rightarrow> dev \<Rightarrow> dev" where
  "pico_st7789_set_window x0 y0 x1 y1 s =
     (let data8 = (\<lambda>v. pico_tft_data [v]);
          s = pico_tft_cmd 0x2A s;
          s = data8 (ucast (drop_bit 8 x0)) s; s = data8 (ucast (x0 AND 0xFF)) s;
          s = data8 (ucast (drop_bit 8 x1)) s; s = data8 (ucast (x1 AND 0xFF)) s;
          s = pico_tft_cmd 0x2B s;
          s = data8 (ucast (drop_bit 8 y0)) s; s = data8 (ucast (y0 AND 0xFF)) s;
          s = data8 (ucast (drop_bit 8 y1)) s; s = data8 (ucast (y1 AND 0xFF)) s
      in pico_tft_cmd 0x2C s)"

definition pico_st7789_fill_rect :: "16 tft_fill" where
  "pico_st7789_fill_rect x y w h color s = do {
     let s = pico_st7789_set_window x y (x + w - 1) (y + h - 1) s;
     let s = gpio_put 17 False (gpio_put 20 True s);
     n \<leftarrow> rect_px w h;
     s \<leftarrow> for_each [0..n - 1] (\<lambda>i s. Some (spi_write_blocking (be16 color) s)) s;
     Some (gpio_put 17 True s)
   }"

definition esp32_st7789_set_window :: "pins \<Rightarrow> u16 \<Rightarrow> u16 \<Rightarrow> u16 \<Rightarrow> u16 \<Rightarrow> dev \<Rightarrow> dev option" where
  "esp32_st7789_set_window p x0 y0 x1 y1 s = do {
     s \<leftarrow> esp32_tft_cmd p 0x2A s;
     s \<leftarrow> esp32_tft_data p [ucast (drop_bit 8 x0), ucast (x0 AND 0xFF),
           ucast (drop_bit 8 x1), ucast (x1 AND 0xFF)] s;
     s \<leftarrow> esp32_tft_cmd p 0x2B s;
     s \<leftarrow> esp32_tft_data p [ucast (drop_bit 8 y0), ucast (y0 AND 0xFF),
           ucast (drop_bit 8 y1), ucast (y1 AND 0xFF)] s;
     esp32_tft_cmd p 0x2C s
   }"

definition esp32_st7789_fill_rect :: "pins \<Rightarrow> 16 tft_fill" where
  "esp32_st7789_fill_rect p x y w h color s = do {
     s \<leftarrow> esp32_st7789_set_window p x y (x + w - 1) (y + h - 1) s;
     n \<leftarrow> rect_px w h;
     for_each [0..n - 1] (\<lambda>i. esp32_tft_data p (be16 color)) s
   }"

definition pico_st7789_display_clear :: "dev \<Rightarrow> dev option" where
  "pico_st7789_display_clear =
     pico_st7789_fill_rect 0 0 (of_nat (width st7789_banner)) ST7789_HEIGHT 0x0000"

definition esp32_st7789_display_clear :: "pins \<Rightarrow> dev \<Rightarrow> dev option" where
  "esp32_st7789_display_clear p =
     esp32_st7789_fill_rect p 0 0 (of_nat (width st7789_banner)) ST7789_HEIGHT 0x0000"

definition pico_st7789_display_init :: "dev \<Rightarrow> dev option" where
  "pico_st7789_display_init s =
     (let s = emit (pico_spi_pins 16000000 False) s;
          s = sleep_ms 10 (gpio_put 21 False s);
          s = sleep_ms 120 (gpio_put 21 True s);
          s = sleep_ms 150 (pico_tft_cmd 0x01 s);
          s = sleep_ms 120 (pico_tft_cmd 0x11 s);
          s = pico_tft_data [0x05] (pico_tft_cmd 0x3A s);
          s = pico_tft_data [0x00] (pico_tft_cmd 0x36 s);
          s = pico_tft_cmd 0x21 s;
          s = pico_tft_cmd 0x29 s
      in pico_st7789_fill_rect 0 0 (of_nat (width st7789_banner)) ST7789_HEIGHT 0x0000 s)"

definition esp32_st7789_display_init :: "pins \<Rightarrow> dev \<Rightarrow> dev option" where
  "esp32_st7789_display_init p s = do {
     let s = emit (esp32_spi_start p 16000000) s;
     let s = vTaskDelay_ms 10 (gpio_set_level (SPI_RST_PIN p) False s);
     let s = vTaskDelay_ms 120 (gpio_set_level (SPI_RST_PIN p) True s);
     s \<leftarrow> esp32_tft_cmd p 0x01 s;
     s \<leftarrow> esp32_tft_cmd p 0x11 (vTaskDelay_ms 150 s);
     s \<leftarrow> esp32_tft_cmd p 0x3A (vTaskDelay_ms 120 s);
     s \<leftarrow> esp32_tft_data p [0x05] s;
     s \<leftarrow> esp32_tft_cmd p 0x36 s;
     s \<leftarrow> esp32_tft_data p [0x00] s;
     s \<leftarrow> esp32_tft_cmd p 0x21 s;
     s \<leftarrow> esp32_tft_cmd p 0x29 s;
     esp32_st7789_fill_rect p 0 0 (of_nat (width st7789_banner)) ST7789_HEIGHT 0x0000 s
   }"

definition pico_st7789_display_text where
  "pico_st7789_display_text = tft_display_text pico_st7789_fill_rect st7789_banner sleep_ms
     (\<lambda>s. Some (pico_tft_cmd 0x28 s)) (\<lambda>text s. Some (pico_tft_cmd 0x29 s))"

definition esp32_st7789_display_text where
  "esp32_st7789_display_text p = tft_display_text (esp32_st7789_fill_rect p) st7789_banner vTaskDelay_ms
     (esp32_tft_cmd p 0x28) (\<lambda>text. esp32_tft_cmd p 0x29)"

section \<open>ILI9225\<close>

definition pico_ili9225_write_reg :: "u8 \<Rightarrow> u16 \<Rightarrow> dev \<Rightarrow> dev" where
  "pico_ili9225_write_reg reg data s =
     (let s = gpio_put 17 False (gpio_put 20 False s);
          s = spi_write_blocking [0x00, reg] s;
          s = gpio_put 20 True s;
          s = spi_write_blocking (be16 data) s
      in gpio_put 17 True s)"

definition pico_ili9225_write_data16 :: "u16 \<Rightarrow> dev \<Rightarrow> dev" where
  "pico_ili9225_write_data16 data s =
     (let s = gpio_put 17 False (gpio_put 20 True s);
          s = spi_write_blocking (be16 data) s
      in gpio_put 17 True s)"

definition pico_ili9225_set_window :: "u16 \<Rightarrow> u16 \<Rightarrow> u16 \<Rightarrow> u16 \<Rightarrow> dev \<Rightarrow> dev" where
  "pico_ili9225_set_window x0 y0 x1 y1 s =
     (let s = pico_ili9225_write_reg 0x36 x1 s;
          s = pico_ili9225_write_reg 0x37 x0 s;
          s = pico_ili9225_write_reg 0x38 y1 s;
          s = pico_ili9225_write_reg 0x39 y0 s;
          s = pico_ili9225_write_reg 0x20 x0 s;
          s = pico_ili9225_write_reg 0x21 y0 s;
          s = gpio_put 17 False (gpio_put 20 False s);
          s = spi_write_blocking [0x00, 0x22] s;
          s = gpio_put 20 True s
      in gpio_put 17 True s)"

definition pico_ili9225_fill_rect :: "16 tft_fill" where
  "pico_ili9225_fill_rect x y w h color s = do {
     let s = pico_ili9225_set_window x y (x + w - 1) (y + h - 1) s;
     n \<leftarrow> rect_px w h;
     for_each [0..n - 1] (\<lambda>i s. Some (pico_ili9225_write_data16 color s)) s
   }"

definition esp32_spi_write16 :: "u16 \<Rightarrow> dev \<Rightarrow> dev option" where
  "esp32_spi_write16 v s = spi_device_polling_transmit 16 (be16 v) s"

definition esp32_ili9225_write_reg :: "pins \<Rightarrow> u8 \<Rightarrow> u16 \<Rightarrow> dev \<Rightarrow> dev option" where
  "esp32_ili9225_write_reg p reg data s = do {
     let s = gpio_set_level (SPI_CS_PIN p) False (gpio_set_level (SPI_DC_PIN p) False s);
     s \<leftarrow> spi_device_polling_transmit 16 [0x00, reg] s;
     s \<leftarrow> esp32_spi_write16 data (gpio_set_level (SPI_DC_PIN p) True s);
     Some (gpio_set_level (SPI_CS_PIN p) True s)
   }"

definition esp32_ili9225_write_data16 :: "pins \<Rightarrow> u16 \<Rightarrow> dev \<Rightarrow> dev option" where
  "esp32_ili9225_write_data16 p data s = do {
     s \<leftarrow> esp32_spi_write16 data (gpio_set_level (SPI_CS_PIN p) False (gpio_set_level (SPI_DC_PIN p) True s));
     Some (gpio_set_level (SPI_CS_PIN p) True s)
   }"

definition esp32_ili9225_set_window :: "pins \<Rightarrow> u16 \<Rightarrow> u16 \<Rightarrow> u16 \<Rightarrow> u16 \<Rightarrow> dev \<Rightarrow> dev option" where
  "esp32_ili9225_set_window p x0 y0 x1 y1 s = do {
     s \<leftarrow> esp32_ili9225_write_reg p 0x36 x1 s;
     s \<leftarrow> esp32_ili9225_write_reg p 0x37 x0 s;
     s \<leftarrow> esp32_ili9225_write_reg p 0x38 y1 s;
     s \<leftarrow> esp32_ili9225_write_reg p 0x39 y0 s;
     s \<leftarrow> esp32_ili9225_write_reg p 0x20 x0 s;
     s \<leftarrow> esp32_ili9225_write_reg p 0x21 y0 s;
     let s = gpio_set_level (SPI_CS_PIN p) False (gpio_set_level (SPI_DC_PIN p) False s);
     s \<leftarrow> spi_device_polling_transmit 16 [0x00, 0x22] s;
     Some (gpio_set_level (SPI_CS_PIN p) True (gpio_set_level (SPI_DC_PIN p) True s))
   }"

definition esp32_ili9225_fill_rect :: "pins \<Rightarrow> 16 tft_fill" where
  "esp32_ili9225_fill_rect p x y w h color s = do {
     s \<leftarrow> esp32_ili9225_set_window p x y (x + w - 1) (y + h - 1) s;
     n \<leftarrow> rect_px w h;
     for_each [0..n - 1] (\<lambda>i. esp32_ili9225_write_data16 p color) s
   }"

definition pico_ili9225_display_clear :: "dev \<Rightarrow> dev option" where
  "pico_ili9225_display_clear =
     pico_ili9225_fill_rect 0 0 (of_nat (width ili9225_banner)) ILI9225_HEIGHT 0x0000"

definition esp32_ili9225_display_clear :: "pins \<Rightarrow> dev \<Rightarrow> dev option" where
  "esp32_ili9225_display_clear p =
     esp32_ili9225_fill_rect p 0 0 (of_nat (width ili9225_banner)) ILI9225_HEIGHT 0x0000"

text \<open>The register values of display_init, in three groups with delays between them.\<close>

definition ili9225_init_1 :: "(u8 \<times> u16) list" where
  "ili9225_init_1 = [(0x01, 0x011C), (0x02, 0x0100), (0x03, 0x1030), (0x08, 0x0808), (0x0B, 0x1100),
     (0x0C, 0x0000), (0x0F, 0x0A01), (0x15, 0x0020), (0x20, 0x0000), (0x21, 0x0000)]"

definition ili9225_init_2 :: "(u8 \<times> u16) list" where
  "ili9225_init_2 = [(0x12, 0x0121), (0x13, 0x006F), (0x14, 0x4349), (0x30, 0x0000), (0x31, 0x00DB),
     (0x32, 0x0000), (0x33, 0x0000), (0x34, 0x00DB), (0x35, 0x0000), (0x36, 0x00AF), (0x37, 0x0000),
     (0x38, 0x00DB), (0x39, 0x0000), (0x07, 0x1017)]"

definition pico_ili9225_display_init :: "dev \<Rightarrow> dev option" where
  "pico_ili9225_display_init s =
     (let s = emit (pico_spi_pins 8000000 True) s;
          s = sleep_ms 10 (gpio_put 21 False s);
          s = sleep_ms 50 (gpio_put 21 True s);
          s = fold (\<lambda>(r, v). pico_ili9225_write_reg r v) ili9225_init_1 s;
          s = pico_ili9225_write_reg 0x10 0x0800 (sleep_ms 50 s);
          s = pico_ili9225_write_reg 0x11 0x1F3F (sleep_ms 10 s);
          s = fold (\<lambda>(r, v). pico_ili9225_write_reg r v) ili9225_init_2 (sleep_ms 10 s)
      in pico_ili9225_fill_rect 0 0 (of_nat (width ili9225_banner)) ILI9225_HEIGHT 0x0000 s)"

definition esp32_ili9225_display_init :: "pins \<Rightarrow> dev \<Rightarrow> dev option" where
  "esp32_ili9225_display_init p s = do {
     let s = emit ([GpioConfig (pin_mask [SPI_DC_PIN p, SPI_RST_PIN p, SPI_CS_PIN p]) True,
       Gpio (SPI_DC_PIN p) True, Gpio (SPI_RST_PIN p) True, Gpio (SPI_CS_PIN p) True] @
       esp32_spi_bus p 8000000 None) s;
     let s = vTaskDelay_ms 10 (gpio_set_level (SPI_RST_PIN p) False s);
     let s = vTaskDelay_ms 50 (gpio_set_level (SPI_RST_PIN p) True s);
     s \<leftarrow> for_each ili9225_init_1 (\<lambda>(r, v). esp32_ili9225_write_reg p r v) s;
     s \<leftarrow> esp32_ili9225_write_reg p 0x10 0x0800 (vTaskDelay_ms 50 s);
     s \<leftarrow> esp32_ili9225_write_reg p 0x11 0x1F3F (vTaskDelay_ms 10 s);
     s \<leftarrow> for_each ili9225_init_2 (\<lambda>(r, v). esp32_ili9225_write_reg p r v) (vTaskDelay_ms 10 s);
     esp32_ili9225_fill_rect p 0 0 (of_nat (width ili9225_banner)) ILI9225_HEIGHT 0x0000 s
   }"

definition pico_ili9225_display_text where
  "pico_ili9225_display_text = tft_display_text pico_ili9225_fill_rect ili9225_banner sleep_ms
     (\<lambda>s. Some (pico_ili9225_write_reg 0x07 0x1013 s))
     (\<lambda>text s. Some (pico_ili9225_write_reg 0x07 0x1017 s))"

definition esp32_ili9225_display_text where
  "esp32_ili9225_display_text p = tft_display_text (esp32_ili9225_fill_rect p) ili9225_banner vTaskDelay_ms
     (esp32_ili9225_write_reg p 0x07 0x1013) (\<lambda>text. esp32_ili9225_write_reg p 0x07 0x1017)"

text \<open>draw_char and render_text of the six files.\<close>

definition pico_st7735_draw_char where "pico_st7735_draw_char = tft_draw_char pico_st7735_fill_rect"
definition esp32_st7735_draw_char where "esp32_st7735_draw_char p = tft_draw_char (esp32_st7735_fill_rect p)"
definition pico_st7789_draw_char where "pico_st7789_draw_char = tft_draw_char pico_st7789_fill_rect"
definition esp32_st7789_draw_char where "esp32_st7789_draw_char p = tft_draw_char (esp32_st7789_fill_rect p)"
definition pico_ili9225_draw_char where "pico_ili9225_draw_char = tft_draw_char pico_ili9225_fill_rect"
definition esp32_ili9225_draw_char where "esp32_ili9225_draw_char p = tft_draw_char (esp32_ili9225_fill_rect p)"

definition pico_st7735_render_text where
  "pico_st7735_render_text = tft_render_text pico_st7735_fill_rect st7735_banner"
definition esp32_st7735_render_text where
  "esp32_st7735_render_text p = tft_render_text (esp32_st7735_fill_rect p) st7735_banner"
definition pico_st7789_render_text where
  "pico_st7789_render_text = tft_render_text pico_st7789_fill_rect st7789_banner"
definition esp32_st7789_render_text where
  "esp32_st7789_render_text p = tft_render_text (esp32_st7789_fill_rect p) st7789_banner"
definition pico_ili9225_render_text where
  "pico_ili9225_render_text = tft_render_text pico_ili9225_fill_rect ili9225_banner"
definition esp32_ili9225_render_text where
  "esp32_ili9225_render_text p = tft_render_text (esp32_ili9225_fill_rect p) ili9225_banner"

section \<open>What the drivers send\<close>

definition pico_cmd_out :: "u8 \<Rightarrow> hw list" where
  "pico_cmd_out c = [Gpio 20 False, Gpio 17 False, Spi [c], Gpio 17 True]"
definition pico_data_out :: "u8 list \<Rightarrow> hw list" where
  "pico_data_out bs = [Gpio 20 True, Gpio 17 False, Spi bs, Gpio 17 True]"
definition esp32_cmd_out :: "pins \<Rightarrow> u8 \<Rightarrow> hw list" where
  "esp32_cmd_out p c = [Gpio (SPI_DC_PIN p) False, SpiTx [c]]"
definition esp32_data_out :: "pins \<Rightarrow> u8 list \<Rightarrow> hw list" where
  "esp32_data_out p bs = [Gpio (SPI_DC_PIN p) True, SpiTx bs]"

definition pico_st7735_fill_out :: "u8 \<Rightarrow> u8 \<Rightarrow> u8 \<Rightarrow> u8 \<Rightarrow> u16 \<Rightarrow> hw list" where
  "pico_st7735_fill_out x y w h c =
     pico_cmd_out 0x2A @ concat (map (\<lambda>b. pico_data_out [b]) [0, x, 0, x + w - 1]) @
     pico_cmd_out 0x2B @ concat (map (\<lambda>b. pico_data_out [b]) [0, y, 0, y + h - 1]) @
     pico_cmd_out 0x2C @ [Gpio 20 True, Gpio 17 False] @
     concat (replicate (unat w * unat h) [Spi (be16 c)]) @ [Gpio 17 True]"

definition esp32_st7735_fill_out :: "pins \<Rightarrow> u8 \<Rightarrow> u8 \<Rightarrow> u8 \<Rightarrow> u8 \<Rightarrow> u16 \<Rightarrow> hw list" where
  "esp32_st7735_fill_out p x y w h c =
     esp32_cmd_out p 0x2A @ concat (map (\<lambda>b. esp32_data_out p [b]) [0, x, 0, x + w - 1]) @
     esp32_cmd_out p 0x2B @ concat (map (\<lambda>b. esp32_data_out p [b]) [0, y, 0, y + h - 1]) @
     esp32_cmd_out p 0x2C @ concat (replicate (unat w * unat h) (esp32_data_out p (be16 c)))"

definition pico_st7789_fill_out :: "u16 \<Rightarrow> u16 \<Rightarrow> u16 \<Rightarrow> u16 \<Rightarrow> u16 \<Rightarrow> hw list" where
  "pico_st7789_fill_out x y w h c =
     pico_cmd_out 0x2A @ concat (map (\<lambda>b. pico_data_out [b]) (be16 x @ be16 (x + w - 1))) @
     pico_cmd_out 0x2B @ concat (map (\<lambda>b. pico_data_out [b]) (be16 y @ be16 (y + h - 1))) @
     pico_cmd_out 0x2C @ [Gpio 20 True, Gpio 17 False] @
     concat (replicate (unat w * unat h) [Spi (be16 c)]) @ [Gpio 17 True]"

definition esp32_st7789_fill_out :: "pins \<Rightarrow> u16 \<Rightarrow> u16 \<Rightarrow> u16 \<Rightarrow> u16 \<Rightarrow> u16 \<Rightarrow> hw list" where
  "esp32_st7789_fill_out p x y w h c =
     esp32_cmd_out p 0x2A @ esp32_data_out p (be16 x @ be16 (x + w - 1)) @
     esp32_cmd_out p 0x2B @ esp32_data_out p (be16 y @ be16 (y + h - 1)) @
     esp32_cmd_out p 0x2C @ concat (replicate (unat w * unat h) (esp32_data_out p (be16 c)))"

definition pico_reg_out :: "u8 \<Rightarrow> u16 \<Rightarrow> hw list" where
  "pico_reg_out r v = [Gpio 20 False, Gpio 17 False, Spi [0, r], Gpio 20 True, Spi (be16 v), Gpio 17 True]"
definition esp32_reg_out :: "pins \<Rightarrow> u8 \<Rightarrow> u16 \<Rightarrow> hw list" where
  "esp32_reg_out p r v = [Gpio (SPI_DC_PIN p) False, Gpio (SPI_CS_PIN p) False, SpiTx [0, r],
     Gpio (SPI_DC_PIN p) True, SpiTx (be16 v), Gpio (SPI_CS_PIN p) True]"

definition window_regs :: "u16 \<Rightarrow> u16 \<Rightarrow> u16 \<Rightarrow> u16 \<Rightarrow> (u8 \<times> u16) list" where
  "window_regs x0 y0 x1 y1 =
     [(0x36, x1), (0x37, x0), (0x38, y1), (0x39, y0), (0x20, x0), (0x21, y0)]"

definition pico_ili9225_fill_out :: "u16 \<Rightarrow> u16 \<Rightarrow> u16 \<Rightarrow> u16 \<Rightarrow> u16 \<Rightarrow> hw list" where
  "pico_ili9225_fill_out x y w h c =
     concat (map (\<lambda>(r, v). pico_reg_out r v) (window_regs x y (x + w - 1) (y + h - 1))) @
     [Gpio 20 False, Gpio 17 False, Spi [0, 0x22], Gpio 20 True, Gpio 17 True] @
     concat (replicate (unat w * unat h) (pico_data_out (be16 c)))"

definition esp32_ili9225_fill_out :: "pins \<Rightarrow> u16 \<Rightarrow> u16 \<Rightarrow> u16 \<Rightarrow> u16 \<Rightarrow> u16 \<Rightarrow> hw list" where
  "esp32_ili9225_fill_out p x y w h c =
     concat (map (\<lambda>(r, v). esp32_reg_out p r v) (window_regs x y (x + w - 1) (y + h - 1))) @
     [Gpio (SPI_DC_PIN p) False, Gpio (SPI_CS_PIN p) False, SpiTx [0, 0x22],
      Gpio (SPI_DC_PIN p) True, Gpio (SPI_CS_PIN p) True] @
     concat (replicate (unat w * unat h) [Gpio (SPI_DC_PIN p) True, Gpio (SPI_CS_PIN p) False,
       SpiTx (be16 c), Gpio (SPI_CS_PIN p) True])"

lemma rect_px_eq:
  "unat w * unat h \<le> 2147483647 \<Longrightarrow> rect_px w h = Some (int (unat w * unat h))"
proof -
  assume le: "unat w * unat h \<le> 2147483647"
  have "uint w * uint h = int (unat w * unat h)" by simp
  then show ?thesis using le unfolding rect_px_def by (simp del: of_nat_mult)
qed

lemma length_be16 [simp]: "length (be16 v) = 2"
  by (simp add: be16_def)

lemmas st77xx_defs = pico_tft_cmd_def pico_tft_data_def esp32_tft_cmd_def esp32_tft_data_def
  pico_cmd_out_def pico_data_out_def esp32_cmd_out_def esp32_data_out_def hw_ops

lemma pico_st7735_fill_eq:
  assumes "unat w * unat h \<le> 2147483647"
  shows "pico_st7735_fill_rect x y w h c s = Some (emit (pico_st7735_fill_out x y w h c) s)"
  unfolding pico_st7735_fill_rect_def rect_px_eq[OF assms] pico_st7735_set_window_def
  by (simp add: st77xx_defs Let_def pico_st7735_fill_out_def
      for_each_repeat[where g = "[Spi (be16 c)]"] del: of_nat_mult)

lemma esp32_st7735_fill_eq:
  assumes "unat w * unat h \<le> 2147483647"
  shows "esp32_st7735_fill_rect p x y w h c s = Some (emit (esp32_st7735_fill_out p x y w h c) s)"
  unfolding esp32_st7735_fill_rect_def rect_px_eq[OF assms] esp32_st7735_set_window_def
  by (simp add: st77xx_defs Let_def esp32_st7735_fill_out_def
      for_each_repeat[where g = "[Gpio (SPI_DC_PIN p) True, SpiTx (be16 c)]"] del: of_nat_mult)

lemma pico_st7789_fill_eq:
  assumes "unat w * unat h \<le> 2147483647"
  shows "pico_st7789_fill_rect x y w h c s = Some (emit (pico_st7789_fill_out x y w h c) s)"
  unfolding pico_st7789_fill_rect_def rect_px_eq[OF assms] pico_st7789_set_window_def
  by (simp add: st77xx_defs Let_def pico_st7789_fill_out_def be16_def
      for_each_repeat[where g = "[Spi (be16 c)]", unfolded be16_def] del: of_nat_mult)

lemma esp32_st7789_fill_eq:
  assumes "unat w * unat h \<le> 2147483647"
  shows "esp32_st7789_fill_rect p x y w h c s = Some (emit (esp32_st7789_fill_out p x y w h c) s)"
  unfolding esp32_st7789_fill_rect_def rect_px_eq[OF assms] esp32_st7789_set_window_def
  by (simp add: st77xx_defs Let_def esp32_st7789_fill_out_def be16_def
      for_each_repeat[where g = "[Gpio (SPI_DC_PIN p) True, SpiTx (be16 c)]", unfolded be16_def]
      del: of_nat_mult)

lemma pico_reg_eq: "pico_ili9225_write_reg r v s = emit (pico_reg_out r v) s"
  by (simp add: pico_ili9225_write_reg_def pico_reg_out_def hw_ops Let_def)

lemma esp32_reg_eq: "esp32_ili9225_write_reg p r v s = Some (emit (esp32_reg_out p r v) s)"
  by (simp add: esp32_ili9225_write_reg_def esp32_reg_out_def esp32_spi_write16_def hw_ops Let_def)

lemma pico_ili9225_fill_eq:
  assumes "unat w * unat h \<le> 2147483647"
  shows "pico_ili9225_fill_rect x y w h c s = Some (emit (pico_ili9225_fill_out x y w h c) s)"
  unfolding pico_ili9225_fill_rect_def rect_px_eq[OF assms] pico_ili9225_set_window_def
  by (simp add: pico_reg_eq hw_ops Let_def pico_ili9225_fill_out_def window_regs_def
      pico_ili9225_write_data16_def pico_data_out_def
      for_each_repeat[where g = "[Gpio 20 True, Gpio 17 False, Spi (be16 c), Gpio 17 True]"]
      del: of_nat_mult)

lemma esp32_ili9225_fill_eq:
  assumes "unat w * unat h \<le> 2147483647"
  shows "esp32_ili9225_fill_rect p x y w h c s = Some (emit (esp32_ili9225_fill_out p x y w h c) s)"
  unfolding esp32_ili9225_fill_rect_def rect_px_eq[OF assms] esp32_ili9225_set_window_def
  by (simp add: esp32_reg_eq hw_ops Let_def esp32_ili9225_fill_out_def window_regs_def
      esp32_ili9225_write_data16_def esp32_spi_write16_def
      for_each_repeat[where g = "[Gpio (SPI_DC_PIN p) True, Gpio (SPI_CS_PIN p) False,
        SpiTx (be16 c), Gpio (SPI_CS_PIN p) True]"] del: of_nat_mult)

lemmas banner_defs = st7735_banner_def st7789_banner_def ili9225_banner_def

interpretation pico_st7735: tft_bus pico_st7735_fill_rect pico_st7735_fill_out st7735_banner sleep_ms
    "\<lambda>s. Some (pico_tft_cmd 0x28 s)" "\<lambda>text s. Some (pico_tft_cmd 0x29 s)"
    "pico_cmd_out 0x28" "\<lambda>text. pico_cmd_out 0x29"
  by unfold_locales (simp_all add: pico_st7735_fill_eq st77xx_defs banner_defs)

interpretation esp32_st7735_rects: tft_rects "esp32_st7735_fill_rect p" "esp32_st7735_fill_out p"
    st7735_banner for p
  by unfold_locales (simp_all add: esp32_st7735_fill_eq banner_defs)

text \<open>The two halves of the blink of the ESP32's ST7735 driver.\<close>

definition esp32_st7735_off_out :: "pins \<Rightarrow> hw list" where
  "esp32_st7735_off_out p = esp32_st7735_fill_out p 0 0 (of_nat (width st7735_banner))
     (of_nat (height st7735_banner)) 0"

definition esp32_st7735_on_out :: "pins \<Rightarrow> string \<Rightarrow> hw list" where
  "esp32_st7735_on_out p text =
     tft_trace (esp32_st7735_fill_out p) [] [] (render_script st7735_banner text 0 0xFFFF)"

interpretation esp32_st7735: tft_bus "esp32_st7735_fill_rect p" "esp32_st7735_fill_out p"
    st7735_banner vTaskDelay_ms
    "esp32_st7735_fill_rect p 0 0 (of_nat (width st7735_banner)) (of_nat (height st7735_banner)) 0x0000"
    "\<lambda>text. tft_render_text (esp32_st7735_fill_rect p) st7735_banner text 0 0xFFFF 0x0000"
    "esp32_st7735_off_out p" "esp32_st7735_on_out p" for p
proof unfold_locales
  show "esp32_st7735_fill_rect p 0 0 (of_nat (width st7735_banner)) (of_nat (height st7735_banner)) 0 s =
      Some (emit (esp32_st7735_off_out p) s)" for s
    using esp32_st7735_rects.banner_fits by (simp add: esp32_st7735_fill_eq esp32_st7735_off_out_def)
  show "tft_render_text (esp32_st7735_fill_rect p) st7735_banner text 0 0xFFFF 0 s =
      Some (emit (esp32_st7735_on_out p text) s)" for "text" s
    unfolding esp32_st7735_on_out_def by (rule esp32_st7735_rects.render_eq)
qed (simp add: hw_ops)

interpretation pico_st7789: tft_bus pico_st7789_fill_rect pico_st7789_fill_out st7789_banner sleep_ms
    "\<lambda>s. Some (pico_tft_cmd 0x28 s)" "\<lambda>text s. Some (pico_tft_cmd 0x29 s)"
    "pico_cmd_out 0x28" "\<lambda>text. pico_cmd_out 0x29"
  by unfold_locales (simp_all add: pico_st7789_fill_eq st77xx_defs banner_defs)

interpretation esp32_st7789: tft_bus "esp32_st7789_fill_rect p" "esp32_st7789_fill_out p"
    st7789_banner vTaskDelay_ms "esp32_tft_cmd p 0x28" "\<lambda>text. esp32_tft_cmd p 0x29"
    "esp32_cmd_out p 0x28" "\<lambda>text. esp32_cmd_out p 0x29" for p
  by unfold_locales (simp_all add: esp32_st7789_fill_eq st77xx_defs banner_defs)

interpretation pico_ili9225: tft_bus pico_ili9225_fill_rect pico_ili9225_fill_out ili9225_banner
    sleep_ms "\<lambda>s. Some (pico_ili9225_write_reg 0x07 0x1013 s)"
    "\<lambda>text s. Some (pico_ili9225_write_reg 0x07 0x1017 s)"
    "pico_reg_out 0x07 0x1013" "\<lambda>text. pico_reg_out 0x07 0x1017"
  by unfold_locales (simp_all add: pico_ili9225_fill_eq pico_reg_eq hw_ops banner_defs)

interpretation esp32_ili9225: tft_bus "esp32_ili9225_fill_rect p" "esp32_ili9225_fill_out p"
    ili9225_banner vTaskDelay_ms "esp32_ili9225_write_reg p 0x07 0x1013"
    "\<lambda>text. esp32_ili9225_write_reg p 0x07 0x1017"
    "esp32_reg_out p 0x07 0x1013" "\<lambda>text. esp32_reg_out p 0x07 0x1017" for p
  by unfold_locales (simp_all add: esp32_ili9225_fill_eq esp32_reg_eq hw_ops banner_defs)

end
