(* ===== verification/Tft_Panels.thy ===== *)
theory Tft_Panels
  imports Tft_Drivers
begin

text \<open>
  The controllers of the colour panels as their data sheets give them, and what they show when
  the drivers of Tft_Drivers draw: the bytes of a filled rectangle fill it in the display RAM,
  and a rendered text is the window of the text's columns.
\<close>

section \<open>Display RAM with an address window\<close>

text \<open>
  The RAM, the address window, the address counter, the command or register index and the data
  bytes received for it. A pixel goes to the counter, which walks the window row by row.
\<close>

record gram =
  gmem :: canvas
  wx0 :: nat
  wx1 :: nat
  wy0 :: nat
  wy1 :: nat
  cx :: nat
  cy :: nat
  reg :: nat
  args :: "u8 list"

definition put_pixel :: "u16 \<Rightarrow> gram \<Rightarrow> gram" where
  "put_pixel c g = g\<lparr>gmem := (gmem g)(cx g := (gmem g (cx g))(cy g := c)),
     cx := (if cx g = wx1 g then wx0 g else cx g + 1),
     cy := (if cx g = wx1 g then (if cy g = wy1 g then wy0 g else cy g + 1) else cy g)\<rparr>"

definition val16 :: "u8 \<Rightarrow> u8 \<Rightarrow> nat" where
  "val16 a b = unat a * 256 + unat b"

text \<open>ST7735 and ST7789: commands with the line low, parameters and pixels with it high.\<close>

definition dcs_byte :: "bool \<times> u8 \<Rightarrow> gram \<Rightarrow> gram" where
  "dcs_byte x g =
    (if fst x then
       (let a = args g @ [snd x] in
        if reg g = 0x2A \<and> length a = 4
          then g\<lparr>wx0 := val16 (a ! 0) (a ! 1), wx1 := val16 (a ! 2) (a ! 3), args := []\<rparr>
        else if reg g = 0x2B \<and> length a = 4
          then g\<lparr>wy0 := val16 (a ! 0) (a ! 1), wy1 := val16 (a ! 2) (a ! 3), args := []\<rparr>
        else if reg g = 0x2C \<and> length a = 2
          then put_pixel (of_nat (val16 (a ! 0) (a ! 1))) (g\<lparr>args := []\<rparr>)
        else g\<lparr>args := a\<rparr>)
     else let g = g\<lparr>reg := unat (snd x), args := []\<rparr>
          in if snd x = 0x2C then g\<lparr>cx := wx0 g, cy := wy0 g\<rparr> else g)"

text \<open>ILI9225: 16-bit register indices with the line low, 16-bit values with it high.\<close>

definition ili_write :: "nat \<Rightarrow> gram \<Rightarrow> gram" where
  "ili_write v g =
    (if reg g = 0x36 then g\<lparr>wx1 := v\<rparr>
     else if reg g = 0x37 then g\<lparr>wx0 := v\<rparr>
     else if reg g = 0x38 then g\<lparr>wy1 := v\<rparr>
     else if reg g = 0x39 then g\<lparr>wy0 := v\<rparr>
     else if reg g = 0x20 then g\<lparr>cx := v\<rparr>
     else if reg g = 0x21 then g\<lparr>cy := v\<rparr>
     else if reg g = 0x22 then put_pixel (of_nat v) g
     else g)"

definition ili_byte :: "bool \<times> u8 \<Rightarrow> gram \<Rightarrow> gram" where
  "ili_byte x g =
    (case args g of
       [a] \<Rightarrow> (let v = val16 a (snd x); g = g\<lparr>args := []\<rparr> in if fst x then ili_write v g else g\<lparr>reg := v\<rparr>)
     | _ \<Rightarrow> g\<lparr>args := [snd x]\<rparr>)"

lemma val16_be16: "val16 (ucast (drop_bit 8 v)) (ucast (v AND 0xFF)) = unat (v :: u16)"
proof -
  have "unat (ucast (drop_bit 8 v) :: u8) = unat v div 256"
  proof -
    have "unat v div 256 < 256" using unsigned_less[of v, where 'a = nat] by simp
    then show ?thesis
      by (simp add: unsigned_ucast_eq drop_bit_eq_div take_bit_eq_mod unat_div)
  qed
  moreover have "unat (ucast (v AND 0xFF) :: u8) = unat v mod 256"
  proof -
    have "v AND 0xFF = take_bit 8 v" by (simp add: take_bit_eq_mask mask_eq_exp_minus_1)
    then show ?thesis by (simp add: unsigned_ucast_eq take_bit_eq_mod unat_mod)
  qed
  ultimately show ?thesis by (simp add: val16_def)
qed

section \<open>Filling the window\<close>

lemma put_pixels:
  assumes "wx0 g \<le> wx1 g" and "wy0 g \<le> wy1 g" and "cx g = wx0 g" and "cy g = wy0 g"
    and "W = wx1 g - wx0 g + 1" and "H = wy1 g - wy0 g + 1" and "i \<le> W * H"
  shows "(put_pixel c ^^ i) g = g\<lparr>gmem := (\<lambda>x y. if wx0 g \<le> x \<and> x \<le> wx1 g \<and> wy0 g \<le> y \<and> y \<le> wy1 g \<and>
      (y - wy0 g) * W + (x - wx0 g) < i then c else gmem g x y),
    cx := wx0 g + i mod W, cy := wy0 g + i div W mod H\<rparr>"
  using assms(7)
proof (induction i)
  case 0
  then show ?case using assms(3,4) by (cases g) simp
next
  case (Suc i)
  have W: "0 < W" and H: "0 < H" using assms(5,6) by simp_all
  have i: "i < W * H" using Suc.prems by simp
  then have row: "i div W < H" by (simp add: less_mult_imp_div_less mult.commute)
  have pos: "(y - wy0 g) * W + (x - wx0 g) = i \<longleftrightarrow> x = wx0 g + i mod W \<and> y = wy0 g + i div W"
    if "wx0 g \<le> x" "x \<le> wx1 g" "wy0 g \<le> y" for x y
  proof
    have lt: "x - wx0 g < W" using that assms(5) by simp
    assume "(y - wy0 g) * W + (x - wx0 g) = i"
    with lt have "i mod W = x - wx0 g" "i div W = y - wy0 g"
      by (metis mod_mult_self3 mod_less, metis W add.commute div_mult_self3 div_less add_0 less_not_refl2)
    with that show "x = wx0 g + i mod W \<and> y = wy0 g + i div W" by simp
  next
    assume "x = wx0 g + i mod W \<and> y = wy0 g + i div W"
    then show "(y - wy0 g) * W + (x - wx0 g) = i" by simp
  qed
  have inx: "wx0 g + i mod W \<le> wx1 g" "wy0 g + i div W \<le> wy1 g"
    using mod_less_divisor[OF W, of i] row assms(1,2,5,6) by linarith+
  define lin where "lin x y = (y - wy0 g) * W + (x - wx0 g)" for x y
  define inside where "inside x y \<longleftrightarrow> wx0 g \<le> x \<and> x \<le> wx1 g \<and> wy0 g \<le> y \<and> y \<le> wy1 g" for x y
  define m where "m i = (\<lambda>x y. if inside x y \<and> lin x y < i then c else gmem g x y)" for i
  have mem: "(m i)(wx0 g + i mod W := (m i (wx0 g + i mod W))(wy0 g + i div W := c)) = m (Suc i)"
  proof (intro ext)
    fix x y
    show "((m i)(wx0 g + i mod W := (m i (wx0 g + i mod W))(wy0 g + i div W := c))) x y = m (Suc i) x y"
    proof (cases "inside x y")
      case True
      then have "lin x y < Suc i \<longleftrightarrow> lin x y < i \<or> x = wx0 g + i mod W \<and> y = wy0 g + i div W"
        using pos[of x y] by (auto simp: less_Suc_eq lin_def inside_def)
      with True show ?thesis by (auto simp: m_def)
    next
      case False
      with inx show ?thesis by (auto simp: m_def inside_def)
    qed
  qed
  have m: "(\<lambda>x y. if wx0 g \<le> x \<and> x \<le> wx1 g \<and> wy0 g \<le> y \<and> y \<le> wy1 g \<and>
      (y - wy0 g) * W + (x - wx0 g) < k then c else gmem g x y) = m k" for k
    by (simp add: m_def lin_def inside_def conj_assoc)
  have x: "(wx0 g + i mod W = wx1 g) = (Suc i mod W = 0)"
    using assms(1,5) W by (auto simp: mod_Suc)
  have y: "(wy0 g + i div W = wy1 g) = (Suc (i div W) = H)"
    using assms(2,6) by auto
  have IH: "(put_pixel c ^^ i) g = g\<lparr>gmem := m i, cx := wx0 g + i mod W, cy := wy0 g + i div W\<rparr>"
    using Suc.IH i row by (simp add: m)
  have "put_pixel c (g\<lparr>gmem := m i, cx := wx0 g + i mod W, cy := wy0 g + i div W\<rparr>) =
      g\<lparr>gmem := m (Suc i), cx := wx0 g + Suc i mod W, cy := wy0 g + Suc i div W mod H\<rparr>"
    using row by (simp add: put_pixel_def mem x y mod_Suc div_Suc)
  then show ?case unfolding m using IH by simp
qed

section \<open>A rectangle's bytes fill it\<close>

text \<open>The stream of a rectangle on the ST77xx: column range, row range, pixels.\<close>

definition dcs_rect :: "u8 list \<Rightarrow> u8 list \<Rightarrow> u16 \<Rightarrow> nat \<Rightarrow> (bool \<times> u8) list" where
  "dcs_rect xs ys c n = (False, 0x2A) # map (Pair True) xs @ (False, 0x2B) # map (Pair True) ys @
     (False, 0x2C) # concat (replicate n (map (Pair True) (be16 c)))"

lemma dcs_pixels:
  assumes "reg g = 0x2C" and "args g = []"
  shows "fold dcs_byte (concat (replicate n (map (Pair True) (be16 c)))) g = (put_pixel c ^^ n) g"
  using assms
proof (induction n arbitrary: g)
  case (Suc n)
  have ok: "reg (put_pixel c g) = 0x2C" "args (put_pixel c g) = []"
    using Suc.prems by (simp_all add: put_pixel_def)
  have g: "g\<lparr>args := []\<rparr> = g" using Suc.prems(2) by (cases g) simp
  have "fold dcs_byte (map (Pair True) (be16 c)) g = put_pixel c (g\<lparr>args := []\<rparr>)"
    using Suc.prems by (simp add: dcs_byte_def be16_def val16_be16 Let_def)
  then have "fold dcs_byte (map (Pair True) (be16 c)) g = put_pixel c g" unfolding g .
  with Suc.IH[OF ok] show ?case by (simp add: funpow_swap1)
qed simp

lemma dcs_rect_run:
  assumes "xs = [a0, a1, a2, a3]" and "ys = [b0, b1, b2, b3]"
    and "val16 a0 a1 \<le> val16 a2 a3" and "val16 b0 b1 \<le> val16 b2 b3"
    and "n = (val16 a2 a3 - val16 a0 a1 + 1) * (val16 b2 b3 - val16 b0 b1 + 1)"
  shows "gmem (fold dcs_byte (dcs_rect xs ys c n) g) =
      (\<lambda>x y. if val16 a0 a1 \<le> x \<and> x \<le> val16 a2 a3 \<and> val16 b0 b1 \<le> y \<and> y \<le> val16 b2 b3
        then c else gmem g x y)"
    and "args (fold dcs_byte (dcs_rect xs ys c n) g) = []"
proof -
  define h where "h = g\<lparr>wx0 := val16 a0 a1, wx1 := val16 a2 a3, wy0 := val16 b0 b1, wy1 := val16 b2 b3,
    reg := 0x2C, args := [], cx := val16 a0 a1, cy := val16 b0 b1\<rparr>"
  have "fold dcs_byte (dcs_rect xs ys c n) g =
      fold dcs_byte (concat (replicate n (map (Pair True) (be16 c)))) h"
    by (simp add: dcs_rect_def assms(1,2) dcs_byte_def h_def Let_def)
  also have "\<dots> = (put_pixel c ^^ n) h"
    by (rule dcs_pixels) (simp_all add: h_def)
  finally have run: "fold dcs_byte (dcs_rect xs ys c n) g = (put_pixel c ^^ n) h" .
  let ?W = "val16 a2 a3 - val16 a0 a1 + 1" and ?H = "val16 b2 b3 - val16 b0 b1 + 1"
  have pix: "(put_pixel c ^^ n) h = h\<lparr>gmem := (\<lambda>x y. if wx0 h \<le> x \<and> x \<le> wx1 h \<and> wy0 h \<le> y \<and> y \<le> wy1 h \<and>
      (y - wy0 h) * ?W + (x - wx0 h) < n then c else gmem h x y),
    cx := wx0 h + n mod ?W, cy := wy0 h + n div ?W mod ?H\<rparr>"
    by (rule put_pixels) (use assms(3-5) in \<open>simp_all add: h_def\<close>)
  show "args (fold dcs_byte (dcs_rect xs ys c n) g) = []"
    unfolding run pix by (simp add: h_def)
  have all: "(y - val16 b0 b1) * ?W + (x - val16 a0 a1) < n"
    if "val16 a0 a1 \<le> x" "x \<le> val16 a2 a3" "val16 b0 b1 \<le> y" "y \<le> val16 b2 b3" for x y
  proof -
    have "x - val16 a0 a1 < ?W" "y - val16 b0 b1 \<le> val16 b2 b3 - val16 b0 b1" using that by auto
    then have "(y - val16 b0 b1) * ?W + (x - val16 a0 a1) < (val16 b2 b3 - val16 b0 b1) * ?W + ?W"
      by (meson add_le_less_mono mult_le_mono1)
    also have "\<dots> = n" using assms(5) by (simp add: algebra_simps)
    finally show ?thesis .
  qed
  show "gmem (fold dcs_byte (dcs_rect xs ys c n) g) =
      (\<lambda>x y. if val16 a0 a1 \<le> x \<and> x \<le> val16 a2 a3 \<and> val16 b0 b1 \<le> y \<and> y \<le> val16 b2 b3
        then c else gmem g x y)"
    unfolding run pix using all by (auto simp: h_def fun_eq_iff)
qed

text \<open>The stream of a rectangle on the ILI9225: six registers, the RAM index, pixels.\<close>

definition ili_rect :: "u16 \<Rightarrow> u16 \<Rightarrow> u16 \<Rightarrow> u16 \<Rightarrow> u16 \<Rightarrow> nat \<Rightarrow> (bool \<times> u8) list" where
  "ili_rect x0 y0 x1 y1 c n =
     concat (map (\<lambda>(r, v). [(False, 0), (False, r)] @ map (Pair True) (be16 v)) (window_regs x0 y0 x1 y1)) @
     [(False, 0), (False, 0x22)] @ concat (replicate n (map (Pair True) (be16 c)))"

lemma ili_pair:
  assumes "args g = []"
  shows "fold ili_byte (map (Pair True) (be16 v)) g = ili_write (unat v) g"
    "fold ili_byte [(False, 0), (False, r)] g = g\<lparr>reg := unat r\<rparr>"
  using assms by (cases g, simp add: ili_byte_def be16_def val16_be16 Let_def,
      cases g, simp add: ili_byte_def val16_def Let_def)

lemma ili_pixels:
  assumes "reg g = 0x22" and "args g = []"
  shows "fold ili_byte (concat (replicate n (map (Pair True) (be16 c)))) g = (put_pixel c ^^ n) g"
  using assms
proof (induction n arbitrary: g)
  case (Suc n)
  have ok: "reg (put_pixel c g) = 0x22" "args (put_pixel c g) = []"
    using Suc.prems by (simp_all add: put_pixel_def)
  have "fold ili_byte (map (Pair True) (be16 c)) g = put_pixel c g"
    using Suc.prems by (simp only: ili_pair) (simp add: ili_write_def)
  with Suc.IH[OF ok] show ?case by (simp add: funpow_swap1)
qed simp

lemma ili_write_args [simp]: "args (ili_write v g) = args g"
  by (simp add: ili_write_def put_pixel_def)

lemma ili_regs:
  assumes "args g = []"
  shows "fold ili_byte (concat (map (\<lambda>(r, v). [(False, 0), (False, r)] @ map (Pair True) (be16 v)) rvs)) g =
    fold (\<lambda>(r, v) k. ili_write (unat v) (k\<lparr>reg := unat r\<rparr>)) rvs g"
  using assms
proof (induction rvs arbitrary: g)
  case (Cons x rvs)
  obtain r v where x: "x = (r, v)" by force
  have "fold ili_byte ([(False, 0), (False, r)] @ map (Pair True) (be16 v)) g =
      ili_write (unat v) (g\<lparr>reg := unat r\<rparr>)"
    unfolding fold_append comp_apply ili_pair(2)[OF Cons.prems]
    by (rule ili_pair(1)) (simp add: Cons.prems)
  with Cons x show ?case by (simp del: fold_simps(2) append_Cons add: fold_simps)
qed simp

lemma ili_rect_run:
  assumes "x0 \<le> x1" and "y0 \<le> y1" and "args g = []"
    and "n = (unat x1 - unat x0 + 1) * (unat y1 - unat y0 + 1)"
  shows "gmem (fold ili_byte (ili_rect x0 y0 x1 y1 c n) g) =
      (\<lambda>x y. if unat x0 \<le> x \<and> x \<le> unat x1 \<and> unat y0 \<le> y \<and> y \<le> unat y1 then c else gmem g x y)"
    and "args (fold ili_byte (ili_rect x0 y0 x1 y1 c n) g) = []"
proof -
  define h where "h = g\<lparr>wx0 := unat x0, wx1 := unat x1, wy0 := unat y0, wy1 := unat y1,
    cx := unat x0, cy := unat y0, reg := 0x22, args := []\<rparr>"
  have "fold ili_byte (ili_rect x0 y0 x1 y1 c n) g =
      fold ili_byte (concat (replicate n (map (Pair True) (be16 c))))
        (fold ili_byte [(False, 0), (False, 0x22)] (fold (\<lambda>(r, v) k. ili_write (unat v) (k\<lparr>reg := unat r\<rparr>))
          (window_regs x0 y0 x1 y1) g))"
    unfolding ili_rect_def fold_append comp_apply ili_regs[OF assms(3)] ..
  also have "\<dots> = fold ili_byte (concat (replicate n (map (Pair True) (be16 c)))) h"
    using assms(3) by (subst ili_pair(2), simp_all add: window_regs_def ili_write_def h_def) (cases g, simp)
  also have "\<dots> = (put_pixel c ^^ n) h"
    by (rule ili_pixels) (simp_all add: h_def)
  finally have run: "fold ili_byte (ili_rect x0 y0 x1 y1 c n) g = (put_pixel c ^^ n) h" .
  let ?W = "unat x1 - unat x0 + 1" and ?H = "unat y1 - unat y0 + 1"
  have le: "unat x0 \<le> unat x1" "unat y0 \<le> unat y1"
    using assms(1,2) by (simp_all add: word_le_nat_alt)
  have pix: "(put_pixel c ^^ n) h = h\<lparr>gmem := (\<lambda>x y. if wx0 h \<le> x \<and> x \<le> wx1 h \<and> wy0 h \<le> y \<and> y \<le> wy1 h \<and>
      (y - wy0 h) * ?W + (x - wx0 h) < n then c else gmem h x y),
    cx := wx0 h + n mod ?W, cy := wy0 h + n div ?W mod ?H\<rparr>"
    by (rule put_pixels) (use assms le in \<open>simp_all add: h_def\<close>)
  show "args (fold ili_byte (ili_rect x0 y0 x1 y1 c n) g) = []"
    unfolding run pix by (simp add: h_def)
  have all: "(y - unat y0) * ?W + (x - unat x0) < n"
    if "unat x0 \<le> x" "x \<le> unat x1" "unat y0 \<le> y" "y \<le> unat y1" for x y
  proof -
    have "x - unat x0 < ?W" "y - unat y0 \<le> unat y1 - unat y0" using that by auto
    then have "(y - unat y0) * ?W + (x - unat x0) < (unat y1 - unat y0) * ?W + ?W"
      by (meson add_le_less_mono mult_le_mono1)
    also have "\<dots> = n" using assms(4) by (simp add: algebra_simps)
    finally show ?thesis .
  qed
  show "gmem (fold ili_byte (ili_rect x0 y0 x1 y1 c n) g) =
      (\<lambda>x y. if unat x0 \<le> x \<and> x \<le> unat x1 \<and> unat y0 \<le> y \<and> y \<le> unat y1 then c else gmem g x y)"
    unfolding run pix using all by (auto simp: h_def fun_eq_iff)
qed

section \<open>The panel interface\<close>

text \<open>
  A driver's rectangles and the controller they go to: the bytes of a rectangle inside the
  coordinate range paint it, and leave the controller between two values.
\<close>

locale tft_panel = tft_rects fill fill_out z
  for fill :: "('c :: len) tft_fill" and fill_out and z +
  fixes dc :: nat
    and byte :: "bool \<times> u8 \<Rightarrow> gram \<Rightarrow> gram"
  assumes rect_paints: "0 < w \<Longrightarrow> 0 < h \<Longrightarrow> x + w \<le> 2 ^ LENGTH('c) \<Longrightarrow> y + h \<le> 2 ^ LENGTH('c) \<Longrightarrow>
      w < 2 ^ LENGTH('c) \<Longrightarrow> h < 2 ^ LENGTH('c) \<Longrightarrow> args g = [] \<Longrightarrow>
      gmem (fold byte (spi_stream dc l (fill_out (of_nat x) (of_nat y) (of_nat w) (of_nat h) c)) g) =
        paint (Rect x y w h c) (gmem g) \<and>
      args (fold byte (spi_stream dc l (fill_out (of_nat x) (of_nat y) (of_nat w) (of_nat h) c)) g) = []"
    and banner_room: "0 < width z" "0 < height z" "width z + 4 < 2 ^ LENGTH('c)"
      "height z < 2 ^ LENGTH('c)" "base z + 8 \<le> height z" "(2 :: nat) \<le> 2 ^ LENGTH('c)"
begin

definition in_range :: "tft_step \<Rightarrow> bool" where
  "in_range st \<longleftrightarrow> (\<exists>x y w h c. st = Rect x y w h c \<and> 0 < w \<and> 0 < h \<and> x + w \<le> 2 ^ LENGTH('c) \<and>
     y + h \<le> 2 ^ LENGTH('c) \<and> w < 2 ^ LENGTH('c) \<and> h < 2 ^ LENGTH('c))"

lemma rects_paint:
  assumes "\<forall>st \<in> set sts. in_range st" and "args g = []"
  shows "gmem (fold byte (spi_stream dc l (tft_trace fill_out off on sts)) g) = fold paint sts (gmem g)"
  using assms
proof (induction sts arbitrary: g l)
  case (Cons st sts)
  from Cons.prems(1) obtain x y w h c where st: "st = Rect x y w h c" and r: "0 < w" "0 < h"
      "x + w \<le> 2 ^ LENGTH('c)" "y + h \<le> 2 ^ LENGTH('c)" "w < 2 ^ LENGTH('c)" "h < 2 ^ LENGTH('c)"
    by (auto simp: in_range_def)
  let ?g = "fold byte (spi_stream dc l (tft_events fill_out off on st)) g"
  have g: "gmem ?g = paint st (gmem g)" "args ?g = []"
    using rect_paints[OF r Cons.prems(2), of l c] by (simp_all add: st)
  from Cons.IH[OF _ g(2)] Cons.prems(1) g(1) show ?case by simp
qed simp

lemma glyph_range:
  assumes "x < width z" and "st \<in> set (glyph_rects x (base z) c fg bg)"
  shows "in_range st"
proof -
  from assms(2) obtain col row where "col < 5" "row < 8" and st: "\<exists>k. st = Rect (x + col) (base z + row) 1 1 k"
    unfolding glyph_rects_def by auto
  moreover have "x + col + 1 \<le> 2 ^ LENGTH('c)" "base z + row + 1 \<le> 2 ^ LENGTH('c)" "1 < (2 :: nat) ^ LENGTH('c)"
    using \<open>col < 5\<close> \<open>row < 8\<close> assms(1) banner_room by linarith+
  ultimately show ?thesis unfolding in_range_def by fastforce
qed

lemma chars_range:
  "st \<in> set (char_rects (width z) (base z) fg 0 cs x) \<Longrightarrow> in_range st"
proof (induction cs arbitrary: x)
  case (Cons c cs)
  have "in_range st" if "\<not> int (width z) \<le> x" "st \<in> set (glyph_rects (nat x) (base z) c fg 0)"
    using that glyph_range[of "nat x"] banner_room(1) by (simp add: nat_less_iff zless_nat_conj)
  with Cons show ?case by (auto split: if_splits)
qed simp

lemma render_paints:
  assumes "args g = []"
  shows "\<exists>t. tft_render_text fill z text offset fg 0 s = Some t \<and>
    gmem (fold byte (spi_stream dc l (drop (length (out s)) (out t))) g) =
      fold paint (render_script z text offset fg) (gmem g)"
proof -
  have "in_range st" if "st \<in> set (render_script z text offset fg)" for st
    using that chars_range banner_room by (auto simp: render_script_def in_range_def)
  then show ?thesis
    using rects_paint[OF _ assms] by (simp add: render_eq[where off = "[]" and on = "[]"])
qed

end

section \<open>The six drivers\<close>

lemma coords:
  assumes "0 < w" and "x + w \<le> 2 ^ LENGTH('c)" and "w < 2 ^ LENGTH('c)"
  shows "unat (of_nat x :: ('c :: len) word) = x" "unat (of_nat w :: 'c word) = w"
    "unat (of_nat x + of_nat w - 1 :: 'c word) = x + w - 1"
proof -
  show "unat (of_nat x :: 'c word) = x" "unat (of_nat w :: 'c word) = w"
    using assms by (simp_all add: unsigned_of_nat take_bit_nat_eq_self)
  have "(of_nat x + of_nat w - 1 :: 'c word) = of_nat (x + w - 1)"
    using assms(1) by (simp add: of_nat_diff)
  then show "unat (of_nat x + of_nat w - 1 :: 'c word) = x + w - 1"
    using assms by (simp add: unsigned_of_nat take_bit_nat_eq_self del: of_nat_diff)
qed

lemma spi_stream_spi_repeat:
  "spi_stream dc l (replicate n (Spi bs)) = concat (replicate n (map (Pair l) bs))"
  by (induction n) simp_all

lemma spi_stream_repeat:
  "(\<And>l. spi_stream dc l e = d) \<Longrightarrow> spi_stream dc l (concat (replicate n e)) = concat (replicate n d)"
  by (induction n arbitrary: l) simp_all

lemmas out_defs = pico_cmd_out_def pico_data_out_def esp32_cmd_out_def esp32_data_out_def
  pico_reg_out_def esp32_reg_out_def

lemma fill_streams:
  "spi_stream 20 l (pico_st7735_fill_out x y w h c) =
    dcs_rect [0, x, 0, x + w - 1] [0, y, 0, y + h - 1] c (unat w * unat h)"
  "spi_stream (SPI_DC_PIN p) l (esp32_st7735_fill_out p x y w h c) =
    dcs_rect [0, x, 0, x + w - 1] [0, y, 0, y + h - 1] c (unat w * unat h)"
  "spi_stream 20 l (pico_st7789_fill_out x' y' w' h' c) =
    dcs_rect (be16 x' @ be16 (x' + w' - 1)) (be16 y' @ be16 (y' + h' - 1)) c (unat w' * unat h')"
  "spi_stream (SPI_DC_PIN p) l (esp32_st7789_fill_out p x' y' w' h' c) =
    dcs_rect (be16 x' @ be16 (x' + w' - 1)) (be16 y' @ be16 (y' + h' - 1)) c (unat w' * unat h')"
  by (simp_all add: pico_st7735_fill_out_def esp32_st7735_fill_out_def pico_st7789_fill_out_def
      esp32_st7789_fill_out_def out_defs dcs_rect_def be16_def spi_stream_spi_repeat
      spi_stream_repeat[where d = "[(True, ucast (drop_bit 8 c)), (True, ucast (c AND 0xFF))]"])

lemma pico_ili_stream:
  "spi_stream 20 l (pico_ili9225_fill_out x y w h c) =
    ili_rect x y (x + w - 1) (y + h - 1) c (unat w * unat h)"
  by (simp add: pico_ili9225_fill_out_def out_defs ili_rect_def be16_def window_regs_def
      spi_stream_repeat[where d = "[(True, ucast (drop_bit 8 c)), (True, ucast (c AND 0xFF))]"])

text \<open>The chip-select line is toggled by hand here: it must not be the data/command line.\<close>

lemma esp32_ili_stream:
  assumes "SPI_CS_PIN p \<noteq> SPI_DC_PIN p"
  shows "spi_stream (SPI_DC_PIN p) l (esp32_ili9225_fill_out p x y w h c) =
    ili_rect x y (x + w - 1) (y + h - 1) c (unat w * unat h)"
  using assms
  by (simp add: esp32_ili9225_fill_out_def out_defs ili_rect_def be16_def window_regs_def
      spi_stream_repeat[where d = "[(True, ucast (drop_bit 8 c)), (True, ucast (c AND 0xFF))]"])

lemma chip_cs_dc: "SPI_CS_PIN (chip_pins m) \<noteq> SPI_DC_PIN (chip_pins m)"
  by (cases m) simp_all

lemma dcs_paints:
  assumes r: "0 < w" "0 < h" "x + w \<le> 2 ^ LENGTH('c)" "y + h \<le> 2 ^ LENGTH('c)"
      "w < 2 ^ LENGTH('c :: len)" "h < 2 ^ LENGTH('c)"
    and xs: "xs = [a0, a1, a2, a3]" "val16 a0 a1 = unat (of_nat x :: 'c word)"
      "val16 a2 a3 = unat (of_nat x + of_nat w - 1 :: 'c word)"
    and ys: "ys = [b0, b1, b2, b3]" "val16 b0 b1 = unat (of_nat y :: 'c word)"
      "val16 b2 b3 = unat (of_nat y + of_nat h - 1 :: 'c word)"
    and n: "n = unat (of_nat w :: 'c word) * unat (of_nat h :: 'c word)"
  shows "gmem (fold dcs_byte (dcs_rect xs ys c n) g) = paint (Rect x y w h c) (gmem g) \<and>
    args (fold dcs_byte (dcs_rect xs ys c n) g) = []"
proof -
  note X = coords[OF r(1,3,5)] and Y = coords[OF r(2,4,6)]
  have le: "val16 a0 a1 \<le> val16 a2 a3" "val16 b0 b1 \<le> val16 b2 b3"
    using xs ys X Y r(1,2) by simp_all
  have "n = (val16 a2 a3 - val16 a0 a1 + 1) * (val16 b2 b3 - val16 b0 b1 + 1)"
    using xs ys X Y r(1,2) n by simp
  note run = dcs_rect_run[OF xs(1) ys(1) le this, of c g]
  have "paint (Rect x y w h c) (gmem g) = (\<lambda>px py. if val16 a0 a1 \<le> px \<and> px \<le> val16 a2 a3 \<and>
      val16 b0 b1 \<le> py \<and> py \<le> val16 b2 b3 then c else gmem g px py)"
    using xs ys X Y r(1,2) by (auto simp: fun_eq_iff)
  with run show ?thesis by simp
qed

lemma ili_paints:
  assumes r: "0 < w" "0 < h" "x + w \<le> 2 ^ LENGTH(16)" "y + h \<le> 2 ^ LENGTH(16)"
      "w < 2 ^ LENGTH(16)" "h < 2 ^ LENGTH(16)" and g: "args g = []"
  shows "gmem (fold ili_byte (ili_rect (of_nat x) (of_nat y) (of_nat x + of_nat w - 1) (of_nat y + of_nat h - 1) c
      (unat (of_nat w :: u16) * unat (of_nat h :: u16))) g) = paint (Rect x y w h c) (gmem g) \<and>
    args (fold ili_byte (ili_rect (of_nat x) (of_nat y) (of_nat x + of_nat w - 1) (of_nat y + of_nat h - 1) c
      (unat (of_nat w :: u16) * unat (of_nat h :: u16))) g) = []"
proof -
  note X = coords[where 'c = 16, OF r(1,3,5)] and Y = coords[where 'c = 16, OF r(2,4,6)]
  have le: "(of_nat x :: u16) \<le> of_nat x + of_nat w - 1" "(of_nat y :: u16) \<le> of_nat y + of_nat h - 1"
    using X Y r(1,2) by (simp_all add: word_le_nat_alt)
  have "unat (of_nat w :: u16) * unat (of_nat h :: u16) =
      (unat (of_nat x + of_nat w - 1 :: u16) - unat (of_nat x :: u16) + 1) *
      (unat (of_nat y + of_nat h - 1 :: u16) - unat (of_nat y :: u16) + 1)"
    using X Y r(1,2) by simp
  note run = ili_rect_run[OF le g this, of c]
  have "paint (Rect x y w h c) (gmem g) = (\<lambda>px py. if unat (of_nat x :: u16) \<le> px \<and>
      px \<le> unat (of_nat x + of_nat w - 1 :: u16) \<and> unat (of_nat y :: u16) \<le> py \<and>
      py \<le> unat (of_nat y + of_nat h - 1 :: u16) then c else gmem g px py)"
    using X Y r(1,2) by (auto simp: fun_eq_iff)
  with run show ?thesis by simp
qed

lemma val16_byte: "val16 0 b = unat b"
  by (simp add: val16_def)

interpretation pico_st7735_panel: tft_panel pico_st7735_fill_rect pico_st7735_fill_out
    st7735_banner 20 dcs_byte
proof unfold_locales
  show "gmem (fold dcs_byte (spi_stream 20 l (pico_st7735_fill_out (of_nat x) (of_nat y) (of_nat w) (of_nat h) c)) g) =
        paint (Rect x y w h c) (gmem g) \<and>
      args (fold dcs_byte (spi_stream 20 l (pico_st7735_fill_out (of_nat x) (of_nat y) (of_nat w) (of_nat h) c)) g) = []"
    if "0 < w" "0 < h" "x + w \<le> 2 ^ LENGTH(8)" "y + h \<le> 2 ^ LENGTH(8)" "w < 2 ^ LENGTH(8)"
      "h < 2 ^ LENGTH(8)" for x y w h c l g
    unfolding fill_streams
    by (rule dcs_paints[where 'c = 8, OF that]) (rule refl val16_byte)+
qed (simp_all add: st7735_banner_def)

interpretation esp32_st7735_panel: tft_panel "esp32_st7735_fill_rect p" "esp32_st7735_fill_out p"
    st7735_banner "SPI_DC_PIN p" dcs_byte for p
proof unfold_locales
  show "gmem (fold dcs_byte (spi_stream (SPI_DC_PIN p) l
          (esp32_st7735_fill_out p (of_nat x) (of_nat y) (of_nat w) (of_nat h) c)) g) =
        paint (Rect x y w h c) (gmem g) \<and>
      args (fold dcs_byte (spi_stream (SPI_DC_PIN p) l
          (esp32_st7735_fill_out p (of_nat x) (of_nat y) (of_nat w) (of_nat h) c)) g) = []"
    if "0 < w" "0 < h" "x + w \<le> 2 ^ LENGTH(8)" "y + h \<le> 2 ^ LENGTH(8)" "w < 2 ^ LENGTH(8)"
      "h < 2 ^ LENGTH(8)" for x y w h c l g
    unfolding fill_streams
    by (rule dcs_paints[where 'c = 8, OF that]) (rule refl val16_byte)+
qed (simp_all add: st7735_banner_def)

lemma val16_words:
  "[ucast (drop_bit 8 v), ucast (v AND 0xFF)] @ [ucast (drop_bit 8 w), ucast (w AND 0xFF)] =
    [ucast (drop_bit 8 v), ucast (v AND 0xFF), ucast (drop_bit 8 w), ucast (w AND 0xFF)]"
  by simp

interpretation pico_st7789_panel: tft_panel pico_st7789_fill_rect pico_st7789_fill_out
    st7789_banner 20 dcs_byte
proof unfold_locales
  show "gmem (fold dcs_byte (spi_stream 20 l (pico_st7789_fill_out (of_nat x) (of_nat y) (of_nat w) (of_nat h) c)) g) =
        paint (Rect x y w h c) (gmem g) \<and>
      args (fold dcs_byte (spi_stream 20 l (pico_st7789_fill_out (of_nat x) (of_nat y) (of_nat w) (of_nat h) c)) g) = []"
    if "0 < w" "0 < h" "x + w \<le> 2 ^ LENGTH(16)" "y + h \<le> 2 ^ LENGTH(16)" "w < 2 ^ LENGTH(16)"
      "h < 2 ^ LENGTH(16)" for x y w h c l g
    unfolding fill_streams be16_def val16_words
    by (rule dcs_paints[where 'c = 16, OF that]) (rule refl val16_be16)+
qed (simp_all add: st7789_banner_def)

interpretation esp32_st7789_panel: tft_panel "esp32_st7789_fill_rect p" "esp32_st7789_fill_out p"
    st7789_banner "SPI_DC_PIN p" dcs_byte for p
proof unfold_locales
  show "gmem (fold dcs_byte (spi_stream (SPI_DC_PIN p) l
          (esp32_st7789_fill_out p (of_nat x) (of_nat y) (of_nat w) (of_nat h) c)) g) =
        paint (Rect x y w h c) (gmem g) \<and>
      args (fold dcs_byte (spi_stream (SPI_DC_PIN p) l
          (esp32_st7789_fill_out p (of_nat x) (of_nat y) (of_nat w) (of_nat h) c)) g) = []"
    if "0 < w" "0 < h" "x + w \<le> 2 ^ LENGTH(16)" "y + h \<le> 2 ^ LENGTH(16)" "w < 2 ^ LENGTH(16)"
      "h < 2 ^ LENGTH(16)" for x y w h c l g
    unfolding fill_streams be16_def val16_words
    by (rule dcs_paints[where 'c = 16, OF that]) (rule refl val16_be16)+
qed (simp_all add: st7789_banner_def)

interpretation pico_ili9225_panel: tft_panel pico_ili9225_fill_rect pico_ili9225_fill_out
    ili9225_banner 20 ili_byte
proof unfold_locales
  show "gmem (fold ili_byte (spi_stream 20 l (pico_ili9225_fill_out (of_nat x) (of_nat y) (of_nat w) (of_nat h) c)) g) =
        paint (Rect x y w h c) (gmem g) \<and>
      args (fold ili_byte (spi_stream 20 l (pico_ili9225_fill_out (of_nat x) (of_nat y) (of_nat w) (of_nat h) c)) g) = []"
    if "0 < w" "0 < h" "x + w \<le> 2 ^ LENGTH(16)" "y + h \<le> 2 ^ LENGTH(16)" "w < 2 ^ LENGTH(16)"
      "h < 2 ^ LENGTH(16)" "args g = []" for x y w h c l g
    unfolding pico_ili_stream by (rule ili_paints[OF that])
qed (simp_all add: ili9225_banner_def)

interpretation esp32_ili9225_panel: tft_panel "esp32_ili9225_fill_rect (chip_pins m)"
    "esp32_ili9225_fill_out (chip_pins m)" ili9225_banner "SPI_DC_PIN (chip_pins m)" ili_byte for m
proof unfold_locales
  show "gmem (fold ili_byte (spi_stream (SPI_DC_PIN (chip_pins m)) l
          (esp32_ili9225_fill_out (chip_pins m) (of_nat x) (of_nat y) (of_nat w) (of_nat h) c)) g) =
        paint (Rect x y w h c) (gmem g) \<and>
      args (fold ili_byte (spi_stream (SPI_DC_PIN (chip_pins m)) l
          (esp32_ili9225_fill_out (chip_pins m) (of_nat x) (of_nat y) (of_nat w) (of_nat h) c)) g) = []"
    if "0 < w" "0 < h" "x + w \<le> 2 ^ LENGTH(16)" "y + h \<le> 2 ^ LENGTH(16)" "w < 2 ^ LENGTH(16)"
      "h < 2 ^ LENGTH(16)" "args g = []" for x y w h c l g
    unfolding esp32_ili_stream[OF chip_cs_dc] by (rule ili_paints[OF that])
qed (simp_all add: ili9225_banner_def)

section \<open>Properties\<close>

text \<open>The six render_text functions with their banner, data/command line and controller.\<close>

definition tft_renders where
  "tft_renders m =
    [(st7735_banner, pico_st7735_render_text, 20, dcs_byte),
     (st7735_banner, esp32_st7735_render_text (chip_pins m), SPI_DC_PIN (chip_pins m), dcs_byte),
     (st7789_banner, pico_st7789_render_text, 20, dcs_byte),
     (st7789_banner, esp32_st7789_render_text (chip_pins m), SPI_DC_PIN (chip_pins m), dcs_byte),
     (ili9225_banner, pico_ili9225_render_text, 20, ili_byte),
     (ili9225_banner, esp32_ili9225_render_text (chip_pins m), SPI_DC_PIN (chip_pins m), ili_byte)]"

definition tft_picture :: "nat \<Rightarrow> (bool \<times> u8 \<Rightarrow> gram \<Rightarrow> gram) \<Rightarrow> dev \<Rightarrow> dev \<Rightarrow> gram \<Rightarrow> canvas" where
  "tft_picture dc byte s t g = gmem (fold byte (spi_stream dc False (drop (length (out s)) (out t))) g)"

lemmas tft_render_defs = pico_st7735_render_text_def esp32_st7735_render_text_def
  pico_st7789_render_text_def esp32_st7789_render_text_def pico_ili9225_render_text_def
  esp32_ili9225_render_text_def

lemma tft_renders_paint:
  assumes "args g = []"
  shows "list_all (\<lambda>(z, render, dc, byte). \<exists>t. render text offset fg 0 s = Some t \<and>
      tft_picture dc byte s t g = fold paint (render_script z text offset fg) (gmem g)) (tft_renders m)"
  unfolding tft_renders_def tft_picture_def tft_render_defs
  using pico_st7735_panel.render_paints[OF assms] esp32_st7735_panel.render_paints[OF assms]
    pico_st7789_panel.render_paints[OF assms] esp32_st7789_panel.render_paints[OF assms]
    pico_ili9225_panel.render_paints[OF assms] esp32_ili9225_panel.render_paints[OF assms]
  by simp

lemma tft_renders_banner:
  "(z, render, dc, byte) \<in> set (tft_renders m) \<Longrightarrow> base z + 8 \<le> height z \<and> 5 \<le> width z"
  by (auto simp: tft_renders_def banner_defs)

text \<open>
  C26: display_text of the six colour panel drivers returns and sends exactly the rectangles,
  blinks and pauses of its script, for every effect and every text whose width in pixels is an
  int (357913941 characters).
\<close>

theorem tft_display_text_correct:
  assumes "c_strlen text \<le> 357913941"
  shows "list_all (\<lambda>(r, es). r = Some (emit es s))
    [(pico_st7735_display_text text effect speed b fade s,
        tft_trace pico_st7735_fill_out (pico_cmd_out 0x28) (pico_cmd_out 0x29)
          (tft_script st7735_banner text effect speed)),
     (esp32_st7735_display_text p text effect speed b fade s,
        tft_trace (esp32_st7735_fill_out p) (esp32_st7735_off_out p) (esp32_st7735_on_out p text)
          (tft_script st7735_banner text effect speed)),
     (pico_st7789_display_text text effect speed b fade s,
        tft_trace pico_st7789_fill_out (pico_cmd_out 0x28) (pico_cmd_out 0x29)
          (tft_script st7789_banner text effect speed)),
     (esp32_st7789_display_text p text effect speed b fade s,
        tft_trace (esp32_st7789_fill_out p) (esp32_cmd_out p 0x28) (esp32_cmd_out p 0x29)
          (tft_script st7789_banner text effect speed)),
     (pico_ili9225_display_text text effect speed b fade s,
        tft_trace pico_ili9225_fill_out (pico_reg_out 0x07 0x1013) (pico_reg_out 0x07 0x1017)
          (tft_script ili9225_banner text effect speed)),
     (esp32_ili9225_display_text p text effect speed b fade s,
        tft_trace (esp32_ili9225_fill_out p) (esp32_reg_out p 0x07 0x1013) (esp32_reg_out p 0x07 0x1017)
          (tft_script ili9225_banner text effect speed))]"
  unfolding pico_st7735_display_text_def esp32_st7735_display_text_def pico_st7789_display_text_def
    esp32_st7789_display_text_def pico_ili9225_display_text_def esp32_ili9225_display_text_def
  by (simp only: list.pred_inject prod.case pico_st7735.display_text_steps[OF assms]
      esp32_st7735.display_text_steps[OF assms] pico_st7789.display_text_steps[OF assms]
      esp32_st7789.display_text_steps[OF assms] pico_ili9225.display_text_steps[OF assms]
      esp32_ili9225.display_text_steps[OF assms] simp_thms)

definition tft_dev0 :: dev where
  "tft_dev0 = \<lparr>fb = [], bmp = [], bmp_len = 0, busy_in = [], out = []\<rparr>"

theorem tft_display_text_correct_witness:
  "pico_st7735_display_text ''Hi'' ''SCROLL'' 50 0 0 tft_dev0 \<noteq> None"
proof -
  have "c_strlen ''Hi'' \<le> 357913941" by (simp add: c_strlen_def)
  from tft_display_text_correct[OF this, where s = tft_dev0 and effect = "''SCROLL''" and speed = 50 and b = 0
      and fade = 0] show ?thesis by simp
qed

text \<open>
  C29: at every offset that does not cut a character in its first four columns, the bytes sent
  by render_text of each driver leave in the panel's display RAM a black banner with the columns
  of the text, from the offset on, in the text rows. The rest of the panel's rows is unchanged.
\<close>

theorem tft_render_window:
  assumes "args g = []" and "k mod 6 = 0 \<or> k mod 6 = 5"
  shows "list_all (\<lambda>(z, render, dc, byte). \<exists>t. render text (int k) fg 0 s = Some t \<and>
      window_ok z text k fg (gmem g) (tft_picture dc byte s t g)) (tft_renders m)"
  using tft_renders_paint[OF assms(1), of "text" "int k" fg s m]
    paint_render_aligned[OF _ assms(2)] tft_renders_banner[where m = m]
  unfolding list_all_iff by fastforce

definition gram0 :: gram where
  "gram0 = \<lparr>gmem = (\<lambda>_ _. 0x1234), wx0 = 0, wx1 = 0, wy0 = 0, wy1 = 0, cx = 0, cy = 0, reg = 0, args = []\<rparr>"

theorem tft_render_window_witness:
  "\<exists>t. pico_st7735_render_text ''Hi'' 6 0xFFFF 0 tft_dev0 = Some t \<and>
    window_ok st7735_banner ''Hi'' 6 0xFFFF (\<lambda>_ _. 0x1234) (tft_picture 20 dcs_byte tft_dev0 t gram0)"
  using tft_render_window[of gram0 6 "''Hi''" "0xFFFF" tft_dev0 ESP32_CLASSIC]
  by (simp add: gram0_def tft_renders_def)

text \<open>
  A character cut by the left edge in its first four columns is drawn at the edge from its
  own first column, and not from the column the offset gives: the visible columns px < 6 - r
  show column px of the glyph where the text window has column px + r. The text then jumps
  instead of moving by one pixel.
\<close>

theorem tft_clipped_glyph:
  assumes "args g = []" and "1 \<le> r" and "r \<le> 4" and "j < length (c_str text)" and "px < 6 - r"
    and "row < 8"
  shows "list_all (\<lambda>(z, render, dc, byte). \<exists>t. render text (int (6 * j + r)) fg 0 s = Some t \<and>
      tft_picture dc byte s t g px (base z + row) =
        (if bit (glyph (c_str text ! j) ! px) row then fg else 0)) (tft_renders m)"
proof -
  have "fold paint (render_script z text (int (6 * j + r)) fg) (gmem g) px (base z + row) =
      (if bit (glyph (c_str text ! j) ! px) row then fg else 0)"
    if "base z + 8 \<le> height z" "5 \<le> width z" for z
    by (subst paint_render_clipped) (use that assms in auto)
  then show ?thesis
    using tft_renders_paint[OF assms(1), of "text" "int (6 * j + r)" fg s m] tft_renders_banner[where m = m]
    unfolding list_all_iff by fastforce
qed

theorem tft_clipped_glyph_witness:
  "\<exists>t. pico_st7789_render_text ''H'' 1 0xFFFF 0 tft_dev0 = Some t \<and>
    tft_picture 20 dcs_byte tft_dev0 t gram0 0 4 = 0xFFFF \<and>
    \<not> text_bit ''H'' 1 0"
proof -
  have "args gram0 = []" "0 < length (c_str ''H'')" by (simp_all add: gram0_def)
  from tft_clipped_glyph[OF this(1) _ _ this(2), of 1 0 0 "0xFFFF" tft_dev0 ESP32_CLASSIC]
  show ?thesis
    by (simp add: tft_renders_def banner_defs glyph_def font_idx_def FONT_TABLE_SIZE_def font5x8_def
        text_bit_def column_def)
qed

text \<open>
  The function display_text of the six drivers computes the width of the text in pixels before it looks
  at the effect, as an int: for a text of 357913942 characters or more (and less than 2 GiB)
  the product overflows, which is undefined, for every effect.
\<close>

theorem tft_text_px_overflow:
  assumes "357913941 < c_strlen text" and "c_strlen text < 2147483648"
  shows "list_all (\<lambda>f. f text effect speed b fade s = None)
    [pico_st7735_display_text, esp32_st7735_display_text p, pico_st7789_display_text,
     esp32_st7789_display_text p, pico_ili9225_display_text, esp32_ili9225_display_text p]"
  unfolding pico_st7735_display_text_def esp32_st7735_display_text_def pico_st7789_display_text_def
    esp32_st7789_display_text_def pico_ili9225_display_text_def esp32_ili9225_display_text_def
  by (simp add: pico_st7735.display_text_overflow[OF assms] esp32_st7735.display_text_overflow[OF assms]
      pico_st7789.display_text_overflow[OF assms] esp32_st7789.display_text_overflow[OF assms]
      pico_ili9225.display_text_overflow[OF assms] esp32_ili9225.display_text_overflow[OF assms])


end
