(* ===== verification/Ht16k33.thy ===== *)
theory Ht16k33
  imports Text_Bitmap Hardware
begin

text \<open>
  The driver of the HT16K33 LED matrix (8 by 8, I2C address 0x70) on the Pico and on the ESP32.
  The static array s_rows (fb here) holds one byte per row; the display shows one character at
  a time. The two files are the same code over the bus write and the delay.
\<close>

section \<open>The code\<close>

text \<open>The bus write: i2c_write_blocking of the Pico, ht16k33_write of the ESP32.\<close>

type_synonym ht_write = "u8 list \<Rightarrow> dev \<Rightarrow> dev"

definition pico_ht16k33_i2c :: ht_write where
  "pico_ht16k33_i2c bs = i2c_write_blocking 0x70 bs"

definition esp32_ht16k33_write :: ht_write where
  "esp32_ht16k33_write bs = i2c_master_write_to_device 0x70 bs"

definition ht16k33_write_cmd :: "ht_write \<Rightarrow> u8 \<Rightarrow> dev \<Rightarrow> dev" where
  "ht16k33_write_cmd wr cmd = wr [cmd]"

text \<open>The buffer of 17 bytes: the RAM address 0 and the rows, each with a blank byte.\<close>

definition ht16k33_flush :: "ht_write \<Rightarrow> dev \<Rightarrow> dev option" where
  "ht16k33_flush wr s = do {
     let buf = 0x00 # replicate 16 0;
     buf \<leftarrow> for_each [0..7] (\<lambda>i buf. do {
       v \<leftarrow> arr_get (fb s) i;
       buf \<leftarrow> arr_set buf (1 + i * 2) v;
       arr_set buf (1 + i * 2 + 1) 0x00
     }) buf;
     Some (wr buf s)
   }"

definition ht16k33_blank :: "dev \<Rightarrow> dev" where
  "ht16k33_blank s = s\<lparr>fb := replicate 8 0\<rparr>"

text \<open>if ((column_byte >> row) & 1) s_rows[row] |= (1 << col);\<close>

definition set_row_bit :: "u8 \<Rightarrow> int \<Rightarrow> int \<Rightarrow> dev \<Rightarrow> dev option" where
  "set_row_bit column_byte col row s =
     (if bit column_byte (nat row) then do {
        v \<leftarrow> arr_get (fb s) row;
        xs \<leftarrow> arr_set (fb s) row (v OR word_of_int (push_bit (nat col) 1));
        Some (s\<lparr>fb := xs\<rparr>)
      } else Some s)"

definition ht16k33_render_char :: "char \<Rightarrow> dev \<Rightarrow> dev option" where
  "ht16k33_render_char c s = (let fi = font_idx c in
     for_each [0..min FONT_CHAR_WIDTH 8 - 1] (\<lambda>col s. do {
       column_byte \<leftarrow> font_byte fi col;
       for_each [0..7] (set_row_bit column_byte col) s
     }) (ht16k33_blank s))"

definition pico_ht16k33_display_init :: "dev \<Rightarrow> dev" where
  "pico_ht16k33_display_init s =
     (let s = sleep_ms 10 (emit [I2cInit 400000, GpioFunc 4 GPIO_FUNC_I2C, GpioFunc 5 GPIO_FUNC_I2C,
            GpioPullUp 4, GpioPullUp 5] s);
          s = fold (ht16k33_write_cmd pico_ht16k33_i2c) [0x21, 0x81, 0xEF] s
      in ht16k33_blank s)"

definition esp32_ht16k33_display_init :: "pins \<Rightarrow> dev \<Rightarrow> dev" where
  "esp32_ht16k33_display_init p s =
     (let s = vTaskDelay_ms 10 (emit (esp32_i2c_bus p) s);
          s = fold (ht16k33_write_cmd esp32_ht16k33_write) [0x21, 0x81, 0xEF] s
      in ht16k33_blank s)"

definition ht16k33_display_clear :: "ht_write \<Rightarrow> dev \<Rightarrow> dev option" where
  "ht16k33_display_clear wr s = ht16k33_flush wr (ht16k33_blank s)"

definition ht16k33_show :: "ht_write \<Rightarrow> delay \<Rightarrow> int \<Rightarrow> char \<Rightarrow> dev \<Rightarrow> dev option" where
  "ht16k33_show wr delay sp c s = do {
     s \<leftarrow> ht16k33_render_char c s;
     s \<leftarrow> ht16k33_flush wr s;
     Some (delay (word_of_int sp) s)
   }"

text \<open>render_char(text[0]) and a flush; text[0] is the terminator when the text is empty.\<close>

definition ht16k33_first :: "ht_write \<Rightarrow> string \<Rightarrow> dev \<Rightarrow> dev option" where
  "ht16k33_first wr text s = do {
     s \<leftarrow> ht16k33_render_char (hd (c_str text @ [NUL])) s;
     ht16k33_flush wr s
   }"

definition ht16k33_dim :: "ht_write \<Rightarrow> delay \<Rightarrow> int \<Rightarrow> int \<Rightarrow> dev \<Rightarrow> dev" where
  "ht16k33_dim wr delay d v s =
     delay (word_of_int d) (ht16k33_write_cmd wr (word_of_int (0xE0 OR v)) s)"

definition hw_blink :: "int \<Rightarrow> int" where
  "hw_blink sp = (if sp \<ge> 1000 then 0x87 else if sp \<ge> 500 then 0x85 else if sp \<ge> 250 then 0x83 else 0x81)"

definition ht16k33_display_text ::
    "ht_write \<Rightarrow> delay \<Rightarrow> string \<Rightarrow> string \<Rightarrow> int \<Rightarrow> int \<Rightarrow> int \<Rightarrow> dev \<Rightarrow> dev option" where
  "ht16k33_display_text wr delay text effect speed_ms blink_period_ms fade_steps s =
    (let sp = clamp_speed speed_ms in
     if c_streq effect ''SCROLL'' then for_each (c_str text) (ht16k33_show wr delay sp) s
     else if c_streq effect ''BLINK'' then do {
       s \<leftarrow> ht16k33_first wr text s;
       let s = ht16k33_write_cmd wr (word_of_int (hw_blink sp)) s;
       let s = delay (word_of_int (sp * 6)) s;
       Some (ht16k33_write_cmd wr 0x81 s)
     }
     else if c_streq effect ''REVERSE'' then
       for_each (down_by (int_of_size (c_strlen text) - 1) 0 1)
         (\<lambda>i s. do { c \<leftarrow> arr_get (c_str text) i; ht16k33_show wr delay sp c s }) s
     else if c_streq effect ''FADE'' then do {
       s \<leftarrow> ht16k33_first wr text s;
       let step_delay = sp div 16 + 1;
       let s = fold (ht16k33_dim wr delay step_delay) [0..15] s;
       let s = fold (ht16k33_dim wr delay step_delay) (down_by 15 0 1) s;
       Some (ht16k33_write_cmd wr 0xEF s)
     }
     else Some s)"

definition pico_ht16k33_display_text where
  "pico_ht16k33_display_text = ht16k33_display_text pico_ht16k33_i2c sleep_ms"
definition esp32_ht16k33_display_text where
  "esp32_ht16k33_display_text = ht16k33_display_text esp32_ht16k33_write vTaskDelay_ms"
definition pico_ht16k33_display_clear where
  "pico_ht16k33_display_clear = ht16k33_display_clear pico_ht16k33_i2c"
definition esp32_ht16k33_display_clear where
  "esp32_ht16k33_display_clear = ht16k33_display_clear esp32_ht16k33_write"
definition esp32_ht16k33_flush where
  "esp32_ht16k33_flush = ht16k33_flush esp32_ht16k33_write"
definition esp32_ht16k33_render_char where
  "esp32_ht16k33_render_char = ht16k33_render_char"

section \<open>Specification\<close>

text \<open>The matrix of a character: row r has the bits of row r of the five glyph columns.\<close>

definition row_bits :: "char \<Rightarrow> nat \<Rightarrow> nat \<Rightarrow> u8" where
  "row_bits c n r = fold (\<lambda>col m. if bit (glyph c ! col) r then m OR push_bit col 1 else m) [0..<n] 0"

definition matrix_row :: "char \<Rightarrow> nat \<Rightarrow> u8" where
  "matrix_row c r = row_bits c 5 r"

definition matrix :: "char \<Rightarrow> u8 list" where
  "matrix c = map (matrix_row c) [0..<8]"

text \<open>The RAM write of eight rows.\<close>

definition ht_frame :: "u8 list \<Rightarrow> u8 list" where
  "ht_frame rows = 0 # concat (map (\<lambda>v. [v, 0]) rows)"

datatype ht_step = Matrix "u8 list" | Cmd u8 | Hold u32

definition ht_script :: "string \<Rightarrow> string \<Rightarrow> int \<Rightarrow> ht_step list" where
  "ht_script text effect speed_ms =
    (let sp = clamp_speed speed_ms; show = (\<lambda>c. [Matrix (matrix c), Hold (of_int sp)]);
         first = Matrix (matrix (hd (c_str text @ [NUL])));
         dim = (\<lambda>v. [Cmd (of_int (0xE0 + v)), Hold (of_int (sp div 16 + 1))]) in
     if c_streq effect ''SCROLL'' then concat (map show (c_str text))
     else if c_streq effect ''BLINK''
       then [first, Cmd (of_int (hw_blink sp)), Hold (of_int (sp * 6)), Cmd 0x81]
     else if c_streq effect ''REVERSE'' then concat (map show (rev (c_str text)))
     else if c_streq effect ''FADE''
       then first # concat (map dim [0..15]) @ concat (map dim (rev [0..15])) @ [Cmd 0xEF]
     else [])"

fun ht_events :: "ht_step \<Rightarrow> hw list" where
  "ht_events (Matrix rows) = [I2c 0x70 (ht_frame rows)]"
| "ht_events (Cmd c) = [I2c 0x70 [c]]"
| "ht_events (Hold n) = [Delay n]"

lemma row_bits_Suc:
  "row_bits c (Suc n) r = (if bit (glyph c ! n) r then row_bits c n r OR push_bit n 1 else row_bits c n r)"
  by (simp add: row_bits_def)

lemma bit_row_bits: "n \<le> 8 \<Longrightarrow> bit (row_bits c n r) i \<longleftrightarrow> i < n \<and> bit (glyph c ! i) r"
proof (induction n)
  case 0
  then show ?case by (simp add: row_bits_def)
next
  case (Suc n)
  have one: "bit (push_bit n 1 :: u8) i \<longleftrightarrow> i = n"
    using Suc.prems by (auto simp: bit_exp_iff)
  show ?case
    using Suc one by (auto simp: row_bits_Suc bit_or_iff less_Suc_eq)
qed

section \<open>The code meets the specification\<close>

lemma set_row_bits:
  assumes "length (fb s) = 8"
  shows "for_each [0..7] (set_row_bit b (int col)) s =
    Some (s\<lparr>fb := map (\<lambda>r. if bit b r then fb s ! r OR push_bit col 1 else fb s ! r) [0..<8]\<rparr>)"
proof -
  let ?f = "\<lambda>r. if bit b r then fb s ! r OR push_bit col 1 else fb s ! r"
  let ?F = "\<lambda>k. s\<lparr>fb := map ?f [0..<k] @ drop k (fb s)\<rparr>"
  have "\<exists>u. for_each [0..7] (set_row_bit b (int col)) s = Some u \<and> u = ?F 8"
  proof (rule for_upto_rule[where I = "\<lambda>k t. t = ?F k"])
    fix k t assume k: "k < 8" and t: "t = ?F k"
    have d: "drop k (fb s) = fb s ! k # drop (Suc k) (fb s)"
      using k assms by (simp add: Cons_nth_drop_Suc)
    have nth: "fb t ! k = fb s ! k" and len: "length (fb t) = 8"
      using t d k assms by (simp_all add: nth_append)
    have upd: "(fb t)[k := v] = map ?f [0..<k] @ v # drop (Suc k) (fb s)" for v
      using t d by (simp add: list_update_append)
    have same: "t = s\<lparr>fb := map ?f [0..<k] @ (fb s ! k) # drop (Suc k) (fb s)\<rparr>"
      using t d by simp
    have "set_row_bit b (int col) (0 + int k) t = Some (t\<lparr>fb := (fb t)[k := ?f k]\<rparr>)"
    proof (cases "bit b k")
      case True
      then show ?thesis using k len nth by (simp add: set_row_bit_def)
    next
      case False
      have "(fb t)[k := fb s ! k] = fb t" using nth k len by (simp add: list_update_same_conv)
      with False show ?thesis by (simp add: set_row_bit_def)
    qed
    moreover have "t\<lparr>fb := (fb t)[k := ?f k]\<rparr> = ?F (Suc k)"
      unfolding upd using t by simp
    ultimately show "\<exists>u. set_row_bit b (int col) (0 + int k) t = Some u \<and> u = ?F (Suc k)" by simp
  qed simp_all
  then show ?thesis using assms by simp
qed

lemma render_char_eq: "ht16k33_render_char c s = Some (s\<lparr>fb := matrix c\<rparr>)"
proof -
  let ?I = "\<lambda>k t. t = s\<lparr>fb := map (row_bits c k) [0..<8]\<rparr>"
  have "\<exists>u. for_each [0..min FONT_CHAR_WIDTH 8 - 1] (\<lambda>col s. do { b \<leftarrow> font_byte (font_idx c) col;
      for_each [0..7] (set_row_bit b col) s }) (ht16k33_blank s) = Some u \<and> ?I 5 u"
  proof (rule for_upto_rule[where I = ?I])
    show "?I 0 (ht16k33_blank s)"
    proof -
      have "row_bits c 0 = (\<lambda>_. 0)" by (simp add: row_bits_def fun_eq_iff)
      then show ?thesis by (simp add: ht16k33_blank_def map_replicate_const del: upt_rec_numeral replicate_Suc)
    qed
  next
    fix k t assume k: "k < 5" and t: "?I k t"
    have "for_each [0..7] (set_row_bit (glyph c ! k) (int k)) t =
      Some (t\<lparr>fb := map (\<lambda>r. if bit (glyph c ! k) r then fb t ! r OR push_bit k 1 else fb t ! r) [0..<8]\<rparr>)"
      by (rule set_row_bits) (simp add: t)
    moreover have "map (\<lambda>r. if bit (glyph c ! k) r then fb t ! r OR push_bit k 1 else fb t ! r) [0..<8] =
        map (row_bits c (Suc k)) [0..<8]"
      by (rule map_cong) (simp_all add: t row_bits_Suc del: upt_rec_numeral)
    ultimately show "\<exists>u. (do { b \<leftarrow> font_byte (font_idx c) (0 + int k);
        for_each [0..7] (set_row_bit b (0 + int k)) t }) = Some u \<and> ?I (Suc k) u"
      using k t by (simp add: font_byte_glyph del: upt_rec_numeral for_each.simps)
  qed (simp add: FONT_CHAR_WIDTH_def)
  then show ?thesis
    by (simp add: ht16k33_render_char_def matrix_def matrix_row_def[abs_def] Let_def del: upt_rec_numeral)
qed

lemma length_matrix [simp]: "length (matrix c) = 8"
  by (simp add: matrix_def)

section \<open>The driver interface\<close>

locale ht16k33_bus =
  fixes wr :: ht_write
    and delay :: delay
  assumes wr_eq: "wr bs s = emit [I2c 0x70 bs] s"
    and delay_eq: "delay n s = emit [Delay n] s"
begin

lemma flush_eq:
  assumes "length (fb s) = 8"
  shows "ht16k33_flush wr s = Some (emit [I2c 0x70 (ht_frame (fb s))] s)"
proof -
  let ?F = "\<lambda>k. 0 # concat (map (\<lambda>v. [v, 0]) (take k (fb s))) @ replicate (2 * (8 - k)) 0"
  have len: "length (concat (map (\<lambda>v. [v, 0]) xs)) = 2 * length xs" for xs :: "u8 list"
    by (induction xs) simp_all
  have "\<exists>b. for_each [0..7] (\<lambda>i buf. do { v \<leftarrow> arr_get (fb s) i; buf \<leftarrow> arr_set buf (1 + i * 2) v;
      arr_set buf (1 + i * 2 + 1) 0x00 }) (0x00 # replicate 16 0) = Some b \<and> b = ?F 8"
  proof (rule for_upto_rule[where I = "\<lambda>k b. b = ?F k"])
    fix k b assume k: "k < 8" and b: "b = ?F k"
    let ?xs = "concat (map (\<lambda>v. [v, 0 :: u8]) (take k (fb s)))"
    obtain n where n: "8 - k = Suc n" using k by (cases "8 - k") simp_all
    then have n': "8 - Suc k = n" by simp
    have lx: "length ?xs = 2 * k" using k assms len by simp
    have b': "b = (0 # ?xs) @ 0 # 0 # replicate (2 * n) 0" using b n by simp
    have "b[Suc (2 * k) := fb s ! k] = (0 # ?xs) @ fb s ! k # 0 # replicate (2 * n) 0"
      using lx unfolding b' by (simp add: list_update_append)
    then have upd: "b[Suc (2 * k) := fb s ! k, Suc (Suc (2 * k)) := 0] = (0 # ?xs) @ fb s ! k # 0 # replicate (2 * n) 0"
      using lx by (simp add: list_update_append)
    have lb: "length b = 17"
      using n k unfolding b' by (simp add: lx)
    have "?F (Suc k) = (0 # ?xs) @ fb s ! k # 0 # replicate (2 * n) 0"
      using k assms n' by (simp add: take_Suc_conv_app_nth)
    then show "\<exists>u. (do { v \<leftarrow> arr_get (fb s) (0 + int k); buf \<leftarrow> arr_set b (1 + (0 + int k) * 2) v;
        arr_set buf (1 + (0 + int k) * 2 + 1) 0x00 }) = Some u \<and> u = ?F (Suc k)"
      using k assms lb upd by (simp add: arr_set_def nat_add_distrib nat_mult_distrib mult.commute)
  qed simp_all
  then show ?thesis
    using assms by (simp add: ht16k33_flush_def ht_frame_def wr_eq del: replicate_Suc for_each.simps)
qed

lemma show_eq:
  "ht16k33_show wr delay sp c s =
    Some (emit (concat (map ht_events [Matrix (matrix c), Hold (of_int sp)])) (s\<lparr>fb := matrix c\<rparr>))"
  by (simp add: ht16k33_show_def render_char_eq flush_eq delay_eq)

lemma first_eq:
  "ht16k33_first wr text s = (let m = matrix (hd (c_str text @ [NUL])) in Some (emit (ht_events (Matrix m)) (s\<lparr>fb := m\<rparr>)))"
  by (simp add: ht16k33_first_def render_char_eq flush_eq Let_def)

lemma show_steps:
  "\<exists>t. for_each cs (ht16k33_show wr delay sp) s = Some t \<and> length (fb t) = (if cs = [] then length (fb s) else 8) \<and>
    out t = out s @ concat (map ht_events (concat (map (\<lambda>c. [Matrix (matrix c), Hold (of_int sp)]) cs)))"
proof (induction cs arbitrary: s)
  case (Cons c cs)
  from Cons.IH[of "emit (concat (map ht_events [Matrix (matrix c), Hold (of_int sp)])) (s\<lparr>fb := matrix c\<rparr>)"]
  show ?case by (auto simp: show_eq)
qed simp

lemma dim_eq:
  "fold (ht16k33_dim wr delay d) vs s =
    emit (concat (map ht_events (concat (map (\<lambda>v. [Cmd (of_int (0xE0 OR v)), Hold (of_int d)]) vs)))) s"
  by (induction vs arbitrary: s) (simp_all add: ht16k33_dim_def ht16k33_write_cmd_def wr_eq delay_eq)

lemma reverse_index:
  "for_each (down_by (int (length cs) - 1) 0 1)
     (\<lambda>i s. do { c \<leftarrow> arr_get cs i; ht16k33_show wr delay sp c s }) s = for_each (rev cs) (ht16k33_show wr delay sp) s"
proof -
  have "for_each (map int (rev [0..<length cs])) (\<lambda>i s. do { c \<leftarrow> arr_get cs i; ht16k33_show wr delay sp c s }) s =
      for_each (rev [0..<length cs]) (\<lambda>k. ht16k33_show wr delay sp (cs ! k)) s"
    unfolding for_each_map by (rule for_each_cong_on) simp
  also have "\<dots> = for_each (map ((!) cs) (rev [0..<length cs])) (ht16k33_show wr delay sp) s"
    unfolding for_each_map ..
  also have "map ((!) cs) (rev [0..<length cs]) = rev cs"
    by (simp add: rev_map [symmetric] map_nth)
  finally show ?thesis unfolding down_by_ints .
qed

lemma nibble: "0 \<le> v \<Longrightarrow> v \<le> 15 \<Longrightarrow> (0xE0 :: int) OR v = 0xE0 + v"
proof -
  assume "0 \<le> v" "v \<le> 15"
  then have "v \<in> set [0..15]" by simp
  then show ?thesis by (simp add: upto.simps) auto
qed

lemma display_text_steps:
  assumes len: "c_streq effect ''REVERSE'' \<Longrightarrow> c_strlen text < 2147483648" and wf: "length (fb s) = 8"
  shows "\<exists>t. ht16k33_display_text wr delay text effect speed b f s = Some t \<and> length (fb t) = 8 \<and>
    out t = out s @ concat (map ht_events (ht_script text effect speed))"
proof -
  have dims: "concat (map (\<lambda>v. [Cmd (of_int (0xE0 OR v)), Hold n]) vs) =
      concat (map (\<lambda>v. [Cmd (of_int (0xE0 + v)), Hold n]) vs)" if "set vs \<subseteq> {0..15}" for vs n
    using that by (induction vs) (auto simp: nibble)
  have down: "down_by 15 0 1 = rev [0..15]"
    using down_by_ints[of 16] upto_ints[of 16] by (simp add: rev_map)
  consider (scroll) "c_streq effect ''SCROLL''"
    | (blink) "\<not> c_streq effect ''SCROLL''" "c_streq effect ''BLINK''"
    | (reverse) "\<not> c_streq effect ''SCROLL''" "\<not> c_streq effect ''BLINK''" "c_streq effect ''REVERSE''"
    | (fade) "\<not> c_streq effect ''SCROLL''" "\<not> c_streq effect ''BLINK''"
        "\<not> c_streq effect ''REVERSE''" "c_streq effect ''FADE''"
    | (other) "\<not> c_streq effect ''SCROLL''" "\<not> c_streq effect ''BLINK''"
        "\<not> c_streq effect ''REVERSE''" "\<not> c_streq effect ''FADE''"
    by blast
  then show ?thesis
  proof cases
    case scroll
    then show ?thesis
      using show_steps[of "c_str text" "clamp_speed speed" s] wf
      by (auto simp: ht16k33_display_text_def ht_script_def Let_def split: if_splits)
  next
    case blink
    then show ?thesis
      by (simp add: ht16k33_display_text_def ht_script_def Let_def first_eq ht16k33_write_cmd_def wr_eq delay_eq)
  next
    case reverse
    have "int_of_size (c_strlen text) - 1 = int (length (c_str text)) - 1"
      using len[OF reverse(3)] by (simp add: c_strlen_def)
    with reverse show ?thesis
      using show_steps[of "rev (c_str text)" "clamp_speed speed" s] wf
      by (auto simp: ht16k33_display_text_def ht_script_def Let_def reverse_index split: if_splits)
  next
    case fade
    then show ?thesis
      by (simp add: ht16k33_display_text_def ht_script_def Let_def first_eq dim_eq ht16k33_write_cmd_def
          wr_eq dims down)
  next
    case other
    with wf show ?thesis by (simp add: ht16k33_display_text_def ht_script_def Let_def)
  qed
qed

end

interpretation pico_ht: ht16k33_bus pico_ht16k33_i2c sleep_ms
  by unfold_locales (simp_all add: pico_ht16k33_i2c_def hw_ops)

interpretation esp32_ht: ht16k33_bus esp32_ht16k33_write vTaskDelay_ms
  by unfold_locales (simp_all add: esp32_ht16k33_write_def hw_ops)

section \<open>Properties\<close>

text \<open>
  C31: display_text of both HT16K33 drivers returns, keeps the eight rows and sends exactly its
  script: SCROLL shows every character of the text once in order, REVERSE in the opposite order,
  BLINK and FADE show the first character with the blink command of the speed or with the sixteen
  dimming levels up and down.
\<close>

theorem ht16k33_display_text_correct:
  assumes "length (fb s) = 8" and "c_streq effect ''REVERSE'' \<Longrightarrow> c_strlen text < 2147483648"
  shows "list_all (\<lambda>display_text. \<exists>t. display_text text effect speed b fade s = Some t \<and> length (fb t) = 8 \<and>
      out t = out s @ concat (map ht_events (ht_script text effect speed)))
    [pico_ht16k33_display_text, esp32_ht16k33_display_text]"
  unfolding pico_ht16k33_display_text_def esp32_ht16k33_display_text_def
  using pico_ht.display_text_steps[OF assms(2,1)] esp32_ht.display_text_steps[OF assms(2,1)] by simp

definition ht_dev0 :: dev where
  "ht_dev0 = \<lparr>fb = replicate 8 0, bmp = [], bmp_len = 0, busy_in = [], out = []\<rparr>"

theorem ht16k33_display_text_correct_witness:
  "\<exists>t. pico_ht16k33_display_text ''Hi'' ''REVERSE'' 50 0 0 ht_dev0 = Some t \<and>
    out t = [I2c 0x70 (ht_frame (matrix (CHR ''i''))), Delay 50,
      I2c 0x70 (ht_frame (matrix (CHR ''H''))), Delay 50]"
  using ht16k33_display_text_correct[of ht_dev0 "''REVERSE''" "''Hi''" 50 0 0]
  by (auto simp: ht_dev0_def c_strlen_def ht_script_def c_streq_def c_str_def clamp_speed_def Let_def)

text \<open>
  The picture of a character is the transpose of its glyph: bit col of row r is lit when
  bit r of column col of the font is set, the columns beyond the fifth are dark, and a flush
  sends the rows at the even RAM addresses and blanks at the odd ones.
\<close>

theorem ht16k33_picture:
  assumes "r < 8"
  shows "\<exists>t. ht16k33_render_char c s = Some t \<and> length (fb t) = 8 \<and>
    (\<forall>col. bit (fb t ! r) col \<longleftrightarrow> col < 5 \<and> bit (glyph c ! col) r) \<and>
    (\<exists>bs. ht16k33_flush pico_ht16k33_i2c t = Some (emit [I2c 0x70 (0 # bs)] t) \<and>
      bs ! (2 * r) = fb t ! r \<and> bs ! (2 * r + 1) = 0)"
proof -
  have frame: "concat (map (\<lambda>v. [v, 0]) xs) ! (2 * k) = xs ! k \<and> concat (map (\<lambda>v. [v, 0]) xs) ! (2 * k + 1) = 0"
    if "k < length xs" for k and xs :: "u8 list"
    using that by (induction xs arbitrary: k) (auto simp: nth_Cons split: nat.splits)
  have "bit (matrix c ! r) col \<longleftrightarrow> col < 5 \<and> bit (glyph c ! col) r" for col
    using assms by (simp add: matrix_def matrix_row_def bit_row_bits del: upt_rec_numeral)
  then show ?thesis
    using frame[of r "matrix c"] assms by (simp add: render_char_eq pico_ht.flush_eq ht_frame_def) blast
qed

theorem ht16k33_picture_witness:
  "\<exists>t. ht16k33_render_char CHR ''L'' ht_dev0 = Some t \<and> length (fb t) = 8"
  using ht16k33_picture[of 0 "CHR ''L''" ht_dev0] by auto

text \<open>
  The hardware blink of BLINK is off for every speed below 250 ms, and in particular for the
  default speed of 50 ms: the character is shown steadily.
\<close>

theorem ht16k33_no_blink_below_250:
  assumes "speed < 250" and "length (fb s) = 8"
  shows "\<exists>t. pico_ht16k33_display_text text ''BLINK'' speed b fade s = Some t \<and>
    out t = out s @ [I2c 0x70 (ht_frame (matrix (hd (c_str text @ [NUL])))), I2c 0x70 [0x81],
      Delay (of_int (clamp_speed speed * 6)), I2c 0x70 [0x81]]"
proof -
  have "\<not> c_streq ''BLINK'' ''SCROLL''" "c_streq ''BLINK'' ''BLINK''" "\<not> c_streq ''BLINK'' ''REVERSE''"
    by (simp_all add: c_streq_def c_str_def)
  with pico_ht.display_text_steps[of "''BLINK''" "text" s speed b fade] assms show ?thesis
    unfolding pico_ht16k33_display_text_def
    by (auto simp: ht_script_def Let_def hw_blink_def clamp_speed_def)
qed

end
