(* ===== verification/Ssd1327.thy ===== *)
theory Ssd1327
  imports Text_Bitmap Hardware
begin

text \<open>
  The driver of the SSD1327 greyscale OLED (128 by 128, four bits per pixel, I2C) on the Pico
  and on the ESP32. The frame buffer s_fb holds 128 rows of 64 bytes, the left pixel of a pair in
  the high nibble. The two files are the same code over the bus write and the delay, but for one
  rendering that the Pico does and does not show.
\<close>

section \<open>The code\<close>

definition SSD1327_WIDTH :: int where "SSD1327_WIDTH = 128"
definition SSD1327_HEIGHT :: int where "SSD1327_HEIGHT = 128"
definition SSD1327_STRIDE :: int where "SSD1327_STRIDE = SSD1327_WIDTH div 2"

text \<open>The bus write: i2c_write_blocking of the Pico, ssd1327_write of the ESP32.\<close>

type_synonym i2c_write = "u8 list \<Rightarrow> dev \<Rightarrow> dev"

definition pico_ssd1327_i2c :: i2c_write where
  "pico_ssd1327_i2c bs = i2c_write_blocking 0x3C bs"
definition esp32_ssd1327_write :: i2c_write where
  "esp32_ssd1327_write bs = i2c_master_write_to_device 0x3C bs"

definition ssd1327_cmd :: "i2c_write \<Rightarrow> u8 \<Rightarrow> dev \<Rightarrow> dev" where
  "ssd1327_cmd wr c = wr [0x00, c]"

definition ssd1327_flush :: "i2c_write \<Rightarrow> dev \<Rightarrow> dev option" where
  "ssd1327_flush wr s = do {
     let s = fold (ssd1327_cmd wr) [0x15, 0, 63, 0x75, 0, 127] s;
     for_each [0..SSD1327_HEIGHT - 1] (\<lambda>row s. do {
       bs \<leftarrow> arr_slice (fb s) (row * SSD1327_STRIDE) SSD1327_STRIDE;
       Some (wr (0x40 # bs) s)
     }) s
   }"

text \<open>The statement that stores a grey level at a pixel of a row.\<close>

definition ssd1327_put :: "u8 \<Rightarrow> int \<Rightarrow> int \<Rightarrow> dev \<Rightarrow> dev option" where
  "ssd1327_put grey x row s = do {
     let byte_idx = row * SSD1327_STRIDE + x div 2;
     v \<leftarrow> arr_get (fb s) byte_idx;
     xs \<leftarrow> arr_set (fb s) byte_idx
       (if x mod 2 = 0 then (v AND 0x0F) OR push_bit 4 grey else (v AND 0xF0) OR (grey AND 0x0F));
     Some (s\<lparr>fb := xs\<rparr>)
   }"

text \<open>The eight rows of a column.\<close>

definition ssd1327_column :: "u8 \<Rightarrow> u8 \<Rightarrow> int \<Rightarrow> dev \<Rightarrow> dev option" where
  "ssd1327_column grey cb x s = for_each [0..7]
     (\<lambda>row s. if bit cb (nat row) then ssd1327_put grey x row s else Some s) s"

definition ssd1327_blank :: "dev \<Rightarrow> dev" where
  "ssd1327_blank s = s\<lparr>fb := replicate (nat (SSD1327_HEIGHT * SSD1327_STRIDE)) 0\<rparr>"

text \<open>
  render_text_to_fb: the inner loop for (col = 0; col < 5 && x < WIDTH; col++, x++), here with
  the number of columns left, and the loop over the characters with its break.
\<close>

fun ssd1327_cols :: "u8 \<Rightarrow> int \<Rightarrow> nat \<Rightarrow> int \<Rightarrow> dev \<Rightarrow> (int \<times> dev) option" where
  "ssd1327_cols grey fi 0 x s = Some (x, s)"
| "ssd1327_cols grey fi (Suc n) x s =
     (if x < SSD1327_WIDTH then do {
        cb \<leftarrow> font_byte fi (FONT_CHAR_WIDTH - 1 - int n);
        s \<leftarrow> ssd1327_column grey cb x s;
        ssd1327_cols grey fi n (x + 1) s
      } else Some (x, s))"

fun ssd1327_chars :: "u8 \<Rightarrow> string \<Rightarrow> int \<Rightarrow> dev \<Rightarrow> dev option" where
  "ssd1327_chars grey [] x s = Some s"
| "ssd1327_chars grey (c # cs) x s = do {
     (x, s) \<leftarrow> ssd1327_cols grey (font_idx c) (nat FONT_CHAR_WIDTH) x s;
     let x = x + 1;
     if x \<ge> SSD1327_WIDTH then Some s else ssd1327_chars grey cs x s
   }"

definition ssd1327_render_text_to_fb :: "string \<Rightarrow> u8 \<Rightarrow> dev \<Rightarrow> dev option" where
  "ssd1327_render_text_to_fb text brightness s = ssd1327_chars brightness (c_str text) 0 (ssd1327_blank s)"

text \<open>The loop of the last branch of display_text, which draws the text shifted by an offset.\<close>

fun ssd1327_shifted :: "string \<Rightarrow> int \<Rightarrow> dev \<Rightarrow> dev option" where
  "ssd1327_shifted [] x s = Some s"
| "ssd1327_shifted (c # cs) x s = do {
     s \<leftarrow> for_each [0..FONT_CHAR_WIDTH - 1] (\<lambda>col s.
       if x + col < 0 \<or> x + col \<ge> SSD1327_WIDTH then Some s
       else do {
         cb \<leftarrow> font_byte (font_idx c) col;
         ssd1327_column 0x0F cb (x + col) s
       }) s;
     ssd1327_shifted cs (x + FONT_CHAR_WIDTH + 1) s
   }"

definition ssd1327_init_cmds :: "u8 list" where
  "ssd1327_init_cmds = [0xAE, 0xA0, 0x53, 0xA1, 0x00, 0xA2, 0x00, 0xA4, 0xA8, 0x7F, 0xB1, 0x11, 0xB3, 0x00,
     0xAB, 0x01, 0xB6, 0x04, 0xBE, 0x0F, 0xBC, 0x08, 0xD5, 0x62, 0xFD, 0x12, 0xAF]"

definition pico_ssd1327_display_init :: "dev \<Rightarrow> dev" where
  "pico_ssd1327_display_init s =
     (let s = sleep_ms 100 (emit [I2cInit 400000, GpioFunc 4 GPIO_FUNC_I2C, GpioFunc 5 GPIO_FUNC_I2C,
            GpioPullUp 4, GpioPullUp 5] s)
      in ssd1327_blank (fold (ssd1327_cmd pico_ssd1327_i2c) ssd1327_init_cmds s))"

definition esp32_ssd1327_display_init :: "pins \<Rightarrow> dev \<Rightarrow> dev" where
  "esp32_ssd1327_display_init p s =
     (let s = vTaskDelay_ms 100 (emit (esp32_i2c_bus p) s)
      in ssd1327_blank (fold (ssd1327_cmd esp32_ssd1327_write) ssd1327_init_cmds s))"

definition ssd1327_display_clear :: "i2c_write \<Rightarrow> dev \<Rightarrow> dev option" where
  "ssd1327_display_clear wr s = ssd1327_flush wr (ssd1327_blank s)"

definition ssd1327_page :: "i2c_write \<Rightarrow> string \<Rightarrow> u8 \<Rightarrow> dev \<Rightarrow> dev option" where
  "ssd1327_page wr text brightness s = do {
     s \<leftarrow> ssd1327_render_text_to_fb text brightness s;
     ssd1327_flush wr s
   }"

definition ssd1327_contrast :: "i2c_write \<Rightarrow> delay \<Rightarrow> int \<Rightarrow> int \<Rightarrow> dev \<Rightarrow> dev" where
  "ssd1327_contrast wr delay d v s =
     delay (word_of_int d) (ssd1327_cmd wr (word_of_int (v * 16)) (ssd1327_cmd wr 0x81 s))"

definition ssd1327_text_px :: "string \<Rightarrow> int option" where
  "ssd1327_text_px text = c_int (int_of_size (c_strlen text) * (FONT_CHAR_WIDTH + 1))"

text \<open>
  display_text; the flag tells whether the last branch renders the text once before its loop,
  as the Pico's file does.
\<close>

definition ssd1327_display_text ::
    "bool \<Rightarrow> i2c_write \<Rightarrow> delay \<Rightarrow> string \<Rightarrow> string \<Rightarrow> int \<Rightarrow> int \<Rightarrow> int \<Rightarrow> dev \<Rightarrow> dev option" where
  "ssd1327_display_text prerender wr delay text effect speed_ms blink_period_ms fade_steps s =
    (let sp = clamp_speed speed_ms in
     if c_streq effect ''SCROLL'' then do {
       text_px \<leftarrow> ssd1327_text_px text;
       for_each [0..text_px - 1] (\<lambda>offset s. do {
         s \<leftarrow> ssd1327_page wr text (word_of_int offset) s;
         Some (delay (word_of_int sp) s)
       }) s
     }
     else if c_streq effect ''BLINK'' then do {
       s \<leftarrow> ssd1327_page wr text 0x0F s;
       for_each [0..5] (\<lambda>i s. let s = ssd1327_cmd wr 0xAE (delay (word_of_int sp) s)
         in Some (ssd1327_cmd wr 0xAF (delay (word_of_int sp) s))) s
     }
     else if c_streq effect ''REVERSE'' then do {
       rev \<leftarrow> reverse_text stack_rev text;
       s \<leftarrow> ssd1327_page wr rev 0x0F s;
       Some (delay (word_of_int sp) s)
     }
     else if c_streq effect ''FADE'' then do {
       s \<leftarrow> ssd1327_page wr text 0x0F s;
       let step_delay = sp div 32 + 1;
       let s = fold (ssd1327_contrast wr delay step_delay) [0..0x0F] s;
       let s = fold (ssd1327_contrast wr delay step_delay) (down_by 0x0F 0 1) s;
       Some (ssd1327_cmd wr 0x80 (ssd1327_cmd wr 0x81 s))
     }
     else do {
       s \<leftarrow> (if prerender then ssd1327_render_text_to_fb text 0x0F s else Some s);
       text_px \<leftarrow> ssd1327_text_px text;
       for_each [0..text_px - 1] (\<lambda>offset s. do {
         s \<leftarrow> ssd1327_shifted (c_str text) (- offset) (ssd1327_blank s);
         s \<leftarrow> ssd1327_flush wr s;
         Some (delay (word_of_int sp) s)
       }) s
     })"

definition pico_ssd1327_display_text where
  "pico_ssd1327_display_text = ssd1327_display_text True pico_ssd1327_i2c sleep_ms"
definition esp32_ssd1327_display_text where
  "esp32_ssd1327_display_text = ssd1327_display_text False esp32_ssd1327_write vTaskDelay_ms"
definition pico_ssd1327_display_clear where
  "pico_ssd1327_display_clear = ssd1327_display_clear pico_ssd1327_i2c"
definition esp32_ssd1327_display_clear where
  "esp32_ssd1327_display_clear = ssd1327_display_clear esp32_ssd1327_write"
definition esp32_ssd1327_flush where
  "esp32_ssd1327_flush = ssd1327_flush esp32_ssd1327_write"
definition esp32_ssd1327_render_text_to_fb where
  "esp32_ssd1327_render_text_to_fb = ssd1327_render_text_to_fb"

section \<open>Specification\<close>

text \<open>A picture gives the grey level of each pixel; a byte of the buffer holds two pixels.\<close>

type_synonym grey_picture = "nat \<Rightarrow> nat \<Rightarrow> u8"

definition pair_byte :: "u8 \<Rightarrow> u8 \<Rightarrow> u8" where
  "pair_byte a b = push_bit 4 a OR (b AND 0x0F)"

definition grey_byte :: "grey_picture \<Rightarrow> nat \<Rightarrow> u8" where
  "grey_byte G i = pair_byte (G (2 * (i mod 64)) (i div 64)) (G (2 * (i mod 64) + 1) (i div 64))"

definition grey_fb :: "grey_picture \<Rightarrow> u8 list" where
  "grey_fb G = map (grey_byte G) [0..<8192]"

text \<open>The text from a column offset on, in the top eight rows, at a grey level.\<close>

definition grey_text :: "u8 \<Rightarrow> string \<Rightarrow> nat \<Rightarrow> grey_picture" where
  "grey_text g cs offset x y = (if x < 128 \<and> y < 8 \<and> text_bit cs (offset + x) y then g else 0)"

datatype grey_step = Grey grey_picture | Grey_cmd u8 | Grey_wait u32

definition grey_script :: "string \<Rightarrow> string \<Rightarrow> int \<Rightarrow> grey_step list" where
  "grey_script text effect speed_ms =
    (let sp = clamp_speed speed_ms; cs = c_str text; n = 6 * c_strlen text; wait = Grey_wait (of_int sp) in
     if c_streq effect ''SCROLL''
       then concat (map (\<lambda>k. [Grey (grey_text (of_nat k) cs 0), wait]) [0..<n])
     else if c_streq effect ''BLINK''
       then Grey (grey_text 0x0F cs 0) # concat (replicate 6 [wait, Grey_cmd 0xAE, wait, Grey_cmd 0xAF])
     else if c_streq effect ''REVERSE'' then [Grey (grey_text 0x0F (rev (take 127 cs)) 0), wait]
     else if c_streq effect ''FADE''
       then (let dim = (\<lambda>v. [Grey_cmd 0x81, Grey_cmd (of_int (v * 16)), Grey_wait (of_int (sp div 32 + 1))])
             in Grey (grey_text 0x0F cs 0) # concat (map dim [0..15]) @ concat (map dim (rev [0..15])) @
                  [Grey_cmd 0x81, Grey_cmd 0x80])
     else concat (map (\<lambda>k. [Grey (grey_text 0x0F cs k), wait]) [0..<n]))"

definition grey_cmd_out :: "u8 \<Rightarrow> hw list" where
  "grey_cmd_out c = [I2c 0x3C [0x00, c]]"

definition grey_flush_out :: "u8 list \<Rightarrow> hw list" where
  "grey_flush_out xs = concat (map grey_cmd_out [0x15, 0, 63, 0x75, 0, 127]) @
     map (\<lambda>r. I2c 0x3C (0x40 # take 64 (drop (r * 64) xs))) [0..<128]"

fun grey_events :: "grey_step \<Rightarrow> hw list" where
  "grey_events (Grey G) = grey_flush_out (grey_fb G)"
| "grey_events (Grey_cmd c) = grey_cmd_out c"
| "grey_events (Grey_wait n) = [Delay n]"

section \<open>Drawing\<close>

lemma pair_byte_set:
  "(pair_byte a b AND 0x0F) OR push_bit 4 g = pair_byte g b"
  "(pair_byte a b AND 0xF0) OR (g AND 0x0F) = pair_byte a g"
proof -
  have masks: "(0x0F :: u8) = mask 4" "(0xF0 :: u8) = NOT (mask 4)"
    by (simp_all add: mask_eq_exp_minus_1)
  show "(pair_byte a b AND 0x0F) OR push_bit 4 g = pair_byte g b"
    unfolding pair_byte_def masks
    by (rule bit_eqI) (auto simp: bit_or_iff bit_and_iff bit_push_bit_iff bit_mask_iff)
  show "(pair_byte a b AND 0xF0) OR (g AND 0x0F) = pair_byte a g"
    unfolding pair_byte_def masks
    by (rule bit_eqI) (auto simp: bit_or_iff bit_and_iff bit_push_bit_iff bit_mask_iff bit_not_iff)
qed

text \<open>Only the low four bits of a level matter.\<close>

lemma pair_byte_mod16:
  "pair_byte (of_nat k) b = pair_byte (of_nat (k mod 16)) b"
  "pair_byte a (of_nat k) = pair_byte a (of_nat (k mod 16))"
proof -
  have bits: "bit (of_nat (k mod 16) :: u8) n \<longleftrightarrow> n < 4 \<and> bit (of_nat k :: u8) n" for n
    using bit_take_bit_iff[of 4 k n]
    by (auto simp: bit_of_nat_iff take_bit_eq_mod possible_bit_word)
  show "pair_byte (of_nat k) b = pair_byte (of_nat (k mod 16)) b"
    unfolding pair_byte_def by (rule bit_eqI) (auto simp: bit_or_iff bit_push_bit_iff bits)
  have m: "(0x0F :: u8) = mask 4" by (simp add: mask_eq_exp_minus_1)
  show "pair_byte a (of_nat k) = pair_byte a (of_nat (k mod 16))"
    unfolding pair_byte_def m by (intro bit_eqI) (auto simp: bit_or_iff bit_and_iff bit_mask_iff bits)
qed

lemma length_grey_fb [simp]: "length (grey_fb G) = 8192"
  by (simp add: grey_fb_def)

lemma nth_grey_fb: "i < 8192 \<Longrightarrow> grey_fb G ! i = grey_byte G i"
  by (simp add: grey_fb_def del: upt_rec_numeral)

lemma blank_fb: "ssd1327_blank s = s\<lparr>fb := grey_fb (\<lambda>_ _. 0)\<rparr>"
proof -
  have "grey_fb (\<lambda>_ _. 0) = replicate 8192 0"
    by (intro nth_equalityI) (simp_all add: nth_grey_fb grey_byte_def pair_byte_def del: replicate.simps)
  then show ?thesis
    by (simp add: ssd1327_blank_def SSD1327_HEIGHT_def SSD1327_STRIDE_def SSD1327_WIDTH_def del: replicate.simps)
qed

definition set_grey :: "nat \<Rightarrow> nat \<Rightarrow> u8 \<Rightarrow> grey_picture \<Rightarrow> grey_picture" where
  "set_grey x y g G = (\<lambda>x' y'. if x' = x \<and> y' = y then g else G x' y')"

lemma put_eq:
  assumes "x < 128" and "y < 128" and "fb s = grey_fb G"
  shows "ssd1327_put g (int x) (int y) s = Some (s\<lparr>fb := grey_fb (set_grey x y g G)\<rparr>)"
proof -
  let ?i = "y * 64 + x div 2"
  let ?v = "if x mod 2 = 0 then (grey_byte G ?i AND 0x0F) OR push_bit 4 g else (grey_byte G ?i AND 0xF0) OR (g AND 0x0F)"
  have x2: "x div 2 < 64" using assms(1) by simp
  have i: "?i mod 64 = x div 2" "?i div 64 = y" "?i < 8192" using x2 assms(2) by simp_all
  have "int y * SSD1327_STRIDE + int x div 2 = int ?i"
    by (simp add: SSD1327_STRIDE_def SSD1327_WIDTH_def)
  moreover have "arr_get (fb s) (int ?i) = Some (grey_byte G ?i)"
    using i(3) assms(3) by (simp add: arr_get_def nth_grey_fb del: of_nat_add of_nat_mult)
  moreover have "arr_set (fb s) (int ?i) v = Some ((grey_fb G)[?i := v])" for v
    using i(3) assms(3) by (simp add: arr_set_def del: of_nat_add of_nat_mult)
  moreover have "(int x mod 2 = 0) = (x mod 2 = 0)" by presburger
  ultimately have "ssd1327_put g (int x) (int y) s = Some (s\<lparr>fb := (grey_fb G)[?i := ?v]\<rparr>)"
    unfolding ssd1327_put_def Let_def by simp
  moreover have "(grey_fb G)[?i := ?v] = grey_fb (set_grey x y g G)"
  proof (rule nth_equalityI)
    fix j assume "j < length ((grey_fb G)[?i := ?v])"
    then have j: "j < 8192" by simp
    show "(grey_fb G)[?i := ?v] ! j = grey_fb (set_grey x y g G) ! j"
    proof (cases "j = ?i")
      case True
      define h where "h = x div 2"
      have xh: "x = 2 * h \<or> x = Suc (2 * h)" unfolding h_def by linarith
      have ih: "?i mod 64 = h" "?i div 64 = y" using i h_def by simp_all
      have "grey_byte H ?i = pair_byte (H (2 * h) y) (H (Suc (2 * h)) y)" for H
        unfolding grey_byte_def ih by simp
      with xh have "?v = grey_byte (set_grey x y g G) ?i"
        by (elim disjE) (simp_all add: pair_byte_set set_grey_def)
      with True i(3) show ?thesis by (simp add: nth_grey_fb)
    next
      case False
      have "\<not> (2 * (j mod 64) = x \<and> j div 64 = y)" "\<not> (2 * (j mod 64) + 1 = x \<and> j div 64 = y)"
        using False div_mult_mod_eq[of j 64] by auto
      then have "grey_byte (set_grey x y g G) j = grey_byte G j"
        by (auto simp: grey_byte_def set_grey_def)
      with False j show ?thesis by (simp add: nth_grey_fb)
    qed
  qed simp
  ultimately show ?thesis by simp
qed

definition set_rows :: "nat \<Rightarrow> u8 \<Rightarrow> nat \<Rightarrow> u8 \<Rightarrow> grey_picture \<Rightarrow> grey_picture" where
  "set_rows x cb n g G = (\<lambda>x' y'. if x' = x \<and> y' < n \<and> bit cb y' then g else G x' y')"

lemma column_eq:
  assumes "x < 128" and "fb s = grey_fb G"
  shows "ssd1327_column g cb (int x) s = Some (s\<lparr>fb := grey_fb (set_rows x cb 8 g G)\<rparr>)"
proof -
  have "\<exists>u. for_each [0..7] (\<lambda>row s. if bit cb (nat row) then ssd1327_put g (int x) row s else Some s) s = Some u \<and>
      u = s\<lparr>fb := grey_fb (set_rows x cb 8 g G)\<rparr>"
  proof (rule for_upto_rule[where I = "\<lambda>n u. u = s\<lparr>fb := grey_fb (set_rows x cb n g G)\<rparr>"])
    have "set_rows x cb 0 g G = G" by (simp add: set_rows_def)
    then show "s = s\<lparr>fb := grey_fb (set_rows x cb 0 g G)\<rparr>" using assms(2) by simp
  next
    fix k t assume k: "k < 8" and t: "t = s\<lparr>fb := grey_fb (set_rows x cb k g G)\<rparr>"
    have "set_grey x k g (set_rows x cb k g G) = set_rows x cb (Suc k) g G" if "bit cb k"
      using that by (auto simp: set_grey_def set_rows_def fun_eq_iff less_Suc_eq)
    moreover have "set_rows x cb (Suc k) g G = set_rows x cb k g G" if "\<not> bit cb k"
      using that by (auto simp: set_rows_def fun_eq_iff less_Suc_eq)
    ultimately show "\<exists>u. (if bit cb (nat (0 + int k)) then ssd1327_put g (int x) (0 + int k) t else Some t) = Some u \<and>
        u = s\<lparr>fb := grey_fb (set_rows x cb (Suc k) g G)\<rparr>"
      using t put_eq[OF assms(1), of k t "set_rows x cb k g G" g] k by simp
  qed simp
  then show ?thesis by (simp add: ssd1327_column_def)
qed

text \<open>Columns of a glyph from column 5 - n on, at x; a whole text at x.\<close>

definition set_cols :: "nat \<Rightarrow> char \<Rightarrow> nat \<Rightarrow> u8 \<Rightarrow> grey_picture \<Rightarrow> grey_picture" where
  "set_cols x c n g G = (\<lambda>x' y'. if x \<le> x' \<and> x' < x + n \<and> x' < 128 \<and> y' < 8 \<and>
     bit (glyph c ! (5 - n + (x' - x))) y' then g else G x' y')"

lemma cols_eq:
  assumes "n \<le> 5" and "fb s = grey_fb G"
  shows "ssd1327_cols g (font_idx c) n (int x) s =
    Some (int (if x + n \<le> 128 then x + n else max x 128), s\<lparr>fb := grey_fb (set_cols x c n g G)\<rparr>)"
  using assms
proof (induction n arbitrary: x s G)
  case 0
  have "set_cols x c 0 g G = G" by (auto simp: set_cols_def fun_eq_iff)
  with 0 show ?case by (simp add: max_def)
next
  case (Suc n)
  show ?case
  proof (cases "x < 128")
    case False
    then have "set_cols x c (Suc n) g G = G" by (auto simp: set_cols_def fun_eq_iff)
    with False Suc.prems(2) show ?thesis by (simp add: SSD1327_WIDTH_def)
  next
    case True
    have fbyte: "font_byte (font_idx c) (FONT_CHAR_WIDTH - 1 - int n) = Some (glyph c ! (4 - n))"
    proof -
      have "nat (FONT_CHAR_WIDTH - 1 - int n) = 4 - n" by (simp add: FONT_CHAR_WIDTH_def nat_diff_distrib)
      then show ?thesis using Suc.prems(1) by (subst font_byte_glyph) (simp_all add: FONT_CHAR_WIDTH_def)
    qed
    have "set_cols (x + 1) c n g (set_rows x (glyph c ! (4 - n)) 8 g G) = set_cols x c (Suc n) g G"
    proof (intro ext)
      fix x' y'
      consider "x' < x" | "x' = x" | d where "x' = x + 1 + d" using less_imp_Suc_add by fastforce
      then show "set_cols (x + 1) c n g (set_rows x (glyph c ! (4 - n)) 8 g G) x' y' = set_cols x c (Suc n) g G x' y'"
      proof cases
        case 3
        have "Suc (4 - n + d) = 5 - n + d" using Suc.prems(1) by simp
        with 3 show ?thesis by (simp add: set_cols_def set_rows_def)
      qed (use True in \<open>simp_all add: set_cols_def set_rows_def\<close>)
    qed
    with True fbyte column_eq[OF True Suc.prems(2), of g "glyph c ! (4 - n)"]
      Suc.IH[of "s\<lparr>fb := grey_fb (set_rows x (glyph c ! (4 - n)) 8 g G)\<rparr>"
        "set_rows x (glyph c ! (4 - n)) 8 g G" "x + 1"] Suc.prems(1)
    show ?thesis by (auto simp: SSD1327_WIDTH_def add.commute max_def)
  qed
qed

definition set_text :: "int \<Rightarrow> string \<Rightarrow> u8 \<Rightarrow> grey_picture \<Rightarrow> grey_picture" where
  "set_text x cs g G = (\<lambda>x' y'. if x' < 128 \<and> x \<le> int x' \<and> y' < 8 \<and> text_bit cs (nat (int x' - x)) y'
     then g else G x' y')"

lemma text_bit_split:
  assumes "x \<le> int x'"
  shows "text_bit (c # cs) (nat (int x' - x)) r \<longleftrightarrow>
      int x' < x + 5 \<and> bit (glyph c ! nat (int x' - x)) r \<or>
      x + 6 \<le> int x' \<and> text_bit cs (nat (int x' - (x + 6))) r"
proof -
  have "nat (int x' - x) - 6 = nat (int x' - (x + 6))" by linarith
  then show ?thesis using assms by (auto simp: text_bit_Cons)
qed

lemma set_text_Nil: "set_text x [] g G = G"
  by (auto simp: set_text_def fun_eq_iff text_bit_def column_def)

lemma grey_chars_eq:
  assumes "fb s = grey_fb G" and "x < 128"
  shows "ssd1327_chars g cs (int x) s = Some (s\<lparr>fb := grey_fb (set_text (int x) cs g G)\<rparr>)"
  using assms
proof (induction cs arbitrary: x s G)
  case Nil
  then show ?case by (simp add: set_text_Nil)
next
  case (Cons c cs)
  let ?G = "set_cols x c 5 g G"
  have first: "ssd1327_cols g (font_idx c) (nat FONT_CHAR_WIDTH) (int x) s =
      Some (int (if x + 5 \<le> 128 then x + 5 else 128), s\<lparr>fb := grey_fb ?G\<rparr>)"
    using cols_eq[of 5 s G g c x] Cons.prems by (simp add: FONT_CHAR_WIDTH_def max_def)
  have all: "set_text (int x + 6) cs g ?G = set_text (int x) (c # cs) g G"
  proof (intro ext)
    fix x' y'
    show "set_text (int x + 6) cs g ?G x' y' = set_text (int x) (c # cs) g G x' y'"
    proof (cases "x \<le> x'")
      case True
      then have d: "nat (int x' - int x) = x' - x" "int x \<le> int x'" by simp_all
      show ?thesis
        unfolding set_text_def set_cols_def using text_bit_split[OF d(2), of c cs y'] True by (auto simp: d(1))
    next
      case False
      then show ?thesis by (simp add: set_text_def set_cols_def)
    qed
  qed
  have none: "set_text (int x + 6) cs g ?G = ?G" if "128 \<le> x + 6"
    using that by (auto simp: set_text_def fun_eq_iff)
  show ?case
  proof (cases "x + 6 < 128")
    case True
    with Cons.IH[of "s\<lparr>fb := grey_fb ?G\<rparr>" ?G "x + 6"] first show ?thesis
      by (simp add: SSD1327_WIDTH_def all [symmetric] add.commute[of 6])
  next
    case False
    then have "128 \<le> int (if x + 5 \<le> 128 then x + 5 else 128) + 1" by auto
    with False first none show ?thesis by (simp add: SSD1327_WIDTH_def all [symmetric])
  qed
qed

lemma shifted_eq:
  assumes "fb s = grey_fb G"
  shows "ssd1327_shifted cs x s = Some (s\<lparr>fb := grey_fb (set_text x cs 0x0F G)\<rparr>)"
  using assms
proof (induction cs arbitrary: x s G)
  case Nil
  then show ?case by (simp add: set_text_Nil)
next
  case (Cons c cs)
  let ?H = "\<lambda>n. (\<lambda>x' y'. if x' < 128 \<and> x \<le> int x' \<and> int x' < x + int n \<and> y' < 8 \<and>
     bit (glyph c ! nat (int x' - x)) y' then 0x0F else G x' y') :: grey_picture"
  let ?body = "\<lambda>col s. if x + col < 0 \<or> x + col \<ge> SSD1327_WIDTH then Some s
       else do { cb \<leftarrow> font_byte (font_idx c) col; ssd1327_column 0x0F cb (x + col) s }"
  have "\<exists>u. for_each [0..FONT_CHAR_WIDTH - 1] ?body s = Some u \<and> u = s\<lparr>fb := grey_fb (?H 5)\<rparr>"
  proof (rule for_upto_rule[where I = "\<lambda>n u. u = s\<lparr>fb := grey_fb (?H n)\<rparr>"])
    have "?H 0 = G" by (auto simp: fun_eq_iff)
    then show "s = s\<lparr>fb := grey_fb (?H 0)\<rparr>" using Cons.prems by simp
  next
    fix k t assume k: "k < 5" and t: "t = s\<lparr>fb := grey_fb (?H k)\<rparr>"
    have split: "int x' < x + int (Suc k) \<longleftrightarrow> int x' < x + int k \<or> int x' = x + int k" for x' by auto
    show "\<exists>u. ?body (0 + int k) t = Some u \<and> u = s\<lparr>fb := grey_fb (?H (Suc k))\<rparr>"
    proof (cases "x + int k < 0 \<or> x + int k \<ge> 128")
      case True
      then have "?H (Suc k) = ?H k" unfolding split by (auto simp: fun_eq_iff)
      with True t show ?thesis by (simp add: SSD1327_WIDTH_def)
    next
      case False
      then obtain n where n: "x + int k = int n" "n < 128"
        by (metis nat_0_le not_le nat_less_iff of_nat_numeral)
      have nat_k: "nat (int n - x) = k" and le: "x \<le> int n" using n by linarith+
      have "set_rows n (glyph c ! k) 8 0x0F (?H k) = ?H (Suc k)"
        unfolding set_rows_def split n(1) using nat_k n(2) le by (auto simp: fun_eq_iff)
      moreover have "x + (0 + int k) = int n" using n(1) by simp
      ultimately show ?thesis
        using n(2) t k column_eq[OF n(2), of t "?H k" "0x0F" "glyph c ! k"]
        by (simp only:) (simp add: SSD1327_WIDTH_def font_byte_glyph)
    qed
  qed (simp add: FONT_CHAR_WIDTH_def)
  then have first: "for_each [0..FONT_CHAR_WIDTH - 1] ?body s = Some (s\<lparr>fb := grey_fb (?H 5)\<rparr>)" by simp
  have all: "set_text (x + 6) cs 0x0F (?H 5) = set_text x (c # cs) 0x0F G"
    unfolding set_text_def using text_bit_split[of x] by (auto simp: fun_eq_iff)
  have six: "x + FONT_CHAR_WIDTH + 1 = x + 6" by (simp add: FONT_CHAR_WIDTH_def)
  show ?case
    unfolding ssd1327_shifted.simps first six
    using Cons.IH[of "s\<lparr>fb := grey_fb (?H 5)\<rparr>" "?H 5" "x + 6"] all by simp
qed

lemma grey_render_eq:
  "ssd1327_render_text_to_fb text g s = Some (s\<lparr>fb := grey_fb (grey_text g (c_str text) 0)\<rparr>)"
proof -
  have "set_text 0 (c_str text) g (\<lambda>_ _. 0) = grey_text g (c_str text) 0"
    by (auto simp: set_text_def grey_text_def fun_eq_iff)
  then show ?thesis
    using grey_chars_eq[of "s\<lparr>fb := grey_fb (\<lambda>_ _. 0)\<rparr>" "\<lambda>_ _. 0" 0 g "c_str text"]
    by (simp add: ssd1327_render_text_to_fb_def blank_fb)
qed

lemma shift_eq:
  "ssd1327_shifted (c_str text) (- int k) (ssd1327_blank s) = Some (s\<lparr>fb := grey_fb (grey_text 0x0F (c_str text) k)\<rparr>)"
proof -
  have "nat (int x + int k) = k + x" for x by linarith
  then have "set_text (- int k) (c_str text) 0x0F (\<lambda>_ _. 0) = grey_text 0x0F (c_str text) k"
    by (auto simp: set_text_def grey_text_def fun_eq_iff)
  then show ?thesis
    using shifted_eq[of "s\<lparr>fb := grey_fb (\<lambda>_ _. 0)\<rparr>" "\<lambda>_ _. 0" "c_str text" "- int k"] by (simp add: blank_fb)
qed

section \<open>The driver interface\<close>

locale ssd1327_bus =
  fixes wr :: i2c_write
    and delay :: delay
  assumes wr_eq: "wr bs s = emit [I2c 0x3C bs] s"
    and delay_eq: "delay n s = emit [Delay n] s"
begin

lemma cmd_eq: "ssd1327_cmd wr b s = emit (grey_cmd_out b) s"
  by (simp add: ssd1327_cmd_def wr_eq grey_cmd_out_def)

lemma flush_eq:
  assumes "length (fb s) = 8192"
  shows "ssd1327_flush wr s = Some (emit (grey_flush_out (fb s)) s)"
proof -
  have rows: "[0..SSD1327_HEIGHT - 1] = map int [0..<128]"
    using upto_ints[of 128] by (simp add: SSD1327_HEIGHT_def)
  have stride: "SSD1327_STRIDE = 64" by (simp add: SSD1327_STRIDE_def SSD1327_WIDTH_def)
  have "for_each (map int [0..<128]) (\<lambda>row s. do { bs \<leftarrow> arr_slice (fb s) (row * 64) 64; Some (wr (0x40 # bs) s) }) t =
      Some (emit (concat (map (\<lambda>r. [I2c 0x3C (0x40 # take 64 (drop (r * 64) (fb s)))]) [0..<128])) t)"
    if "fb t = fb s" for t
    unfolding for_each_map
    by (rule for_each_emit) (use that assms in \<open>simp add: wr_eq nat_mult_distrib\<close>)
  from this[of "emit (concat (map grey_cmd_out [0x15, 0, 63, 0x75, 0, 127])) s"] show ?thesis
    by (simp add: ssd1327_flush_def rows stride cmd_eq grey_flush_out_def concat_map_singleton
        del: upt_rec_numeral)
qed

lemma page_eq:
  "ssd1327_page wr text g s = Some (emit (grey_events (Grey (grey_text g (c_str text) 0)))
     (s\<lparr>fb := grey_fb (grey_text g (c_str text) 0)\<rparr>))"
  by (simp add: ssd1327_page_def grey_render_eq flush_eq)

lemma frames_steps:
  assumes "\<And>k t. f (int k) t = Some (emit (concat (map grey_events (g k))) (t\<lparr>fb := h k\<rparr>))"
  shows "\<exists>t. for_each [0..int n - 1] f s = Some t \<and>
    out t = out s @ concat (map grey_events (concat (map g [0..<n])))"
proof -
  have "\<exists>t. for_each (map int ks) f s = Some t \<and> out t = out s @ concat (map grey_events (concat (map g ks)))"
    for ks s
  proof (induction ks arbitrary: s)
    case (Cons k ks)
    from Cons.IH[of "emit (concat (map grey_events (g k))) (s\<lparr>fb := h k\<rparr>)"] show ?case
      by (auto simp: assms)
  qed simp
  then show ?thesis unfolding upto_ints .
qed

lemma dim_eq:
  "fold (ssd1327_contrast wr delay d) vs s = emit (concat (map grey_events
     (concat (map (\<lambda>v. [Grey_cmd 0x81, Grey_cmd (of_int (v * 16)), Grey_wait (of_int d)]) vs)))) s"
  by (induction vs arbitrary: s) (simp_all add: ssd1327_contrast_def cmd_eq delay_eq)

lemma display_text_steps:
  assumes len: "c_strlen text \<le> 357913941"
  shows "\<exists>t. ssd1327_display_text pre wr delay text effect speed b f s = Some t \<and>
    out t = out s @ concat (map grey_events (grey_script text effect speed))"
proof -
  define sp where "sp = clamp_speed speed"
  define n where "n = 6 * c_strlen text"
  have px: "ssd1327_text_px text = Some (int n)"
    using len by (simp add: ssd1327_text_px_def FONT_CHAR_WIDTH_def n_def)
  have len': "c_strlen text < 2147483648" using len by simp
  consider (scroll) "c_streq effect ''SCROLL''"
    | (blink) "\<not> c_streq effect ''SCROLL''" "c_streq effect ''BLINK''"
    | (reverse) "\<not> c_streq effect ''SCROLL''" "\<not> c_streq effect ''BLINK''" "c_streq effect ''REVERSE''"
    | (fade) "\<not> c_streq effect ''SCROLL''" "\<not> c_streq effect ''BLINK''"
        "\<not> c_streq effect ''REVERSE''" "c_streq effect ''FADE''"
    | (other) "\<not> c_streq effect ''SCROLL''" "\<not> c_streq effect ''BLINK''"
        "\<not> c_streq effect ''REVERSE''" "\<not> c_streq effect ''FADE''"
    by blast
  then show ?thesis
  proof cases
    case scroll
    let ?f = "\<lambda>offset s. do { s \<leftarrow> ssd1327_page wr text (word_of_int offset) s; Some (delay (word_of_int sp) s) }"
    have "\<exists>t. for_each [0..int n - 1] ?f s = Some t \<and> out t = out s @ concat (map grey_events (concat (map
        (\<lambda>k. [Grey (grey_text (of_nat k) (c_str text) 0), Grey_wait (of_int sp)]) [0..<n])))"
      by (rule frames_steps[where h = "\<lambda>k. grey_fb (grey_text (of_nat k) (c_str text) 0)"])
        (simp add: page_eq delay_eq)
    with scroll px show ?thesis
      by (simp add: ssd1327_display_text_def grey_script_def Let_def sp_def n_def del: for_each.simps)
  next
    case blink
    have six: "replicate 6 x = map (\<lambda>_. x) [0..5]" for x :: "grey_step list"
      by (simp add: map_replicate_const)
    have "for_each [0..5] (\<lambda>i s. let s = ssd1327_cmd wr 0xAE (delay (word_of_int sp) s)
        in Some (ssd1327_cmd wr 0xAF (delay (word_of_int sp) s))) t =
      Some (emit (concat (map grey_events (concat (map (\<lambda>_. [Grey_wait (of_int sp), Grey_cmd 0xAE,
        Grey_wait (of_int sp), Grey_cmd 0xAF]) [0..5])))) t)" for t
      by (rule for_each_steps) (simp add: cmd_eq delay_eq Let_def)
    with blink show ?thesis
      by (simp add: ssd1327_display_text_def grey_script_def Let_def sp_def [symmetric] six page_eq
          del: for_each.simps)
  next
    case reverse
    obtain r where r: "reverse_text stack_rev text = Some r" "c_str r = rev (take 127 (c_str text))"
      using reverse_text_c_str[OF length_stack_rev len'] by blast
    with reverse show ?thesis
      by (simp add: ssd1327_display_text_def grey_script_def Let_def page_eq delay_eq)
  next
    case fade
    have down: "down_by 15 0 1 = rev [0..15]"
      using down_by_ints[of 16] upto_ints[of 16] by (simp add: rev_map)
    from fade show ?thesis
      by (simp add: ssd1327_display_text_def grey_script_def Let_def page_eq dim_eq cmd_eq down)
  next
    case other
    let ?f = "\<lambda>offset s. do { s \<leftarrow> ssd1327_shifted (c_str text) (- offset) (ssd1327_blank s);
        s \<leftarrow> ssd1327_flush wr s; Some (delay (word_of_int sp) s) }"
    have loop: "\<exists>t. for_each [0..int n - 1] ?f s0 = Some t \<and> out t = out s0 @ concat (map grey_events (concat (map
        (\<lambda>k. [Grey (grey_text 0x0F (c_str text) k), Grey_wait (of_int sp)]) [0..<n])))" for s0
      by (rule frames_steps[where h = "\<lambda>k. grey_fb (grey_text 0x0F (c_str text) k)"])
        (simp add: shift_eq flush_eq delay_eq)
    from loop[of s] loop[of "s\<lparr>fb := grey_fb (grey_text 0x0F (c_str text) 0)\<rparr>"] other px show ?thesis
      by (simp add: ssd1327_display_text_def grey_script_def Let_def sp_def n_def grey_render_eq del: for_each.simps)
  qed
qed

end

interpretation pico_ssd1327: ssd1327_bus pico_ssd1327_i2c sleep_ms
  by unfold_locales (simp_all add: pico_ssd1327_i2c_def hw_ops)

interpretation esp32_ssd1327: ssd1327_bus esp32_ssd1327_write vTaskDelay_ms
  by unfold_locales (simp_all add: esp32_ssd1327_write_def hw_ops)

section \<open>Properties\<close>

text \<open>
  C32: display_text of both SSD1327 drivers returns for every effect and every text of at most
  357913941 characters and sends exactly the pictures, commands and pauses of its script; the
  rendering the Pico does before its last loop is never sent. An unknown effect name scrolls the
  text to the left by one pixel per frame.
\<close>

theorem ssd1327_display_text_correct:
  assumes "c_strlen text \<le> 357913941"
  shows "list_all (\<lambda>display_text. \<exists>t. display_text text effect speed b fade s = Some t \<and>
      out t = out s @ concat (map grey_events (grey_script text effect speed)))
    [pico_ssd1327_display_text, esp32_ssd1327_display_text]"
  unfolding pico_ssd1327_display_text_def esp32_ssd1327_display_text_def
  using pico_ssd1327.display_text_steps[OF assms] esp32_ssd1327.display_text_steps[OF assms] by simp

definition grey_dev0 :: dev where
  "grey_dev0 = \<lparr>fb = replicate 8192 0, bmp = [], bmp_len = 0, busy_in = [], out = []\<rparr>"

theorem ssd1327_display_text_correct_witness:
  "\<exists>t. esp32_ssd1327_display_text ''A'' ''REVERSE'' 50 0 0 grey_dev0 = Some t \<and>
    out t = grey_flush_out (grey_fb (grey_text 0x0F ''A'' 0)) @ [Delay 50]"
  using ssd1327_display_text_correct[of "''A''" "''REVERSE''" 50 0 0 grey_dev0]
  by (auto simp: c_strlen_def grey_script_def c_streq_def c_str_def Let_def clamp_speed_def grey_dev0_def)

text \<open>
  The effect SCROLL does not scroll. Its loop passes the offset as the brightness: frame k
  shows the text at its start position in grey level k mod 16, on every frame, so that any two
  frames light the same pixels at most, and every sixteenth frame is dark.
\<close>

theorem ssd1327_scroll_stands_still:
  assumes "c_strlen text \<le> 357913941"
  shows "\<exists>t. pico_ssd1327_display_text text ''SCROLL'' speed b fade s = Some t \<and>
    out t = out s @ concat (map (\<lambda>k. grey_flush_out (grey_fb (grey_text (of_nat k) (c_str text) 0)) @
      [Delay (of_int (clamp_speed speed))]) [0..<6 * c_strlen text]) \<and>
    (\<forall>k i. i < 8192 \<longrightarrow> grey_fb (grey_text (of_nat k) (c_str text) 0) ! i =
      pair_byte (if text_bit (c_str text) (2 * (i mod 64)) (i div 64) \<and> i div 64 < 8 then of_nat (k mod 16) else 0)
        (if text_bit (c_str text) (2 * (i mod 64) + 1) (i div 64) \<and> i div 64 < 8 then of_nat (k mod 16) else 0))"
proof -
  have scroll: "grey_script text ''SCROLL'' speed = concat (map (\<lambda>k. [Grey (grey_text (of_nat k) (c_str text) 0),
      Grey_wait (of_int (clamp_speed speed))]) [0..<6 * c_strlen text])"
    by (simp add: grey_script_def c_streq_def Let_def)
  have trace: "concat (map grey_events (concat (map (\<lambda>k. [Grey (P k), Grey_wait n]) ks))) =
      concat (map (\<lambda>k. grey_flush_out (grey_fb (P k)) @ [Delay n]) ks)" for P n and ks :: "nat list"
    by (induction ks) simp_all
  have wrap: "pair_byte (if p then of_nat k else 0) (if q then of_nat k else 0) =
      pair_byte (if p then of_nat (k mod 16) else 0) (if q then of_nat (k mod 16) else 0)" for p q k
    using pair_byte_mod16(1)[of k] pair_byte_mod16(2)[where k = k] by (cases p; cases q) simp_all
  obtain t where "pico_ssd1327_display_text text ''SCROLL'' speed b fade s = Some t"
    "out t = out s @ concat (map grey_events (grey_script text ''SCROLL'' speed))"
    using pico_ssd1327.display_text_steps[OF assms, of True "''SCROLL''" speed b fade s]
    unfolding pico_ssd1327_display_text_def by blast
  moreover have "grey_fb (grey_text (of_nat k) cs 0) ! i =
      pair_byte (if text_bit cs (2 * (i mod 64)) (i div 64) \<and> i div 64 < 8 then of_nat (k mod 16) else 0)
        (if text_bit cs (2 * (i mod 64) + 1) (i div 64) \<and> i div 64 < 8 then of_nat (k mod 16) else 0)"
    if "i < 8192" for k i cs
  proof -
    have "2 * (i mod 64) < 128" "2 * (i mod 64) + 1 < 128" by linarith+
    then have "grey_fb (grey_text (of_nat k) cs 0) ! i =
      pair_byte (if text_bit cs (2 * (i mod 64)) (i div 64) \<and> i div 64 < 8 then of_nat k else 0)
        (if text_bit cs (2 * (i mod 64) + 1) (i div 64) \<and> i div 64 < 8 then of_nat k else 0)"
      using that by (simp add: nth_grey_fb grey_byte_def grey_text_def conj_commute)
    then show ?thesis by (rule trans) (rule wrap)
  qed
  ultimately show ?thesis
    unfolding scroll trace by blast
qed

theorem ssd1327_scroll_stands_still_witness:
  "\<exists>t. pico_ssd1327_display_text ''Hi'' ''SCROLL'' 50 0 0 grey_dev0 = Some t"
proof -
  have "c_strlen ''Hi'' \<le> 357913941" "c_strlen ''Hi'' = 2" by (simp_all add: c_strlen_def)
  with ssd1327_scroll_stands_still[of "''Hi''" 50 0 0 grey_dev0] show ?thesis by blast
qed

end
