(* ===== verification/Displays.thy ===== *)
theory Displays
  imports Messages Max7219 Oled_Drivers Pcd8544 Tft_Panels Ht16k33 Ssd1327
begin

text \<open>
  The builds of the firmware: one display driver is compiled in, chosen by name
  (DISPLAY_DRIVER_... of the build files), with the NUM_DEVICES of config.h. Ten drivers on the
  two platforms implement the display interface of Messages without further conditions. The
  eleventh, the SSD1680, waits for the busy line of its panel in display_text: its theory
  states when it returns.
\<close>

datatype driver =
  MAX7219 | SSD1306 | SSD1309 | SH1106 | PCD8544 | ST7735 | ST7789 | ILI9225 | HT16K33 | SSD1327

text \<open>The drivers are enumerable, so that a statement about all of them can be computed.\<close>

instantiation driver :: enum
begin

definition enum_driver :: "driver list" where
  "enum_driver = [MAX7219, SSD1306, SSD1309, SH1106, PCD8544, ST7735, ST7789, ILI9225, HT16K33, SSD1327]"

definition enum_all_driver :: "(driver \<Rightarrow> bool) \<Rightarrow> bool" where
  "enum_all_driver P = list_all P enum_class.enum"

definition enum_ex_driver :: "(driver \<Rightarrow> bool) \<Rightarrow> bool" where
  "enum_ex_driver P = list_ex P enum_class.enum"

instance
proof
  show univ: "UNIV = set (enum_class.enum :: driver list)"
  proof (intro equalityI subsetI)
    show "d \<in> set enum_class.enum" for d :: driver by (cases d) (simp_all add: enum_driver_def)
  qed simp
  show "distinct (enum_class.enum :: driver list)" by (simp add: enum_driver_def)
  show "enum_class.enum_all P = Ball UNIV P" for P :: "driver \<Rightarrow> bool"
    unfolding univ by (simp add: enum_all_driver_def list_all_iff)
  show "enum_class.enum_ex P = Bex UNIV P" for P :: "driver \<Rightarrow> bool"
    unfolding univ by (simp add: enum_ex_driver_def list_ex_iff)
qed

end

definition pico_NUM_DEVICES :: nat where "pico_NUM_DEVICES = 1"
definition esp32_NUM_DEVICES :: nat where "esp32_NUM_DEVICES = 4"

fun pico_display :: "driver \<Rightarrow> dev display" where
  "pico_display MAX7219 = pico_max7219_display_text pico_NUM_DEVICES"
| "pico_display SSD1306 = pico_ssd1306_display_text"
| "pico_display SSD1309 = pico_ssd1309_display_text"
| "pico_display SH1106 = pico_sh1106_display_text"
| "pico_display PCD8544 = pico_pcd8544_display_text"
| "pico_display ST7735 = pico_st7735_display_text"
| "pico_display ST7789 = pico_st7789_display_text"
| "pico_display ILI9225 = pico_ili9225_display_text"
| "pico_display HT16K33 = pico_ht16k33_display_text"
| "pico_display SSD1327 = pico_ssd1327_display_text"

fun esp32_display :: "pins \<Rightarrow> driver \<Rightarrow> dev display" where
  "esp32_display p MAX7219 = esp32_max7219_display_text esp32_NUM_DEVICES"
| "esp32_display p SSD1306 = esp32_ssd1306_display_text"
| "esp32_display p SSD1309 = esp32_ssd1309_display_text"
| "esp32_display p SH1106 = esp32_sh1106_display_text p"
| "esp32_display p PCD8544 = esp32_pcd8544_display_text p"
| "esp32_display p ST7735 = esp32_st7735_display_text p"
| "esp32_display p ST7789 = esp32_st7789_display_text p"
| "esp32_display p ILI9225 = esp32_ili9225_display_text p"
| "esp32_display p HT16K33 = esp32_ht16k33_display_text"
| "esp32_display p SSD1327 = esp32_ssd1327_display_text"

section \<open>Scripts and well-formed devices\<close>

fun driver_wf :: "nat \<Rightarrow> driver \<Rightarrow> dev \<Rightarrow> bool" where
  "driver_wf N MAX7219 d = max_wf N d"
| "driver_wf N SSD1306 d = oled_wf d"
| "driver_wf N SSD1309 d = oled_wf d"
| "driver_wf N SH1106 d = oled_wf d"
| "driver_wf N PCD8544 d = pcd_wf d"
| "driver_wf N HT16K33 d = (length (fb d) = 8)"
| "driver_wf N other d = True"

fun pico_sent :: "driver \<Rightarrow> string \<Rightarrow> string \<Rightarrow> int \<Rightarrow> int \<Rightarrow> int \<Rightarrow> hw list" where
  "pico_sent MAX7219 str e sp b f = concat (map (max_events pico_max_send pico_NUM_DEVICES (max_bitmap pico_NUM_DEVICES str))
     (max_script pico_NUM_DEVICES str e sp b f))"
| "pico_sent SSD1306 str e sp b f = oled_trace i2c_cmd_out pico_ssd1306_flush_out (oled_script str e sp)"
| "pico_sent SSD1309 str e sp b f = oled_trace i2c_cmd_out i2c_flush_out (oled_script str e sp)"
| "pico_sent SH1106 str e sp b f = oled_trace pico_sh1106_cmd_out pico_sh1106_flush_out (oled_script str e sp)"
| "pico_sent PCD8544 str e sp b f = pcd_trace pico_pcd8544_out (pcd_script str e sp)"
| "pico_sent ST7735 str e sp b f = tft_trace pico_st7735_fill_out (pico_cmd_out 0x28) (pico_cmd_out 0x29)
     (tft_script st7735_banner str e sp)"
| "pico_sent ST7789 str e sp b f = tft_trace pico_st7789_fill_out (pico_cmd_out 0x28) (pico_cmd_out 0x29)
     (tft_script st7789_banner str e sp)"
| "pico_sent ILI9225 str e sp b f = tft_trace pico_ili9225_fill_out (pico_reg_out 0x07 0x1013) (pico_reg_out 0x07 0x1017)
     (tft_script ili9225_banner str e sp)"
| "pico_sent HT16K33 str e sp b f = concat (map ht_events (ht_script str e sp))"
| "pico_sent SSD1327 str e sp b f = concat (map grey_events (grey_script str e sp))"

fun esp32_sent :: "pins \<Rightarrow> driver \<Rightarrow> string \<Rightarrow> string \<Rightarrow> int \<Rightarrow> int \<Rightarrow> int \<Rightarrow> hw list" where
  "esp32_sent p MAX7219 str e sp b f = concat (map (max_events esp32_max_send esp32_NUM_DEVICES (max_bitmap esp32_NUM_DEVICES str))
     (max_script esp32_NUM_DEVICES str e sp b f))"
| "esp32_sent p SSD1306 str e sp b f = oled_trace i2c_cmd_out i2c_flush_out (oled_script str e sp)"
| "esp32_sent p SSD1309 str e sp b f = oled_trace i2c_cmd_out i2c_flush_out (oled_script str e sp)"
| "esp32_sent p SH1106 str e sp b f = oled_trace (esp32_sh1106_cmd_out p) (esp32_sh1106_flush_out p) (oled_script str e sp)"
| "esp32_sent p PCD8544 str e sp b f = pcd_trace (esp32_pcd8544_out p) (pcd_script str e sp)"
| "esp32_sent p ST7735 str e sp b f = tft_trace (esp32_st7735_fill_out p) (esp32_st7735_off_out p) (esp32_st7735_on_out p str)
     (tft_script st7735_banner str e sp)"
| "esp32_sent p ST7789 str e sp b f = tft_trace (esp32_st7789_fill_out p) (esp32_cmd_out p 0x28) (esp32_cmd_out p 0x29)
     (tft_script st7789_banner str e sp)"
| "esp32_sent p ILI9225 str e sp b f = tft_trace (esp32_ili9225_fill_out p) (esp32_reg_out p 0x07 0x1013)
     (esp32_reg_out p 0x07 0x1017) (tft_script ili9225_banner str e sp)"
| "esp32_sent p HT16K33 str e sp b f = concat (map ht_events (ht_script str e sp))"
| "esp32_sent p SSD1327 str e sp b f = concat (map grey_events (grey_script str e sp))"

section \<open>Every driver implements the interface\<close>

lemmas tft_text_defs = pico_st7735_display_text_def esp32_st7735_display_text_def pico_st7789_display_text_def
  esp32_st7789_display_text_def pico_ili9225_display_text_def esp32_ili9225_display_text_def

lemma pico_driver_shows:
  assumes "driver_wf pico_NUM_DEVICES drv d" and "shows_limits str fade"
  shows "\<exists>d'. pico_display drv str effect speed blink fade d = Some d' \<and> driver_wf pico_NUM_DEVICES drv d' \<and>
    out d' = out d @ pico_sent drv str effect speed blink fade"
proof -
  have len: "c_strlen str \<le> 357913941" "c_strlen str < 2147483648" and fade: "fade \<le> 143165577"
    using assms(2) by (simp_all add: shows_limits_def)
  have N: "1 \<le> pico_NUM_DEVICES" by (simp add: pico_NUM_DEVICES_def)
  note wf = assms(1)
  show ?thesis
  proof (cases drv)
    case MAX7219
    then show ?thesis
      using wf pico_max.display_text_steps[OF N, of d effect fade str speed blink] fade
      by (simp add: pico_max7219_display_text_def)
  next
    case SSD1306
    then show ?thesis
      using wf pico_ssd1306.display_text_steps[of d effect str speed blink fade] len by (simp add: oled_text_defs)
  next
    case SSD1309
    then show ?thesis
      using wf pico_ssd1309.display_text_steps[of d effect str speed blink fade] len by (simp add: oled_text_defs)
  next
    case SH1106
    then show ?thesis
      using wf pico_sh1106.display_text_steps[of d effect str speed blink fade] len by (simp add: oled_text_defs)
  next
    case PCD8544
    then show ?thesis
      using wf pico_pcd.display_text_steps[of d effect str speed blink fade] len
      by (simp add: pico_pcd8544_display_text_def)
  next
    case ST7735
    then show ?thesis
      by (simp add: tft_text_defs pico_st7735.display_text_steps[OF len(1)])
  next
    case ST7789
    then show ?thesis
      by (simp add: tft_text_defs pico_st7789.display_text_steps[OF len(1)])
  next
    case ILI9225
    then show ?thesis
      by (simp add: tft_text_defs pico_ili9225.display_text_steps[OF len(1)])
  next
    case HT16K33
    then show ?thesis
      using wf pico_ht.display_text_steps[of effect str d speed blink fade] len
      by (simp add: pico_ht16k33_display_text_def)
  next
    case SSD1327
    then show ?thesis
      using pico_ssd1327.display_text_steps[OF len(1)] by (simp add: pico_ssd1327_display_text_def)
  qed
qed

lemma esp32_driver_shows:
  assumes "driver_wf esp32_NUM_DEVICES drv d" and "shows_limits str fade"
  shows "\<exists>d'. esp32_display p drv str effect speed blink fade d = Some d' \<and> driver_wf esp32_NUM_DEVICES drv d' \<and>
    out d' = out d @ esp32_sent p drv str effect speed blink fade"
proof -
  have len: "c_strlen str \<le> 357913941" "c_strlen str < 2147483648" and fade: "fade \<le> 143165577"
    using assms(2) by (simp_all add: shows_limits_def)
  have N: "1 \<le> esp32_NUM_DEVICES" by (simp add: esp32_NUM_DEVICES_def)
  note wf = assms(1)
  show ?thesis
  proof (cases drv)
    case MAX7219
    then show ?thesis
      using wf esp32_max.display_text_steps[OF N, of d effect fade str speed blink] fade
      by (simp add: esp32_max7219_display_text_def)
  next
    case SSD1306
    then show ?thesis
      using wf esp32_ssd1306.display_text_steps[of d effect str speed blink fade] len by (simp add: oled_text_defs)
  next
    case SSD1309
    then show ?thesis
      using wf esp32_ssd1309.display_text_steps[of d effect str speed blink fade] len by (simp add: oled_text_defs)
  next
    case SH1106
    then show ?thesis
      using wf esp32_sh1106.display_text_steps[of d effect str p speed blink fade] len by (simp add: oled_text_defs)
  next
    case PCD8544
    then show ?thesis
      using wf esp32_pcd.display_text_steps[of d effect str p speed blink fade] len
      by (simp add: esp32_pcd8544_display_text_def)
  next
    case ST7735
    then show ?thesis
      by (simp add: tft_text_defs esp32_st7735.display_text_steps[OF len(1)])
  next
    case ST7789
    then show ?thesis
      by (simp add: tft_text_defs esp32_st7789.display_text_steps[OF len(1)])
  next
    case ILI9225
    then show ?thesis
      by (simp add: tft_text_defs esp32_ili9225.display_text_steps[OF len(1)])
  next
    case HT16K33
    then show ?thesis
      using wf esp32_ht.display_text_steps[of effect str d speed blink fade] len
      by (simp add: esp32_ht16k33_display_text_def)
  next
    case SSD1327
    then show ?thesis
      using esp32_ssd1327.display_text_steps[OF len(1)] by (simp add: esp32_ssd1327_display_text_def)
  qed
qed

interpretation pico_build: display_driver "pico_display drv" "driver_wf pico_NUM_DEVICES drv" "pico_sent drv" for drv
  by unfold_locales (rule pico_driver_shows)

interpretation esp32_build: display_driver "esp32_display p drv" "driver_wf esp32_NUM_DEVICES drv" "esp32_sent p drv" for p drv
  by unfold_locales (rule esp32_driver_shows)

end
