(* ===== verification/Ws_Client.thy ===== *)
theory Ws_Client
  imports Displays
begin

text \<open>
  The WebSocket clients (firmware/pico/src/ws_client.c, firmware/esp32/main/ws_client.c): the
  event handlers, the Pico's connection loop, and the system of the Pico's node and the
  connections the network opens and closes, as a step relation.
\<close>

section \<open>Configuration (config.h)\<close>

record server_config =
  SERVER_HOST :: string
  SERVER_PORT :: nat
  ZONE_ID :: string
  RECONNECT_INTERVAL_MS :: nat

definition pico_config :: server_config where
  "pico_config = \<lparr>SERVER_HOST = ''192.168.1.100'', SERVER_PORT = 8080, ZONE_ID = ''pico-01'',
     RECONNECT_INTERVAL_MS = 5000\<rparr>"

definition esp32_config :: server_config where
  "esp32_config = \<lparr>SERVER_HOST = [], SERVER_PORT = 8080, ZONE_ID = ''esp32'', RECONNECT_INTERVAL_MS = 5000\<rparr>"

text \<open>snprintf(url, sizeof(url), "ws://%s:%d/ws/zone/%s", ...) into a buffer of 128 bytes.\<close>

definition ws_url :: "server_config \<Rightarrow> string" where
  "ws_url g = c_snprintf 128 (''ws://'' @ SERVER_HOST g @ '':'' @ dec_digits (SERVER_PORT g) @ ''/ws/zone/'' @ ZONE_ID g)"

section \<open>The Pico's client\<close>

text \<open>The events of a connection, and the calls of the loop to the network and the timer.\<close>

datatype ws_event = Ws_open | Ws_msg "char list" | Ws_close | Ws_other

datatype ws_call = Ws_connect string | Ws_poll nat | Ws_sleep nat

record ws =
  s_connected :: bool
  node_app :: app
  ws_calls :: "ws_call list"

definition ws_call :: "ws_call \<Rightarrow> ws \<Rightarrow> ws" where
  "ws_call c w = w\<lparr>ws_calls := ws_calls w @ [c]\<rparr>"

text \<open>The local array buf[512], as one run of the code finds it.\<close>

definition ws_buf :: "char list" where
  "ws_buf = replicate 512 NUL"

definition ws_handler ::
    "'j cjson_api \<Rightarrow> bool \<Rightarrow> dev display \<Rightarrow> ws_event \<Rightarrow> ws \<Rightarrow> ws option" where
  "ws_handler api picowota dt ev w =
    (case ev of
       Ws_open \<Rightarrow> Some (w\<lparr>s_connected := True\<rparr>)
     | Ws_msg frame \<Rightarrow> do {
         let len = int_of_size (length frame);
         let len = (if len \<ge> 512 then 512 - 1 else len);
         bytes \<leftarrow> arr_slice frame 0 len;
         buf \<leftarrow> arr_copy ws_buf 0 bytes;
         buf \<leftarrow> arr_set buf len NUL;
         a \<leftarrow> pico_parse_message api picowota dt buf (node_app w);
         Some (w\<lparr>node_app := a\<rparr>)
       }
     | Ws_close \<Rightarrow> Some (w\<lparr>s_connected := False\<rparr>)
     | Ws_other \<Rightarrow> Some w)"

text \<open>The head of the loop: without a connection, a message on the display and a new dial.\<close>

definition ws_head :: "dev display \<Rightarrow> ws \<Rightarrow> ws option" where
  "ws_head dt w =
    (if \<not> s_connected w then do {
       a \<leftarrow> on_screen dt ''Connecting...'' ''BLINK'' 500 500 8 (node_app w);
       let w = w\<lparr>node_app := a\<rparr>;
       let w = ws_call (Ws_connect (ws_url pico_config)) w;
       Some (ws_call (Ws_sleep (RECONNECT_INTERVAL_MS pico_config)) w)
     } else Some w)"

text \<open>One round of the endless loop, with the events its poll delivers, and any number of rounds.\<close>

definition ws_round ::
    "'j cjson_api \<Rightarrow> bool \<Rightarrow> dev display \<Rightarrow> ws_event list \<Rightarrow> ws \<Rightarrow> ws option" where
  "ws_round api picowota dt evs w = do {
     w \<leftarrow> ws_head dt w;
     w \<leftarrow> for_each evs (ws_handler api picowota dt) (ws_call (Ws_poll 10) w);
     Some (ws_call (Ws_sleep 1) w)
   }"

definition pico_ws_client_start ::
    "'j cjson_api \<Rightarrow> bool \<Rightarrow> dev display \<Rightarrow> ws_event list list \<Rightarrow> ws \<Rightarrow> ws option" where
  "pico_ws_client_start api picowota dt rounds w = for_each rounds (ws_round api picowota dt) w"

section \<open>The ESP32's client\<close>

text \<open>The memory from data_ptr on is the frame and whatever the receive buffer holds after it.\<close>

datatype esp_ws_event =
    WEBSOCKET_EVENT_DATA nat "char list"
  | WEBSOCKET_EVENT_DISCONNECTED
  | WEBSOCKET_EVENT_CONNECTED
  | WEBSOCKET_EVENT_OTHER

definition esp_log :: "string \<Rightarrow> string \<Rightarrow> app \<Rightarrow> app" where
  "esp_log tag msg s = s\<lparr>sys_calls := sys_calls s @ [Log_info tag msg]\<rparr>"

definition ws_event_handler ::
    "'j cjson_api \<Rightarrow> dev display \<Rightarrow> esp_ws_event \<Rightarrow> app \<Rightarrow> app option" where
  "ws_event_handler api dt ev s =
    (case ev of
       WEBSOCKET_EVENT_DATA op_code data_ptr \<Rightarrow>
         if op_code = 1 then esp32_parse_message api dt data_ptr s else Some s
     | WEBSOCKET_EVENT_DISCONNECTED \<Rightarrow> do {
         s \<leftarrow> on_screen dt ''Connecting...'' ''SCROLL'' 80 0 0 s;
         Some (esp_log ''ws'' ''disconnected'' s)
       }
     | WEBSOCKET_EVENT_CONNECTED \<Rightarrow> Some (esp_log ''ws'' ''connected'' s)
     | WEBSOCKET_EVENT_OTHER \<Rightarrow> Some s)"

text \<open>
  ws_client_start: the calls to the client library before the endless wait, in which the
  library calls the handler with each event.
\<close>

datatype esp_ws_call =
    Esp_websocket_client_init string nat
  | Esp_websocket_register_events
  | Esp_websocket_client_start

definition esp32_ws_client_setup :: "esp_ws_call list" where
  "esp32_ws_client_setup =
     [Esp_websocket_client_init (ws_url esp32_config) (RECONNECT_INTERVAL_MS esp32_config),
      Esp_websocket_register_events, Esp_websocket_client_start]"

definition esp32_ws_client_start ::
    "'j cjson_api \<Rightarrow> dev display \<Rightarrow> esp_ws_event list \<Rightarrow> app \<Rightarrow> app option" where
  "esp32_ws_client_start api dt evs s = for_each evs (ws_event_handler api dt) s"

section \<open>The Pico and its connections\<close>

text \<open>
  The connections in the order they were dialled. Polling tells in which part of the loop the
  node is. The network opens a connection it is dialling, delivers frames on an open one, and
  closes one at any time, also before it was open.
\<close>

datatype conn = Dialing | Opened | Closed

record system =
  node :: ws
  conns :: "conn list"
  polling :: bool

inductive ws_step :: "'j cjson_api \<Rightarrow> bool \<Rightarrow> dev display \<Rightarrow> system \<Rightarrow> system \<Rightarrow> bool"
  for api picowota dt where
  dial: "\<not> polling S \<Longrightarrow> \<not> s_connected (node S) \<Longrightarrow> ws_head dt (node S) = Some w \<Longrightarrow>
    ws_step api picowota dt S (S\<lparr>node := ws_call (Ws_poll 10) w, conns := conns S @ [Dialing], polling := True\<rparr>)"
| stay: "\<not> polling S \<Longrightarrow> s_connected (node S) \<Longrightarrow> ws_head dt (node S) = Some w \<Longrightarrow>
    ws_step api picowota dt S (S\<lparr>node := ws_call (Ws_poll 10) w, polling := True\<rparr>)"
| opens: "polling S \<Longrightarrow> i < length (conns S) \<Longrightarrow> conns S ! i = Dialing \<Longrightarrow>
    ws_handler api picowota dt Ws_open (node S) = Some w \<Longrightarrow>
    ws_step api picowota dt S (S\<lparr>node := w, conns := (conns S)[i := Opened]\<rparr>)"
| delivers: "polling S \<Longrightarrow> i < length (conns S) \<Longrightarrow> conns S ! i = Opened \<Longrightarrow>
    ws_handler api picowota dt (Ws_msg frame) (node S) = Some w \<Longrightarrow>
    ws_step api picowota dt S (S\<lparr>node := w\<rparr>)"
| closes: "polling S \<Longrightarrow> i < length (conns S) \<Longrightarrow> conns S ! i \<noteq> Closed \<Longrightarrow>
    ws_handler api picowota dt Ws_close (node S) = Some w \<Longrightarrow>
    ws_step api picowota dt S (S\<lparr>node := w, conns := (conns S)[i := Closed]\<rparr>)"
| again: "polling S \<Longrightarrow>
    ws_step api picowota dt S (S\<lparr>node := ws_call (Ws_sleep 1) (node S), polling := False\<rparr>)"

inductive ws_reach :: "'j cjson_api \<Rightarrow> bool \<Rightarrow> dev display \<Rightarrow> system \<Rightarrow> system \<Rightarrow> bool"
  for api picowota dt S where
  start: "ws_reach api picowota dt S S"
| more: "ws_reach api picowota dt S T \<Longrightarrow> ws_step api picowota dt T U \<Longrightarrow> ws_reach api picowota dt S U"

definition system_start :: "dev \<Rightarrow> system" where
  "system_start d = \<lparr>node = \<lparr>s_connected = False, node_app = \<lparr>screen = d, sys_calls = []\<rparr>, ws_calls = []\<rparr>,
     conns = [], polling = False\<rparr>"

section \<open>Lemmas\<close>

lemma c_str_cut [simp]: "c_str (s @ NUL # t) = c_str s"
  by (induction s) (simp_all add: c_str_def)

lemma parse_message_cut:
  "parse_message api ota dt (s @ NUL # t) = parse_message api ota dt s"
  by (simp add: fun_eq_iff parse_message_def)

lemma ws_buffer:
  assumes "length bytes < 512"
  shows "do { buf \<leftarrow> arr_copy ws_buf 0 bytes; arr_set buf (int (length bytes)) NUL } =
    Some (bytes @ NUL # replicate (511 - length bytes) NUL)"
proof -
  obtain k where "512 - length bytes = Suc k"
    using assms by (cases "512 - length bytes") auto
  moreover from this have "511 - length bytes = k" by simp
  ultimately show ?thesis
    using assms by (simp add: ws_buf_def list_update_append del: replicate.simps(2)) simp
qed

lemma ws_handler_msg:
  assumes "length frame < 512"
  shows "ws_handler api picowota dt (Ws_msg frame) w = do {
    a \<leftarrow> pico_parse_message api picowota dt frame (node_app w);
    Some (w\<lparr>node_app := a\<rparr>) }"
  using assms ws_buffer[of frame]
  by (auto simp: ws_handler_def Let_def pico_parse_message_def parse_message_cut split: bind_split)

lemma ws_handler_long:
  assumes "512 \<le> length frame" "length frame < 2147483648"
  shows "ws_handler api picowota dt (Ws_msg frame) w = ws_handler api picowota dt (Ws_msg (take 511 frame)) w"
proof -
  have "length (take 511 frame) = 511" "\<not> int (length frame) < 512" "int (length frame) \<ge> 512"
    using assms by simp_all
  then show ?thesis
    using assms by (simp add: ws_handler_def Let_def)
qed

lemma ws_handler_connected:
  "ws_handler api picowota dt ev w = Some v \<Longrightarrow>
     s_connected v = (case ev of Ws_open \<Rightarrow> True | Ws_close \<Rightarrow> False | _ \<Rightarrow> s_connected w) \<and> ws_calls v = ws_calls w"
  by (auto simp: ws_handler_def Let_def bind_eq_Some_conv split: ws_event.splits)

definition dials :: "ws \<Rightarrow> nat" where
  "dials w = length (filter (\<lambda>c. case c of Ws_connect _ \<Rightarrow> True | _ \<Rightarrow> False) (ws_calls w))"

lemma ws_head_dials:
  "ws_head dt w = Some v \<Longrightarrow> s_connected v = s_connected w \<and>
     dials v = dials w + (if s_connected w then 0 else 1)"
  by (auto simp: ws_head_def Let_def bind_eq_Some_conv dials_def ws_call_def split: if_splits)

lemma dials_call [simp]: "dials (ws_call (Ws_poll n) w) = dials w" "dials (ws_call (Ws_sleep n) w) = dials w"
  "s_connected (ws_call c w) = s_connected w" "node_app (ws_call c w) = node_app w"
  by (simp_all add: dials_def ws_call_def)

text \<open>What every reachable state of the node and its connections satisfies.\<close>

definition ws_inv :: "system \<Rightarrow> bool" where
  "ws_inv S \<longleftrightarrow> (s_connected (node S) \<longrightarrow> Opened \<in> set (conns S)) \<and> dials (node S) = length (conns S)"

lemma ws_step_inv:
  assumes "ws_step api picowota dt S T" and "ws_inv S"
  shows "ws_inv T"
  using assms
proof (cases rule: ws_step.cases)
  case (dial w)
  then show ?thesis using assms(2) ws_head_dials[of dt "node S" w] by (auto simp: ws_inv_def)
next
  case (stay w)
  then show ?thesis using assms(2) ws_head_dials[of dt "node S" w] by (auto simp: ws_inv_def)
next
  case (opens i w)
  then show ?thesis
    using assms(2) ws_handler_connected[OF opens(5)] by (auto simp: ws_inv_def dials_def set_update_memI)
next
  case (delivers i frame w)
  then show ?thesis
    using assms(2) ws_handler_connected[OF delivers(5)] by (auto simp: ws_inv_def dials_def)
next
  case (closes i w)
  then show ?thesis
    using assms(2) ws_handler_connected[OF closes(5)] by (auto simp: ws_inv_def dials_def)
next
  case again
  then show ?thesis using assms(2) by (auto simp: ws_inv_def)
qed

lemma ws_reach_inv:
  assumes "ws_reach api picowota dt S T" "ws_inv S"
  shows "ws_inv T"
  using assms by (induction rule: ws_reach.induct) (auto intro: ws_step_inv)

lemma ws_inv_start: "ws_inv (system_start d)"
  by (simp add: ws_inv_def system_start_def dials_def)

lemma ws_reach_trans:
  "ws_reach api picowota dt T U \<Longrightarrow> ws_reach api picowota dt S T \<Longrightarrow> ws_reach api picowota dt S U"
  by (induction rule: ws_reach.induct) (auto intro: ws_reach.more)

text \<open>Any number of connections opens while the node still dials.\<close>

lemma connecting_limits: "shows_limits ''Connecting...'' 8"
  by (simp add: shows_limits_def c_strlen_def)

lemma dial_step:
  assumes "\<not> polling S" "\<not> s_connected (node S)" "driver_wf pico_NUM_DEVICES drv (screen (node_app (node S)))"
  shows "\<exists>T. ws_step api picowota (pico_display drv) S T \<and> polling T \<and> \<not> s_connected (node T) \<and>
    driver_wf pico_NUM_DEVICES drv (screen (node_app (node T))) \<and> conns T = conns S @ [Dialing]"
proof -
  obtain a where a: "on_screen (pico_display drv) ''Connecting...'' ''BLINK'' 500 500 8 (node_app (node S)) = Some a"
    "driver_wf pico_NUM_DEVICES drv (screen a)"
    using pico_build.on_screen_shows[OF assms(3) connecting_limits, of "''BLINK''" 500 500] by blast
  define w where "w = ws_call (Ws_sleep (RECONNECT_INTERVAL_MS pico_config))
    (ws_call (Ws_connect (ws_url pico_config)) ((node S)\<lparr>node_app := a\<rparr>))"
  have w: "ws_head (pico_display drv) (node S) = Some w"
    using assms(2) a(1) by (simp add: ws_head_def w_def Let_def)
  show ?thesis
    using ws_step.dial[OF assms(1,2) w, of api picowota] a(2) assms(2)
    by (auto simp: w_def)
qed

lemma dial_many:
  assumes "driver_wf pico_NUM_DEVICES drv d"
  shows "\<exists>S. ws_reach api picowota (pico_display drv) (system_start d) S \<and> \<not> polling S \<and> \<not> s_connected (node S) \<and>
    driver_wf pico_NUM_DEVICES drv (screen (node_app (node S))) \<and> conns S = replicate n Dialing"
proof (induction n)
  case 0
  show ?case
    using assms by (intro exI[of _ "system_start d"]) (simp add: ws_reach.start, simp add: system_start_def)
next
  case (Suc n)
  then obtain S where S: "ws_reach api picowota (pico_display drv) (system_start d) S" "\<not> polling S"
    "\<not> s_connected (node S)" "driver_wf pico_NUM_DEVICES drv (screen (node_app (node S)))" "conns S = replicate n Dialing"
    by blast
  obtain T where T: "ws_step api picowota (pico_display drv) S T" "polling T" "\<not> s_connected (node T)"
    "driver_wf pico_NUM_DEVICES drv (screen (node_app (node T)))" "conns T = conns S @ [Dialing]"
    using dial_step[OF S(2-4)] by blast
  let ?U = "T\<lparr>node := ws_call (Ws_sleep 1) (node T), polling := False\<rparr>"
  have "ws_reach api picowota (pico_display drv) (system_start d) ?U"
    by (rule ws_reach.more[OF ws_reach.more[OF S(1) T(1)] ws_step.again[OF T(2)]])
  moreover have "conns ?U = replicate (Suc n) Dialing"
    using T(5) S(5) by (simp add: replicate_append_same)
  ultimately show ?case
    using T(3,4) by (intro exI[of _ ?U]) simp
qed

lemma open_many:
  assumes "polling S" "conns S = replicate k Opened @ replicate m Dialing"
  shows "\<exists>T. ws_reach api picowota dt S T \<and> conns T = replicate (k + m) Opened"
  using assms
proof (induction m arbitrary: k S)
  case 0
  then show ?case by (auto intro: ws_reach.start)
next
  case (Suc m)
  let ?T = "S\<lparr>node := (node S)\<lparr>s_connected := True\<rparr>, conns := (conns S)[k := Opened]\<rparr>"
  have "ws_step api picowota dt S ?T"
    by (rule ws_step.opens[OF Suc.prems(1)]) (simp_all add: Suc.prems(2) nth_append ws_handler_def)
  then have step: "ws_reach api picowota dt S ?T"
    by (rule ws_reach.more[OF ws_reach.start])
  have "conns ?T = replicate (Suc k) Opened @ replicate m Dialing"
    by (simp add: Suc.prems(2) list_update_append replicate_append_same flip: replicate_Suc)
      (simp add: replicate_app_Cons_same)
  then obtain U where "ws_reach api picowota dt ?T U" "conns U = replicate (Suc k + m) Opened"
    using Suc.IH[of ?T "Suc k"] Suc.prems(1) by auto
  then show ?case
    using ws_reach_trans[OF _ step, of U] by auto
qed

section \<open>Properties\<close>

text \<open>A JSON library for one text, to instantiate the parameter.\<close>

definition one_text_api :: "string \<Rightarrow> (string \<Rightarrow> jvalue option) \<Rightarrow> jvalue option cjson_api" where
  "one_text_api src members = \<lparr>cJSON_Parse = (\<lambda>d. if d = src then Some None else None),
     cJSON_GetObjectItemCaseSensitive = (\<lambda>obj k. map_option Some (members k)),
     is_string_item = (\<lambda>j. case j of Some (JString _) \<Rightarrow> True | _ \<Rightarrow> False),
     is_number_item = (\<lambda>j. case j of Some (JNumber _) \<Rightarrow> True | _ \<Rightarrow> False),
     valuestring = (\<lambda>j. case j of Some (JString s) \<Rightarrow> s | _ \<Rightarrow> []),
     valuedouble = (\<lambda>j. case j of Some (JNumber x) \<Rightarrow> x | _ \<Rightarrow> Not_finite)\<rparr>"

lemma one_text_parses: "parses (one_text_api src members) src members"
  by (auto simp: parses_def one_text_api_def item_is_def split: option.splits jvalue.splits)


definition hi_members :: "string \<Rightarrow> jvalue option" where
  "hi_members = [''text'' \<mapsto> JString ''Hi'', ''speed'' \<mapsto> JNumber (Finite (601/4))]"

definition hi_frame :: string where
  \<open>hi_frame = ''{"text":"Hi","speed":150.25}''\<close>


text \<open>
  The message that asks for an update never reaches the display. The Pico requests a
  reboot, into the boot loader where picowota is built in; the ESP32 writes a line of log.
\<close>

theorem ota_message_handled:
  assumes "parses api (c_str frame) members" and "members ''command'' = Some (JString ''ota'')" and "length frame < 512"
  shows "ws_handler api picowota (pico_display drv) (Ws_msg frame) w = Some (w\<lparr>node_app :=
      (node_app w)\<lparr>sys_calls := sys_calls (node_app w) @
        [if picowota then Picowota_reboot True else Watchdog_reboot 0 0 10]\<rparr>\<rparr>) \<and>
    (\<exists>msg. ws_event_handler api (esp32_display p drv) (WEBSOCKET_EVENT_DATA 1 (frame @ NUL # stale)) a =
      Some (a\<lparr>sys_calls := sys_calls a @ [Log_info ''ota'' msg]\<rparr>))"
proof -
  have m: "message_of members = Some Ota"
    using assms(2) by (simp add: message_of_def text_field_def c_streq_def)
  have "\<exists>msg. esp32_ota_trigger a = a\<lparr>sys_calls := sys_calls a @ [Log_info ''ota'' msg]\<rparr>"
    unfolding esp32_ota_trigger_def by blast
  then show ?thesis
    by (simp add: ws_handler_msg[OF assms(3)] pico_parse_message_def pico_build.message_ota[OF assms(1) m] pico_ota_trigger_def
        ws_event_handler_def esp32_parse_message_def parse_message_cut esp32_build.message_ota[OF assms(1) m])
qed

definition ota_frame :: string where
  \<open>ota_frame = ''{"command":"ota"}''\<close>

theorem ota_message_handled_witness:
  "ws_handler (one_text_api ota_frame [''command'' \<mapsto> JString ''ota'']) False (pico_display SSD1306) (Ws_msg ota_frame)
      (node (system_start (max_dev0 1))) = Some ((node (system_start (max_dev0 1)))\<lparr>node_app :=
        \<lparr>screen = max_dev0 1, sys_calls = [Watchdog_reboot 0 0 10]\<rparr>\<rparr>)"
proof -
  have p: "parses (one_text_api ota_frame [''command'' \<mapsto> JString ''ota'']) (c_str ota_frame) [''command'' \<mapsto> JString ''ota'']"
    using one_text_parses[of ota_frame "[''command'' \<mapsto> JString ''ota'']"] by (simp add: ota_frame_def)
  show ?thesis
    using ota_message_handled[OF p, of False SSD1306 "node (system_start (max_dev0 1))"]
    by (simp add: ota_frame_def system_start_def)
qed

text \<open>
  A frame of 512 bytes or more is cut to its first 511 bytes without a notice: what the
  JSON parser does not accept of them, as it does not accept an unfinished object, is dropped
  and nothing is shown.
\<close>

theorem ws_long_frame_dropped:
  assumes "512 \<le> length frame" "length frame < 2147483648" and "cJSON_Parse api (c_str (take 511 frame)) = None"
  shows "ws_handler api picowota dt (Ws_msg frame) w = Some w"
  using ws_handler_msg[of "take 511 frame" api picowota dt w] assms
  by (simp add: ws_handler_long pico_parse_message_def parse_message_invalid)

theorem ws_long_frame_dropped_witness:
  "ws_handler (one_text_api (replicate 600 CHR ''x'') hi_members) False (pico_display MAX7219)
     (Ws_msg (replicate 600 CHR ''x'')) (node (system_start (max_dev0 1))) = Some (node (system_start (max_dev0 1)))"
  by (rule ws_long_frame_dropped) (simp_all add: one_text_api_def c_str_id replicate_eq_replicate del: replicate.simps)



text \<open>
  C39: the node dials again in every round until a connection has opened, without closing or
  counting the ones it is still dialling: for every n a state is reachable in which n
  connections are open at once, and each of them delivers every message of the server.
\<close>

theorem ws_many_connections:
  assumes "driver_wf pico_NUM_DEVICES drv d" and "1 \<le> n"
  shows "\<exists>S. ws_reach api picowota (pico_display drv) (system_start d) S \<and> conns S = replicate n Opened"
proof -
  obtain m where n: "n = Suc m" using assms(2) by (cases n) auto
  obtain S where S: "ws_reach api picowota (pico_display drv) (system_start d) S" "\<not> polling S"
    "\<not> s_connected (node S)" "driver_wf pico_NUM_DEVICES drv (screen (node_app (node S)))" "conns S = replicate m Dialing"
    using dial_many[OF assms(1)] by blast
  obtain T where T: "ws_step api picowota (pico_display drv) S T" "polling T" "conns T = replicate n Dialing"
    using dial_step[OF S(2-4), of api picowota] S(5) by (auto simp: n replicate_append_same)
  have "ws_reach api picowota (pico_display drv) (system_start d) T"
    by (rule ws_reach.more[OF S(1) T(1)])
  then show ?thesis
    using open_many[OF T(2), of 0 n api picowota "pico_display drv"] T(3) by (auto intro: ws_reach_trans)
qed

theorem ws_many_connections_witness:
  "\<exists>S. ws_reach (one_text_api [] (\<lambda>_. None)) False (pico_display MAX7219) (system_start (max_dev0 1)) S \<and>
    conns S = replicate 3 Opened"
  by (rule ws_many_connections) (simp_all add: pico_NUM_DEVICES_def)

end
