(* ===== verification/Ws_Link.thy ===== *)
theory Ws_Link
  imports Mongoose_Conn Mongoose_Url Ws_Client
begin

text \<open>
  The Pico's client on its connection: the events mg_ws_cb reports are those ws_handler gets,
  and the URL the client dials is read by the library as host, port and path. The theorems
  follow the server's messages from the packets of the network to parse_message.
\<close>

section \<open>The events of a connection\<close>

fun client_event :: "mg_event \<Rightarrow> ws_event" where
  "client_event EV_WS_OPEN = Ws_open"
| "client_event (EV_WS_MSG flags data) = Ws_msg (byte_chars data)"
| "client_event ev = Ws_other"

text \<open>The events since the connection had n of them, for the handler of the client.\<close>

definition handle_events ::
    "'j cjson_api \<Rightarrow> bool \<Rightarrow> dev display \<Rightarrow> nat \<Rightarrow> mg_connection \<Rightarrow> ws \<Rightarrow> ws option" where
  "handle_events api picowota dt n c w =
     for_each (map client_event (drop n (c_events c))) (ws_handler api picowota dt) w"

lemma handle_texts:
  assumes "list_all (\<lambda>t. length t < 512) ts" "for_each ts (pico_parse_message api picowota dt) (node_app w) = Some a"
  shows "for_each (map client_event (map (EV_WS_MSG 129) (map char_bytes ts))) (ws_handler api picowota dt) w =
    Some (w\<lparr>node_app := a\<rparr>)"
  using assms
proof (induction ts arbitrary: w)
  case Nil
  then show ?case by simp
next
  case (Cons t ts)
  then obtain b where b: "pico_parse_message api picowota dt t (node_app w) = Some b"
    "for_each ts (pico_parse_message api picowota dt) b = Some a"
    by (auto simp: bind_eq_Some_conv)
  have "for_each (map client_event (map (EV_WS_MSG 129) (map char_bytes ts))) (ws_handler api picowota dt) (w\<lparr>node_app := b\<rparr>) =
      Some (w\<lparr>node_app := b, node_app := a\<rparr>)"
    using Cons.IH[of "w\<lparr>node_app := b\<rparr>"] Cons.prems(1) b(2) by simp
  then show ?case
    using Cons.prems(1) b(1) by (simp add: ws_handler_msg)
qed


definition open_conn :: mg_connection where
  "open_conn = (fresh_conn True)\<lparr>is_websocket := True\<rparr>"

abbreviation ota_api :: "jvalue option cjson_api" where
  "ota_api \<equiv> one_text_api ota_frame [''command'' \<mapsto> JString ''ota'']"

abbreviation new_node :: ws where
  "new_node \<equiv> node (system_start (max_dev0 1))"

lemma ota_parsed:
  "pico_parse_message ota_api False (pico_display drv) ota_frame s =
    Some (s\<lparr>sys_calls := sys_calls s @ [Watchdog_reboot 0 0 10]\<rparr>)"
proof -
  have p: "parses ota_api (c_str ota_frame) [''command'' \<mapsto> JString ''ota'']"
    using one_text_parses[of ota_frame "[''command'' \<mapsto> JString ''ota'']"] by (simp add: ota_frame_def)
  have m: "message_of [''command'' \<mapsto> JString ''ota''] = Some Ota"
    by (simp add: message_of_def text_field_def c_streq_def)
  show ?thesis
    by (simp add: pico_parse_message_def pico_build.message_ota[OF p m] pico_ota_trigger_def)
qed

lemma length_ota_frame: "length ota_frame = 17"
  by (simp add: ota_frame_def)


section \<open>The handshake\<close>

text \<open>
  C35: After an answer that is not 101 the library reports an error, and still reads the bytes
  after its head as frames: a message in them is shown although there is no connection.
\<close>

theorem refused_handshake_shows:
  assumes "io_ok (c_recv c)" "pfn_data c = 0" "is_client c" "\<not> is_websocket c"
    and "io_data (c_recv c) = pre @ text_frame (char_bytes t)"
    and "mg_http_get_request_len (byte_chars (io_data (c_recv c))) = int (length pre)" "pre \<noteq> []"
    and "sub (byte_chars (io_data (c_recv c))) 9 12 \<noteq> ''101''"
    and "length t < 512" "pico_parse_message api picowota dt t (node_app w) = Some a"
  shows "\<exists>d. mg_ws_cb net c = Some d \<and> \<not> is_websocket d \<and> is_closing d \<and>
    handle_events api picowota dt (length (c_events c)) d w = Some (w\<lparr>node_app := a\<rparr>)"
proof -
  let ?e = "mg_error ''ws handshake error'' c"
  have "io_ok (c_recv ?e)" "0 + length pre \<le> io_len (c_recv ?e)"
    using assms(1,5) length_io_data[OF assms(1)] by (simp_all add: mg_error_def mg_call_def)
  from recv_del_ok[OF this] obtain io where io: "recv_del 0 (length pre) ?e = Some (?e\<lparr>c_recv := io\<rparr>)" "io_ok io"
    "io_data io = text_frame (char_bytes t)"
    using assms(5) by (auto simp: mg_error_def mg_call_def)
  have hs: "mg_ws_client_handshake c = Some (False, ?e\<lparr>c_recv := io\<rparr>)"
    using assms(6,7,8) io(1) by (simp add: mg_ws_client_handshake_def)
  have "\<exists>io2. ws_loop net 0 (?e\<lparr>c_recv := io\<rparr>) =
      Some (?e\<lparr>c_recv := io2, c_events := c_events ?e @ map (EV_WS_MSG 129) [char_bytes t]\<rparr>)"
    using ws_loop_texts[of "?e\<lparr>c_recv := io\<rparr>" "[char_bytes t]" "[]" net] io assms(2,9)
    by (auto simp: mg_error_def mg_call_def small_def ws_process_def ws_header_def)
  then obtain io2 where l: "ws_loop net 0 (?e\<lparr>c_recv := io\<rparr>) =
      Some (?e\<lparr>c_recv := io2, c_events := c_events ?e @ map (EV_WS_MSG 129) [char_bytes t]\<rparr>)" by blast
  have "mg_ws_cb net c = Some (?e\<lparr>c_recv := io2, c_events := c_events ?e @ map (EV_WS_MSG 129) [char_bytes t]\<rparr>)"
    using hs l assms(2-4) by (simp add: mg_ws_cb_def)
  then show ?thesis
    using handle_texts[of "[t]" api picowota dt w a] assms(4,9,10)
    by (auto simp: handle_events_def mg_error_def mg_call_def ws_handler_def[of _ _ _ Ws_other])
qed

definition refused :: "u8 list" where
  "refused = char_bytes (''HTTP/1.1 404 Not Found'' @ CRLF @ CRLF)"

definition refused_conn :: mg_connection where
  "refused_conn = (fresh_conn True)\<lparr>c_recv := \<lparr>io_buf = refused @ text_frame (char_bytes ota_frame),
     io_len = length (refused @ text_frame (char_bytes ota_frame)), io_align = 512\<rparr>\<rparr>"

theorem refused_handshake_shows_witness:
  "\<exists>d. mg_ws_cb good_net refused_conn = Some d \<and> \<not> is_websocket d \<and> is_closing d \<and>
    handle_events ota_api False (pico_display SSD1306) (length (c_events refused_conn)) d new_node =
      Some (new_node\<lparr>node_app := (node_app new_node)\<lparr>sys_calls := sys_calls (node_app new_node) @ [Watchdog_reboot 0 0 10]\<rparr>\<rparr>)"
proof (rule refused_handshake_shows[where pre = refused and t = ota_frame])
  show "mg_http_get_request_len (byte_chars (io_data (c_recv refused_conn))) = int (length refused)" by code_simp
  show "sub (byte_chars (io_data (c_recv refused_conn))) 9 12 \<noteq> ''101''" by code_simp
  show "length ota_frame < 512" by code_simp
qed (simp_all add: refused_conn_def fresh_conn_def io_ok_def io_data_def ota_parsed refused_def char_bytes_def del: pico_display.simps)

text \<open>
  The test of the answer's head takes -1 for success: an answer with the status 101 whose
  headers are malformed opens the connection.
\<close>

theorem malformed_handshake_opens:
  assumes "io_ok (c_recv c)" "byte_chars (io_data (c_recv c)) = s"
    and "mg_http_get_request_len s = int n" "15 \<le> n" "sub s 9 12 = ''101''" "mg_http_parse s = Some (-1, None)"
  shows "\<exists>d. mg_ws_client_handshake c = Some (False, d) \<and> is_websocket d \<and> c_events d = c_events c @ [EV_WS_OPEN]"
proof -
  let ?e = "mg_call EV_WS_OPEN (c\<lparr>is_websocket := True\<rparr>)"
  have "n \<le> length s" using request_len_from_bounds[of s 0 "int n"] assms(3,4) by (simp add: mg_http_get_request_len_def)
  moreover have "length s = io_len (c_recv c)" using assms(1,2) by (auto simp: byte_chars_def)
  ultimately have "io_ok (c_recv ?e)" "0 + n \<le> io_len (c_recv ?e)"
    using assms(1) by (simp_all add: mg_call_def)
  from recv_del_ok[OF this] obtain io where "recv_del 0 n ?e = Some (?e\<lparr>c_recv := io\<rparr>)" by blast
  then show ?thesis using assms(2-6) by (simp add: mg_ws_client_handshake_def mg_call_def)
qed

definition malformed :: string where
  "malformed = ''HTTP/1.1 101 X'' @ CRLF @ '': x'' @ CRLF @ CRLF"

definition malformed_conn :: mg_connection where
  "malformed_conn = (fresh_conn True)\<lparr>c_recv := \<lparr>io_buf = char_bytes malformed, io_len = length malformed, io_align = 512\<rparr>\<rparr>"

theorem malformed_handshake_opens_witness:
  "\<exists>d. mg_ws_client_handshake malformed_conn = Some (False, d) \<and> is_websocket d \<and>
    c_events d = c_events malformed_conn @ [EV_WS_OPEN]"
proof (rule malformed_handshake_opens[where s = malformed and n = 23])
  show "mg_http_get_request_len malformed = int 23" by code_simp
  show "sub malformed 9 12 = ''101''" by code_simp
  show "mg_http_parse malformed = Some (-1, None)" by code_simp
qed (simp_all add: malformed_conn_def fresh_conn_def io_ok_def io_data_def)

section \<open>The URL\<close>

text \<open>
  The URL of a configuration is read by the library as its host, its port and the path of
  its zone, and not as a TLS one.
\<close>

theorem ws_url_parts:
  assumes "plain_host (SERVER_HOST g)" "SERVER_HOST g \<noteq> []" "SERVER_PORT g < 65536" "CHR '']'' \<notin> set (ZONE_ID g)"
    and "NUL \<notin> set (SERVER_HOST g @ ZONE_ID g)"
    and "length (SERVER_HOST g) + length (dec_digits (SERVER_PORT g)) + length (ZONE_ID g) < 112"
  shows "mg_url_host (ws_url g) = Some (SERVER_HOST g) \<and> mg_url_port (ws_url g) = word_of_nat (SERVER_PORT g) \<and>
    mg_url_uri (ws_url g) = ''/ws/zone/'' @ ZONE_ID g \<and> \<not> mg_url_is_ssl (ws_url g)"
proof -
  let ?h = "SERVER_HOST g" and ?p = "dec_digits (SERVER_PORT g)"
  define r where "r = ''/ws/zone/'' @ ZONE_ID g"
  have nul: "NUL \<notin> set ?p"
    using is_dec_digits[of "SERVER_PORT g"] by (auto simp: list_all_iff is_dec_def)
  have url: "ws_url g = ''ws://'' @ ?h @ '':'' @ ?p @ r"
    using assms(6) by (simp add: ws_url_def c_snprintf_def r_def)
  have c: "c_str (ws_url g) = ''ws://'' @ ?h @ '':'' @ ?p @ r"
    unfolding url using assms(5) nul by (intro c_str_id) (auto simp: r_def)
  have u: "urlparse (ws_url g) = \<lparr>url_user = 0, url_pass = 0, url_host = 5, url_port = 6 + length ?h,
      url_uri = 6 + length ?h + length ?p, url_end = 7 + length ?h + length ?p + length (''ws/zone/'' @ ZONE_ID g)\<rparr>"
    using urlparse_ws[OF assms(1,2) dec_digits_plain(1), of "''ws/zone/'' @ ZONE_ID g" "SERVER_PORT g"] assms(4,5) nul
    by (simp add: url r_def)
  have a: "c_str (ws_url g) = (''ws://'' @ ?h) @ '':'' @ ?p @ r" "c_str (ws_url g) = (''ws://'' @ ?h @ '':'') @ ?p @ r"
    "c_str (ws_url g) = (''ws://'' @ ?h @ '':'' @ ?p) @ r" "c_str (ws_url g) = ''ws://'' @ (?h @ '':'' @ ?p @ r)"
    by (simp_all add: c)
  have "drop 5 (c_str (ws_url g)) = ?h @ '':'' @ ?p @ r" unfolding a(4) by simp
  then have host: "mg_url_host (ws_url g) = Some ?h"
    by (simp add: mg_url_host_def url_part_def u Let_def c arr_slice_def)
  have "drop (6 + length ?h) (c_str (ws_url g)) = ?p @ r" by (simp add: c numeral_eq_Suc)
  then have port: "mg_url_port (ws_url g) = word_of_nat (SERVER_PORT g)"
    using c_atoi_digits[of "SERVER_PORT g" r] assms(3,5)
    by (simp add: mg_url_port_def u Let_def r_def is_dec_def)
  have "drop (6 + length ?h + length ?p) (c_str (ws_url g)) = r" by (simp add: c numeral_eq_Suc)
  then have uri: "mg_url_uri (ws_url g) = r"
    by (simp add: mg_url_uri_def u Let_def)
  have "\<not> mg_url_is_ssl (ws_url g)"
    by (simp add: mg_url_is_ssl_def starts_with_def c)
  with host port uri show ?thesis by (simp add: r_def)
qed

theorem ws_url_parts_witness:
  "mg_url_host (ws_url pico_config) = Some ''192.168.1.100'' \<and> mg_url_port (ws_url pico_config) = 8080 \<and>
    mg_url_uri (ws_url pico_config) = ''/ws/zone/pico-01'' \<and> \<not> mg_url_is_ssl (ws_url pico_config)"
proof -
  have "plain_host (SERVER_HOST pico_config)" "SERVER_HOST pico_config \<noteq> []" "SERVER_PORT pico_config < 65536"
    "CHR '']'' \<notin> set (ZONE_ID pico_config)" "NUL \<notin> set (SERVER_HOST pico_config @ ZONE_ID pico_config)"
    "length (SERVER_HOST pico_config) + length (dec_digits (SERVER_PORT pico_config)) + length (ZONE_ID pico_config) < 112"
    by (simp_all add: pico_config_def plain_host_def dec_digits.simps)
  from ws_url_parts[OF this] show ?thesis by (simp add: pico_config_def)
qed

end
