(* ===== verification/Mongoose_Fmt.thy ===== *)
theory Mongoose_Fmt
  imports Mongoose_Iobuf C_Library
begin

text \<open>
  The formatted output of the Mongoose library (src/fmt.c and src/printf.c in
  firmware/pico/lib/mongoose/mongoose.c): the interpreter of format strings, the conversion of
  numbers, and the output functions that put the characters into a buffer. The characters a
  format gives are a list; the output function is applied to each of them.
\<close>

section \<open>Numbers\<close>

text \<open>
  mg_lld: the digits from the least significant one, reversed in place, and the sign. The
  negation of the least 64-bit number is undefined.
\<close>

definition letters :: string where
  "letters = ''0123456789abcdef''"

function lld_digits :: "nat \<Rightarrow> nat \<Rightarrow> string" where
  "lld_digits base v =
     (if v = 0 \<or> base < 2 then [] else (letters ! (v mod base)) # lld_digits base (v div base))"
  by pat_completeness auto
termination by (relation "measure snd") auto

declare lld_digits.simps [simp del]

definition lld_reverse :: "string \<Rightarrow> string option" where
  "lld_reverse buf = for_each [0..<length buf div 2] (\<lambda>i buf. do {
     t \<leftarrow> arr_get buf (int i);
     u \<leftarrow> arr_get buf (int (length buf) - int i - 1);
     buf \<leftarrow> arr_set buf (int i) u;
     arr_set buf (int (length buf) - int i - 1) t }) buf"

definition mg_lld :: "int \<Rightarrow> bool \<Rightarrow> bool \<Rightarrow> string option" where
  "mg_lld val is_signed is_hex =
    (if is_signed \<and> val = - (2 ^ 63) then None
     else do {
       let v = nat (if is_signed \<and> val < 0 then - val else val mod 2 ^ 64);
       buf \<leftarrow> lld_reverse (lld_digits (if is_hex then 16 else 10) v);
       let buf = (if val = 0 then buf @ ''0'' else buf);
       Some ((if is_signed \<and> val < 0 then ''-'' else []) @ buf)
     })"

section \<open>Formats\<close>

text \<open>
  The arguments: an int, a long, a long long, a string (None is the null pointer), a character,
  and for %m a function that prints the string given. Floating-point arguments have no model.
\<close>

datatype fmt_arg =
    A_int int
  | A_long int
  | A_llong int
  | A_str "string option"
  | A_char char
  | A_printer string

record fmt_opts =
  alt :: bool
  minus :: bool
  zero :: bool
  width :: nat
  prec :: nat
  is_long :: nat

definition NO_PREC :: nat where "NO_PREC = 2 ^ 32 - 1"

text \<open>if (c == flag) c = fmt[++i]\<close>

definition fmt_flag :: "char \<Rightarrow> string \<Rightarrow> bool \<times> string" where
  "fmt_flag c s = (if s \<noteq> [] \<and> hd s = c then (True, tl s) else (False, s))"

text \<open>while (is_digit(c)) w *= 10, w += c - '0', c = fmt[++i]\<close>

fun fmt_num :: "nat \<Rightarrow> string \<Rightarrow> nat \<times> string" where
  "fmt_num w [] = (w, [])"
| "fmt_num w (c # cs) = (if is_dec c then fmt_num (size_t (w * 10 + (of_char c - 48))) cs else (w, c # cs))"

text \<open>The precision, which an asterisk takes from the arguments, and the modifiers h and l.\<close>

definition fmt_prec :: "string \<Rightarrow> fmt_arg list \<Rightarrow> (nat \<times> string \<times> fmt_arg list) option" where
  "fmt_prec s args =
    (if s \<noteq> [] \<and> hd s = CHR ''.'' then
       (if tl s \<noteq> [] \<and> hd (tl s) = CHR ''*''
        then (case args of A_int v # args \<Rightarrow> Some (nat (v mod 2 ^ 32), tl (tl s), args) | _ \<Rightarrow> None)
        else Some (fst (fmt_num 0 (tl s)), snd (fmt_num 0 (tl s)), args))
     else Some (NO_PREC, s, args))"

definition fmt_long :: "string \<Rightarrow> nat \<times> string" where
  "fmt_long s =
    (let s = dropWhile (\<lambda>c. c = CHR ''h'') s
     in if s \<noteq> [] \<and> hd s = CHR ''l'' then
          (if tl s \<noteq> [] \<and> hd (tl s) = CHR ''l'' then (2, tl (tl s)) else (1, tl s))
        else (0, s))"

text \<open>The flags, the width, the precision and the length modifiers after the percent sign.\<close>

definition fmt_opts_of :: "string \<Rightarrow> fmt_arg list \<Rightarrow> (fmt_opts \<times> string \<times> fmt_arg list) option" where
  "fmt_opts_of s args = do {
     let (x, s) = fmt_flag CHR ''#'' s;
     let (m, s) = fmt_flag CHR ''-'' s;
     let (z, s) = fmt_flag CHR ''0'' s;
     let (w, s) = fmt_num 0 s;
     (pr, s, args) \<leftarrow> fmt_prec s args;
     let (l, s) = fmt_long s;
     Some (\<lparr>alt = x, minus = m, zero = z, width = w, prec = pr, is_long = l\<rparr>, s, args)
   }"

text \<open>The padding loops: for (...; k < w && j + k < w; j++) out(pad).\<close>

definition fmt_pad :: "bool \<Rightarrow> char \<Rightarrow> nat \<Rightarrow> nat \<Rightarrow> string" where
  "fmt_pad on pad k w = (if on then replicate (w - k) pad else [])"

text \<open>The integer argument of a conversion: an unsigned one is taken modulo its width.\<close>

fun fmt_int :: "nat \<Rightarrow> bool \<Rightarrow> fmt_arg list \<Rightarrow> (int \<times> fmt_arg list) option" where
  "fmt_int l s (A_int v # args) = (if l = 0 then Some (if s then v else v mod 2 ^ 32, args) else None)"
| "fmt_int l s (A_long v # args) = (if l = 1 then Some (if s then v else v mod 2 ^ 32, args) else None)"
| "fmt_int l s (A_llong v # args) = (if l = 2 then Some (v, args) else None)"
| "fmt_int l s args = None"

definition fmt_number :: "fmt_opts \<Rightarrow> char \<Rightarrow> fmt_arg list \<Rightarrow> (string \<times> fmt_arg list) option" where
  "fmt_number f c args = do {
     let x = (alt f \<or> c = CHR ''p'');
     let l = (if c = CHR ''p'' then 1 else is_long f);
     (v, args) \<leftarrow> fmt_int l (c = CHR ''d'') args;
     tmp \<leftarrow> mg_lld v (c = CHR ''d'') (c = CHR ''x'' \<or> c = CHR ''X'' \<or> c = CHR ''p'');
     let w = width f - (if x then 2 else 0);
     let k = length tmp;
     Some (fmt_pad (\<not> zero f \<and> \<not> minus f) CHR '' '' k w @ (if x then ''0x'' else []) @
       fmt_pad (zero f) CHR ''0'' k w @ tmp @ fmt_pad (\<not> zero f \<and> minus f) CHR '' '' k w, args)
   }"

definition fmt_string :: "fmt_opts \<Rightarrow> string option \<Rightarrow> string" where
  "fmt_string f p =
    (let s = (case p of None \<Rightarrow> [] | Some s \<Rightarrow> c_str s);
         pr = (if prec f = NO_PREC then length s else prec f);
         pad = (if zero f then CHR ''0'' else CHR '' '')
     in fmt_pad (\<not> minus f) pad pr (width f) @ take pr s @ fmt_pad (minus f) pad pr (width f))"

definition fmt_conv :: "fmt_opts \<Rightarrow> char \<Rightarrow> fmt_arg list \<Rightarrow> (string \<times> fmt_arg list) option" where
  "fmt_conv f c args =
    (if c \<in> set ''duxXp'' then fmt_number f c args
     else if c \<in> set ''gf'' then None
     else if c \<in> set ''mM'' then
       (case args of A_printer s # args \<Rightarrow> Some (if c = CHR ''m'' then [CHR 0x22] @ s @ [CHR 0x22] else s, args)
        | _ \<Rightarrow> None)
     else if c = CHR ''c'' then (case args of A_char ch # args \<Rightarrow> Some ([ch], args) | _ \<Rightarrow> None)
     else if c = CHR ''s'' then
       (case args of A_str p # args \<Rightarrow> if p = None \<and> prec f \<noteq> NO_PREC \<and> prec f \<noteq> 0 then None
          else Some (fmt_string f p, args)
        | _ \<Rightarrow> None)
     else if c = CHR ''%'' then Some (''%'', args)
     else Some ([CHR ''%'', c], args))"

text \<open>One conversion, from after the percent sign; a format that ends there is read past its end.\<close>

definition fmt_spec :: "string \<Rightarrow> fmt_arg list \<Rightarrow> (string \<times> string \<times> fmt_arg list) option" where
  "fmt_spec s args = do {
     (f, s, args) \<leftarrow> fmt_opts_of s args;
     (case s of [] \<Rightarrow> None
      | c # s \<Rightarrow> do { (out, args) \<leftarrow> fmt_conv f c args; Some (out, s, args) })
   }"

lemma fmt_flag_shorter: "fmt_flag c s = (b, r) \<Longrightarrow> length r \<le> length s"
  by (auto simp: fmt_flag_def split: if_splits)

lemma fmt_num_shorter: "fmt_num w s = (v, r) \<Longrightarrow> length r \<le> length s"
  by (induction w s rule: fmt_num.induct) (auto split: if_splits)

lemma fmt_prec_shorter: "fmt_prec s args = Some (pr, r, args') \<Longrightarrow> length r \<le> length s"
proof -
  assume a: "fmt_prec s args = Some (pr, r, args')"
  have "length (snd (fmt_num 0 (tl s))) \<le> length (tl s)" by (metis fmt_num_shorter prod.collapse)
  with a show ?thesis
    by (auto simp: fmt_prec_def split: if_splits list.splits fmt_arg.splits)
qed

lemma fmt_long_shorter: "fmt_long s = (l, r) \<Longrightarrow> length r \<le> length s"
  using length_dropWhile_le[of "\<lambda>c. c = CHR ''h''" s]
  by (auto simp: fmt_long_def Let_def split: if_splits)

lemma fmt_opts_shorter:
  assumes "fmt_opts_of s args = Some (f, r, args')"
  shows "length r \<le> length s"
proof -
  obtain x s1 where 1: "fmt_flag CHR ''#'' s = (x, s1)" by force
  obtain m s2 where 2: "fmt_flag CHR ''-'' s1 = (m, s2)" by force
  obtain z s3 where 3: "fmt_flag CHR ''0'' s2 = (z, s3)" by force
  obtain w s4 where 4: "fmt_num 0 s3 = (w, s4)" by force
  obtain pr s5 a where 5: "fmt_prec s4 args = Some (pr, s5, a)"
    using assms by (auto simp: fmt_opts_of_def 1 2 3 4 bind_eq_Some_conv)
  obtain l s6 where 6: "fmt_long s5 = (l, s6)" by force
  have "r = s6" using assms by (simp add: fmt_opts_of_def 1 2 3 4 5 6)
  with fmt_flag_shorter[OF 1] fmt_flag_shorter[OF 2] fmt_flag_shorter[OF 3] fmt_num_shorter[OF 4]
    fmt_prec_shorter[OF 5] fmt_long_shorter[OF 6] show ?thesis by simp
qed

lemma fmt_spec_shorter:
  assumes "fmt_spec s args = Some (out, r, args')"
  shows "length r < length s"
proof -
  obtain f t a where o: "fmt_opts_of s args = Some (f, t, a)"
    using assms by (auto simp: fmt_spec_def bind_eq_Some_conv)
  then have "length r < length t"
    using assms by (auto simp: fmt_spec_def bind_eq_Some_conv split: list.splits)
  with fmt_opts_shorter[OF o] show ?thesis by simp
qed

text \<open>mg_vxprintf: the characters, in order.\<close>

function mg_vxprintf :: "string \<Rightarrow> fmt_arg list \<Rightarrow> string option" where
  "mg_vxprintf [] args = Some []"
| "mg_vxprintf (c # s) args =
    (if c = CHR ''%'' then
       (case fmt_spec s args of None \<Rightarrow> None
        | Some (out, s, args) \<Rightarrow> do { r \<leftarrow> mg_vxprintf s args; Some (out @ r) })
     else do { r \<leftarrow> mg_vxprintf s args; Some (c # r) })"
  by pat_completeness auto
termination
  by (relation "measure (\<lambda>(s, args). length s)") (auto dest: fmt_spec_shorter)

section \<open>Output\<close>

text \<open>
  mg_pfn_iobuf_private: a character and a terminator; the last free byte becomes a terminator
  that is counted.
\<close>

definition mg_pfn_iobuf_private :: "bool \<Rightarrow> (nat \<Rightarrow> bool) \<Rightarrow> char \<Rightarrow> mg_iobuf \<Rightarrow> mg_iobuf" where
  "mg_pfn_iobuf_private expand avail ch io =
    (let io = (if expand \<and> io_len io + 2 > length (io_buf io) then snd (mg_iobuf_resize avail (io_len io + 2) io) else io);
         n = io_len io
     in if n + 2 \<le> length (io_buf io) then io\<lparr>io_buf := (io_buf io)[n := char_byte ch, n + 1 := 0], io_len := n + 1\<rparr>
        else if n < length (io_buf io) then io\<lparr>io_buf := (io_buf io)[n := 0], io_len := n + 1\<rparr>
        else io)"

definition mg_pfn_iobuf_noresize :: "char \<Rightarrow> mg_iobuf \<Rightarrow> mg_iobuf" where
  "mg_pfn_iobuf_noresize = mg_pfn_iobuf_private False (\<lambda>n. False)"

definition mg_pfn_iobuf :: "(nat \<Rightarrow> bool) \<Rightarrow> char \<Rightarrow> mg_iobuf \<Rightarrow> mg_iobuf" where
  "mg_pfn_iobuf avail = mg_pfn_iobuf_private True avail"

text \<open>mg_snprintf into the n bytes of an array, which the buffer io shares.\<close>

definition mg_snprintf :: "u8 list \<Rightarrow> string \<Rightarrow> fmt_arg list \<Rightarrow> (nat \<times> u8 list) option" where
  "mg_snprintf buf fmt args = do {
     out \<leftarrow> mg_vxprintf fmt args;
     let mem = io_buf (fold mg_pfn_iobuf_noresize out \<lparr>io_buf = buf, io_len = 0, io_align = 0\<rparr>);
     let n = length out;
     Some (n, if n < length buf then mem[n := 0] else mem)
   }"

section \<open>What the conversions print\<close>

lemma lld_reverse_eq [cstep]: "lld_reverse buf = Some (rev buf)"
proof -
  let ?n = "length buf"
  let ?I = "\<lambda>k xs. length xs = ?n \<and> (\<forall>j < ?n. xs ! j = (if j < k \<or> ?n - k \<le> j then buf ! (?n - 1 - j) else buf ! j))"
  have "\<exists>u. lld_reverse buf = Some u \<and> ?I (length [0..<?n div 2]) u"
    unfolding lld_reverse_def
  proof (rule for_each_rule[where I = ?I])
    fix k xs assume "k < length [0..<?n div 2]" and I: "?I k xs"
    then have k: "k < ?n div 2" by simp
    then have lt: "k < ?n" "k < ?n - 1 - k" "?n - 1 - k < ?n" by linarith+
    have e: "int ?n - int k - 1 = int (?n - 1 - k)" using lt by linarith
    have g: "arr_get xs (int k) = Some (buf ! k)" "arr_get xs (int ?n - int k - 1) = Some (buf ! (?n - 1 - k))"
      unfolding e arr_nat using I lt by auto
    have s: "arr_set xs (int k) (buf ! (?n - 1 - k)) = Some (xs[k := buf ! (?n - 1 - k)])"
      "arr_set (xs[k := buf ! (?n - 1 - k)]) (int ?n - int k - 1) (buf ! k) =
        Some (xs[k := buf ! (?n - 1 - k), ?n - 1 - k := buf ! k])"
      unfolding e arr_nat using I lt by auto
    have "?I (Suc k) (xs[k := buf ! (?n - 1 - k), ?n - 1 - k := buf ! k])"
      using I lt by (auto simp: nth_list_update)
    then show "\<exists>u. (do { t \<leftarrow> arr_get xs (int ([0..<?n div 2] ! k));
        u \<leftarrow> arr_get xs (int (length xs) - int ([0..<?n div 2] ! k) - 1);
        b \<leftarrow> arr_set xs (int ([0..<?n div 2] ! k)) u;
        arr_set b (int (length b) - int ([0..<?n div 2] ! k) - 1) t }) = Some u \<and> ?I (Suc k) u"
      using k I g s by simp
  qed simp
  then obtain u where u: "lld_reverse buf = Some u" "length u = ?n"
    "\<And>j. j < ?n \<Longrightarrow> u ! j = (if j < ?n div 2 \<or> ?n - ?n div 2 \<le> j then buf ! (?n - 1 - j) else buf ! j)"
    by auto
  have "u = rev buf"
  proof (rule nth_equalityI)
    fix j assume j: "j < length u"
    show "u ! j = rev buf ! j"
    proof (cases "j < ?n div 2 \<or> ?n - ?n div 2 \<le> j")
      case False
      then have "?n - 1 - j = j" by linarith
      then show ?thesis using False u j by (simp add: rev_nth)
    qed (use u j in \<open>simp add: rev_nth\<close>)
  qed (simp add: u)
  with u show ?thesis by simp
qed

lemma decimal_digit: "d < 10 \<Longrightarrow> letters ! d = digit_char d"
proof -
  have "\<forall>d\<in>set [0..<10]. letters ! d = digit_char d" by code_simp
  then show "d < 10 \<Longrightarrow> letters ! d = digit_char d" by simp
qed

lemma lld_digits_decimal: "0 < v \<Longrightarrow> rev (lld_digits 10 v) = dec_digits v"
proof (induction v rule: dec_digits.induct)
  case (1 v)
  show ?case
  proof (cases "v < 10")
    case True
    then show ?thesis using 1(2)
      by (subst lld_digits.simps, subst dec_digits.simps) (simp add: decimal_digit lld_digits.simps[of _ 0])
  next
    case False
    then show ?thesis using 1
      by (subst lld_digits.simps, subst dec_digits.simps) (simp add: decimal_digit)
  qed
qed

lemma dec_digits_zero: "dec_digits 0 = ''0''"
  by code_simp

lemma mg_lld_decimal:
  assumes "- (2 ^ 63) < v" "v < 2 ^ 63"
  shows "mg_lld v True False = Some ((if v < 0 then ''-'' else []) @ dec_digits (nat (abs v)))"
proof -
  have "v mod 18446744073709551616 = v" if "0 \<le> v" using assms that by (simp add: mod_pos_pos_trivial)
  then show ?thesis
    using assms lld_digits_decimal[of "nat (abs v)"]
    by (cases "v = 0") (auto simp: mg_lld_def lld_reverse_eq dec_digits_zero lld_digits.simps[of _ 0])
qed

lemma mg_lld_unsigned:
  assumes "0 \<le> v" "v < 2 ^ 64"
  shows "mg_lld v False False = Some (dec_digits (nat v))"
  using assms lld_digits_decimal[of "nat v"]
  by (cases "v = 0") (auto simp: mg_lld_def lld_reverse_eq dec_digits_zero mod_pos_pos_trivial lld_digits.simps[of _ 0])

named_theorems fmt "what formats print"

lemma fmt_literal [fmt]:
  "CHR ''%'' \<notin> set s \<Longrightarrow> mg_vxprintf (s @ f) args = do { r \<leftarrow> mg_vxprintf f args; Some (s @ r) }"
  by (induction s) (auto split: bind_split)

lemma fmt_plain_s [fmt]:
  "mg_vxprintf (''%s'' @ f) (A_str (Some t) # args) = do { r \<leftarrow> mg_vxprintf f args; Some (c_str t @ r) }"
  by (simp add: fmt_spec_def fmt_opts_of_def fmt_flag_def fmt_prec_def fmt_long_def fmt_conv_def fmt_string_def
      fmt_pad_def is_dec_def Let_def)

lemma fmt_prefix_s [fmt]:
  assumes "n \<le> length t" "NUL \<notin> set t" "n < 2147483648"
  shows "mg_vxprintf (''%.*s'' @ f) (A_int (int n) # A_str (Some t) # args) =
    do { r \<leftarrow> mg_vxprintf f args; Some (take n t @ r) }"
  using assms
  by (simp add: fmt_spec_def fmt_opts_of_def fmt_flag_def fmt_prec_def fmt_long_def fmt_conv_def fmt_string_def
      fmt_pad_def is_dec_def Let_def NO_PREC_def)

lemma fmt_d [fmt]:
  "n < 2147483648 \<Longrightarrow>
   mg_vxprintf (''%d'' @ f) (A_int (int n) # args) = do { r \<leftarrow> mg_vxprintf f args; Some (dec_digits n @ r) }"
  by (simp add: fmt_spec_def fmt_opts_of_def fmt_flag_def fmt_prec_def fmt_long_def fmt_conv_def fmt_number_def
      fmt_pad_def is_dec_def Let_def mg_lld_decimal)

lemma fmt_lu_padded [fmt]:
  assumes "n < 4294967296"
  shows "mg_vxprintf ''%-10lu'' [A_long (int n)] =
    Some (dec_digits n @ replicate (10 - length (dec_digits n)) CHR '' '')"
proof -
  have "is_dec CHR ''1''" "is_dec CHR ''0''" "\<not> is_dec CHR ''l''" by (simp_all add: is_dec_def)
  then show ?thesis
    using assms
    by (simp add: fmt_spec_def fmt_opts_of_def fmt_flag_def fmt_prec_def fmt_long_def fmt_conv_def fmt_number_def
        fmt_pad_def Let_def mg_lld_unsigned size_t_def)
qed

text \<open>The output functions append the characters while there is memory.\<close>

lemma pfn_iobuf_ok:
  assumes "io_ok io" "io_room 2 io" "\<And>n. avail n"
  shows "io_ok (mg_pfn_iobuf avail ch io) \<and> io_data (mg_pfn_iobuf avail ch io) = io_data io @ [char_byte ch] \<and>
    io_align (mg_pfn_iobuf avail ch io) = io_align io"
proof -
  let ?s = "roundup (io_len io + 2) (io_align io)"
  have b: "io_len io + 2 + 2 * io_align io < 2 ^ 32" using assms(2) by (simp add: io_room_def)
  note r = roundup_bounds[OF b]
  obtain io1 where io1: "(if io_len io + 2 > length (io_buf io) then snd (mg_iobuf_resize avail (io_len io + 2) io) else io) = io1"
    "io_len io1 = io_len io" "io_len io + 2 \<le> length (io_buf io1)" "io_data io1 = io_data io" "io_align io1 = io_align io"
  proof (cases "io_len io + 2 > length (io_buf io)")
    case False
    then show thesis using that[of io] by simp
  next
    case True
    have "?s \<noteq> length (io_buf io)" "?s \<noteq> 0" using r(1) True by linarith+
    then have "snd (mg_iobuf_resize avail (io_len io + 2) io) = io\<lparr>io_buf := io_data io @ replicate (?s - io_len io) 0\<rparr>"
      using r(1) assms(1,3) by (simp add: mg_iobuf_resize_def io_data_def Let_def min_absorb2)
    then show thesis
      using that True r(1) assms(1) by (simp add: io_data_def io_ok_def min_absorb2)
  qed
  have "mg_pfn_iobuf avail ch io =
      io1\<lparr>io_buf := (io_buf io1)[io_len io := char_byte ch, io_len io + 1 := 0], io_len := io_len io + 1\<rparr>"
    using io1 by (simp add: mg_pfn_iobuf_def mg_pfn_iobuf_private_def Let_def)
  moreover have "take (io_len io + 1) ((io_buf io1)[io_len io := char_byte ch, io_len io + 1 := 0]) = io_data io @ [char_byte ch]"
    using io1(2-4) by (simp add: io_data_def take_Suc_conv_app_nth)
  ultimately show ?thesis
    using io1 by (simp add: io_ok_def io_data_def)
qed

lemma pfn_iobuf_fold [cstep]:
  assumes "io_ok io" "io_room (length s + 2) io" "\<And>n. avail n"
  shows "io_ok (fold (mg_pfn_iobuf avail) s io) \<and>
    io_data (fold (mg_pfn_iobuf avail) s io) = io_data io @ char_bytes s \<and>
    io_align (fold (mg_pfn_iobuf avail) s io) = io_align io"
  using assms
proof (induction s arbitrary: io)
  case (Cons ch s)
  let ?io = "mg_pfn_iobuf avail ch io"
  have step: "io_ok ?io" "io_data ?io = io_data io @ [char_byte ch]" "io_align ?io = io_align io"
    using pfn_iobuf_ok[of io avail ch] Cons.prems by (auto simp: io_room_def)
  have "io_len ?io = io_len io + 1"
    using arg_cong[OF step(2), of length] length_io_data[OF step(1)] length_io_data[OF Cons.prems(1)] by simp
  then have "io_room (length s + 2) ?io" using Cons.prems(2) step(3) by (simp add: io_room_def)
  from Cons.IH[OF step(1) this Cons.prems(3)] step show ?case by simp
qed simp

lemma pfn_noresize_fold:
  assumes "length a + length s < length mem" "take (length a) mem = a" "n = length a"
  shows "\<exists>r. fold mg_pfn_iobuf_noresize s \<lparr>io_buf = mem, io_len = n, io_align = 0\<rparr> =
    \<lparr>io_buf = a @ char_bytes s @ r @ drop (length a + length s + 1) mem, io_len = n + length s, io_align = 0\<rparr> \<and> length r = 1"
  using assms
proof (induction s arbitrary: a mem n)
  case Nil
  then have "a @ mem ! length a # drop (Suc (length a)) mem = mem"
    using id_take_nth_drop[of "length a" mem, symmetric] by simp
  then show ?case using Nil by (intro exI[of _ "[mem ! length a]"]) simp
next
  case (Cons ch s)
  let ?mem = "mem[n := char_byte ch, n + 1 := 0]"
  have step: "mg_pfn_iobuf_noresize ch \<lparr>io_buf = mem, io_len = n, io_align = 0\<rparr> =
      \<lparr>io_buf = ?mem, io_len = n + 1, io_align = 0\<rparr>"
    using Cons.prems by (simp add: mg_pfn_iobuf_noresize_def mg_pfn_iobuf_private_def Let_def)
  have "take (length (a @ [char_byte ch])) ?mem = a @ [char_byte ch]"
    using Cons.prems by (simp add: take_Suc_conv_app_nth)
  then obtain r where "fold mg_pfn_iobuf_noresize s \<lparr>io_buf = ?mem, io_len = n + 1, io_align = 0\<rparr> =
      \<lparr>io_buf = (a @ [char_byte ch]) @ char_bytes s @ r @ drop (length (a @ [char_byte ch]) + length s + 1) ?mem,
       io_len = n + 1 + length s, io_align = 0\<rparr>" "length r = 1"
    using Cons.IH[of "a @ [char_byte ch]" ?mem "n + 1"] Cons.prems by auto
  then show ?case using step Cons.prems(3) by (intro exI[of _ r]) simp
qed

lemma mg_snprintf_fits [cstep]:
  assumes "mg_vxprintf f args = Some s" "length s < length buf"
  shows "mg_snprintf buf f args = Some (length s, char_bytes s @ 0 # drop (length s + 1) buf)"
proof -
  obtain r where r: "fold mg_pfn_iobuf_noresize s \<lparr>io_buf = buf, io_len = 0, io_align = 0\<rparr> =
      \<lparr>io_buf = char_bytes s @ r @ drop (length s + 1) buf, io_len = length s, io_align = 0\<rparr>" "length r = 1"
    using pfn_noresize_fold[of "[]" s buf 0] assms(2) by auto
  then obtain x where "r = [x]" by (cases r) auto
  with r assms show ?thesis
    by (simp add: mg_snprintf_def list_update_append Let_def)
qed
end
