(* ===== verification/Mongoose_Server.thy ===== *)
theory Mongoose_Server
  imports Mongoose_Conn Mongoose_Fmt
begin

text \<open>
  The HTTP server of the Mongoose library (src/http.c and mg_printf in
  firmware/pico/lib/mongoose/mongoose.c): replies, chunks, and http_cb, which turns the bytes
  received on a connection into calls of the user's handler. The handler is a function on the
  connection and a state of its own.
\<close>

section \<open>Replies\<close>

text \<open>mg_vprintf: when memory ends before the text does, the send buffer gets its old length.\<close>

definition mg_vprintf :: "mg_net \<Rightarrow> string \<Rightarrow> fmt_arg list \<Rightarrow> mg_connection \<Rightarrow> (nat \<times> mg_connection) option" where
  "mg_vprintf net fmt args c = do {
     let old = io_len (c_send c);
     out \<leftarrow> mg_vxprintf fmt args;
     let c = c\<lparr>c_send := fold (mg_pfn_iobuf (avail net)) out (c_send c)\<rparr>;
     let actual = io_len (c_send c) - old;
     if actual \<noteq> length out then do {
       let c = mg_error ''OOM'' c;
       Some (0, c\<lparr>c_send := (c_send c)\<lparr>io_len := old\<rparr>\<rparr>)
     } else Some (actual, c)
   }"

definition mg_printf :: "mg_net \<Rightarrow> string \<Rightarrow> fmt_arg list \<Rightarrow> mg_connection \<Rightarrow> (nat \<times> mg_connection) option" where
  "mg_printf net fmt args c = mg_vprintf net fmt args c"

definition http_statuses :: "(nat \<times> string) list" where
  "http_statuses =
    [(100, ''Continue''), (101, ''Switching Protocols''), (102, ''Processing''), (200, ''OK''),
     (201, ''Created''), (202, ''Accepted''), (203, ''Non-authoritative Information''),
     (204, ''No Content''), (205, ''Reset Content''), (206, ''Partial Content''),
     (207, ''Multi-Status''), (208, ''Already Reported''), (226, ''IM Used''),
     (300, ''Multiple Choices''), (301, ''Moved Permanently''), (302, ''Found''),
     (303, ''See Other''), (304, ''Not Modified''), (305, ''Use Proxy''),
     (307, ''Temporary Redirect''), (308, ''Permanent Redirect''), (400, ''Bad Request''),
     (401, ''Unauthorized''), (402, ''Payment Required''), (403, ''Forbidden''),
     (404, ''Not Found''), (405, ''Method Not Allowed''), (406, ''Not Acceptable''),
     (407, ''Proxy Authentication Required''), (408, ''Request Timeout''), (409, ''Conflict''),
     (410, ''Gone''), (411, ''Length Required''), (412, ''Precondition Failed''),
     (413, ''Payload Too Large''), (414, ''Request-URI Too Long''),
     (415, ''Unsupported Media Type''), (416, ''Requested Range Not Satisfiable''),
     (417, ''Expectation Failed''), (418, ''I'm a teapot''), (421, ''Misdirected Request''),
     (422, ''Unprocessable Entity''), (423, ''Locked''), (424, ''Failed Dependency''),
     (426, ''Upgrade Required''), (428, ''Precondition Required''), (429, ''Too Many Requests''),
     (431, ''Request Header Fields Too Large''), (444, ''Connection Closed Without Response''),
     (451, ''Unavailable For Legal Reasons''), (499, ''Client Closed Request''),
     (500, ''Internal Server Error''), (501, ''Not Implemented''), (502, ''Bad Gateway''),
     (503, ''Service Unavailable''), (504, ''Gateway Timeout''),
     (505, ''HTTP Version Not Supported''), (506, ''Variant Also Negotiates''),
     (507, ''Insufficient Storage''), (508, ''Loop Detected''), (510, ''Not Extended''),
     (511, ''Network Authentication Required''), (599, ''Network Connect Timeout Error'')]"

definition mg_http_status_code_str :: "nat \<Rightarrow> string" where
  "mg_http_status_code_str status_code =
    (case map_of http_statuses status_code of Some s \<Rightarrow> s | None \<Rightarrow> [])"

text \<open>The head's format, and the number that is put into its blanks once the body is known.\<close>

definition REPLY_FORMAT :: string where
  "REPLY_FORMAT = ''HTTP/1.1 %d %s'' @ CRLF @ ''%sContent-Length:            '' @ CRLF @ CRLF"

definition mg_http_reply ::
    "mg_net \<Rightarrow> nat \<Rightarrow> string option \<Rightarrow> string \<Rightarrow> fmt_arg list \<Rightarrow> mg_connection \<Rightarrow> mg_connection option" where
  "mg_http_reply net code headers fmt args c = do {
     (_, c) \<leftarrow> mg_printf net REPLY_FORMAT [A_int (int code), A_str (Some (mg_http_status_code_str code)),
       A_str (Some (case headers of None \<Rightarrow> [] | Some h \<Rightarrow> h))] c;
     let len = io_len (c_send c);
     out \<leftarrow> mg_vxprintf fmt args;
     let io = fold (mg_pfn_iobuf (avail net)) out (c_send c);
     io \<leftarrow> (if io_len io > 16 then do {
         cell \<leftarrow> arr_slice (io_buf io) (int len - 15) 11;
         (n, cell) \<leftarrow> mg_snprintf cell ''%-10lu'' [A_long (int (io_len io - len))];
         mem \<leftarrow> arr_copy (io_buf io) (int len - 15) cell;
         mem \<leftarrow> arr_set mem (int len - 15 + int n) (char_byte CHR '' '');
         Some (io\<lparr>io_buf := mem\<rparr>)
       } else Some io);
     Some (c\<lparr>c_send := io, is_resp := False\<rparr>)
   }"

section \<open>Chunks\<close>

definition is_hex_digit :: "char \<Rightarrow> bool" where
  "is_hex_digit c \<longleftrightarrow> (let n = of_char c :: nat in
     (48 \<le> n \<and> n \<le> 57) \<or> (97 \<le> n \<and> n \<le> 102) \<or> (65 \<le> n \<and> n \<le> 70))"

text \<open>
  skip_chunk: the length of the chunk that starts the memory buf, of which len bytes are data, 0
  when it is not all there, or -1; and where its data starts, and their number.
\<close>

definition no_crlf :: "string \<Rightarrow> nat \<Rightarrow> bool option" where
  "no_crlf buf i = do {
     c \<leftarrow> rd buf i;
     if c \<noteq> CR then Some True else do { d \<leftarrow> rd buf (i + 1); Some (d \<noteq> LF) }
   }"

definition skip_chunk :: "string \<Rightarrow> nat \<Rightarrow> (int \<times> nat \<times> nat) option" where
  "skip_chunk buf len =
    (if len < 3 then Some (0, 0, 0)
     else let i = length (takeWhile is_hex_digit (take len buf))
     in if i = 0 \<or> i > 8 \<or> len < i + 1 then Some (-1, 0, 0)
     else do {
       bad \<leftarrow> no_crlf buf i;
       if bad then Some (-1, 0, 0)
       else (case mg_str_to_num (take i buf) 16 4 of
           None \<Rightarrow> Some (-1, 0, 0)
         | Some n \<Rightarrow>
             if n \<ge> 2 ^ 31 then Some (-1, 0, 0)
             else if int n > int len - int i - 4 then Some (0, 0, 0)
             else do {
               bad \<leftarrow> no_crlf buf (i + n + 2);
               Some (if bad then (-1, 0, 0) else (int (i + 2 + n + 2), i + 2, n))
             })
     })"

lemma skip_chunk_bounds:
  "skip_chunk buf len = Some (cl, pl, dl) \<Longrightarrow> 0 < cl \<Longrightarrow>
    nat cl \<le> len \<and> pl + dl + 2 = nat cl \<and> 3 \<le> pl"
  by (auto simp: skip_chunk_def Let_def bind_eq_Some_conv Suc_le_eq split: if_splits option.splits)

text \<open>
  The two loops over the chunks: the first looks for the last chunk and gives what skip_chunk
  says of it, the second moves the data of all of them to the front.
\<close>

function last_chunk :: "string \<Rightarrow> nat \<Rightarrow> nat \<Rightarrow> int option" where
  "last_chunk s len p =
    (case skip_chunk (drop p s) (len - p) of
       None \<Rightarrow> None
     | Some (cl, pl, dl) \<Rightarrow> if cl > 0 \<and> dl \<noteq> 0 then last_chunk s len (p + nat cl) else Some cl)"
  by pat_completeness auto
termination
  by (relation "measure (\<lambda>(s, len, p). len - p)") (auto dest!: skip_chunk_bounds)

function move_chunks :: "string \<Rightarrow> nat \<Rightarrow> nat \<Rightarrow> nat \<Rightarrow> (string \<times> nat \<times> nat) option" where
  "move_chunks s len p body =
    (case skip_chunk (drop p s) (len - p) of
       None \<Rightarrow> None
     | Some (cl, pl, dl) \<Rightarrow>
         if cl > 0 then
           (case (do { data \<leftarrow> arr_slice s (int (p + pl)) (int dl); arr_copy s (int body) data }) of
              None \<Rightarrow> None
            | Some s \<Rightarrow> if dl = 0 then Some (s, p + nat cl, body + dl)
                else move_chunks s len (p + nat cl) (body + dl))
         else Some (s, p, body))"
  by pat_completeness auto
termination
  by (relation "measure (\<lambda>(s, len, p, body). len - p)") (auto dest!: skip_chunk_bounds)

declare last_chunk.simps [simp del] move_chunks.simps [simp del]

section \<open>The protocol handler\<close>

text \<open>The events http_cb acts on, and those it sends: a message with the bytes of its body so far.\<close>

datatype net_event = MG_EV_READ | MG_EV_CLOSE | MG_EV_POLL | Other_net_event

datatype http_call = EV_HTTP_HDRS mg_http_message "u8 list" | EV_HTTP_MSG mg_http_message "u8 list"

type_synonym 's http_fn = "http_call \<Rightarrow> mg_connection \<times> 's \<Rightarrow> (mg_connection \<times> 's) option"

definition mg_http_status :: "mg_http_message \<Rightarrow> int" where
  "mg_http_status hm = c_atoi (hm_uri hm)"

text \<open>The body of a message whose head starts at ofs.\<close>

definition http_body :: "nat \<Rightarrow> mg_http_message \<Rightarrow> mg_connection \<Rightarrow> u8 list" where
  "http_body ofs hm c = take (body_len hm) (drop (ofs + head_len hm) (io_data (c_recv c)))"

text \<open>How a turn of the loop ends: with the next offset, by break, or by return.\<close>

datatype http_turn = Http_next nat | Http_break nat | Http_return

text \<open>
  How the message is framed: the headers are looked up in the order of the code. A message
  without both is checked for a body, and the check moves the offset of a POST or PUT.
\<close>

datatype http_framing = Chunked | Bad_encoding | Sized | Unsized

definition is_http_1_0 :: "mg_http_message \<Rightarrow> bool option" where
  "is_http_1_0 hm = (if length (hm_proto hm) > 8
     then do { d \<leftarrow> mg_ncasecmp (hm_proto hm) ''HTTP/1.0'' 8; Some (d = 0) } else Some False)"

definition http_framing :: "mg_http_message \<Rightarrow> http_framing option" where
  "http_framing hm = do {
     old \<leftarrow> is_http_1_0 hm;
     te \<leftarrow> (if old then Some None else mg_http_get_header (hm_headers hm) ''Transfer-Encoding'');
     (case te of
        Some v \<Rightarrow> Some (if mg_strcasecmp v ''chunked'' = 0 then Chunked else Bad_encoding)
      | None \<Rightarrow> do {
          cl \<leftarrow> mg_http_get_header (hm_headers hm) ''Content-length'';
          Some (if cl = None then Unsized else Sized)
        })
   }"

definition http_unsized ::
    "mg_net \<Rightarrow> string \<Rightarrow> nat \<Rightarrow> nat \<Rightarrow> mg_http_message \<Rightarrow> mg_connection \<Rightarrow> (nat \<times> mg_connection) option" where
  "http_unsized net buf n ofs hm c = do {
     d \<leftarrow> mg_ncasecmp buf ''HTTP/'' 5;
     let is_response = (d = 0);
     let entity = (mg_strcasecmp (hm_method hm) ''POST'' = 0 \<or> mg_strcasecmp (hm_method hm) ''PUT'' = 0);
     let (require_content_len, ofs) =
       (if \<not> is_response \<and> entity then (body_len hm \<noteq> 0, ofs + n)
        else if is_response then
          (mg_http_status hm \<ge> 200 \<and> mg_http_status hm \<noteq> 204 \<and> mg_http_status hm \<noteq> 304, ofs)
        else (False, ofs));
     c \<leftarrow> (if require_content_len \<and> \<not> is_client c then mg_http_reply net 411 (Some []) [] [] c else Some c);
     Some (ofs, c)
   }"

text \<open>The end of a turn: the call of the handler, and the Connection header.\<close>

definition http_deliver ::
    "'s http_fn \<Rightarrow> nat \<Rightarrow> nat \<Rightarrow> mg_http_message \<Rightarrow> mg_connection \<Rightarrow> 's \<Rightarrow> (http_turn \<times> mg_connection \<times> 's) option" where
  "http_deliver fn ofs0 ofs hm c a = do {
     let c = (if is_accepted c then c\<lparr>is_resp := True\<rparr> else c);
     (c, a) \<leftarrow> fn (EV_HTTP_MSG hm (http_body ofs0 hm c)) (c, a);
     cc \<leftarrow> mg_http_get_header (hm_headers hm) ''Connection'';
     Some (if is_accepted c \<and> \<not> is_resp c \<and> cc \<noteq> None \<and> mg_strcasecmp (the cc) ''close'' = 0
       then (Http_break ofs, c\<lparr>is_draining := True\<rparr>, a) else (Http_next ofs, c, a))
   }"

definition http_chunked ::
    "'s http_fn \<Rightarrow> nat \<Rightarrow> nat \<Rightarrow> mg_http_message \<Rightarrow> mg_connection \<Rightarrow> 's \<Rightarrow> (http_turn \<times> mg_connection \<times> 's) option" where
  "http_chunked fn n ofs hm c a = do {
     let io = c_recv c;
     let s = byte_chars (drop (ofs + n) (io_buf io));
     let len = io_len io - ofs - n;
     cl \<leftarrow> last_chunk s len 0;
     if cl = 0 then Some (Http_break ofs, c, a)
     else if cl < 0 then Some (Http_break ofs, mg_error ''Invalid chunk'' c, a)
     else do {
       (s, p, body) \<leftarrow> move_chunks s len 0 0;
       let c = c\<lparr>c_recv := io\<lparr>io_buf := take (ofs + n) (io_buf io) @ char_bytes s\<rparr>\<rparr>;
       http_deliver fn ofs (ofs + (n + p)) (hm\<lparr>body_len := body, message_len := n + body\<rparr>) c a
     }
   }"

definition http_sized ::
    "'s http_fn \<Rightarrow> nat \<Rightarrow> nat \<Rightarrow> nat \<Rightarrow> mg_http_message \<Rightarrow> mg_connection \<Rightarrow> 's \<Rightarrow> (http_turn \<times> mg_connection \<times> 's) option" where
  "http_sized fn n ofs0 ofs hm c a = do {
     let len = nat ((int (io_len (c_recv c)) - int ofs - int n) mod 2 ^ 32);
     if body_len hm > len then Some (Http_break ofs, c, a)
     else http_deliver fn ofs0 (ofs + n + body_len hm) hm c a
   }"

text \<open>A message whose head is complete, after the call for its headers.\<close>

definition http_message ::
    "mg_net \<Rightarrow> net_event \<Rightarrow> 's http_fn \<Rightarrow> nat \<Rightarrow> nat \<Rightarrow> mg_http_message \<Rightarrow> mg_connection \<Rightarrow> 's \<Rightarrow>
      (http_turn \<times> mg_connection \<times> 's) option" where
  "http_message net ev fn n ofs hm c a = do {
     let all = io_len (c_recv c) - ofs;
     let hm = (if ev = MG_EV_CLOSE then hm\<lparr>message_len := all, body_len := all - head_len hm\<rparr> else hm);
     fr \<leftarrow> http_framing hm;
     (case fr of
        Bad_encoding \<Rightarrow> Some (Http_return, mg_error ''Invalid Transfer-Encoding'' c, a)
      | Chunked \<Rightarrow> http_chunked fn n ofs hm c a
      | Sized \<Rightarrow> http_sized fn n ofs ofs hm c a
      | Unsized \<Rightarrow> do {
          (ofs', c) \<leftarrow> http_unsized net (drop ofs (byte_chars (io_data (c_recv c)))) n ofs hm c;
          http_sized fn n ofs ofs' hm c a
        })
   }"

definition http_turn ::
    "mg_net \<Rightarrow> net_event \<Rightarrow> 's http_fn \<Rightarrow> nat \<Rightarrow> mg_connection \<Rightarrow> 's \<Rightarrow> (http_turn \<times> mg_connection \<times> 's) option" where
  "http_turn net ev fn ofs c a = do {
     (n, hm) \<leftarrow> mg_http_parse (drop ofs (byte_chars (io_data (c_recv c))));
     if n < 0 then Some (Http_return, c\<lparr>is_draining := True, c_recv := (c_recv c)\<lparr>io_len := 0\<rparr>\<rparr>, a)
     else (case hm of
         None \<Rightarrow> Some (Http_break ofs, c, a)
       | Some hm \<Rightarrow> do {
           let old_len = io_len (c_recv c);
           (c, a) \<leftarrow> fn (EV_HTTP_HDRS hm (http_body ofs hm c)) (c, a);
           if io_len (c_recv c) \<noteq> old_len then Some (Http_return, c\<lparr>pfn_null := True\<rparr>, a)
           else http_message net ev fn (nat n) ofs hm c a
         })
   }"

text \<open>The loop, and after it the removal of what was processed.\<close>

partial_function (option) http_loop ::
    "mg_net \<Rightarrow> net_event \<Rightarrow> 's http_fn \<Rightarrow> nat \<Rightarrow> mg_connection \<times> 's \<Rightarrow> (nat option \<times> mg_connection \<times> 's) option" where
  "http_loop net ev fn ofs ca =
    (if is_resp (fst ca) \<or> ofs \<ge> io_len (c_recv (fst ca)) then Some (Some ofs, ca)
     else do {
       r \<leftarrow> http_turn net ev fn ofs (fst ca) (snd ca);
       (case fst r of
          Http_next ofs \<Rightarrow> http_loop net ev fn ofs (snd r)
        | Http_break ofs \<Rightarrow> Some (Some ofs, snd r)
        | Http_return \<Rightarrow> Some (None, snd r))
     })"

definition http_cb ::
    "mg_net \<Rightarrow> net_event \<Rightarrow> 's http_fn \<Rightarrow> mg_connection \<times> 's \<Rightarrow> (mg_connection \<times> 's) option" where
  "http_cb net ev fn ca =
    (if ev = MG_EV_READ \<or> ev = MG_EV_CLOSE \<or>
        (ev = MG_EV_POLL \<and> is_accepted (fst ca) \<and> \<not> is_draining (fst ca) \<and> io_len (c_recv (fst ca)) > 0)
     then do {
       (ofs, c, a) \<leftarrow> http_loop net ev fn 0 ca;
       (case ofs of
          Some ofs \<Rightarrow> do { c \<leftarrow> (if ofs > 0 then recv_del 0 ofs c else Some c); Some (c, a) }
        | None \<Rightarrow> Some (c, a))
     } else Some ca)"

text \<open>The data of a packet on a connection of the server.\<close>

definition http_read :: "mg_net \<Rightarrow> 's http_fn \<Rightarrow> u8 list \<Rightarrow> mg_connection \<times> 's \<Rightarrow> (mg_connection \<times> 's) option" where
  "http_read net fn pay ca = do {
     (ok, c) \<leftarrow> recv_append net pay (fst ca);
     if ok then http_cb net MG_EV_READ fn (c, snd ca) else Some (c, snd ca)
   }"

section \<open>What a reply looks like\<close>

definition reply_head :: "nat \<Rightarrow> string \<Rightarrow> string \<Rightarrow> string" where
  "reply_head code headers blanks =
     ''HTTP/1.1 '' @ dec_digits code @ '' '' @ mg_http_status_code_str code @ CRLF @ headers @
     ''Content-Length:'' @ blanks @ CRLF @ CRLF"

definition length_cell :: "nat \<Rightarrow> string" where
  "length_cell n = dec_digits n @ replicate (10 - length (dec_digits n)) CHR '' ''"

lemma REPLY_FORMAT_parts:
  "REPLY_FORMAT = ''HTTP/1.1 '' @ ''%d'' @ '' '' @ ''%s'' @ CRLF @ ''%s'' @ (''Content-Length:            '' @ CRLF @ CRLF) @ []"
  by (simp add: REPLY_FORMAT_def)

lemma literal_parts:
  "CHR ''%'' \<notin> set ''HTTP/1.1 ''" "CHR ''%'' \<notin> set '' ''" "CHR ''%'' \<notin> set CRLF"
  "CHR ''%'' \<notin> set (''Content-Length:            '' @ CRLF @ CRLF)"
  by (simp_all add: CRLF_def CR_def LF_def)

lemma status_str_text: "NUL \<notin> set (mg_http_status_code_str code)" "line_text (mg_http_status_code_str code)"
proof -
  have all: "list_all (\<lambda>(n, s). NUL \<notin> set s \<and> line_text s) http_statuses" by code_simp
  have "NUL \<notin> set s \<and> line_text s" if "map_of http_statuses code = Some s" for s
    using all map_of_SomeD[OF that] unfolding list_all_iff by blast
  moreover have "line_text []" by (simp add: line_text_def)
  ultimately show "NUL \<notin> set (mg_http_status_code_str code)" "line_text (mg_http_status_code_str code)"
    by (auto simp: mg_http_status_code_str_def split: option.split)
qed

lemma status_str_short: "length (mg_http_status_code_str code) \<le> 40"
proof -
  have all: "list_all (\<lambda>(n, s). length s \<le> 40) http_statuses" by code_simp
  have "length s \<le> 40" if "map_of http_statuses code = Some s" for s
    using all map_of_SomeD[OF that] unfolding list_all_iff by blast
  then show ?thesis by (auto simp: mg_http_status_code_str_def split: option.split)
qed

lemma reply_format_parts:
  assumes "CHR ''%'' \<notin> set p" "CHR ''%'' \<notin> set q" "CHR ''%'' \<notin> set r" "CHR ''%'' \<notin> set u"
    and "n < 2147483648" "NUL \<notin> set s" "NUL \<notin> set t"
  shows "mg_vxprintf (p @ ''%d'' @ q @ ''%s'' @ r @ ''%s'' @ u) [A_int (int n), A_str (Some s), A_str (Some t)] =
    Some (p @ dec_digits n @ q @ s @ r @ t @ u)"
proof -
  have u: "mg_vxprintf u [] = Some u" using fmt_literal[OF assms(4), of "[]"] by simp
  have s: "mg_vxprintf (''%s'' @ r @ ''%s'' @ u) [A_str (Some s), A_str (Some t)] = Some (s @ r @ t @ u)"
    by (simp only: fmt_plain_s fmt_literal[OF assms(3)] u bind.bind_lunit c_str_id[OF assms(6)] c_str_id[OF assms(7)])
  show ?thesis
    by (simp only: fmt_d[OF assms(5)] fmt_literal[OF assms(1)] fmt_literal[OF assms(2)] s bind.bind_lunit)
qed

lemma reply_format:
  assumes "code < 2147483648" "NUL \<notin> set headers"
  shows "mg_vxprintf REPLY_FORMAT [A_int (int code), A_str (Some (mg_http_status_code_str code)), A_str (Some headers)] =
    Some (reply_head code headers (replicate 12 CHR '' ''))"
proof -
  have "''Content-Length:            '' = ''Content-Length:'' @ replicate 12 CHR '' ''" by (simp add: numeral_eq_Suc)
  then show ?thesis
    unfolding REPLY_FORMAT_parts reply_head_def
    using reply_format_parts[OF literal_parts assms(1) status_str_text(1) assms(2)]
    by (simp only: append_assoc append_Nil append_Nil2)
qed

lemma length_length_cell: "n < 2 ^ 32 \<Longrightarrow> length (length_cell n) = 10"
  using length_dec_digits[of n 10] by (simp add: length_cell_def)

definition reply_text :: "nat \<Rightarrow> string \<Rightarrow> string \<Rightarrow> string" where
  "reply_text code headers t = reply_head code headers ('' '' @ length_cell (length t) @ '' '') @ t"

lemma reply_head_short:
  "code < 2147483648 \<Longrightarrow> length (reply_head code h blanks) \<le> length h + length blanks + 86"
  "17 \<le> length (reply_head code h blanks)"
  using length_dec_digits[of code 10] status_str_short[of code]
  by (simp_all add: reply_head_def CRLF_def)

lemma mg_printf_ok:
  assumes "io_ok (c_send c)" "io_room (length s + 2) (c_send c)" "\<And>n. avail net n" "mg_vxprintf fmt args = Some s"
  shows "\<exists>io. mg_printf net fmt args c = Some (length s, c\<lparr>c_send := io\<rparr>) \<and> io_ok io \<and>
    io_data io = io_data (c_send c) @ char_bytes s \<and> io_align io = io_align (c_send c)"
proof -
  let ?io = "fold (mg_pfn_iobuf (avail net)) s (c_send c)"
  have io: "io_ok ?io \<and> io_data ?io = io_data (c_send c) @ char_bytes s \<and> io_align ?io = io_align (c_send c)"
    using assms(1-3) by (rule pfn_iobuf_fold)
  then have "io_len ?io = io_len (c_send c) + length s"
    using length_io_data[of ?io] length_io_data[OF assms(1)] by simp
  then show ?thesis using io assms(4) by (intro exI[of _ ?io]) (simp add: mg_printf_def mg_vprintf_def Let_def)
qed

lemma mg_http_reply_appends:
  assumes "io_ok (c_send c)" "io_room (length headers + length t + 128) (c_send c)" "\<And>n. avail net n"
    and "code < 2147483648" "NUL \<notin> set headers" "mg_vxprintf fmt args = Some t"
  shows "\<exists>io. mg_http_reply net code (Some headers) fmt args c = Some (c\<lparr>c_send := io, is_resp := False\<rparr>) \<and> io_ok io \<and>
    io_data io = io_data (c_send c) @ char_bytes (reply_text code headers t) \<and> io_align io = io_align (c_send c)"
proof -
  let ?blanks = "replicate 12 CHR '' ''" and ?n = "length t"
  let ?h = "reply_head code headers ?blanks"
  have h: "length ?h \<le> length headers + 98" "17 \<le> length ?h" using reply_head_short[of code headers ?blanks] assms(4) by simp_all
  have "io_room (length ?h + 2) (c_send c)" using assms(2) h by (simp add: io_room_def)
  from mg_printf_ok[OF assms(1) this assms(3) reply_format[OF assms(4,5)]] obtain io1 where
    io1: "mg_printf net REPLY_FORMAT [A_int (int code), A_str (Some (mg_http_status_code_str code)), A_str (Some headers)] c =
      Some (length ?h, c\<lparr>c_send := io1\<rparr>)" "io_ok io1" "io_data io1 = io_data (c_send c) @ char_bytes ?h"
    "io_align io1 = io_align (c_send c)" by blast
  have l1: "io_len io1 = io_len (c_send c) + length ?h"
    using io1(3) length_io_data[OF io1(2)] length_io_data[OF assms(1)] by simp
  define io2 where "io2 = fold (mg_pfn_iobuf (avail net)) t io1"
  have "io_room (length t + 2) io1" using assms(2) h l1 io1(4) by (simp add: io_room_def)
  from pfn_iobuf_fold[where avail = "avail net", OF io1(2) this assms(3)]
  have io2: "io_ok io2" "io_data io2 = io_data (c_send c) @ char_bytes ?h @ char_bytes t" "io_align io2 = io_align (c_send c)"
    using io1(3,4) by (simp_all add: io2_def)
  have l2: "io_len io2 = io_len io1 + ?n"
    using io2(2) length_io_data[OF io2(1)] length_io_data[OF assms(1)] l1 by simp
  have n: "?n < 4294967296" using assms(2) by (simp add: io_room_def)
  define pre where "pre = ''HTTP/1.1 '' @ dec_digits code @ '' '' @ mg_http_status_code_str code @ CRLF @ headers @ ''Content-Length: ''"
  define post where "post = CRLF @ CRLF @ t"
  have pieces: "?h @ t = pre @ replicate 11 CHR '' '' @ post"
    "reply_text code headers t = pre @ (length_cell ?n @ '' '') @ post"
    by (simp_all add: reply_text_def reply_head_def pre_def post_def numeral_eq_Suc)
  have lp: "length pre + 15 = length ?h"
    using arg_cong[OF pieces(1), of length] by (simp add: post_def CRLF_def)
  define a where "a = io_data (c_send c) @ char_bytes pre"
  define z where "z = char_bytes post @ drop (io_len io2) (io_buf io2)"
  have buf: "io_buf io2 = a @ char_bytes (replicate 11 CHR '' '') @ z"
  proof -
    have "io_data io2 = a @ char_bytes (replicate 11 CHR '' '') @ char_bytes post"
      using io2(2) arg_cong[OF pieces(1), of char_bytes] by (simp add: a_def)
    then show ?thesis by (metis append_assoc append_take_drop_id io_data_def z_def)
  qed
  have la: "int (io_len io1) - 15 = int (length a)"
    using l1 lp length_io_data[OF assms(1)] by (simp add: a_def)
  have slice: "arr_slice (io_buf io2) (int (io_len io1) - 15) 11 = Some (char_bytes (replicate 11 CHR '' ''))"
    unfolding buf by (rule arr_slice_mid[OF la]) simp
  have "mg_snprintf (char_bytes (replicate 11 CHR '' '')) ''%-10lu'' [A_long (int ?n)] =
      Some (length (length_cell ?n), char_bytes (length_cell ?n) @ 0 # drop (length (length_cell ?n) + 1) (char_bytes (replicate 11 CHR '' '')))"
    using length_length_cell[of ?n] n fmt_lu_padded[OF n]
    by (intro mg_snprintf_fits) (simp_all add: length_cell_def)
  then have num: "mg_snprintf (char_bytes (replicate 11 CHR '' '')) ''%-10lu'' [A_long (int ?n)] =
      Some (10, char_bytes (length_cell ?n) @ [0])"
    using length_length_cell[of ?n] n by simp
  have copy: "arr_copy (io_buf io2) (int (io_len io1) - 15) (char_bytes (length_cell ?n) @ [0]) =
      Some (a @ (char_bytes (length_cell ?n) @ [0]) @ z)"
    unfolding buf by (rule arr_copy_mid[OF la]) (use length_length_cell[of ?n] n in simp)
  define mem where "mem = a @ char_bytes (length_cell ?n @ '' '') @ z"
  have blank: "arr_set (a @ (char_bytes (length_cell ?n) @ [0]) @ z) (int (io_len io1) - 15 + int 10) (char_byte CHR '' '') = Some mem"
  proof -
    have i: "int (io_len io1) - 15 + int 10 = int (length (a @ char_bytes (length_cell ?n)))"
      using la length_length_cell[of ?n] n by simp
    show ?thesis unfolding i mem_def arr_nat by (simp add: list_update_append)
  qed
  have run: "mg_http_reply net code (Some headers) fmt args c = Some (c\<lparr>c_send := io2\<lparr>io_buf := mem\<rparr>, is_resp := False\<rparr>)"
  proof -
    have len: "io_len io2 - io_len io1 = ?n" "16 < io_len io2" using l1 l2 h(2) by simp_all
    show ?thesis
      using slice num copy blank
      by (simp add: mg_http_reply_def io1(1) Let_def assms(6) io2_def [symmetric] len
          del: arr_slice_Some arr_copy_Some arr_set_Some)
  qed
  have "length mem = length (io_buf io2)" using length_length_cell[of ?n] n by (simp add: mem_def buf)
  moreover have "io_data (io2\<lparr>io_buf := mem\<rparr>) = io_data (c_send c) @ char_bytes (reply_text code headers t)"
  proof -
    have l: "length (io_data (c_send c) @ char_bytes (reply_text code headers t)) = io_len io2"
    proof -
      have "length (reply_text code headers t) = length ?h + ?n"
        unfolding lp [symmetric] pieces(2) using length_length_cell[of ?n] n by (simp add: post_def CRLF_def)
      then show ?thesis using l2 l1 length_io_data[OF assms(1)] by simp
    qed
    have mem: "mem = (io_data (c_send c) @ char_bytes (reply_text code headers t)) @ drop (io_len io2) (io_buf io2)"
      by (simp add: mem_def pieces(2) a_def z_def)
    show ?thesis unfolding mem by (rule io_data_replace(1)[OF io2(1) l])
  qed
  ultimately show ?thesis using run io2(1,3) by (auto simp: io_ok_def)
qed

lemma length_cell_text: "raw_text (length_cell n @ '' '')" "trim_end (length_cell n @ '' '') = dec_digits n"
proof -
  obtain d ds where d: "dec_digits n = d # ds" using dec_digits_nonempty[of n] by (cases "dec_digits n") auto
  have dec: "\<forall>c \<in> set (dec_digits n). is_dec c" using is_dec_digits[of n] by (simp add: list_all_iff)
  then have plain: "\<forall>c \<in> set (dec_digits n). isok c \<and> c \<noteq> CR \<and> c \<noteq> LF \<and> \<not> blank c"
    by (auto simp: is_dec_def isok_def CR_def LF_def blank_def TAB_def Let_def)
  moreover have "isok CHR '' ''" "CHR '' '' \<noteq> CR" "CHR '' '' \<noteq> LF" by (simp_all add: isok_def CR_def LF_def)
  moreover have "hd (length_cell n @ '' '') \<in> set (dec_digits n)" by (simp add: length_cell_def d)
  ultimately show "raw_text (length_cell n @ '' '')"
    unfolding raw_text_def by (simp add: length_cell_def list_all_iff ball_Un)
  obtain e es where e: "rev (dec_digits n) = e # es" using dec_digits_nonempty[of n] by (cases "rev (dec_digits n)") auto
  then have "\<not> blank e" using plain by (metis list.set_intros(1) set_rev)
  then have "dropWhile blank (CHR '' '' # replicate k CHR '' '' @ rev (dec_digits n)) = rev (dec_digits n)" for k
    by (induction k) (simp_all add: e)
  then show "trim_end (length_cell n @ '' '') = dec_digits n"
    by (simp add: trim_end_def length_cell_def)
qed

lemma reply_text_head:
  "reply_text code (http_headers_text hs) t =
    http_head ''HTTP/1.1'' (dec_digits code) (mg_http_status_code_str code)
      (hs @ [(''Content-Length'', length_cell (length t) @ '' '')]) @ t"
  by (simp add: reply_text_def reply_head_def http_head_def http_headers_text_def)

lemma http_reply_parsed:
  assumes "headers_ok (hs @ [(''Content-Length'', [])])" "length (reply_text code (http_headers_text hs) t) < 4294967295"
  shows "mg_http_parse (reply_text code (http_headers_text hs) t @ rest) =
    Some (int (length (reply_text code (http_headers_text hs) t) - length t),
      Some \<lparr>hm_method = ''HTTP/1.1'', hm_uri = dec_digits code, hm_query = None, hm_proto = mg_http_status_code_str code,
        hm_headers = hs @ [(''Content-Length'', dec_digits (length t))],
        head_len = length (reply_text code (http_headers_text hs) t) - length t, body_len = length t,
        message_len = length (reply_text code (http_headers_text hs) t)\<rparr>)"
proof -
  let ?v = "length_cell (length t) @ '' ''" and ?cl = "''Content-Length''"
  let ?hs = "hs @ [(?cl, ?v)]"
  let ?e = "length (http_head ''HTTP/1.1'' (dec_digits code) (mg_http_status_code_str code) ?hs)"
  have hs: "headers_ok hs" "\<not> repeated_header hs ?cl" "length hs + 1 < MG_MAX_HTTP_HEADERS"
    using assms(1) by (auto simp: headers_ok_def nth_append list_all_iff)
  have raw: "raw_headers ?hs"
    using headers_ok_raw[OF hs(1)] hs(2,3) length_cell_text(1)[of "length t"]
    by (auto simp: raw_headers_def nth_append token_def printable_def list_all_iff Let_def)
  have tr: "trimmed ?hs = hs @ [(?cl, dec_digits (length t))]"
    using trimmed_ok[OF hs(1)] length_cell_text(2) by (simp add: trimmed_def)
  have "mg_strcasecmp ?cl ?cl = 0" by (simp add: mg_tolc_def)
  then have "mg_http_get_header hs ?cl = Some None"
    using hs(2) by (intro not_repeated_absent) (simp_all add: single_headers_def)
  then have cl: "mg_http_get_header (trimmed ?hs) ?cl = Some (Some (dec_digits (length t)))"
    by (simp add: tr get_header_append) (simp add: mg_http_get_header_def numeral_eq_Suc mg_lower_def Let_def)
  have len: "length (reply_text code (http_headers_text hs) t) = ?e + length t"
    by (simp add: reply_text_head)
  have lens: "http_lengths ?e True (dec_digits code) (Some (dec_digits (length t))) = Some (length t, ?e + length t)"
    using assms(2) by (simp add: len http_lengths_def mg_to_size_t_dec NO_LEN_def)
  have "token ''HTTP/1.1''" "http_prefix ''HTTP/1.1'' = Some True"
    by (simp_all add: token_def printable_def Let_def http_prefix_def numeral_eq_Suc mg_lower_def)
  from mg_http_parse_head[OF this(1) dec_digits_token line_text_raw[OF status_str_text(2)] raw this(2) _ cl lens]
  show ?thesis by (simp add: len reply_text_head tr)
qed

text \<open>
  C18: A reply is read back as it was made: mg_http_parse of the bytes mg_http_reply appends, and of
  any bytes after them, gives the status code, its text, the headers with the length of the body,
  and the place of the body, whose length the reply puts into the head only after printing it.
\<close>

theorem http_reply_roundtrip:
  assumes "io_ok (c_send c)" "io_room (length (http_headers_text hs) + length t + 128) (c_send c)" "\<And>n. avail net n"
    and "code < 2147483648" "mg_vxprintf fmt args = Some t" "headers_ok (hs @ [(''Content-Length'', [])])"
  shows "\<exists>io h. mg_http_reply net code (Some (http_headers_text hs)) fmt args c = Some (c\<lparr>c_send := io, is_resp := False\<rparr>) \<and>
    io_data io = io_data (c_send c) @ char_bytes (h @ t) \<and>
    mg_http_parse (h @ t @ rest) = Some (int (length h),
      Some \<lparr>hm_method = ''HTTP/1.1'', hm_uri = dec_digits code, hm_query = None, hm_proto = mg_http_status_code_str code,
        hm_headers = hs @ [(''Content-Length'', dec_digits (length t))],
        head_len = length h, body_len = length t, message_len = length h + length t\<rparr>)"
proof -
  define h where "h = reply_head code (http_headers_text hs) ('' '' @ length_cell (length t) @ '' '')"
  have h: "reply_text code (http_headers_text hs) t = h @ t" by (simp add: h_def reply_text_def)
  have "length t < 2 ^ 32" using assms(2) by (simp add: io_room_def)
  then have "length (h @ t) < 4294967295"
    using reply_head_short(1)[OF assms(4), of "http_headers_text hs" "'' '' @ length_cell (length t) @ '' ''"] assms(2)
    by (simp add: h_def io_room_def length_length_cell)
  with http_reply_parsed[OF assms(6), of code t rest]
  have "mg_http_parse (h @ t @ rest) = Some (int (length h),
      Some \<lparr>hm_method = ''HTTP/1.1'', hm_uri = dec_digits code, hm_query = None, hm_proto = mg_http_status_code_str code,
        hm_headers = hs @ [(''Content-Length'', dec_digits (length t))],
        head_len = length h, body_len = length t, message_len = length h + length t\<rparr>)"
    by (simp add: h)
  moreover have "NUL \<notin> set (http_headers_text hs)"
    using assms(6) by (fastforce simp: http_headers_text_def headers_ok_def list_all_iff token_def printable_def line_text_def
      isok_def CRLF_def CR_def LF_def TAB_def Let_def)
  from mg_http_reply_appends[where headers = "http_headers_text hs", OF assms(1,2,3,4) this assms(5)] h
  obtain io where "mg_http_reply net code (Some (http_headers_text hs)) fmt args c = Some (c\<lparr>c_send := io, is_resp := False\<rparr>)"
    "io_data io = io_data (c_send c) @ char_bytes (h @ t)" by auto
  ultimately show ?thesis by blast
qed

section \<open>Chunks stay inside the buffer\<close>

lemma no_crlf_Some: "i + 1 < length s \<Longrightarrow> \<exists>b. no_crlf s i = Some b"
  by (cases "s ! i = CR"; cases "s ! (i + 1) = LF") (simp_all add: no_crlf_def exI[of _ True] exI[of _ False])

lemma skip_chunk_safe:
  assumes "len < length buf"
  shows "\<exists>cl pl dl. skip_chunk buf len = Some (cl, pl, dl)"
proof -
  define i where "i = length (takeWhile is_hex_digit (take len buf))"
  have i: "i \<le> len" using assms by (simp add: i_def) (metis length_take length_takeWhile_le min.absorb4)
  obtain b where b: "i < len \<Longrightarrow> no_crlf buf i = Some b" using no_crlf_Some[of i buf] assms by fastforce
  have "\<exists>b. no_crlf buf (i + n + 2) = Some b" if "\<not> int n > int len - int i - 4" for n
    using that assms by (intro no_crlf_Some) linarith
  then have "\<exists>x y z. (do { bad \<leftarrow> no_crlf buf (i + n + 2);
      Some (if bad then (-1, 0, 0) else (int (i + 2 + n + 2), i + 2, n)) }) = Some (x, y, z)"
    if "\<not> int n > int len - int i - 4" for n using that by (metis bind.bind_lunit prod_cases3)
  then show ?thesis
    using b i unfolding skip_chunk_def i_def [symmetric] Let_def
    by (auto split: option.splits)
qed

lemma last_chunk_safe: "len < length s \<Longrightarrow> p \<le> len \<Longrightarrow> \<exists>cl. last_chunk s len p = Some cl"
proof (induction s len p rule: last_chunk.induct)
  case (1 s len p)
  obtain cl pl dl where c: "skip_chunk (drop p s) (len - p) = Some (cl, pl, dl)"
    using skip_chunk_safe[of "len - p" "drop p s"] "1.prems" by fastforce
  show ?case
  proof (cases "cl > 0 \<and> dl \<noteq> 0")
    case True
    then have "nat cl \<le> len - p" using skip_chunk_bounds[OF c] by simp
    then have "\<exists>x. last_chunk s len (p + nat cl) = Some x" using "1.IH"[OF c] True "1.prems" c by auto
    then show ?thesis using True c by (subst last_chunk.simps) auto
  qed (use c in \<open>subst last_chunk.simps, auto\<close>)
qed

lemma move_chunks_safe:
  "len < length s \<Longrightarrow> p \<le> len \<Longrightarrow> body \<le> p \<Longrightarrow>
    \<exists>t q b. move_chunks s len p body = Some (t, q, b) \<and> length t = length s \<and> p \<le> q \<and> q \<le> len \<and> b \<le> q"
proof (induction "len - p" arbitrary: s p body rule: less_induct)
  case less
  obtain cl pl dl where c: "skip_chunk (drop p s) (len - p) = Some (cl, pl, dl)"
    using skip_chunk_safe[of "len - p" "drop p s"] less.prems by fastforce
  show ?case
  proof (cases "cl > 0")
    case True
    note b = skip_chunk_bounds[OF c True]
    define t where "t = take body s @ take dl (drop (p + pl) s) @ drop (body + dl) s"
    have le: "p + pl + dl \<le> length s" "dl \<le> length s - (p + pl)" "body + dl \<le> length s" using b less.prems by linarith+
    then have m: "(do { data \<leftarrow> arr_slice s (int (p + pl)) (int dl); arr_copy s (int body) data }) = Some t"
      unfolding arr_nat_block by (simp add: t_def min_absorb2 arr_nat_block del: arr_copy_Some)
    have t: "length t = length s" using le by (simp add: t_def min_absorb2)
    show ?thesis
    proof (cases "dl = 0")
      case dl: True
      then show ?thesis using c True m t b less.prems by (subst move_chunks.simps) auto
    next
      case False
      have "len - (p + nat cl) < len - p" "len < length t" "p + nat cl \<le> len" "body + dl \<le> p + nat cl"
        using b less.prems t by linarith+
      from less.hyps[OF this] t obtain t' q b where "move_chunks t len (p + nat cl) (body + dl) = Some (t', q, b)"
        "length t' = length s" "p + nat cl \<le> q" "q \<le> len" "b \<le> q" by auto
      then show ?thesis using c True m False by (subst move_chunks.simps) simp
    qed
  qed (use c less.prems in \<open>subst move_chunks.simps, auto\<close>)
qed

theorem http_reply_roundtrip_witness:
  "\<exists>io h. mg_http_reply good_net 200 (Some (http_headers_text [(''Server'', ''pico'')])) ''%s'' [A_str (Some ''hello'')] (fresh_conn False) =
      Some ((fresh_conn False)\<lparr>c_send := io, is_resp := False\<rparr>) \<and>
    io_data io = io_data (c_send (fresh_conn False)) @ char_bytes (h @ ''hello'') \<and>
    mg_http_parse (h @ ''hello'' @ ''x'') = Some (int (length h),
      Some \<lparr>hm_method = ''HTTP/1.1'', hm_uri = dec_digits 200, hm_query = None, hm_proto = mg_http_status_code_str 200,
        hm_headers = [(''Server'', ''pico'')] @ [(''Content-Length'', dec_digits (length ''hello''))],
        head_len = length h, body_len = length ''hello'', message_len = length h + length ''hello''\<rparr>)"
proof (rule http_reply_roundtrip)
  show "mg_vxprintf ''%s'' [A_str (Some ''hello'')] = Some ''hello''"
    using fmt_plain_s[of "[]" "''hello''" "[]"] by simp
  show "headers_ok ([(''Server'', ''pico'')] @ [(''Content-Length'', [])])" by code_simp
  have "length (http_headers_text [(''Server'', ''pico'')]) = 14" by code_simp
  then show "io_room (length (http_headers_text [(''Server'', ''pico'')]) + length ''hello'' + 128) (c_send (fresh_conn False))"
    by (simp add: fresh_conn_def io_room_def)
qed (simp_all add: fresh_conn_def io_ok_def good_net_def)

end
