(* ===== verification/Http_Stream.thy ===== *)
theory Http_Stream
  imports Mongoose_Server
begin

text \<open>
  The HTTP server of the Mongoose library on a stream of requests: what it asks of a handler is
  the locale http_app, and its theorem says that the requests of a connection are answered once
  each and in order, however the network cuts them into packets.
\<close>

section \<open>Requests and their stream\<close>

text \<open>
  A request as a browser sends it: with the length of its body in the head, or a GET without a
  body. The encoding is not chunked, and the connection stays open.
\<close>

record http_request =
  rq_method :: string
  rq_uri :: string
  rq_headers :: "http_header list"
  rq_body :: string

definition request_head :: "http_request \<Rightarrow> string" where
  "request_head r = http_head (rq_method r) (rq_uri r) ''HTTP/1.1'' (rq_headers r)"

definition request_text :: "http_request \<Rightarrow> string" where
  "request_text r = request_head r @ rq_body r"

definition good_request :: "http_request \<Rightarrow> bool" where
  "good_request r \<longleftrightarrow> token (rq_method r) \<and> http_prefix (rq_method r) = Some False \<and>
     token (rq_uri r) \<and> CHR ''?'' \<notin> set (rq_uri r) \<and> headers_ok (rq_headers r) \<and>
     (mg_http_get_header (rq_headers r) ''Content-Length'' = Some (Some (dec_digits (length (rq_body r)))) \<or>
      mg_http_get_header (rq_headers r) ''Content-Length'' = Some None \<and> rq_body r = [] \<and> rq_method r = ''GET'') \<and>
     mg_http_get_header (rq_headers r) ''Transfer-Encoding'' = Some None \<and>
     (case mg_http_get_header (rq_headers r) ''Connection'' of Some (Some v) \<Rightarrow> mg_strcasecmp v ''close'' \<noteq> 0 | _ \<Rightarrow> True) \<and>
     length (request_text r) < 2147483648"

text \<open>The message the parser makes of it.\<close>

definition request_msg :: "http_request \<Rightarrow> mg_http_message" where
  "request_msg r = \<lparr>hm_method = rq_method r, hm_uri = rq_uri r, hm_query = None, hm_proto = ''HTTP/1.1'',
     hm_headers = rq_headers r, head_len = length (request_head r), body_len = length (rq_body r),
     message_len = length (request_text r)\<rparr>"

lemma request_head_parsed:
  assumes "token (rq_method r)" "http_prefix (rq_method r) = Some False" "token (rq_uri r)" "CHR ''?'' \<notin> set (rq_uri r)"
    and "headers_ok (rq_headers r)" "length (request_text r) < 2147483648"
    and cl: "mg_http_get_header (rq_headers r) ''Content-Length'' = Some cl"
      "cl = Some (dec_digits (length (rq_body r))) \<or> cl = None \<and> rq_body r = []"
  shows "mg_http_parse (request_head r @ rest) = Some (int (length (request_head r)), Some (request_msg r))"
proof -
  have "raw_text ''HTTP/1.1''" by (simp add: raw_text_def isok_def CR_def LF_def blank_def TAB_def)
  moreover have "\<not> False \<longrightarrow> http_prefix ''HTTP/1.1'' = Some True \<and> \<not> version_bad ''HTTP/1.1'' True"
    by (simp add: http_prefix_def numeral_eq_Suc version_bad_def is_dec_def mg_lower_def)
  moreover have "http_lengths (length (http_head (rq_method r) (rq_uri r) ''HTTP/1.1'' (rq_headers r))) False (rq_uri r) cl =
      Some (length (rq_body r), length (request_text r))"
    using cl(2) assms(6) by (auto simp: http_lengths_def mg_to_size_t_dec NO_LEN_def request_text_def request_head_def)
  ultimately show ?thesis
    using mg_http_parse_head[OF assms(1,3,4) _ headers_ok_raw[OF assms(5)] assms(2)] cl(1)
    by (simp add: trimmed_ok[OF assms(5)] request_head_def request_text_def request_msg_def)
qed

lemma request_parsed:
  assumes "good_request r"
  shows "mg_http_parse (request_head r @ rest) = Some (int (length (request_head r)), Some (request_msg r))"
proof -
  obtain cl where cl: "mg_http_get_header (rq_headers r) ''Content-Length'' = Some cl"
    "cl = Some (dec_digits (length (rq_body r))) \<or> cl = None \<and> rq_body r = []"
    using assms by (auto simp: good_request_def)
  then show ?thesis
    using assms by (intro request_head_parsed) (simp_all add: good_request_def)
qed

lemma request_head_part:
  assumes "good_request r" "k < length (request_head r)"
  shows "mg_http_parse (take k (request_head r)) = Some (0, None)"
proof -
  have "mg_http_get_request_len (request_head r) = int (length (request_head r))"
    using request_parsed[OF assms(1), of "[]"] 
    by (auto simp: mg_http_parse_def Let_def bind_eq_Some_conv split: if_splits option.splits prod.splits)
  then have "mg_http_get_request_len (take k (request_head r)) = 0"
    using assms(2) request_len_part[of "request_head r" 0 "int (length (request_head r))" k]
    by (cases "request_head r = []") (auto simp: mg_http_get_request_len_def)
  then show ?thesis by (simp add: mg_http_parse_def)
qed

definition answers :: "(mg_http_message \<Rightarrow> u8 list \<Rightarrow> 's \<Rightarrow> 's) \<Rightarrow> http_request list \<Rightarrow> 's \<Rightarrow> 's" where
  "answers answer rs a = fold (\<lambda>r. answer (request_msg r) (char_bytes (rq_body r))) rs a"

fun replies ::
    "(mg_http_message \<Rightarrow> u8 list \<Rightarrow> 's \<Rightarrow> 's) \<Rightarrow> (mg_http_message \<Rightarrow> u8 list \<Rightarrow> 's \<Rightarrow> u8 list) \<Rightarrow>
      http_request list \<Rightarrow> 's \<Rightarrow> u8 list" where
  "replies answer reply [] a = []"
| "replies answer reply (r # rs) a = reply (request_msg r) (char_bytes (rq_body r)) a @
     replies answer reply rs (answer (request_msg r) (char_bytes (rq_body r)) a)"

lemma replies_append:
  "replies answer reply (rs @ rs') a = replies answer reply rs a @ replies answer reply rs' (answers answer rs a)"
  by (induction rs arbitrary: a) (simp_all add: answers_def)

definition request_part :: "string \<Rightarrow> bool" where
  "request_part p \<longleftrightarrow> p = [] \<or> (\<exists>r k. good_request r \<and> k < length (request_text r) \<and> p = take k (request_text r))"

lemma cut_requests:
  assumes "q @ r = concat (map request_text rs)" "list_all good_request rs"
  shows "\<exists>rs1 rs2 p. rs = rs1 @ rs2 \<and> q = concat (map request_text rs1) @ p \<and> p @ r = concat (map request_text rs2) \<and>
    request_part p \<and> (r = [] \<longrightarrow> p = [])"
proof -
  from cut_concat[OF assms(1)] obtain ys zs p where c: "map request_text rs = ys @ zs" "q = concat ys @ p" "p @ r = concat zs"
    "p = [] \<or> (\<exists>z zs'. zs = z # zs' \<and> length p < length z)" by blast
  from c(1) obtain rs1 rs2 where rs: "rs = rs1 @ rs2" "ys = map request_text rs1" "zs = map request_text rs2"
    by (auto simp: map_eq_append_conv)
  have "request_part p"
  proof (cases "p = []")
    case False
    then obtain z zs' where z: "zs = z # zs'" "length p < length z" using c(4) by blast
    then obtain x xs where x: "rs2 = x # xs" "z = request_text x" using rs(3) by (cases rs2) auto
    have "p = take (length p) z" using c(3) z by (simp add: append_eq_append_conv_if split: if_splits)
    then show ?thesis using x z(2) assms(2) rs(1) unfolding request_part_def by auto
  qed (simp add: request_part_def)
  moreover have "r = [] \<longrightarrow> p = []" using c(3,4) by auto
  ultimately show ?thesis
    using c(2,3) rs by (intro exI[of _ rs1] exI[of _ rs2] exI[of _ p]) simp
qed

text \<open>
  What the server asks of a handler: the event of the headers changes nothing; a message is
  answered at once, with at most reply_max bytes, and what the application makes of it depends on
  the message and its own state only.
\<close>

locale http_app =
  fixes net :: mg_net
    and fn :: "'s http_fn"
    and reply_max :: nat
    and app_ok :: "'s \<Rightarrow> bool"
    and answer :: "mg_http_message \<Rightarrow> u8 list \<Rightarrow> 's \<Rightarrow> 's"
    and reply :: "mg_http_message \<Rightarrow> u8 list \<Rightarrow> 's \<Rightarrow> u8 list"
  assumes headers_ignored: "fn (EV_HTTP_HDRS hm b) (c, a) = Some (c, a)"
    and answered: "io_ok (c_send c) \<Longrightarrow> io_room reply_max (c_send c) \<Longrightarrow> app_ok a \<Longrightarrow>
      \<exists>io. fn (EV_HTTP_MSG hm b) (c, a) = Some (c\<lparr>c_send := io, is_resp := False\<rparr>, answer hm b a) \<and> io_ok io \<and>
        io_data io = io_data (c_send c) @ reply hm b a \<and> io_align io = io_align (c_send c)"
    and reply_short: "app_ok a \<Longrightarrow> length (reply hm b a) \<le> reply_max"
    and app_kept: "app_ok a \<Longrightarrow> app_ok (answer hm b a)"
begin

lemma turn_request:
  assumes "good_request r" "io_ok (c_send c)" "io_room reply_max (c_send c)" "app_ok a"
    and "io_ok (c_recv c)" "io_data (c_recv c) = old @ char_bytes (request_text r) @ rest" "io_len (c_recv c) < 2 ^ 31"
    and "is_resp c = False" "is_accepted c"
  shows "\<exists>io. http_turn net MG_EV_READ fn (length old) c a =
      Some (Http_next (length old + length (request_text r)), c\<lparr>c_send := io\<rparr>,
        answer (request_msg r) (char_bytes (rq_body r)) a) \<and> io_ok io \<and>
      io_data io = io_data (c_send c) @ reply (request_msg r) (char_bytes (rq_body r)) a \<and> io_align io = io_align (c_send c)"
proof -
  let ?e = "length (request_head r)" and ?hm = "request_msg r"
  have data: "drop (length old) (byte_chars (io_data (c_recv c))) = request_head r @ rq_body r @ byte_chars rest"
    using assms(6) by (simp add: request_text_def)
  note p = request_parsed[OF assms(1), of "rq_body r @ byte_chars rest"]
  have len: "io_len (c_recv c) = length old + ?e + length (rq_body r) + length rest"
    using length_io_data[OF assms(5)] assms(6) by (simp add: request_text_def)
  have body: "http_body (length old) ?hm c = char_bytes (rq_body r)"
    using assms(6) by (simp add: http_body_def request_msg_def request_text_def)
  have body': "http_body (length old) ?hm (c\<lparr>is_resp := x\<rparr>) = char_bytes (rq_body r)" for x
    using body by (simp add: http_body_def)
  have "io_ok (c_send (c\<lparr>is_resp := True\<rparr>))" "io_room reply_max (c_send (c\<lparr>is_resp := True\<rparr>))" using assms(2,3) by simp_all
  from answered[OF this assms(4)] obtain io where io:
    "fn (EV_HTTP_MSG ?hm (char_bytes (rq_body r))) (c\<lparr>is_resp := True\<rparr>, a) =
      Some (c\<lparr>is_resp := True, c_send := io, is_resp := False\<rparr>, answer ?hm (char_bytes (rq_body r)) a)"
    "io_ok io" "io_data io = io_data (c_send c) @ reply ?hm (char_bytes (rq_body r)) a" "io_align io = io_align (c_send c)"
    by fastforce
  have c: "c\<lparr>is_resp := True, c_send := io, is_resp := False\<rparr> = c\<lparr>c_send := io\<rparr>"
    using assms(8) by (cases c) simp
  obtain cc where cc: "mg_http_get_header (rq_headers r) ''Connection'' = Some cc"
    "\<not> (cc \<noteq> None \<and> mg_strcasecmp (the cc) ''close'' = 0)"
    using assms(1) mg_http_get_header_Some[of "rq_headers r" "''Connection''"]
    by (cases "the (mg_http_get_header (rq_headers r) ''Connection'')") (auto simp: good_request_def)
  have deliver: "http_deliver fn (length old) m ?hm c a =
      Some (Http_next m, c\<lparr>c_send := io\<rparr>, answer ?hm (char_bytes (rq_body r)) a)" for m
    using io(1) c cc assms(8,9) body' by (simp add: http_deliver_def request_msg_def)
  have sized: "http_sized fn ?e (length old) (length old) ?hm c a =
      Some (Http_next (length old + length (request_text r)), c\<lparr>c_send := io\<rparr>, answer ?hm (char_bytes (rq_body r)) a)"
  proof -
    have "(int (io_len (c_recv c)) - int (length old) - int ?e) mod 2 ^ 32 = int (length (rq_body r) + length rest)"
      using len assms(7) by (simp add: mod_pos_pos_trivial)
    then show ?thesis using deliver by (simp add: http_sized_def request_msg_def request_text_def)
  qed
  have te: "mg_http_get_header (rq_headers r) ''Transfer-Encoding'' = Some None"
    using assms(1) by (simp add: good_request_def)
  have old: "is_http_1_0 ?hm = Some False" by (simp add: is_http_1_0_def request_msg_def)
  have "http_message net MG_EV_READ fn ?e (length old) ?hm c a =
      Some (Http_next (length old + length (request_text r)), c\<lparr>c_send := io\<rparr>, answer ?hm (char_bytes (rq_body r)) a)"
  proof (cases "mg_http_get_header (rq_headers r) ''Content-Length'' = Some None")
    case False
    then have "\<exists>v. mg_http_get_header (rq_headers r) ''Content-Length'' = Some (Some v)"
      using assms(1) by (auto simp: good_request_def)
    then have "http_framing ?hm = Some Sized"
      using te old by (auto simp: http_framing_def content_length_case request_msg_def)
    then show ?thesis using sized by (simp add: http_message_def)
  next
    case True
    then have get: "rq_method r = ''GET''" "rq_body r = []" using assms(1) by (auto simp: good_request_def)
    have fr: "http_framing ?hm = Some Unsized"
      using te old True by (simp add: http_framing_def content_length_case request_msg_def)
    have "\<exists>x. request_head r = CHR ''G'' # x" by (simp add: request_head_def http_head_def get)
    then obtain x where x: "request_head r = CHR ''G'' # x" ..
    have "http_unsized net (drop (length old) (byte_chars (io_data (c_recv c)))) ?e (length old) ?hm c = Some (length old, c)"
      unfolding data x
      by (simp add: http_unsized_def request_msg_def get numeral_eq_Suc mg_lower_def mg_tolc_def Let_def)
    then show ?thesis using fr sized by (simp add: http_message_def)
  qed
  then have "http_turn net MG_EV_READ fn (length old) c a =
      Some (Http_next (length old + length (request_text r)), c\<lparr>c_send := io\<rparr>, answer ?hm (char_bytes (rq_body r)) a)"
    unfolding http_turn_def data using p headers_ignored by (simp add: Let_def)
  then show ?thesis using io by blast
qed

text \<open>A part of a request waits for the rest of it.\<close>

lemma turn_part:
  assumes "good_request r" "io_ok (c_recv c)" "io_data (c_recv c) = old @ char_bytes (take k (request_text r))"
    and "k < length (request_text r)" "io_len (c_recv c) < 2 ^ 31"
  shows "http_turn net MG_EV_READ fn (length old) c a = Some (Http_break (length old), c, a)"
proof (cases "k < length (request_head r)")
  case True
  then have data: "drop (length old) (byte_chars (io_data (c_recv c))) = take k (request_head r)"
    using assms(3) by (simp add: request_text_def)
  show ?thesis
    unfolding http_turn_def data request_head_part[OF assms(1) True] by simp
next
  case False
  let ?e = "length (request_head r)" and ?hm = "request_msg r"
  have data: "drop (length old) (byte_chars (io_data (c_recv c))) = request_head r @ take (k - ?e) (rq_body r)"
    using assms(3) False by (simp add: request_text_def)
  have len: "io_len (c_recv c) = length old + k"
    using length_io_data[OF assms(2)] assms(3,4) by simp
  have te: "mg_http_get_header (rq_headers r) ''Transfer-Encoding'' = Some None"
    using assms(1) by (simp add: good_request_def)
  have old: "is_http_1_0 ?hm = Some False" by (simp add: is_http_1_0_def request_msg_def)
  have "rq_body r \<noteq> []" using False assms(4) by (auto simp: request_text_def)
  then have "\<exists>v. mg_http_get_header (rq_headers r) ''Content-Length'' = Some (Some v)"
    using assms(1) by (auto simp: good_request_def)
  then have fr: "http_framing ?hm = Some Sized"
    using te old by (auto simp: http_framing_def content_length_case request_msg_def)
  have "(int (io_len (c_recv c)) - int (length old) - int ?e) mod 2 ^ 32 = int (k - ?e)"
    using len assms(5) False by (simp add: mod_pos_pos_trivial of_nat_diff)
  moreover have "nat (int k - int ?e) < length (rq_body r)" using False assms(4) by (simp add: request_text_def)
  ultimately have "http_sized fn ?e (length old) (length old) ?hm c a = Some (Http_break (length old), c, a)"
    using False assms(4) by (simp add: http_sized_def request_msg_def request_text_def)
  then have "http_message net MG_EV_READ fn ?e (length old) ?hm c a = Some (Http_break (length old), c, a)"
    using fr by (simp add: http_message_def)
  then show ?thesis
    unfolding http_turn_def data using request_parsed[OF assms(1)] headers_ignored by (simp add: Let_def)
qed

lemma replies_short: "app_ok a \<Longrightarrow> length (replies answer reply rs a) \<le> length rs * reply_max"
proof (induction rs arbitrary: a)
  case (Cons r rs)
  from Cons.IH[OF app_kept[OF Cons.prems]] reply_short[OF Cons.prems] show ?case
    by (simp add: add_mono)
qed simp

lemma loop_requests:
  assumes "list_all good_request rs" "request_part p" "app_ok a"
    and "io_ok (c_send c)" "io_len (c_send c) + length rs * reply_max + 2 * io_align (c_send c) < 2 ^ 32"
    and "io_ok (c_recv c)" "io_data (c_recv c) = old @ char_bytes (concat (map request_text rs) @ p)" "io_len (c_recv c) < 2 ^ 31"
    and "is_resp c = False" "is_accepted c"
  shows "\<exists>io. http_loop net MG_EV_READ fn (length old) (c, a) =
      Some (Some (length old + length (concat (map request_text rs))), c\<lparr>c_send := io\<rparr>, answers answer rs a) \<and> io_ok io \<and>
      io_data io = io_data (c_send c) @ replies answer reply rs a \<and> io_align io = io_align (c_send c) \<and> app_ok (answers answer rs a)"
  using assms
proof (induction rs arbitrary: c a old)
  case Nil
  have len: "io_len (c_recv c) = length old + length p"
    using length_io_data[OF Nil.prems(6)] Nil.prems(7) by simp
  have "http_loop net MG_EV_READ fn (length old) (c, a) = Some (Some (length old), c, a)"
  proof (cases "p = []")
    case True
    then show ?thesis using len by (subst http_loop.simps) simp
  next
    case False
    then obtain r k where "good_request r" "k < length (request_text r)" "p = take k (request_text r)"
      using Nil.prems(2) by (auto simp: request_part_def)
    then have "http_turn net MG_EV_READ fn (length old) c a = Some (Http_break (length old), c, a)"
      using Nil.prems by (intro turn_part[of r c old k]) simp_all
    then show ?thesis using len Nil.prems(9) False by (subst http_loop.simps) simp
  qed
  then show ?case using Nil.prems by (intro exI[of _ "c_send c"]) (simp add: answers_def)
next
  case (Cons r rs)
  let ?n = "length (request_text r)" and ?a = "answer (request_msg r) (char_bytes (rq_body r)) a"
  have good: "good_request r" "list_all good_request rs" using Cons.prems(1) by simp_all
  have room: "io_room reply_max (c_send c)" using Cons.prems(5) by (simp add: io_room_def)
  have data: "io_data (c_recv c) = old @ char_bytes (request_text r) @ char_bytes (concat (map request_text rs) @ p)"
    using Cons.prems(7) by simp
  from turn_request[OF good(1) Cons.prems(4) room Cons.prems(3,6) data Cons.prems(8-10)] obtain io where
    io: "http_turn net MG_EV_READ fn (length old) c a = Some (Http_next (length old + ?n), c\<lparr>c_send := io\<rparr>, ?a)"
    "io_ok io" "io_data io = io_data (c_send c) @ reply (request_msg r) (char_bytes (rq_body r)) a"
    "io_align io = io_align (c_send c)" by blast
  have iol: "io_len io \<le> io_len (c_send c) + reply_max"
    using io(3) length_io_data[OF io(2)] length_io_data[OF Cons.prems(4)]
      reply_short[OF Cons.prems(3), of "request_msg r" "char_bytes (rq_body r)"] by simp
  have n: "0 < ?n" by (simp add: request_text_def request_head_def http_head_def)
  have "io_len (c_recv c) = length old + (?n + length (concat (map request_text rs) @ p))"
    using length_io_data[OF Cons.prems(6)] Cons.prems(7) by simp
  with n have more: "\<not> length old \<ge> io_len (c_recv c)" by linarith
  have "\<exists>io'. http_loop net MG_EV_READ fn (length (old @ char_bytes (request_text r))) (c\<lparr>c_send := io\<rparr>, ?a) =
      Some (Some (length (old @ char_bytes (request_text r)) + length (concat (map request_text rs))),
        c\<lparr>c_send := io\<rparr>\<lparr>c_send := io'\<rparr>, answers answer rs ?a) \<and> io_ok io' \<and>
      io_data io' = io_data (c_send (c\<lparr>c_send := io\<rparr>)) @ replies answer reply rs ?a \<and>
      io_align io' = io_align (c_send (c\<lparr>c_send := io\<rparr>)) \<and> app_ok (answers answer rs ?a)"
    using Cons.prems io iol good(2) app_kept[OF Cons.prems(3)] data by (intro Cons.IH) auto
  then obtain io' where io': "http_loop net MG_EV_READ fn (length old + ?n) (c\<lparr>c_send := io\<rparr>, ?a) =
      Some (Some (length old + ?n + length (concat (map request_text rs))), c\<lparr>c_send := io'\<rparr>, answers answer rs ?a)"
    "io_ok io'" "io_data io' = io_data io @ replies answer reply rs ?a" "io_align io' = io_align (c_send c)" "app_ok (answers answer rs ?a)"
    using io(4) by auto
  have "http_loop net MG_EV_READ fn (length old) (c, a) =
      Some (Some (length old + ?n + length (concat (map request_text rs))), c\<lparr>c_send := io'\<rparr>, answers answer rs ?a)"
    using io(1) io'(1) more Cons.prems(9) by (subst http_loop.simps) simp
  then show ?case using io' io(3) by (intro exI[of _ io']) (simp add: answers_def)
qed

lemma requests_answered:
  assumes "list_all good_request rs" "app_ok a" "\<And>n. avail net n"
    and "io_ok (c_send c)" "io_len (c_send c) + length rs * reply_max + 2 * io_align (c_send c) < 2 ^ 32"
    and "io_ok (c_recv c)" "io_data (c_recv c) @ concat packets = char_bytes (concat (map request_text rs))"
    and "length (concat (map request_text rs)) + 2 * io_align (c_recv c) < 2 ^ 31"
    and "is_resp c = False" "is_accepted c" "packets = [] \<longrightarrow> io_data (c_recv c) = []"
  shows "\<exists>ri si. for_each packets (http_read net fn) (c, a) = Some (c\<lparr>c_recv := ri, c_send := si\<rparr>, answers answer rs a) \<and>
    io_ok ri \<and> io_data ri = [] \<and> io_ok si \<and> io_data si = io_data (c_send c) @ replies answer reply rs a"
  using assms
proof (induction packets arbitrary: c a rs)
  case Nil
  have "length (request_text r) \<noteq> 0" for r by (simp add: request_text_def request_head_def http_head_def)
  then have "rs = []" using Nil.prems by (cases rs) auto
  then show ?case
    using Nil.prems by (intro exI[of _ "c_recv c"] exI[of _ "c_send c"]) (simp add: answers_def)
next
  case (Cons x xs)
  let ?q = "io_data (c_recv c) @ x"
  have total: "length (io_data (c_recv c)) + length x + length (concat xs) = length (concat (map request_text rs))"
    using arg_cong[OF Cons.prems(7), of length] by simp
  have "io_room (length x) (c_recv c)"
    using Cons.prems(8) total length_io_data[OF Cons.prems(6)] by (simp add: io_room_def)
  from recv_append_ok[OF Cons.prems(6) this Cons.prems(3)] obtain io where io:
    "recv_append net x c = Some (True, c\<lparr>c_recv := io\<rparr>)" "io_ok io" "io_data io = ?q" "io_align io = io_align (c_recv c)"
    by blast
  have "byte_chars ?q @ byte_chars (concat xs) = concat (map request_text rs)"
    using arg_cong[OF Cons.prems(7), of byte_chars] by simp
  from cut_requests[OF this Cons.prems(1)] obtain rs1 rs2 p where cut: "rs = rs1 @ rs2"
    "byte_chars ?q = concat (map request_text rs1) @ p" "p @ byte_chars (concat xs) = concat (map request_text rs2)"
    "request_part p" "byte_chars (concat xs) = [] \<longrightarrow> p = []" by blast
  have q: "io_data io = char_bytes (concat (map request_text rs1) @ p)"
    using arg_cong[OF cut(2), of char_bytes] io(3) by simp
  let ?c = "c\<lparr>c_recv := io\<rparr>"
  let ?n = "length (concat (map request_text rs1))"
  have "io_len io < 2 ^ 31" using length_io_data[OF io(2)] io(3) total Cons.prems(8) by simp
  then have "\<exists>so. http_loop net MG_EV_READ fn (length ([] :: u8 list)) (?c, a) =
      Some (Some (length ([] :: u8 list) + ?n), ?c\<lparr>c_send := so\<rparr>, answers answer rs1 a) \<and> io_ok so \<and>
      io_data so = io_data (c_send ?c) @ replies answer reply rs1 a \<and> io_align so = io_align (c_send ?c) \<and> app_ok (answers answer rs1 a)"
    using Cons.prems cut io q by (intro loop_requests[where p = p]) (auto simp: algebra_simps)
  then obtain so where so: "http_loop net MG_EV_READ fn 0 (?c, a) = Some (Some ?n, ?c\<lparr>c_send := so\<rparr>, answers answer rs1 a)"
    "io_ok so" "io_data so = io_data (c_send c) @ replies answer reply rs1 a" "io_align so = io_align (c_send c)"
    "app_ok (answers answer rs1 a)" by auto
  have sol: "io_len so \<le> io_len (c_send c) + length rs1 * reply_max"
    using so(3) length_io_data[OF so(2)] length_io_data[OF Cons.prems(4)] replies_short[OF Cons.prems(2), of rs1] by simp
  have n: "0 + ?n \<le> io_len (c_recv (?c\<lparr>c_send := so\<rparr>))" "io_ok (c_recv (?c\<lparr>c_send := so\<rparr>))"
    using q length_io_data[OF io(2)] io(2) by simp_all
  from recv_del_ok[OF n(2,1)] obtain ri where ri: "recv_del 0 ?n (?c\<lparr>c_send := so\<rparr>) = Some (?c\<lparr>c_send := so\<rparr>\<lparr>c_recv := ri\<rparr>)"
    "io_ok ri" "io_data ri = char_bytes p" "io_align ri = io_align (c_recv c)"
    using q io(4) by auto
  obtain ri' where step: "http_read net fn x (c, a) = Some (c\<lparr>c_recv := ri', c_send := so\<rparr>, answers answer rs1 a)"
    "io_ok ri'" "io_data ri' = char_bytes p" "io_align ri' = io_align (c_recv c)"
  proof (cases "?n = 0")
    case True
    then have "concat (map request_text rs1) = []" by (simp only: length_0_conv)
    then have "io_data io = char_bytes p" using q by simp
    then show thesis
      using that[of io] io so(1) [unfolded True] by (simp add: http_read_def http_cb_def)
  next
    case False
    have "c\<lparr>c_recv := io, c_send := so, c_recv := ri\<rparr> = c\<lparr>c_recv := ri, c_send := so\<rparr>" by simp
    then show thesis
      using that[of ri] io(1) ri so(1) False by (simp add: http_read_def http_cb_def)
  qed
  let ?d = "c\<lparr>c_recv := ri', c_send := so\<rparr>"
  have "char_bytes p @ concat xs = char_bytes (concat (map request_text rs2))"
    using arg_cong[OF cut(3), of char_bytes] by simp
  moreover have "xs = [] \<longrightarrow> char_bytes p = []" using cut(5) by simp
  moreover have "length (concat (map request_text rs2)) + 2 * io_align (c_recv c) < 2 ^ 31"
    using Cons.prems(8) cut(1) by simp
  ultimately have "\<exists>ri si. for_each xs (http_read net fn) (?d, answers answer rs1 a) =
      Some (?d\<lparr>c_recv := ri, c_send := si\<rparr>, answers answer rs2 (answers answer rs1 a)) \<and> io_ok ri \<and> io_data ri = [] \<and>
      io_ok si \<and> io_data si = io_data (c_send ?d) @ replies answer reply rs2 (answers answer rs1 a)"
    using Cons.prems so sol step cut(1) by (intro Cons.IH) (auto simp: algebra_simps)
  then show ?case using step(1) so(3) by (auto simp: cut(1) answers_def replies_append)
qed

end

definition form_request :: http_request where
  "form_request = \<lparr>rq_method = ''GET'', rq_uri = ''/'', rq_headers = [(''Host'', ''192.168.4.1'')], rq_body = []\<rparr>"

definition save_request :: http_request where
  "save_request = \<lparr>rq_method = ''POST'', rq_uri = ''/save'', rq_headers = save_headers, rq_body = ''ssid=cafe&pass=1234''\<rparr>"

lemma request_sizes: "length (request_text form_request) = 37" "length (request_text save_request) = 81"
  by (simp_all add: request_text_def request_head_def form_request_def save_request_def http_head_def
      http_headers_text_def save_headers_def CRLF_def)
lemma good_requests: "good_request form_request" "good_request save_request"
proof -
  have d: "dec_digits (length ''ssid=cafe&pass=1234'') = ''19''" by code_simp
  have ok: "headers_ok [(''Host'', ''192.168.4.1'')]" "headers_ok save_headers" by code_simp+
  have len: "length (request_text form_request) < 2147483648" "length (request_text save_request) < 2147483648"
    by (simp_all add: request_sizes)
  have save: "mg_http_get_header save_headers ''Content-Length'' = Some (Some ''19'')"
    "mg_http_get_header save_headers ''Transfer-Encoding'' = Some None" "mg_http_get_header save_headers ''Connection'' = Some None"
    by (simp_all add: mg_http_get_header_def save_headers_def numeral_eq_Suc mg_lower_def)
  show "good_request form_request"
    using ok(1) len(1) by (simp add: good_request_def form_request_def token_def printable_def http_prefix_def mg_http_get_header_def)
  show "good_request save_request"
    using ok(2) d len(2) save by (simp add: good_request_def save_request_def token_def printable_def http_prefix_def)
qed


section \<open>Requests that go wrong\<close>

lemma hex_run: "list_all is_hex_digit ds \<Longrightarrow> takeWhile is_hex_digit (take (length ds) (ds @ r)) = ds"
  "list_all is_hex_digit ds \<Longrightarrow> \<not> is_hex_digit x \<Longrightarrow> takeWhile is_hex_digit (take (length ds + 1) (ds @ x # r)) = ds"
  by (simp_all add: list_all_iff takeWhile_append takeWhile_eq_all_conv)


definition chunk_conn :: mg_connection where
  "chunk_conn = (fresh_conn False)\<lparr>c_recv := \<lparr>io_buf = char_bytes ''1f0'', io_len = 3, io_align = 0\<rparr>\<rparr>"


text \<open>
  A POST or PUT without a body and without a Content-Length is counted twice: the next
  request begins one head further on, so that as many bytes of what follows are lost.
\<close>

theorem post_without_length_skips:
  assumes "token m" "http_prefix m = Some False" "token u" "CHR ''?'' \<notin> set u" "headers_ok hs"
    and "mg_http_get_header hs ''Content-Length'' = Some None" "mg_http_get_header hs ''Transfer-Encoding'' = Some None"
    and "mg_strcasecmp m ''POST'' = 0 \<or> mg_strcasecmp m ''PUT'' = 0" "length (http_head m u ''HTTP/1.1'' hs) < 2 ^ 31"
    and "r = \<lparr>rq_method = m, rq_uri = u, rq_headers = hs, rq_body = []\<rparr>"
    and "io_data (c_recv c) = char_bytes (request_text r @ next)"
    and "\<And>b. fn (EV_HTTP_HDRS (request_msg r) b) (c, a) = Some (c, a)"
  shows "http_turn net MG_EV_READ fn 0 c a =
    http_deliver fn 0 (length (request_text r) + length (request_text r)) (request_msg r) c a"
proof -
  let ?n = "length (request_head r)" and ?hm = "request_msg r"
  have r: "rq_method r = m" "rq_uri r = u" "rq_headers r = hs" "rq_body r = []" "request_text r = request_head r"
    by (simp_all add: assms(10) request_text_def)
  have p: "mg_http_parse (request_head r @ next) = Some (int ?n, Some ?hm)"
    by (rule request_head_parsed[where cl = None]) (use assms r in \<open>simp_all add: request_head_def\<close>)
  have data: "drop 0 (byte_chars (io_data (c_recv c))) = request_head r @ next" by (simp add: assms(11) r)
  obtain x m' where m: "m = x # m'" "mg_lower x = mg_lower CHR ''P''"
    using assms(8) by (cases m) (auto simp: mg_tolc_def split: if_splits)
  have d: "mg_ncasecmp (request_head r @ next) ''HTTP/'' 5 = Some 8"
    by (simp add: request_head_def http_head_def r m numeral_eq_Suc) (simp add: mg_lower_def Let_def)
  have fr: "http_framing ?hm = Some Unsized"
    using assms(6,7) by (simp add: http_framing_def is_http_1_0_def request_msg_def r content_length_case)
  have "http_unsized net (request_head r @ next) ?n 0 ?hm c = Some (?n, c)"
    using assms(8) d by (simp add: http_unsized_def request_msg_def r Let_def)
  then have "http_message net MG_EV_READ fn ?n 0 ?hm c a = http_sized fn ?n 0 ?n ?hm c a"
    using fr data by (simp add: http_message_def)
  also have "\<dots> = http_deliver fn 0 (?n + ?n) ?hm c a"
    by (simp add: http_sized_def request_msg_def r Let_def)
  finally show ?thesis
    unfolding http_turn_def data using p assms(12) by (simp add: r)
qed

definition empty_post :: http_request where
  "empty_post = \<lparr>rq_method = ''POST'', rq_uri = ''/x'', rq_headers = [(''Host'', ''192.168.4.1'')], rq_body = []\<rparr>"

definition pipelined :: mg_connection where
  "pipelined = (fresh_conn False)\<lparr>c_recv := \<lparr>io_buf = char_bytes (request_text empty_post @ request_text form_request),
     io_len = 76, io_align = 0\<rparr>\<rparr>"

theorem post_without_length_skips_witness:
  "http_turn good_net MG_EV_READ (\<lambda>ev ca. Some ca) 0 pipelined () =
    http_deliver (\<lambda>ev ca. Some ca) 0 (length (request_text empty_post) + length (request_text empty_post))
      (request_msg empty_post) pipelined ()"
proof (rule post_without_length_skips)
  show "headers_ok [(''Host'', ''192.168.4.1'')]" by code_simp
  have l: "length (request_text empty_post) = 39"
    by (simp add: request_text_def request_head_def empty_post_def http_head_def http_headers_text_def CRLF_def)
  then show "io_data (c_recv pipelined) = char_bytes (request_text empty_post @ request_text form_request)"
    by (simp add: pipelined_def io_data_def request_sizes)
  show "length (http_head ''POST'' ''/x'' ''HTTP/1.1'' [(''Host'', ''192.168.4.1'')]) < 2 ^ 31"
    by (simp add: http_head_def http_headers_text_def CRLF_def)
  show "mg_strcasecmp ''POST'' ''POST'' = 0 \<or> mg_strcasecmp ''POST'' ''PUT'' = 0" by (simp add: mg_tolc_def)
  show "(\<lambda>ev ca. Some ca) (EV_HTTP_HDRS (request_msg empty_post) b) (pipelined, ()) = Some (pipelined, ())" for b
    by simp
qed (simp_all add: empty_post_def token_def printable_def http_prefix_def mg_http_get_header_def)

end
