(* ===== verification/Mongoose_Base64.thy ===== *)
theory Mongoose_Base64
  imports Prelude
begin

text \<open>
  Base64 as the Mongoose library writes and reads it (src/base64.c in
  firmware/pico/lib/mongoose/mongoose.c). The encoder keeps the bits that wait for the next byte
  in the buffer itself; the reference is the recursion on groups of three bytes.
\<close>

section \<open>The code\<close>

definition mg_base64_encode_single :: "u8 \<Rightarrow> u8" where
  "mg_base64_encode_single c =
    (if c < 26 then c + 65
     else if c < 52 then c - 26 + 97
     else if c < 62 then c - 52 + 48
     else if c = 62 then 43 else 47)"

text \<open>The value of a character, 64 for the equals sign; None is -1.\<close>

definition mg_base64_decode_single :: "u8 \<Rightarrow> u8 option" where
  "mg_base64_decode_single c =
    (if 65 \<le> c \<and> c \<le> 90 then Some (c - 65)
     else if 97 \<le> c \<and> c \<le> 122 then Some (c + 26 - 97)
     else if 48 \<le> c \<and> c \<le> 57 then Some (c + 52 - 48)
     else if c = 43 then Some 62
     else if c = 47 then Some 63
     else if c = 61 then Some 64
     else None)"

definition mg_base64_update :: "u8 \<Rightarrow> u8 list \<times> nat \<Rightarrow> (u8 list \<times> nat) option" where
  "mg_base64_update ch = (\<lambda>(to, n).
    (let r = (n mod 4) mod 3 in
     if r = 0 then do {
       to \<leftarrow> arr_set to (int n) (mg_base64_encode_single (drop_bit 2 ch));
       to \<leftarrow> arr_set to (int (n + 1)) (push_bit 4 (ch AND 3));
       Some (to, n + 1)
     } else if r = 1 then do {
       v \<leftarrow> arr_get to (int n);
       to \<leftarrow> arr_set to (int n) (mg_base64_encode_single (v OR drop_bit 4 ch));
       to \<leftarrow> arr_set to (int (n + 1)) (push_bit 2 (ch AND 15));
       Some (to, n + 1)
     } else do {
       v \<leftarrow> arr_get to (int n);
       to \<leftarrow> arr_set to (int n) (mg_base64_encode_single (v OR drop_bit 6 ch));
       to \<leftarrow> arr_set to (int (n + 1)) (mg_base64_encode_single (ch AND 63));
       Some (to, n + 2)
     }))"

text \<open>while (n & 3) to[n++] = '='; at most three rounds.\<close>

definition base64_pad :: "u8 list \<times> nat \<Rightarrow> (u8 list \<times> nat) option" where
  "base64_pad = (\<lambda>(to, n). for_each [n..<n + (4 - n mod 4) mod 4] (\<lambda>i (to, n). do {
     to \<leftarrow> arr_set to (int i) 61; Some (to, n + 1) }) (to, n))"

definition mg_base64_final :: "u8 list \<times> nat \<Rightarrow> (u8 list \<times> nat) option" where
  "mg_base64_final = (\<lambda>(to, n). do {
     let saved = n;
     (to, n) \<leftarrow> (if n mod 4 \<noteq> 0 then mg_base64_update 0 (to, n) else Some (to, n));
     let n = (if saved mod 4 = 2 then n - 1 else n);
     (to, n) \<leftarrow> base64_pad (to, n);
     to \<leftarrow> arr_set to (int n) 0;
     Some (to, n)
   })"

text \<open>mg_base64_encode: the result and the destination, an array of dl characters.\<close>

definition mg_base64_encode :: "u8 list \<Rightarrow> u8 list \<Rightarrow> (nat \<times> u8 list) option" where
  "mg_base64_encode p to =
    (let n = length p; dl = length to in do {
       to \<leftarrow> (if dl > 0 then arr_set to 0 0 else Some to);
       if dl < ((n div 3) + (if n mod 3 \<noteq> 0 then 1 else 0)) * 4 + 1 then Some (0, to)
       else do {
         (to, len) \<leftarrow> for_each p mg_base64_update (to, 0);
         (to, len) \<leftarrow> mg_base64_final (to, len);
         Some (len, to)
       }
     })"

text \<open>
  The loop of the decoder from position len of the destination. A group that is refused ends it
  with the null character at the start. The shifts are those of int, cut to a character.
\<close>

fun base64_groups :: "u8 list \<Rightarrow> u8 list \<Rightarrow> nat \<Rightarrow> (nat \<times> u8 list) option" where
  "base64_groups (s0 # s1 # s2 # s3 # src) dst len =
    (case (mg_base64_decode_single s0, mg_base64_decode_single s1, mg_base64_decode_single s2, mg_base64_decode_single s3) of
       (Some a, Some b, Some c, Some d) \<Rightarrow>
         if a = 64 \<or> b = 64 then do { dst \<leftarrow> arr_set dst 0 0; Some (0, dst) }
         else do {
           dst \<leftarrow> arr_set dst (int len) (push_bit 2 a OR drop_bit 4 b);
           if s2 \<noteq> 61 then do {
             dst \<leftarrow> arr_set dst (int (len + 1)) (push_bit 4 b OR drop_bit 2 c);
             if s3 \<noteq> 61 then do {
               dst \<leftarrow> arr_set dst (int (len + 2)) (push_bit 6 c OR d);
               base64_groups src dst (len + 3)
             } else base64_groups src dst (len + 2)
           } else base64_groups src dst (len + 1)
         }
     | _ \<Rightarrow> do { dst \<leftarrow> arr_set dst 0 0; Some (0, dst) })"
| "base64_groups src dst len = do { dst \<leftarrow> arr_set dst (int len) 0; Some (len, dst) }"

definition mg_base64_decode :: "u8 list \<Rightarrow> u8 list \<Rightarrow> (nat \<times> u8 list) option" where
  "mg_base64_decode src dst =
    (if length dst < length src div 4 * 3 + 1 then
       (if dst \<noteq> [] then do { dst \<leftarrow> arr_set dst 0 0; Some (0, dst) } else Some (0, dst))
     else base64_groups src dst 0)"

section \<open>The reference\<close>

fun base64 :: "u8 list \<Rightarrow> u8 list" where
  "base64 (a # b # c # r) =
     map mg_base64_encode_single [drop_bit 2 a, push_bit 4 (a AND 3) OR drop_bit 4 b,
       push_bit 2 (b AND 15) OR drop_bit 6 c, c AND 63] @ base64 r"
| "base64 [a, b] = map mg_base64_encode_single [drop_bit 2 a, push_bit 4 (a AND 3) OR drop_bit 4 b,
     push_bit 2 (b AND 15)] @ [61]"
| "base64 [a] = map mg_base64_encode_single [drop_bit 2 a, push_bit 4 (a AND 3)] @ [61, 61]"
| "base64 [] = []"

lemma length_base64: "length (base64 p) = (length p div 3 + (if length p mod 3 \<noteq> 0 then 1 else 0)) * 4"
proof (induction p rule: base64.induct)
  case (1 a b c r)
  then show ?case using div_add_self1[of 3 "length r"] mod_add_self1[of 3 "length r"] by simp
qed auto

section \<open>Encoding\<close>

lemma arr_nat_mid:
  "n = length d \<Longrightarrow> arr_get (d @ x # r) (int n) = Some x"
  "n = length d \<Longrightarrow> arr_set (d @ x # r) (int n) v = Some (d @ v # r)"
  by (simp_all add: arr_nat list_update_append)

lemma update_first:
  assumes "length d mod 4 = 0"
  shows "mg_base64_update a (d @ x # y # r, length d) =
    Some (d @ mg_base64_encode_single (drop_bit 2 a) # push_bit 4 (a AND 3) # r, length d + 1)"
  using arr_nat_mid(2)[of "length d + 1" "d @ [mg_base64_encode_single (drop_bit 2 a)]" y r] assms
  by (simp add: mg_base64_update_def arr_nat_mid)

lemma update_second:
  assumes "length d mod 4 = 1"
  shows "mg_base64_update b (d @ v # y # r, length d) =
    Some (d @ mg_base64_encode_single (v OR drop_bit 4 b) # push_bit 2 (b AND 15) # r, length d + 1)"
  using arr_nat_mid(2)[of "length d + 1" "d @ [mg_base64_encode_single (v OR drop_bit 4 b)]" y r] assms
  by (simp add: mg_base64_update_def arr_nat_mid)

lemma update_third:
  assumes "length d mod 4 = 2"
  shows "mg_base64_update c (d @ v # y # r, length d) =
    Some (d @ mg_base64_encode_single (v OR drop_bit 6 c) # mg_base64_encode_single (c AND 63) # r, length d + 2)"
  using arr_nat_mid(2)[of "length d + 1" "d @ [mg_base64_encode_single (v OR drop_bit 6 c)]" y r] assms
  by (simp add: mg_base64_update_def arr_nat_mid)

lemma pad_empty: "n mod 4 = 0 \<Longrightarrow> base64_pad (to, n) = Some (to, n)"
  by (simp add: base64_pad_def)

lemma pad_one:
  assumes "length d mod 4 = 3"
  shows "base64_pad (d @ x # r, length d) = Some (d @ 61 # r, length d + 1)"
  using assms by (simp add: base64_pad_def arr_nat_mid upt_rec)

lemma pad_two:
  assumes "length d mod 4 = 2"
  shows "base64_pad (d @ x # y # r, length d) = Some (d @ 61 # 61 # r, length d + 2)"
  using arr_nat_mid(2)[of "length d + 1" "d @ [61]" y r 61] assms
  by (simp add: base64_pad_def arr_nat_mid upt_rec)

lemma five_elements: "5 \<le> length xs \<Longrightarrow> \<exists>x y z w u q. xs = x # y # z # w # u # q"
  by (auto simp: numeral_eq_Suc Suc_le_length_iff)

lemma encode_from:
  assumes "length d mod 4 = 0" "length (base64 p) < length junk"
  shows "(do { s \<leftarrow> for_each p mg_base64_update (d @ junk, length d); mg_base64_final s }) =
    Some (d @ base64 p @ 0 # drop (length (base64 p) + 1) junk, length d + length (base64 p))"
  using assms
proof (induction p arbitrary: d junk rule: base64.induct)
  case (1 a b c r)
  obtain x y z w q where j: "junk = x # y # z # w # q"
    using five_elements[of junk] "1.prems"(2) by auto
  let ?e1 = "mg_base64_encode_single (drop_bit 2 a)"
  let ?e2 = "mg_base64_encode_single (push_bit 4 (a AND 3) OR drop_bit 4 b)"
  let ?e3 = "mg_base64_encode_single (push_bit 2 (b AND 15) OR drop_bit 6 c)"
  let ?e4 = "mg_base64_encode_single (c AND 63)"
  have m: "length (d @ [?e1]) mod 4 = 1" "length (d @ [?e1, ?e2]) mod 4 = 2" "length (d @ [?e1, ?e2, ?e3, ?e4]) mod 4 = 0"
    using "1.prems"(1) by (simp_all add: mod_Suc)
  have IH: "(do { s \<leftarrow> for_each r mg_base64_update ((d @ [?e1, ?e2, ?e3, ?e4]) @ q, length (d @ [?e1, ?e2, ?e3, ?e4])); mg_base64_final s }) =
      Some ((d @ [?e1, ?e2, ?e3, ?e4]) @ base64 r @ 0 # drop (length (base64 r) + 1) q, length (d @ [?e1, ?e2, ?e3, ?e4]) + length (base64 r))"
    by (rule "1.IH"[OF m(3)]) (use "1.prems"(2) j in simp)
  show ?case
    using IH update_first[OF "1.prems"(1), of a x y "z # w # q"] update_second[OF m(1), of b "push_bit 4 (a AND 3)" z "w # q"]
      update_third[OF m(2), of c "push_bit 2 (b AND 15)" w q]
    by (simp add: j)
next
  case (2 a b)
  obtain x y z w q u where j: "junk = x # y # z # w # u # q"
    using five_elements[of junk] "2.prems"(2) by auto
  let ?e1 = "mg_base64_encode_single (drop_bit 2 a)"
  let ?e2 = "mg_base64_encode_single (push_bit 4 (a AND 3) OR drop_bit 4 b)"
  let ?e3 = "mg_base64_encode_single (push_bit 2 (b AND 15))"
  have m: "length (d @ [?e1]) mod 4 = 1" "length (d @ [?e1, ?e2]) mod 4 = 2" "length (d @ [?e1, ?e2, ?e3]) mod 4 = 3"
    using "2.prems"(1) by (simp_all add: mod_Suc)
  show ?case
    using update_first[OF "2.prems"(1), of a x y "z # w # u # q"] update_second[OF m(1), of b "push_bit 4 (a AND 3)" z "w # u # q"]
      update_third[OF m(2), of 0 "push_bit 2 (b AND 15)" w "u # q"] pad_one[OF m(3), of _ "u # q"]
      arr_nat_mid(2)[of _ "d @ [?e1, ?e2, ?e3, 61]" u q 0] m(2)
    by (simp add: j mg_base64_final_def)
next
  case (3 a)
  obtain x y z w q u where j: "junk = x # y # z # w # u # q"
    using five_elements[of junk] "3.prems"(2) by auto
  let ?e1 = "mg_base64_encode_single (drop_bit 2 a)"
  let ?e2 = "mg_base64_encode_single (push_bit 4 (a AND 3))"
  have m: "length (d @ [?e1]) mod 4 = 1" "length (d @ [?e1, ?e2]) mod 4 = 2"
    using "3.prems"(1) by (simp_all add: mod_Suc)
  show ?case
    using update_first[OF "3.prems"(1), of a x y "z # w # u # q"] update_second[OF m(1), of 0 "push_bit 4 (a AND 3)" z "w # u # q"]
      pad_two[OF m(2), of 0 w "u # q"] arr_nat_mid(2)[of _ "d @ [?e1, ?e2, 61, 61]" u q 0] m(1)
    by (simp add: j mg_base64_final_def)
next
  case 4
  then obtain x q where "junk = x # q" by (cases junk) auto
  then show ?case using 4(1) by (simp add: mg_base64_final_def pad_empty arr_nat_mid)
qed

text \<open>The encoder writes the reference's text and a terminator, and nothing behind it.\<close>

lemma mg_base64_encode_eq:
  assumes "length (base64 p) < length to"
  shows "mg_base64_encode p to = Some (length (base64 p), base64 p @ 0 # drop (length (base64 p) + 1) to)"
proof -
  obtain x r where to: "to = x # r" using assms by (cases to) auto
  have "length (base64 p) < length (0 # r)" using assms by (simp add: to)
  from encode_from[of "[]" p "0 # r", OF _ this]
  have e: "(do { s \<leftarrow> for_each p mg_base64_update (0 # r, 0); mg_base64_final s }) =
    Some (base64 p @ 0 # drop (length (base64 p)) r, length (base64 p))" by simp
  then obtain s where s: "for_each p mg_base64_update (0 # r, 0) = Some s"
    "mg_base64_final s = Some (base64 p @ 0 # drop (length (base64 p)) r, length (base64 p))"
    by (auto simp: bind_eq_Some_conv)
  have "\<not> length to < (length p div 3 + (if length p mod 3 \<noteq> 0 then 1 else 0)) * 4 + 1"
    using assms unfolding length_base64 by simp
  then show ?thesis
    unfolding mg_base64_encode_def Let_def using s by (cases s) (simp add: to)
qed

section \<open>Decoding\<close>

lemma decode_encode: "x < 64 \<Longrightarrow> mg_base64_decode_single (mg_base64_encode_single x) = Some x"
  "x < 64 \<Longrightarrow> mg_base64_encode_single x \<noteq> 61"
proof -
  have all: "list_all (\<lambda>n. mg_base64_decode_single (mg_base64_encode_single (word_of_nat n)) = Some (word_of_nat n) \<and>
      mg_base64_encode_single (word_of_nat n) \<noteq> 61) [0..<64]" by code_simp
  assume "x < 64"
  then have "unat x < 64" by (simp add: word_less_nat_alt)
  then have "unat x \<in> set [0..<64]" by simp
  from bspec[OF all[unfolded list_all_iff] this]
  have "mg_base64_decode_single (mg_base64_encode_single (word_of_nat (unat x))) = Some (word_of_nat (unat x)) \<and>
      mg_base64_encode_single (word_of_nat (unat x)) \<noteq> 61" .
  then show "mg_base64_decode_single (mg_base64_encode_single x) = Some x" "mg_base64_encode_single x \<noteq> 61" by simp_all
qed

lemma lt_64: "(\<And>n. 6 \<le> n \<Longrightarrow> n < 8 \<Longrightarrow> \<not> bit x n) \<Longrightarrow> x < (64 :: u8)"
proof -
  assume no: "\<And>n. 6 \<le> n \<Longrightarrow> n < 8 \<Longrightarrow> \<not> bit x n"
  have "n < 6" if "bit x n" for n
    using no[of n] that bit_imp_le_length[OF that] by (cases "n < 6") auto
  then have "take_bit 6 x = x" by (intro bit_word_eqI) (auto simp: bit_simps)
  moreover have "x AND mask 6 < 2 ^ 6" by (rule and_mask_less_size) (simp add: word_size)
  ultimately show "x < 64" by (simp add: take_bit_eq_mask)
qed

lemma bits_8: "n < 8 \<Longrightarrow> n = 0 \<or> n = 1 \<or> n = 2 \<or> n = 3 \<or> n = 4 \<or> n = 5 \<or> n = 6 \<or> n = (7 :: nat)"
  by linarith

lemma six_bits:
  fixes a b c :: u8
  shows "drop_bit 2 a < 64" "push_bit 4 (a AND 3) OR drop_bit 4 b < 64" "push_bit 2 (b AND 15) OR drop_bit 6 c < 64"
    "c AND 63 < 64" "push_bit 4 (a AND 3) < 64" "push_bit 2 (b AND 15) < 64"
  by (rule lt_64; drule bits_8; auto simp: bit_simps bit_imp_le_length dest: bit_imp_le_length)+

lemma joined:
  fixes a b c :: u8
  shows "push_bit 2 (drop_bit 2 a) OR drop_bit 4 (push_bit 4 (a AND 3) OR drop_bit 4 b) = a"
    "push_bit 4 (push_bit 4 (a AND 3) OR drop_bit 4 b) OR drop_bit 2 (push_bit 2 (b AND 15) OR drop_bit 6 c) = b"
    "push_bit 6 (push_bit 2 (b AND 15) OR drop_bit 6 c) OR (c AND 63) = c"
    "push_bit 2 (drop_bit 2 a) OR drop_bit 4 (push_bit 4 (a AND 3)) = a"
    "push_bit 4 (push_bit 4 (a AND 3) OR drop_bit 4 b) OR drop_bit 2 (push_bit 2 (b AND 15)) = b"
  by (rule bit_word_eqI; simp; drule bits_8; (auto simp: bit_simps dest: bit_imp_le_length)?;
      (simp add: numeral_eq_Suc)?)+

lemma decode_pad: "mg_base64_decode_single 61 = Some 64"
  by (simp add: mg_base64_decode_single_def)

text \<open>One group of four characters, of sextets x, y, z and w.\<close>

lemma group_three:
  assumes "x < 64" "y < 64" "z < 64" "w < 64"
  shows "base64_groups (map mg_base64_encode_single [x, y, z, w] @ src) (d @ p # q # r # junk) (length d) =
    base64_groups src ((d @ [push_bit 2 x OR drop_bit 4 y, push_bit 4 y OR drop_bit 2 z, push_bit 6 z OR w]) @ junk)
      (length (d @ [push_bit 2 x OR drop_bit 4 y, push_bit 4 y OR drop_bit 2 z, push_bit 6 z OR w]))"
proof -
  have set: "arr_set (d @ u # q # r # junk) (int (length d + 1)) v = Some (d @ u # v # r # junk)"
    "arr_set (d @ u # v # r # junk) (int (length d + 2)) t = Some (d @ u # v # t # junk)" for u v t
    using arr_nat_mid(2)[of _ "d @ [u]" q "r # junk" v] arr_nat_mid(2)[of _ "d @ [u, v]" r junk t] by simp_all
  have "x \<noteq> 64" "y \<noteq> 64" using assms by auto
  then show ?thesis
    using set assms by (simp add: decode_encode arr_nat_mid eval_nat_numeral del: arr_set_Some)
qed

lemma group_two:
  assumes "x < 64" "y < 64" "z < 64"
  shows "base64_groups (map mg_base64_encode_single [x, y, z] @ 61 # src) (d @ p # q # junk) (length d) =
    base64_groups src ((d @ [push_bit 2 x OR drop_bit 4 y, push_bit 4 y OR drop_bit 2 z]) @ junk)
      (length (d @ [push_bit 2 x OR drop_bit 4 y, push_bit 4 y OR drop_bit 2 z]))"
proof -
  have set: "arr_set (d @ u # q # junk) (int (length d + 1)) v = Some (d @ u # v # junk)" for u v
    using arr_nat_mid(2)[of _ "d @ [u]" q junk v] by simp
  have "x \<noteq> 64" "y \<noteq> 64" using assms by auto
  then show ?thesis
    using set assms by (simp add: decode_encode decode_pad arr_nat_mid eval_nat_numeral del: arr_set_Some)
qed

lemma group_one:
  assumes "x < 64" "y < 64"
  shows "base64_groups (map mg_base64_encode_single [x, y] @ 61 # 61 # src) (d @ p # junk) (length d) =
    base64_groups src ((d @ [push_bit 2 x OR drop_bit 4 y]) @ junk) (length (d @ [push_bit 2 x OR drop_bit 4 y]))"
proof -
  have "x \<noteq> 64" "y \<noteq> 64" using assms by auto
  then show ?thesis
    using assms by (simp add: decode_encode decode_pad arr_nat_mid del: arr_set_Some)
qed

lemma groups_done: "base64_groups [] (d @ x # junk) (length d) = Some (length d, d @ 0 # junk)"
  by (simp add: arr_nat_mid)

lemma decode_from:
  assumes "length p < length junk"
  shows "base64_groups (base64 p) (d @ junk) (length d) =
    Some (length d + length p, d @ p @ 0 # drop (length p + 1) junk)"
  using assms
proof (induction p arbitrary: d junk rule: base64.induct)
  case (1 a b c r)
  obtain x y z q where j: "junk = x # y # z # q"
    using "1.prems" by (cases junk; cases "tl junk"; cases "tl (tl junk)") auto
  have IH: "base64_groups (base64 r) ((d @ [a, b, c]) @ q) (length (d @ [a, b, c])) =
      Some (length (d @ [a, b, c]) + length r, (d @ [a, b, c]) @ r @ 0 # drop (length r + 1) q)"
    by (rule "1.IH") (use "1.prems" j in simp)
  show ?case
    unfolding base64.simps j group_three[OF six_bits(1-4)] joined(1-3) IH by simp
next
  case (2 a b)
  obtain x y z q where j: "junk = x # y # z # q"
    using "2.prems" by (cases junk; cases "tl junk"; cases "tl (tl junk)") auto
  show ?case
    unfolding base64.simps j group_two[OF six_bits(1,2,6)] joined(1,5) groups_done by simp
next
  case (3 a)
  obtain x y q where j: "junk = x # y # q"
    using "3.prems" by (cases junk; cases "tl junk") auto
  show ?case
    unfolding base64.simps j group_one[OF six_bits(1,5)] joined(4) groups_done by simp
next
  case 4
  then obtain x q where "junk = x # q" by (cases junk) auto
  then show ?case by (simp add: arr_nat_mid)
qed

section \<open>Properties\<close>

text \<open>
  C20: Base64: mg_base64_encode writes the text the reference gives, with its terminator, and
  mg_base64_decode of this text gives the bytes back, for data of any length and content, when the
  destinations have the sizes the functions ask for.
\<close>

theorem base64_roundtrip:
  assumes "length (base64 p) < length to" "length (base64 p) div 4 * 3 < length dst"
  shows "\<exists>t. mg_base64_encode p to = Some (length (base64 p), base64 p @ 0 # t) \<and>
    mg_base64_decode (base64 p) dst = Some (length p, p @ 0 # drop (length p + 1) dst)"
proof -
  have "length p = length p div 3 * 3 + length p mod 3" "length p mod 3 < 3" by simp_all
  then have "length p \<le> (length p div 3 + (if length p mod 3 \<noteq> 0 then 1 else 0)) * 3" by (auto split: if_splits)
  then have "length p \<le> length (base64 p) div 4 * 3" unfolding length_base64 by (simp only: nonzero_mult_div_cancel_right[of 4] zero_neq_numeral not_False_eq_True)
  then have "length p < length dst" using assms(2) by simp
  then have "base64_groups (base64 p) dst 0 = Some (length p, p @ 0 # drop (length p + 1) dst)"
    using decode_from[of p dst "[]"] by simp
  then show ?thesis
    using mg_base64_encode_eq[OF assms(1)] assms(2) by (auto simp: mg_base64_decode_def)
qed

theorem base64_roundtrip_witness:
  "\<exists>t. mg_base64_encode [77, 97, 255, 0] (replicate 9 7) = Some (length (base64 [77, 97, 255, 0]), base64 [77, 97, 255, 0] @ 0 # t) \<and>
    mg_base64_decode (base64 [77, 97, 255, 0]) (replicate 9 1) =
      Some (length [77, 97, 255, 0 :: u8], [77, 97, 255, 0] @ 0 # drop (length [77, 97, 255, 0 :: u8] + 1) (replicate 9 1))"
  by (rule base64_roundtrip) (simp_all add: length_base64)

end
