(* ===== verification/Ws_Handshake.thy ===== *)
theory Ws_Handshake
  imports Http_Stream Mongoose_Base64 Mongoose_Url
begin

text \<open>
  The request of a WebSocket client (mg_ws_connect of src/ws.c in
  firmware/pico/lib/mongoose/mongoose.c). The connection mg_connect has made, or its failure, is
  an argument.
\<close>

section \<open>The request\<close>

definition mg_xprintf_iobuf :: "mg_net \<Rightarrow> string \<Rightarrow> fmt_arg list \<Rightarrow> mg_connection \<Rightarrow> mg_connection option" where
  "mg_xprintf_iobuf net fmt args c = do {
     out \<leftarrow> mg_vxprintf fmt args;
     Some (c\<lparr>c_send := fold (mg_pfn_iobuf (avail net)) out (c_send c)\<rparr>)
   }"

definition WS_REQUEST :: string where
  "WS_REQUEST = ''GET %s HTTP/1.1'' @ CRLF @ ''Upgrade: websocket'' @ CRLF @ ''Host: %.*s'' @ CRLF @
     ''Connection: Upgrade'' @ CRLF @ ''Sec-WebSocket-Version: 13'' @ CRLF @ ''Sec-WebSocket-Key: %s'' @ CRLF"

definition mg_ws_connect ::
    "mg_net \<Rightarrow> string \<Rightarrow> (string \<times> fmt_arg list) option \<Rightarrow> mg_connection option \<Rightarrow> mg_connection option option" where
  "mg_ws_connect net url fmt opened =
    (case opened of None \<Rightarrow> Some None
     | Some c \<Rightarrow> do {
         host \<leftarrow> mg_url_host url;
         let (nonce, c) = mg_random net 16 c;
         (_, key) \<leftarrow> mg_base64_encode nonce (replicate 30 0);
         c \<leftarrow> mg_xprintf_iobuf net WS_REQUEST [A_str (Some (mg_url_uri url)), A_int (int (length host)),
           A_str (Some host), A_str (Some (byte_chars key))] c;
         c \<leftarrow> (case fmt of None \<Rightarrow> Some c | Some (f, args) \<Rightarrow> mg_xprintf_iobuf net f args c);
         c \<leftarrow> mg_xprintf_iobuf net CRLF [] c;
         Some (Some (c\<lparr>pfn_null := False, pfn_data := 0\<rparr>))
       })"

section \<open>What it says\<close>

definition ws_request :: "string \<Rightarrow> string \<Rightarrow> u8 list \<Rightarrow> http_request" where
  "ws_request uri host nonce = \<lparr>rq_method = ''GET'', rq_uri = uri,
     rq_headers = [(''Upgrade'', ''websocket''), (''Host'', host), (''Connection'', ''Upgrade''),
       (''Sec-WebSocket-Version'', ''13''), (''Sec-WebSocket-Key'', byte_chars (base64 nonce))], rq_body = []\<rparr>"

lemma xprintf_ok:
  assumes "io_ok (c_send c)" "io_room (length s + 2) (c_send c)" "\<And>n. avail net n" "mg_vxprintf fmt args = Some s"
  shows "\<exists>io. mg_xprintf_iobuf net fmt args c = Some (c\<lparr>c_send := io\<rparr>) \<and> io_ok io \<and>
    io_data io = io_data (c_send c) @ char_bytes s \<and> io_align io = io_align (c_send c)"
proof -
  let ?io = "fold (mg_pfn_iobuf (avail net)) s (c_send c)"
  have io: "io_ok ?io \<and> io_data ?io = io_data (c_send c) @ char_bytes s \<and> io_align ?io = io_align (c_send c)"
    using assms(1-3) by (rule pfn_iobuf_fold)
  then show ?thesis using assms(4) by (intro exI[of _ ?io]) (simp add: mg_xprintf_iobuf_def)
qed

lemma headers_ok_names:
  assumes "map fst hs = map fst hs'" "headers_ok hs'" "list_all (\<lambda>(k, v). line_text v) hs"
  shows "headers_ok hs"
proof -
  have len: "length hs = length hs'" using assms(1) by (rule map_eq_imp_length_eq)
  have names: "\<forall>k \<in> set (map fst hs). token k \<and> CHR '':'' \<notin> set k"
    unfolding assms(1) using assms(2) by (auto simp: headers_ok_def list_all_iff)
  have rep: "repeated_header (take i hs) (fst (hs ! i)) = repeated_header (take i hs') (fst (hs' ! i))" if "i < length hs" for i
  proof -
    have a: "map fst (take i hs) = map fst (take i hs')" using assms(1) by (metis take_map)
    have b: "fst (hs ! i) = fst (hs' ! i)" using assms(1) that len by (metis nth_map)
    show ?thesis by (simp only: b repeated_names[OF a])
  qed
  have "length hs < MG_MAX_HTTP_HEADERS" using assms(2) len by (simp add: headers_ok_def)
  moreover have "list_all (\<lambda>i. \<not> repeated_header (take i hs) (fst (hs ! i))) [0..<length hs]"
    using assms(2) rep len by (simp add: headers_ok_def list_all_iff)
  moreover have "list_all (\<lambda>(k, v). token k \<and> CHR '':'' \<notin> set k \<and> line_text v) hs"
    using names assms(3) by (fastforce simp: list_all_iff)
  ultimately show ?thesis by (simp add: headers_ok_def)
qed

lemma printable_byte: "32 < x \<Longrightarrow> x \<le> 126 \<Longrightarrow> printable (char_of (unat (x :: u8)))"
  using unsigned_less[of x, where ?'a = nat] by (simp add: printable_def Let_def word_less_nat_alt word_le_nat_alt)

lemma base64_text: "list_all printable (byte_chars (base64 p))"
proof -
  have all: "list_all (\<lambda>n. 32 < mg_base64_encode_single (word_of_nat n) \<and> mg_base64_encode_single (word_of_nat n) \<le> 126) [0..<64]"
    by code_simp
  have single: "printable (char_of (unat (mg_base64_encode_single x)))" if "x < 64" for x :: u8
  proof -
    have "unat x \<in> set [0..<64]" using that by (simp add: word_less_nat_alt)
    from bspec[OF all[unfolded list_all_iff] this] show ?thesis by (intro printable_byte) simp_all
  qed
  have eq: "printable (char_of (unat (61 :: u8)))" by (rule printable_byte) simp_all
  show ?thesis
  proof (induction p rule: base64.induct)
    case (1 a b c r)
    then show ?case
      unfolding base64.simps byte_chars_def by (simp only: list.map append.simps list.pred_inject single[OF six_bits(1)] 
        single[OF six_bits(2)] single[OF six_bits(3)] single[OF six_bits(4)] simp_thms)
  next
    case (2 a b)
    then show ?case
      unfolding base64.simps byte_chars_def by (simp only: list.map append.simps list.pred_inject single[OF six_bits(1)]
        single[OF six_bits(2)] single[OF six_bits(6)] eq simp_thms)
  next
    case (3 a)
    then show ?case
      unfolding base64.simps byte_chars_def by (simp only: list.map append.simps list.pred_inject single[OF six_bits(1)]
        single[OF six_bits(5)] eq simp_thms)
  qed simp
qed

lemma key_text: "line_text (byte_chars (base64 p))" "NUL \<notin> set (byte_chars (base64 p))"
proof -
  have "\<forall>c \<in> set (byte_chars (base64 p)). printable c" using base64_text[of p] by (simp add: list_all_iff)
  then have "\<forall>c \<in> set (byte_chars (base64 p)). isok c \<and> c \<noteq> CR \<and> c \<noteq> LF \<and> \<not> blank c \<and> c \<noteq> NUL"
    by (auto simp: printable_def isok_def CR_def LF_def blank_def TAB_def Let_def)
  then show "line_text (byte_chars (base64 p))" "NUL \<notin> set (byte_chars (base64 p))"
    using hd_in_set[of "byte_chars (base64 p)"] last_in_set[of "byte_chars (base64 p)"]
    by (auto simp: line_text_def list_all_iff)
qed

lemma ws_format:
  assumes "NUL \<notin> set uri" "NUL \<notin> set host" "length host < 2147483648" "NUL \<notin> set key"
  shows "mg_vxprintf WS_REQUEST [A_str (Some uri), A_int (int (length host)), A_str (Some host), A_str (Some (key @ NUL # junk))] =
    Some (''GET '' @ uri @ '' HTTP/1.1'' @ CRLF @ ''Upgrade: websocket'' @ CRLF @ ''Host: '' @ host @ CRLF @
     ''Connection: Upgrade'' @ CRLF @ ''Sec-WebSocket-Version: 13'' @ CRLF @ ''Sec-WebSocket-Key: '' @ key @ CRLF)"
proof -
  let ?p = "''GET ''" and ?q = "'' HTTP/1.1'' @ CRLF @ ''Upgrade: websocket'' @ CRLF @ ''Host: ''"
  let ?r = "CRLF @ ''Connection: Upgrade'' @ CRLF @ ''Sec-WebSocket-Version: 13'' @ CRLF @ ''Sec-WebSocket-Key: ''"
  have f: "WS_REQUEST = ?p @ ''%s'' @ ?q @ ''%.*s'' @ ?r @ ''%s'' @ CRLF" by (simp add: WS_REQUEST_def)
  have lit: "CHR ''%'' \<notin> set ?p" "CHR ''%'' \<notin> set ?q" "CHR ''%'' \<notin> set ?r" "CHR ''%'' \<notin> set CRLF"
    by (simp_all add: CRLF_def CR_def LF_def)
  have u: "mg_vxprintf CRLF [] = Some CRLF" using fmt_literal[OF lit(4), of "[]" "[]"] by simp
  show ?thesis
    unfolding f fmt_literal[OF lit(1)] fmt_plain_s fmt_literal[OF lit(2)] fmt_prefix_s[OF order_refl assms(2,3)]
      fmt_literal[OF lit(3)] u bind.bind_lunit c_str_id[OF assms(1)] c_str_append_nul[OF assms(4)]
    by simp
qed

text \<open>
  C19: What the client sends when it connects is the request of a WebSocket handshake: for a URL with a
  plain path and host, the library's own parser reads it as a GET of the path with the headers
  Host, Upgrade and Connection, and a key that is the Base64 text of the 16 random bytes.
\<close>

theorem ws_connect_request:
  assumes "mg_url_host url = Some host" "token (mg_url_uri url)" "CHR ''?'' \<notin> set (mg_url_uri url)" "line_text host"
    and "io_ok (c_send c)" "io_room (length (mg_url_uri url) + length host + 300) (c_send c)" "\<And>n. avail net n"
    and "length (mg_url_uri url) + length host < 1000000"
    and "nonce = fst (mg_random net 16 c)" "r = ws_request (mg_url_uri url) host nonce"
  shows "\<exists>io. mg_ws_connect net url None (Some c) =
      Some (Some (c\<lparr>rnd_pos := rnd_pos c + 16, c_send := io, pfn_null := False, pfn_data := 0\<rparr>)) \<and>
    io_data io = io_data (c_send c) @ char_bytes (request_text r) \<and>
    mg_http_parse (request_text r @ rest) = Some (int (length (request_text r)), Some (request_msg r)) \<and>
    mg_base64_decode (char_bytes (snd (last (rq_headers r)))) (replicate 19 0) = Some (16, nonce @ [0, 0, 0])"
proof -
  let ?uri = "mg_url_uri url" and ?key = "byte_chars (base64 nonce)"
  let ?c = "c\<lparr>rnd_pos := rnd_pos c + 16\<rparr>"
  have rnd: "mg_random net 16 c = (nonce, ?c)" and n16: "length nonce = 16"
    by (simp_all add: assms(9) mg_random_def)
  have l64: "length (base64 nonce) = 24" by (simp add: length_base64 n16)
  have enc: "mg_base64_encode nonce (replicate 30 0) = Some (24, base64 nonce @ 0 # replicate 5 0)"
    using mg_base64_encode_eq[of nonce "replicate 30 0"] by (simp add: l64 del: replicate.simps)
  have nul: "NUL \<notin> set ?uri" "NUL \<notin> set host"
  proof -
    have "\<not> printable NUL" "\<not> isok NUL" by (simp_all add: printable_def isok_def LF_def CR_def TAB_def)
    then show "NUL \<notin> set ?uri" "NUL \<notin> set host"
      using assms(2,4) unfolding token_def line_text_def list_all_iff by blast+
  qed
  have "char_of (0 :: nat) = NUL" by code_simp
  then have z: "byte_chars (base64 nonce @ 0 # replicate 5 0) = ?key @ NUL # byte_chars (replicate 5 0)"
    by (simp add: byte_chars_def)
  let ?s = "''GET '' @ ?uri @ '' HTTP/1.1'' @ CRLF @ ''Upgrade: websocket'' @ CRLF @ ''Host: '' @ host @ CRLF @
     ''Connection: Upgrade'' @ CRLF @ ''Sec-WebSocket-Version: 13'' @ CRLF @ ''Sec-WebSocket-Key: '' @ ?key @ CRLF"
  have host: "length host < 2147483648" using assms(8) by simp
  note fmt = ws_format[OF nul(1,2) host key_text(2), of nonce "byte_chars (replicate 5 0)", folded z]
  have txt_r: "request_text r = ?s @ CRLF"
    by (simp add: assms(10) ws_request_def request_text_def request_head_def http_head_def http_headers_text_def)
  have ls: "length ?s \<le> length ?uri + length host + 200" using l64 by (simp add: CRLF_def)
  have "io_room (length ?s + 2) (c_send ?c)" using assms(6) ls by (simp add: io_room_def del: length_append)
  from xprintf_ok[OF _ this assms(7) fmt] assms(5) obtain io1 where io1:
    "mg_xprintf_iobuf net WS_REQUEST [A_str (Some ?uri), A_int (int (length host)), A_str (Some host),
      A_str (Some (byte_chars (base64 nonce @ 0 # replicate 5 0)))] ?c = Some (?c\<lparr>c_send := io1\<rparr>)" "io_ok io1"
    "io_data io1 = io_data (c_send c) @ char_bytes ?s" "io_align io1 = io_align (c_send c)" by auto
  have "io_len io1 = io_len (c_send c) + length ?s"
    using arg_cong[OF io1(3), of length] length_io_data[OF io1(2)] length_io_data[OF assms(5)] by simp
  then have room: "io_room (length CRLF + 2) (c_send (?c\<lparr>c_send := io1\<rparr>))"
    using assms(6) ls io1(4) by (simp add: io_room_def CRLF_def)
  have "CHR ''%'' \<notin> set CRLF" by (simp add: CRLF_def CR_def LF_def)
  from fmt_literal[OF this, of "[]" "[]"] have "mg_vxprintf CRLF [] = Some CRLF" by simp
  from xprintf_ok[OF _ room assms(7) this] io1(2,3) obtain io2 where io2:
    "mg_xprintf_iobuf net CRLF [] (?c\<lparr>c_send := io1\<rparr>) = Some (?c\<lparr>c_send := io1, c_send := io2\<rparr>)"
    "io_data io2 = io_data (c_send c) @ char_bytes (request_text r)" by (auto simp: txt_r)
  have run: "mg_ws_connect net url None (Some c) =
      Some (Some (c\<lparr>rnd_pos := rnd_pos c + 16, c_send := io2, pfn_null := False, pfn_data := 0\<rparr>))"
    using io1(1) io2(1) by (simp add: mg_ws_connect_def assms(1) rnd enc Let_def del: replicate.simps)
  have ok: "headers_ok (rq_headers r)"
  proof (rule headers_ok_names)
    show "headers_ok [(''Upgrade'', []), (''Host'', []), (''Connection'', []), (''Sec-WebSocket-Version'', []), (''Sec-WebSocket-Key'', [])]"
      by code_simp
    show "list_all (\<lambda>(k, v). line_text v) (rq_headers r)"
      using assms(4) key_text(1)[of nonce]
      by (simp add: assms(10) ws_request_def) (simp add: line_text_def isok_def CR_def LF_def blank_def TAB_def)
  qed (simp add: assms(10) ws_request_def)
  have "mg_http_parse (request_head r @ rest) = Some (int (length (request_head r)), Some (request_msg r))"
  proof (rule request_head_parsed[where cl = None])
    show "token (rq_method r)" "http_prefix (rq_method r) = Some False"
      by (simp_all add: assms(10) ws_request_def token_def printable_def http_prefix_def)
    show "length (request_text r) < 2147483648"
      using ls assms(8) unfolding txt_r length_append[of ?s] by (simp add: CRLF_def)
    show "mg_http_get_header (rq_headers r) ''Content-Length'' = Some None"
      by (simp add: assms(10) ws_request_def mg_http_get_header_def)
  qed (use assms(2,3) ok in \<open>simp_all add: assms(10) ws_request_def\<close>)
  moreover have "request_head r = request_text r" by (simp add: assms(10) ws_request_def request_text_def)
  moreover have "mg_base64_decode (char_bytes (snd (last (rq_headers r)))) (replicate 19 0) = Some (16, nonce @ [0, 0, 0])"
  proof -
    have "\<not> length (replicate 19 (0 :: u8)) < length (base64 nonce) div 4 * 3 + 1" by (simp add: l64)
    moreover have "base64_groups (base64 nonce) (replicate 19 0) 0 = Some (16, nonce @ [0, 0, 0])"
      using decode_from[of nonce "replicate 19 0" "[]"] by (simp add: n16 numeral_eq_Suc)
    ultimately show ?thesis by (simp add: assms(10) ws_request_def mg_base64_decode_def)
  qed
  ultimately show ?thesis using run io2(2) by auto
qed

definition zone_url :: string where
  "zone_url = ''ws://192.168.1.100:8080/ws/zone/pico-01''"

theorem ws_connect_request_witness:
  "\<exists>io. mg_ws_connect good_net zone_url None (Some (fresh_conn True)) =
      Some (Some ((fresh_conn True)\<lparr>rnd_pos := rnd_pos (fresh_conn True) + 16, c_send := io, pfn_null := False, pfn_data := 0\<rparr>)) \<and>
    io_data io = io_data (c_send (fresh_conn True)) @ char_bytes (request_text
      (ws_request (mg_url_uri zone_url) ''192.168.1.100'' (fst (mg_random good_net 16 (fresh_conn True))))) \<and>
    mg_http_parse (request_text (ws_request (mg_url_uri zone_url) ''192.168.1.100'' (fst (mg_random good_net 16 (fresh_conn True)))) @ []) =
      Some (int (length (request_text (ws_request (mg_url_uri zone_url) ''192.168.1.100'' (fst (mg_random good_net 16 (fresh_conn True)))))),
        Some (request_msg (ws_request (mg_url_uri zone_url) ''192.168.1.100'' (fst (mg_random good_net 16 (fresh_conn True)))))) \<and>
    mg_base64_decode (char_bytes (snd (last (rq_headers
      (ws_request (mg_url_uri zone_url) ''192.168.1.100'' (fst (mg_random good_net 16 (fresh_conn True)))))))) (replicate 19 0) =
      Some (16, fst (mg_random good_net 16 (fresh_conn True)) @ [0, 0, 0])"
proof -
  have u: "mg_url_host zone_url = Some ''192.168.1.100''" "mg_url_uri zone_url = ''/ws/zone/pico-01''" by code_simp+
  have "token (mg_url_uri zone_url)" "CHR ''?'' \<notin> set (mg_url_uri zone_url)" "line_text ''192.168.1.100''"
    by (simp_all add: u token_def printable_def line_text_def isok_def CR_def LF_def blank_def TAB_def)
  from ws_connect_request[OF u(1) this, of "fresh_conn True" good_net, OF _ _ _ _ refl refl, of "[]"] show ?thesis
    by (simp add: u(2) fresh_conn_def io_ok_def io_room_def good_net_def)
qed

end
