(* ===== verification/Http_Safety.thy ===== *)
theory Http_Safety
  imports Http_Stream
begin

text \<open>
  The HTTP server of the Mongoose library on any bytes: with a handler that meets the contract of
  Http_Stream, http_cb returns, without an access outside a buffer, whatever was received. The
  buffer has a byte to spare, because skip_chunk can read the byte after the data.
\<close>

section \<open>The server on any bytes\<close>

text \<open>What a turn leaves as it was: the size of the buffer and the data in it, in number.\<close>

definition same_recv :: "mg_connection \<Rightarrow> mg_connection \<Rightarrow> bool" where
  "same_recv c d \<longleftrightarrow> io_ok (c_recv d) \<and> io_len (c_recv d) = io_len (c_recv c) \<and>
     length (io_buf (c_recv d)) = length (io_buf (c_recv c)) \<and> io_align (c_recv d) = io_align (c_recv c)"

lemma same_recv_refl: "io_ok (c_recv c) \<Longrightarrow> same_recv c c"
  by (simp add: same_recv_def)

lemma http_framing_Some: "\<exists>fr. http_framing hm = Some fr"
proof -
  obtain old where old: "is_http_1_0 hm = Some old"
    using mg_ncasecmp_Some[of 8 "hm_proto hm" "''HTTP/1.0''"]
    by (cases "8 < length (hm_proto hm)") (auto simp: is_http_1_0_def)
  obtain te where te: "mg_http_get_header (hm_headers hm) ''Transfer-Encoding'' = Some te" using mg_http_get_header_Some by blast
  obtain cl where cl: "mg_http_get_header (hm_headers hm) ''Content-length'' = Some cl" using mg_http_get_header_Some by blast
  show ?thesis using old te cl by (cases te) (auto simp: http_framing_def split: option.split)
qed

definition turn_ok :: "nat \<Rightarrow> ('s \<Rightarrow> bool) \<Rightarrow> nat \<Rightarrow> mg_connection \<Rightarrow> http_turn \<times> mg_connection \<times> 's \<Rightarrow> bool" where
  "turn_ok most app_ok ofs c r \<longleftrightarrow> (case r of (t, d, b) \<Rightarrow>
     (case t of Http_next x \<Rightarrow> ofs < x \<and> same_recv c d | Http_break x \<Rightarrow> same_recv c d | Http_return \<Rightarrow> io_ok (c_recv d)) \<and>
     io_ok (c_send d) \<and> io_len (c_send d) \<le> io_len (c_send c) + most \<and> io_align (c_send d) = io_align (c_send c) \<and> app_ok b)"

context http_app
begin

lemma deliver_safe:
  assumes "io_ok (c_recv c)" "io_ok (c_send c)" "io_room reply_max (c_send c)" "app_ok a"
  shows "\<exists>t d b. http_deliver fn ofs0 ofs hm c a = Some (t, d, b) \<and> (t = Http_next ofs \<or> t = Http_break ofs) \<and>
    same_recv c d \<and> io_ok (c_send d) \<and> io_len (c_send d) \<le> io_len (c_send c) + reply_max \<and>
    io_align (c_send d) = io_align (c_send c) \<and> app_ok b"
proof -
  define c1 where "c1 = (if is_accepted c then c\<lparr>is_resp := True\<rparr> else c)"
  define body where "body = http_body ofs0 hm c1"
  have c1: "c_recv c1 = c_recv c" "c_send c1 = c_send c" by (simp_all add: c1_def)
  obtain io where io: "fn (EV_HTTP_MSG hm body) (c1, a) = Some (c1\<lparr>c_send := io, is_resp := False\<rparr>, answer hm body a)"
    "io_ok io" "io_data io = io_data (c_send c) @ reply hm body a" "io_align io = io_align (c_send c)"
    using answered[of c1 a hm body] assms c1 by auto
  have "io_len io \<le> io_len (c_send c) + reply_max"
    using io(3) length_io_data[OF io(2)] length_io_data[OF assms(2)] reply_short[OF assms(4), of hm body] by simp
  moreover obtain cc where "mg_http_get_header (hm_headers hm) ''Connection'' = Some cc" using mg_http_get_header_Some by blast
  ultimately show ?thesis
    using io c1 assms(1) app_kept[OF assms(4)] unfolding http_deliver_def c1_def [symmetric] Let_def body_def [symmetric]
    by (auto simp: same_recv_def)
qed

lemma unsized_safe:
  assumes "4 < length buf" "io_ok (c_send c)" "io_room 128 (c_send c)" "\<And>n. avail net n"
  shows "\<exists>ofs' d. http_unsized net buf n ofs hm c = Some (ofs', d) \<and> ofs \<le> ofs' \<and> c_recv d = c_recv c \<and>
    io_ok (c_send d) \<and> io_len (c_send d) \<le> io_len (c_send c) + 128 \<and> io_align (c_send d) = io_align (c_send c)"
proof -
  obtain d where d: "mg_ncasecmp buf ''HTTP/'' 5 = Some d" using mg_ncasecmp_Some[of 5 buf "''HTTP/''"] assms(1) by auto
  have "io_room (length ([] :: string) + length ([] :: string) + 128) (c_send c)" using assms(3) by simp
  from mg_http_reply_appends[OF assms(2) this assms(4), of 411 "[]" "[]"] obtain io where
    io: "mg_http_reply net 411 (Some []) [] [] c = Some (c\<lparr>c_send := io, is_resp := False\<rparr>)" "io_ok io"
    "io_data io = io_data (c_send c) @ char_bytes (reply_text 411 [] [])" "io_align io = io_align (c_send c)" by auto
  have "length (reply_text 411 [] []) \<le> 128"
    using reply_head_short(1)[of 411 "[]" "'' '' @ length_cell 0 @ '' ''"] by (simp add: reply_text_def length_length_cell)
  then have "io_len io \<le> io_len (c_send c) + 128"
    using io(3) length_io_data[OF io(2)] length_io_data[OF assms(2)] by simp
  then show ?thesis
    using d io assms(2) by (auto simp: http_unsized_def Let_def split: prod.splits)
qed

lemma deliver_turn_ok:
  assumes "io_ok (c_recv c)" "io_ok (c_send c)" "io_room reply_max (c_send c)" "app_ok a" "ofs0 < ofs"
  shows "\<exists>r. http_deliver fn ofs1 ofs hm c a = Some r \<and> turn_ok reply_max app_ok ofs0 c r"
  using deliver_safe[OF assms(1-4), of ofs1 ofs hm] assms(5) unfolding turn_ok_def by fastforce

lemma sized_turn_ok:
  assumes "io_ok (c_recv c)" "io_ok (c_send c)" "io_room reply_max (c_send c)" "app_ok a" "ofs0 < ofs + n"
  shows "\<exists>r. http_sized fn n ofs1 ofs hm c a = Some r \<and> turn_ok reply_max app_ok ofs0 c r"
proof -
  have "turn_ok reply_max app_ok ofs0 c (Http_break ofs, c, a)" using assms by (simp add: turn_ok_def same_recv_refl)
  moreover have "ofs0 < ofs + n + body_len hm" using assms(5) by simp
  ultimately show ?thesis
    using deliver_turn_ok[OF assms(1-4)] unfolding http_sized_def Let_def by auto
qed

lemma turn_ok_more:
  "turn_ok m app_ok ofs d r \<Longrightarrow> c_recv d = c_recv c \<Longrightarrow> io_len (c_send d) + m \<le> io_len (c_send c) + m' \<Longrightarrow>
    io_align (c_send d) = io_align (c_send c) \<Longrightarrow> turn_ok m' app_ok ofs c r"
  by (auto simp: turn_ok_def same_recv_def split: http_turn.splits)

lemma chunked_turn_ok:
  assumes "io_ok (c_recv c)" "io_len (c_recv c) < length (io_buf (c_recv c))" "ofs + n \<le> io_len (c_recv c)" "0 < n"
    and "io_ok (c_send c)" "io_room reply_max (c_send c)" "app_ok a"
  shows "\<exists>r. http_chunked fn n ofs hm c a = Some r \<and> turn_ok reply_max app_ok ofs c r"
proof -
  let ?io = "c_recv c"
  define s where "s = byte_chars (drop (ofs + n) (io_buf ?io))"
  define len where "len = io_len ?io - ofs - n"
  have len: "len < length s" using assms(1-3) by (simp add: s_def len_def)
  obtain cl where cl: "last_chunk s len 0 = Some cl" using last_chunk_safe[OF len] by auto
  obtain t p b where m: "move_chunks s len 0 0 = Some (t, p, b)" "length t = length s"
    using move_chunks_safe[OF len, of 0 0] by auto
  define d where "d = c\<lparr>c_recv := ?io\<lparr>io_buf := take (ofs + n) (io_buf ?io) @ char_bytes t\<rparr>\<rparr>"
  have l: "length (take (ofs + n) (io_buf ?io) @ char_bytes t) = length (io_buf ?io)"
    using m(2) assms(2,3) by (simp add: s_def)
  have d: "io_ok (c_recv d)" "io_ok (c_send d)" "io_room reply_max (c_send d)" "c_send d = c_send c" "same_recv c d"
    using l assms by (simp_all add: d_def io_ok_def same_recv_def)
  have "ofs < ofs + (n + p)" using assms(4) by simp
  from deliver_turn_ok[OF d(1-3) assms(7) this, of ofs "hm\<lparr>body_len := b, message_len := n + b\<rparr>"] obtain r where
    r: "http_deliver fn ofs (ofs + (n + p)) (hm\<lparr>body_len := b, message_len := n + b\<rparr>) d a = Some r"
    "turn_ok reply_max app_ok ofs d r" by blast
  have "turn_ok reply_max app_ok ofs c r"
    using r(2) d(4,5) by (auto simp: turn_ok_def same_recv_def split: http_turn.splits)
  moreover have "turn_ok reply_max app_ok ofs c (Http_break ofs, c, a)"
    "turn_ok reply_max app_ok ofs c (Http_break ofs, mg_error ''Invalid chunk'' c, a)"
    using assms by (simp_all add: turn_ok_def same_recv_def mg_error_def mg_call_def)
  ultimately show ?thesis
    using cl m(1) r(1) unfolding http_chunked_def Let_def s_def [symmetric] len_def [symmetric]
    by (cases r) (auto simp: d_def)
qed

lemma turn_safe:
  assumes "io_ok (c_recv c)" "io_len (c_recv c) < length (io_buf (c_recv c))" "ofs < io_len (c_recv c)"
    and "io_ok (c_send c)" "io_room (reply_max + 128) (c_send c)" "app_ok a" "\<And>n. avail net n"
  shows "\<exists>r. http_turn net ev fn ofs c a = Some r \<and> turn_ok (reply_max + 128) app_ok ofs c r"
proof -
  let ?s = "drop ofs (byte_chars (io_data (c_recv c)))"
  have ls: "length ?s = io_len (c_recv c) - ofs" using assms(1) by simp
  obtain n m where p: "mg_http_parse ?s = Some (n, m)" using mg_http_parse_safe by blast
  have room: "io_room reply_max (c_send c)" "io_room 128 (c_send c)" using assms(5) by (simp_all add: io_room_def)
  have ret: "turn_ok (reply_max + 128) app_ok ofs c (Http_return, c\<lparr>is_draining := True, c_recv := (c_recv c)\<lparr>io_len := 0\<rparr>\<rparr>, a)"
    "turn_ok (reply_max + 128) app_ok ofs c (Http_break ofs, c, a)"
    "turn_ok (reply_max + 128) app_ok ofs c (Http_return, mg_error ''Invalid Transfer-Encoding'' c, a)"
    using assms by (simp_all add: turn_ok_def same_recv_refl io_ok_def mg_error_def mg_call_def)
  show ?thesis
  proof (cases "n < 0 \<or> m = None")
    case True
    then show ?thesis using p ret by (auto simp: http_turn_def)
  next
    case False
    then obtain hm where m: "m = Some hm" by auto
    note h = mg_http_parse_msg[OF p[unfolded m]]
    have n: "ofs + nat n \<le> io_len (c_recv c)" "0 < nat n" using h(2,4) ls assms(3) by simp_all
    define hm' where "hm' = (if ev = MG_EV_CLOSE then hm\<lparr>message_len := io_len (c_recv c) - ofs,
      body_len := io_len (c_recv c) - ofs - head_len hm\<rparr> else hm)"
    obtain fr where fr: "http_framing hm' = Some fr" using http_framing_Some by blast
    obtain r1 where r1: "http_chunked fn (nat n) ofs hm' c a = Some r1" "turn_ok reply_max app_ok ofs c r1"
      using chunked_turn_ok[OF assms(1,2) n assms(4) room(1) assms(6)] by blast
    have "ofs < ofs + nat n" using n(2) by simp
    from sized_turn_ok[OF assms(1,4) room(1) assms(6) this] obtain r2 where
      r2: "http_sized fn (nat n) ofs ofs hm' c a = Some r2" "turn_ok reply_max app_ok ofs c r2" by blast
    have "4 < length ?s" using h(5) by simp
    from unsized_safe[OF this assms(4) room(2) assms(7), of "nat n" ofs hm'] obtain ofs' d where
      d: "http_unsized net ?s (nat n) ofs hm' c = Some (ofs', d)" "ofs \<le> ofs'" "c_recv d = c_recv c" "io_ok (c_send d)"
      "io_len (c_send d) \<le> io_len (c_send c) + 128" "io_align (c_send d) = io_align (c_send c)" by blast
    have "io_ok (c_recv d)" "io_room reply_max (c_send d)" "ofs < ofs' + nat n"
      using d assms(1,5) n(2) by (simp_all add: io_room_def)
    from sized_turn_ok[OF this(1) d(4) this(2) assms(6) this(3)] obtain r3 where
      r3: "http_sized fn (nat n) ofs ofs' hm' d a = Some r3" "turn_ok reply_max app_ok ofs d r3" by blast
    have ok: "turn_ok (reply_max + 128) app_ok ofs c r1" "turn_ok (reply_max + 128) app_ok ofs c r2"
      "turn_ok (reply_max + 128) app_ok ofs c r3"
      using turn_ok_more r1(2) r2(2) r3(2) d by auto
    have "\<exists>r. http_message net ev fn (nat n) ofs hm c a = Some r \<and> turn_ok (reply_max + 128) app_ok ofs c r"
      using fr r1(1) r2(1) r3(1) d(1) ok ret(3) unfolding http_message_def Let_def hm'_def [symmetric]
      by (cases fr) simp_all
    then show ?thesis using p m False headers_ignored by (simp add: http_turn_def)
  qed
qed

lemma loop_safe:
  assumes "io_ok (c_recv c)" "io_len (c_recv c) < length (io_buf (c_recv c))"
    and "io_ok (c_send c)" "app_ok a" "\<And>n. avail net n"
    and "io_len (c_send c) + (io_len (c_recv c) - ofs) * (reply_max + 128) + 2 * io_align (c_send c) < 2 ^ 32"
  shows "\<exists>o' d b. http_loop net ev fn ofs (c, a) = Some (o', d, b) \<and> io_ok (c_recv d) \<and> io_ok (c_send d) \<and> app_ok b"
  using assms
proof (induction "io_len (c_recv c) - ofs" arbitrary: ofs c a rule: less_induct)
  case less
  show ?case
  proof (cases "is_resp c \<or> ofs \<ge> io_len (c_recv c)")
    case True
    then show ?thesis using less.prems by (subst http_loop.simps) auto
  next
    case False
    then have ofs: "ofs < io_len (c_recv c)" by simp
    have "1 * (reply_max + 128) \<le> (io_len (c_recv c) - ofs) * (reply_max + 128)"
      by (rule mult_le_mono1) (use ofs in simp)
    then have "io_room (reply_max + 128) (c_send c)"
      unfolding io_room_def nat_mult_1 using less.prems(6) by linarith
    from turn_safe[OF less.prems(1,2) ofs less.prems(3) this less.prems(4,5), of ev] obtain t d b where
      t: "http_turn net ev fn ofs c a = Some (t, d, b)" "turn_ok (reply_max + 128) app_ok ofs c (t, d, b)" by auto
    show ?thesis
    proof (cases t)
      case (Http_next x)
      have x: "ofs < x" "same_recv c d" "io_ok (c_send d)" "io_len (c_send d) \<le> io_len (c_send c) + (reply_max + 128)"
        "io_align (c_send d) = io_align (c_send c)" "app_ok b"
        using t(2) Http_next by (simp_all add: turn_ok_def)
      have r: "io_len (c_recv d) = io_len (c_recv c)" "length (io_buf (c_recv d)) = length (io_buf (c_recv c))" "io_ok (c_recv d)"
        using x(2) by (simp_all add: same_recv_def)
      have "Suc (io_len (c_recv d) - x) \<le> io_len (c_recv c) - ofs" using x(1) ofs r(1) by simp
      then have "Suc (io_len (c_recv d) - x) * (reply_max + 128) \<le> (io_len (c_recv c) - ofs) * (reply_max + 128)"
        by (rule mult_le_mono1)
      then have "io_len (c_send d) + (io_len (c_recv d) - x) * (reply_max + 128) + 2 * io_align (c_send d) < 2 ^ 32"
        using less.prems(6) x(4,5) by simp
      moreover have "io_len (c_recv d) - x < io_len (c_recv c) - ofs" using x(1) ofs r(1) by simp
      ultimately have "\<exists>o' e b'. http_loop net ev fn x (d, b) = Some (o', e, b') \<and> io_ok (c_recv e) \<and> io_ok (c_send e) \<and> app_ok b'"
        using less.hyps r x(3,6) less.prems(2,5) by simp
      then show ?thesis using t(1) False Http_next by (subst http_loop.simps) auto
    next
      case (Http_break x)
      then show ?thesis using t False by (subst http_loop.simps) (simp add: turn_ok_def same_recv_def)
    next
      case Http_return
      then show ?thesis using t False by (subst http_loop.simps) (simp add: turn_ok_def)
    qed
  qed
qed

lemma cb_safe:
  assumes "io_ok (c_recv c)" "io_len (c_recv c) < length (io_buf (c_recv c))"
    and "io_ok (c_send c)" "app_ok a" "\<And>n. avail net n"
    and "io_len (c_send c) + io_len (c_recv c) * (reply_max + 128) + 2 * io_align (c_send c) < 2 ^ 32"
  shows "\<exists>d b. http_cb net ev fn (c, a) = Some (d, b) \<and> io_ok (c_recv d) \<and> io_ok (c_send d) \<and> app_ok b"
proof -
  obtain o' d b where l: "http_loop net ev fn 0 (c, a) = Some (o', d, b)" "io_ok (c_recv d)" "io_ok (c_send d)" "app_ok b"
    using loop_safe[OF assms(1-5), of 0 ev] assms(6) by auto
  have del: "\<exists>io. recv_del 0 x d = Some (d\<lparr>c_recv := io\<rparr>) \<and> io_ok io" for x
    using mg_iobuf_del_data[OF l(2), of 0 x] by (auto simp: recv_del_def)
  show ?thesis
  proof (cases o')
    case (Some x)
    then show ?thesis using l assms(1,3,4) del[of x] by (auto simp: http_cb_def)
  qed (use l assms in \<open>auto simp: http_cb_def\<close>)
qed

end
end
