(* ===== verification/Portal_Pico.thy ===== *)
theory Portal_Pico
  imports Mongoose
begin

text \<open>
  Provisioning and boot of the Pico (firmware/pico/src/captive_portal.c, main.c,
  mongoose_config.h): the set-up page, the handler of its form, the credentials in flash, and
  what the next boot reads of them. The flash functions of the SDK are a parameter.
\<close>

section \<open>Pages\<close>

definition FORM_HTML :: string where
  \<open>FORM_HTML =
     ''<!DOCTYPE html>'' @
     ''<html lang="en">'' @
     ''<head>'' @
     ''<meta charset="UTF-8">'' @
     ''<meta name="viewport" content="width=device-width,initial-scale=1">'' @
     ''<title>TextReader Setup</title>'' @
     ''<style>'' @
     ''body{margin:0;padding:16px;background:#fffbfe;font-family:system-ui,-apple-system,sans-serif;'' @
     ''color:#1c1b1f;font-size:16px;line-height:1.5}'' @
     ''.card{background:#f3edf7;border:1px solid #79747e;border-radius:12px;padding:24px;'' @
     ''max-width:400px;margin:24px auto}'' @
     ''h1{font-size:1.25rem;font-weight:600;line-height:1.2;margin:0 0 16px}'' @
     ''label{display:block;font-size:0.875rem;font-weight:400;margin-bottom:4px;color:#1c1b1f}'' @
     ''input{display:block;width:100%;box-sizing:border-box;padding:8px 12px;'' @
     ''border:1px solid #79747e;border-radius:8px;font-size:1rem;background:#fffbfe;'' @
     ''color:#1c1b1f;min-height:44px}'' @
     ''input:focus{outline:2px solid #6750a4;outline-offset:1px;border-color:#6750a4}'' @
     ''.field{margin-bottom:16px}'' @
     ''button{display:block;width:100%;padding:12px 16px;background:#6750a4;color:#fff;'' @
     ''border:none;border-radius:8px;font-size:1rem;font-weight:600;cursor:pointer;'' @
     ''min-height:44px}'' @
     ''button:active{opacity:0.85}'' @
     ''</style>'' @
     ''</head>'' @
     ''<body>'' @
     ''<div class="card">'' @
     ''<h1>TextReader Setup</h1>'' @
     ''<form method="POST" action="/save">'' @
     ''<div class="field">'' @
     ''<label for="ssid">WiFi Network Name</label>'' @
     ''<input type="text" id="ssid" name="ssid" required maxlength="32"'' @
     '' autocomplete="off" autocorrect="off" autocapitalize="none" spellcheck="false">'' @
     ''</div>'' @
     ''<div class="field">'' @
     ''<label for="pass">Password</label>'' @
     ''<input type="password" id="pass" name="pass" required maxlength="64"'' @
     '' autocomplete="current-password">'' @
     ''</div>'' @
     ''<button type="submit">Connect to WiFi</button>'' @
     ''</form>'' @
     ''</div>'' @
     ''</body>'' @
     ''</html>''\<close>

definition SUCCESS_HTML :: string where
  \<open>SUCCESS_HTML =
     ''<!DOCTYPE html>'' @
     ''<html lang="en">'' @
     ''<head>'' @
     ''<meta charset="UTF-8">'' @
     ''<meta name="viewport" content="width=device-width,initial-scale=1">'' @
     ''<title>TextReader Setup</title>'' @
     ''<style>'' @
     ''body{margin:0;padding:16px;background:#fffbfe;font-family:system-ui,-apple-system,sans-serif;'' @
     ''color:#1c1b1f;font-size:16px;line-height:1.5}'' @
     ''.card{background:#eaddff;border:1px solid #6750a4;border-radius:12px;padding:24px;'' @
     ''max-width:400px;margin:24px auto}'' @
     ''h1{font-size:1.25rem;font-weight:600;line-height:1.2;color:#21005d;margin:0 0 8px}'' @
     ''p{color:#49454f;margin:0}'' @
     ''</style>'' @
     ''</head>'' @
     ''<body>'' @
     ''<div class="card">'' @
     ''<h1>Credentials saved.</h1>'' @
     ''<p>TextReader is rebooting'' @ [CHR 0xE2, CHR 0x80, CHR 0xA6] @ ''</p>'' @
     ''<p>You can close this page.</p>'' @
     ''</div>'' @
     ''</body>'' @
     ''</html>''\<close>

text \<open>The header line of both replies, with its CR and LF.\<close>

definition HTML_HEADER :: string where
  "HTML_HEADER = ''Content-Type: text/html'' @ [CHR 0x0D, CHR 0x0A]"

section \<open>State\<close>

text \<open>
  The globals g_wifi_apmode, g_wifi_ssid[33] and g_wifi_pass[65], the portal's s_save_done and
  s_cred, and the replies and delays the portal has sent and made.
\<close>

datatype portal_call = Http_reply nat string string | Portal_sleep nat | Reset u32

record pico =
  g_wifi_apmode :: bool
  g_wifi_ssid :: "char list"
  g_wifi_pass :: "char list"
  s_save_done :: bool
  cred_ssid :: "char list"
  cred_pass :: "char list"
  calls :: "portal_call list"

text \<open>Static storage is zero when the program starts.\<close>

definition pico_zero :: pico where
  "pico_zero = \<lparr>g_wifi_apmode = False, g_wifi_ssid = replicate 33 NUL, g_wifi_pass = replicate 65 NUL,
     s_save_done = False, cred_ssid = replicate 33 NUL, cred_pass = replicate 65 NUL, calls = []\<rparr>"

definition portal_call :: "portal_call \<Rightarrow> pico \<Rightarrow> pico" where
  "portal_call c s = s\<lparr>calls := calls s @ [c]\<rparr>"

section \<open>The portal\<close>

text \<open>An event of the HTTP server: a request with its URI, method and body, or another event.\<close>

datatype http_event = Http_msg string string mg_str | Other_event

definition portal_handler :: "http_event \<Rightarrow> pico \<Rightarrow> pico option" where
  "portal_handler ev s =
    (case ev of
       Other_event \<Rightarrow> Some s
     | Http_msg uri meth body \<Rightarrow> do {
         is_save \<leftarrow> mg_match uri ''/save'';
         is_post \<leftarrow> (if is_save then mg_match meth ''POST'' else Some False);
         if is_post then do {
           let ssid_buf = replicate 33 NUL;
           let pass_buf = replicate 65 NUL;
           (_, ssid_buf) \<leftarrow> mg_http_get_var body ''ssid'' ssid_buf;
           (_, pass_buf) \<leftarrow> mg_http_get_var body ''pass'' pass_buf;
           ssid \<leftarrow> c_strncpy (cred_ssid s) ssid_buf 32;
           pass \<leftarrow> c_strncpy (cred_pass s) pass_buf 64;
           let s = s\<lparr>cred_ssid := ssid, cred_pass := pass\<rparr>;
           let s = portal_call (Http_reply 200 HTML_HEADER SUCCESS_HTML) s;
           Some (s\<lparr>s_save_done := True\<rparr>)
         } else Some (portal_call (Http_reply 200 HTML_HEADER FORM_HTML) s)
       })"

section \<open>Credentials in flash\<close>

definition FLASH_CRED_OFFSET :: nat where "FLASH_CRED_OFFSET = 256 * 1024"
definition FLASH_SECTOR_SIZE :: nat where "FLASH_SECTOR_SIZE = 4096"

text \<open>flash_range_erase, flash_range_program and reading through the execute-in-place window.\<close>

record 'f flash_api =
  flash_range_erase :: "nat \<Rightarrow> nat \<Rightarrow> 'f \<Rightarrow> 'f"
  flash_range_program :: "nat \<Rightarrow> char list \<Rightarrow> 'f \<Rightarrow> 'f"
  xip_read :: "'f \<Rightarrow> nat \<Rightarrow> nat \<Rightarrow> char list"

definition write_creds_to_flash :: "'f flash_api \<Rightarrow> pico \<Rightarrow> 'f \<Rightarrow> 'f option" where
  "write_creds_to_flash fl s f = do {
     let buf = replicate FLASH_SECTOR_SIZE (CHR 0xFF);
     buf \<leftarrow> arr_copy buf 0 (cred_ssid s @ cred_pass s);
     let f = flash_range_erase fl FLASH_CRED_OFFSET FLASH_SECTOR_SIZE f;
     Some (flash_range_program fl FLASH_CRED_OFFSET buf f)
   }"

text \<open>load_creds: the result and the two arrays of out, which it leaves alone when the sector is erased.\<close>

definition load_creds ::
    "'f flash_api \<Rightarrow> 'f \<Rightarrow> char list \<times> char list \<Rightarrow> (bool \<times> char list \<times> char list) option" where
  "load_creds fl f out = do {
     let flash_ptr = xip_read fl f FLASH_CRED_OFFSET 98;
     b \<leftarrow> arr_get flash_ptr 0;
     if b = CHR 0xFF then Some (False, out)
     else do {
       ssid \<leftarrow> arr_slice flash_ptr 0 33;
       pass \<leftarrow> arr_slice flash_ptr 33 65;
       ssid \<leftarrow> arr_set ssid 32 NUL;
       pass \<leftarrow> arr_set pass 64 NUL;
       c \<leftarrow> arr_get ssid 0;
       Some (c \<noteq> NUL, ssid, pass)
     }
   }"

section \<open>Start-up\<close>

text \<open>MG_SET_WIFI_CONFIG: what the network driver is given.\<close>

datatype wifi_config =
    Access_point string nat nat
  | Station string string

definition MG_IPV4 :: "nat \<Rightarrow> nat \<Rightarrow> nat \<Rightarrow> nat \<Rightarrow> nat" where
  "MG_IPV4 a b c d = a + 256 * b + 65536 * c + 16777216 * d"

definition MG_SET_WIFI_CONFIG :: "pico \<Rightarrow> wifi_config" where
  "MG_SET_WIFI_CONFIG s =
    (if g_wifi_apmode s
     then Access_point (c_str (g_wifi_ssid s)) (MG_IPV4 192 168 4 1) (MG_IPV4 255 255 255 0)
     else Station (c_str (g_wifi_ssid s)) (c_str (g_wifi_pass s)))"

text \<open>
  The loop of wifi_start over the polls of the server, each with the events it delivers: it
  ends with the first poll after which the credentials are there, and has no result when the
  polls given do not bring them.
\<close>

fun portal_serve :: "http_event list list \<Rightarrow> pico \<Rightarrow> pico option" where
  "portal_serve [] s = (if s_save_done s then Some s else None)"
| "portal_serve (evs # polls) s =
    (if s_save_done s then Some s
     else do {
       s \<leftarrow> for_each evs portal_handler s;
       portal_serve polls (portal_call (Portal_sleep 1) s)
     })"

definition portal_setup :: "pico \<Rightarrow> pico option" where
  "portal_setup s = do {
     let s = s\<lparr>g_wifi_apmode := True\<rparr>;
     ssid \<leftarrow> c_strncpy (g_wifi_ssid s) (''TextReader-Setup'' @ [NUL]) 32;
     Some (s\<lparr>g_wifi_ssid := ssid\<rparr>)
   }"

definition pico_wifi_start :: "'f flash_api \<Rightarrow> http_event list list \<Rightarrow> pico \<times> 'f \<Rightarrow> (pico \<times> 'f) option" where
  "pico_wifi_start fl polls p = do {
     let (s, f) = p;
     s \<leftarrow> portal_setup s;
     s \<leftarrow> portal_serve polls (s\<lparr>s_save_done := False\<rparr>);
     f \<leftarrow> write_creds_to_flash fl s f;
     let s = portal_call (Portal_sleep 500) s;
     Some (portal_call (Reset 0x05FA0004) s, f)
   }"

text \<open>
  main up to the point where it hands over: to wifi_start without credentials, else, with the
  globals filled, to display_init and ws_client_start.
\<close>

datatype boot = Provisioning pico | Client pico

definition main_start :: "'f flash_api \<Rightarrow> 'f \<Rightarrow> char list \<times> char list \<Rightarrow> pico \<Rightarrow> boot option" where
  "main_start fl f cred s = do {
     (has_creds, ssid, pass) \<leftarrow> load_creds fl f cred;
     if \<not> has_creds then Some (Provisioning s)
     else do {
       gs \<leftarrow> c_strncpy (g_wifi_ssid s) ssid 32;
       gp \<leftarrow> c_strncpy (g_wifi_pass s) pass 64;
       Some (Client (s\<lparr>g_wifi_ssid := gs, g_wifi_pass := gp\<rparr>))
     }
   }"

section \<open>Lemmas\<close>

text \<open>The arrays keep their sizes and their last terminators.\<close>

definition portal_wf :: "pico \<Rightarrow> bool" where
  "portal_wf s \<longleftrightarrow>
     length (g_wifi_ssid s) = 33 \<and> g_wifi_ssid s ! 32 = NUL \<and>
     length (g_wifi_pass s) = 65 \<and> g_wifi_pass s ! 64 = NUL \<and>
     length (cred_ssid s) = 33 \<and> cred_ssid s ! 32 = NUL \<and>
     length (cred_pass s) = 65 \<and> cred_pass s ! 64 = NUL"

lemma portal_wf_zero: "portal_wf pico_zero"
  by (simp add: portal_wf_def pico_zero_def nth_replicate del: replicate.simps)

definition is_save :: "http_event \<Rightarrow> bool" where
  "is_save ev = (case ev of Http_msg uri meth body \<Rightarrow> uri = ''/save'' \<and> meth = ''POST'' | Other_event \<Rightarrow> False)"

lemma mg_match_save [simp]:
  "mg_match uri ''/save'' = Some (uri = ''/save'')" "mg_match meth ''POST'' = Some (meth = ''POST'')"
  by (simp_all add: mg_match_eq literal_def)

lemma c_strncpy_keeps:
  assumes "length dst = Suc n" "dst ! n = NUL" "n \<le> length src"
  shows "\<exists>d. c_strncpy dst src n = Some d \<and> length d = Suc n \<and> d ! n = NUL"
proof -
  let ?xs = "take n (c_str src @ replicate n NUL)"
  have "length ?xs = n" by simp
  then have "length (?xs @ drop n dst) = Suc n \<and> (?xs @ drop n dst) ! n = NUL"
    using assms(1,2) unfolding nth_append by simp
  then show ?thesis
    using assms by (simp only: c_strncpy_def) simp
qed

lemma length_var_buffer [simp]: "0 < n \<Longrightarrow> length (var_buffer n s) = n"
  by (simp add: var_buffer_def Let_def)

lemma c_str_var_buffer: "NUL \<notin> set s \<Longrightarrow> 0 < n \<Longrightarrow> c_str (var_buffer n s) = take (n - 1) s"
proof -
  assume nul: "NUL \<notin> set s" and "0 < n"
  then obtain m where "n - length (take (n - 1) s) = Suc m"
    by (cases "n - length (take (n - 1) s)") auto
  moreover have "NUL \<notin> set (take (n - 1) s)"
    using nul by (meson in_set_takeD)
  ultimately show ?thesis
    by (simp add: var_buffer_def Let_def c_str_append_nul)
qed

lemma last_var_buffer: "var_buffer (Suc n) s ! n = NUL"
  by (auto simp: var_buffer_def Let_def nth_append nth_replicate simp del: replicate.simps)

lemma c_strncpy_var_buffer:
  assumes "NUL \<notin> set s" "length dst = Suc n" "dst ! n = NUL"
  shows "c_strncpy dst (var_buffer (Suc n) s) n = Some (var_buffer (Suc n) s)"
proof -
  have "drop n dst = [NUL]"
    using assms(2,3) by (metis Cons_nth_drop_Suc drop_all lessI order_refl)
  moreover have "var_buffer (Suc n) s = take n s @ replicate (n - length (take n s)) NUL @ [NUL]"
    by (simp add: var_buffer_def Let_def min_def Suc_diff_le replicate_append_same)
  moreover have "take n (c_str (var_buffer (Suc n) s) @ replicate n NUL) = take n s @ replicate (n - length (take n s)) NUL"
    using assms(1) by (simp add: c_str_var_buffer min_def)
  ultimately show ?thesis
    using assms by (simp add: c_strncpy_def)
qed

lemma portal_handler_any:
  assumes "portal_wf s"
  shows "\<exists>t. portal_handler ev s = Some t \<and> portal_wf t \<and>
    (s_save_done t \<longleftrightarrow> s_save_done s \<or> is_save ev) \<and>
    (\<not> is_save ev \<longrightarrow> (\<exists>cs. t = s\<lparr>calls := cs\<rparr>)) \<and>
    calls t = calls s @ (case ev of Other_event \<Rightarrow> []
      | Http_msg _ _ _ \<Rightarrow> [Http_reply 200 HTML_HEADER (if is_save ev then SUCCESS_HTML else FORM_HTML)])"
proof (cases ev)
  case Other_event
  then show ?thesis using assms by (simp add: portal_handler_def is_save_def exI[of _ "calls s"])
next
  case (Http_msg uri meth body)
  show ?thesis
  proof (cases "uri = ''/save'' \<and> meth = ''POST''")
    case False
    then show ?thesis
      using assms Http_msg by (auto simp: portal_handler_def portal_call_def is_save_def portal_wf_def)
  next
    case True
    obtain n1 d1 where v1: "mg_http_get_var body ''ssid'' (replicate 33 NUL) = Some (n1, d1)" "length d1 = 33"
      using mg_http_get_var_total[of body "''ssid''" "replicate 33 NUL"] by (auto simp del: replicate.simps)
    obtain n2 d2 where v2: "mg_http_get_var body ''pass'' (replicate 65 NUL) = Some (n2, d2)" "length d2 = 65"
      using mg_http_get_var_total[of body "''pass''" "replicate 65 NUL"] by (auto simp del: replicate.simps)
    obtain a where a: "c_strncpy (cred_ssid s) d1 32 = Some a" "length a = 33" "a ! 32 = NUL"
      using c_strncpy_keeps[of "cred_ssid s" 32 d1] assms v1(2) by (auto simp: portal_wf_def)
    obtain b where b: "c_strncpy (cred_pass s) d2 64 = Some b" "length b = 65" "b ! 64 = NUL"
      using c_strncpy_keeps[of "cred_pass s" 64 d2] assms v2(2) by (auto simp: portal_wf_def)
    show ?thesis
      using assms Http_msg True v1(1) v2(1) a b
      by (simp add: portal_handler_def portal_call_def is_save_def portal_wf_def Let_def del: replicate.simps)
  qed
qed

lemma portal_handler_save:
  assumes "portal_wf s" "NUL \<notin> set ssid" "NUL \<notin> set pass"
  shows "portal_handler (Http_msg ''/save'' ''POST'' (Some (form_body ssid pass))) s =
    Some (s\<lparr>cred_ssid := var_buffer 33 ssid, cred_pass := var_buffer 65 pass,
      calls := calls s @ [Http_reply 200 HTML_HEADER SUCCESS_HTML], s_save_done := True\<rparr>)"
  using assms mg_http_get_var_form[of "''ssid''" ssid ssid pass 33] mg_http_get_var_form[of "''pass''" pass ssid pass 65]
    c_strncpy_var_buffer[of ssid "cred_ssid s" 32] c_strncpy_var_buffer[of pass "cred_pass s" 64]
  by (simp add: portal_handler_def portal_call_def portal_wf_def Let_def del: replicate.simps)

text \<open>Requests that are not the form's leave everything but the replies as it was.\<close>

lemma for_each_quiet:
  assumes "portal_wf s" "\<forall>ev\<in>set evs. \<not> is_save ev"
  shows "\<exists>cs. for_each evs portal_handler s = Some (s\<lparr>calls := calls s @ cs\<rparr>)"
  using assms
proof (induction evs arbitrary: s)
  case Nil
  then show ?case by (auto intro: exI[of _ "[]"])
next
  case (Cons ev evs)
  then obtain t cs where t: "portal_handler ev s = Some t" "portal_wf t" "t = s\<lparr>calls := calls s @ cs\<rparr>"
    using portal_handler_any[of s ev] by (fastforce simp del: pico.select_convs)
  with Cons show ?case by fastforce
qed

lemma portal_serve_quiet:
  assumes "portal_wf s" "\<not> s_save_done s" "\<forall>evs\<in>set quiet. \<forall>ev\<in>set evs. \<not> is_save ev"
  shows "\<exists>cs. portal_serve (quiet @ polls) s = portal_serve polls (s\<lparr>calls := cs\<rparr>)"
  using assms
proof (induction quiet arbitrary: s)
  case Nil
  then show ?case by (auto intro: exI[of _ "calls s"])
next
  case (Cons evs quiet)
  obtain cs where cs: "for_each evs portal_handler s = Some (s\<lparr>calls := cs\<rparr>)"
    using for_each_quiet Cons.prems by fastforce
  obtain ds where "portal_serve (quiet @ polls) (portal_call (Portal_sleep 1) (s\<lparr>calls := cs\<rparr>)) =
      portal_serve polls ((portal_call (Portal_sleep 1) (s\<lparr>calls := cs\<rparr>))\<lparr>calls := ds\<rparr>)"
    using Cons.IH[of "portal_call (Portal_sleep 1) (s\<lparr>calls := cs\<rparr>)"] Cons.prems
    by (auto simp: portal_wf_def portal_call_def)
  then show ?case
    using Cons.prems(2) cs by (auto simp: portal_call_def)
qed

lemma portal_serve_save:
  assumes "portal_wf s" "\<not> s_save_done s" "NUL \<notin> set ssid" "NUL \<notin> set pass"
    and "\<forall>ev\<in>set (before @ after). \<not> is_save ev"
  shows "\<exists>cs. portal_serve ((before @ Http_msg ''/save'' ''POST'' (Some (form_body ssid pass)) # after) # polls) s =
    Some (s\<lparr>cred_ssid := var_buffer 33 ssid, cred_pass := var_buffer 65 pass, s_save_done := True, calls := cs\<rparr>) \<and>
    Http_reply 200 HTML_HEADER SUCCESS_HTML \<in> set cs"
proof -
  let ?save = "Http_msg ''/save'' ''POST'' (Some (form_body ssid pass))"
  obtain bs where bs: "for_each before portal_handler s = Some (s\<lparr>calls := calls s @ bs\<rparr>)"
    using for_each_quiet assms by fastforce
  define cs where "cs = calls s @ bs"
  have cs: "for_each before portal_handler s = Some (s\<lparr>calls := cs\<rparr>)"
    using bs by (simp add: cs_def)
  have wf: "portal_wf (s\<lparr>calls := cs\<rparr>)"
    using assms(1) by (simp add: portal_wf_def)
  obtain t where t: "portal_handler ?save (s\<lparr>calls := cs\<rparr>) = Some t" "portal_wf t"
    "t = s\<lparr>cred_ssid := var_buffer 33 ssid, cred_pass := var_buffer 65 pass,
       calls := cs @ [Http_reply 200 HTML_HEADER SUCCESS_HTML], s_save_done := True\<rparr>"
    using portal_handler_save[OF wf assms(3,4)] portal_handler_any[OF wf, of ?save] by auto
  obtain ds where "for_each after portal_handler t = Some (t\<lparr>calls := calls t @ ds\<rparr>)"
    using for_each_quiet[OF t(2)] assms(5) by auto
  then have "for_each (before @ ?save # after) portal_handler s = Some (t\<lparr>calls := calls t @ ds\<rparr>)"
    using cs t(1) by (simp add: for_each_append)
  then show ?thesis
    using assms(2) t(3) by (cases polls) (auto simp: portal_call_def)
qed

text \<open>What the code relies on of the flash: a programmed sector reads back.\<close>

definition flash_ok :: "'f flash_api \<Rightarrow> bool" where
  "flash_ok fl \<longleftrightarrow> (\<forall>f off buf n. off mod 4096 = 0 \<longrightarrow> length buf = 4096 \<longrightarrow> n \<le> 4096 \<longrightarrow>
     xip_read fl (flash_range_program fl off buf (flash_range_erase fl off 4096 f)) off n = take n buf)"

lemma stored_creds:
  assumes "length a = 33" "length b = 65" "a ! 32 = NUL" "b ! 64 = NUL" "flash_ok fl"
    and "write_creds_to_flash fl s f = Some g" "cred_ssid s = a" "cred_pass s = b"
  shows "load_creds fl g out = Some (if a ! 0 = CHR 0xFF then (False, out) else (a ! 0 \<noteq> NUL, a, b))"
proof -
  have buf: "arr_copy (replicate FLASH_SECTOR_SIZE (CHR 0xFF)) 0 (a @ b) =
      Some (a @ b @ replicate 3998 (CHR 0xFF))"
    using assms(1,2) by (simp add: FLASH_SECTOR_SIZE_def del: replicate.simps)
  have "xip_read fl g FLASH_CRED_OFFSET 98 = a @ b"
    using assms buf unfolding flash_ok_def write_creds_to_flash_def
    by (auto simp: FLASH_SECTOR_SIZE_def FLASH_CRED_OFFSET_def simp del: replicate.simps)
  moreover have "a[32 := NUL] = a" "b[64 := NUL] = b"
    using assms(3,4) by (metis list_update_id)+
  moreover have "(a @ b) ! 0 = a ! 0" "a \<noteq> []" "b \<noteq> []"
    using assms(1,2) by (auto simp: nth_append)
  ultimately show ?thesis
    using assms(1,2) by (simp add: load_creds_def)
qed

lemma first_var_buffer: "s \<noteq> [] \<Longrightarrow> var_buffer 33 s ! 0 = hd s"
  by (cases s) (simp_all add: var_buffer_def Let_def)

lemma first_var_buffer_empty: "var_buffer 33 [] ! 0 = NUL"
  by (simp add: var_buffer_def Let_def)

text \<open>A provisioning run to the end and the boot that follows it.\<close>

lemma wifi_start_run:
  assumes "portal_wf s" "NUL \<notin> set ssid" "NUL \<notin> set pass" "flash_ok fl"
    and "\<forall>evs\<in>set quiet. \<forall>ev\<in>set evs. \<not> is_save ev" "\<forall>ev\<in>set (before @ after). \<not> is_save ev"
  shows "\<exists>t g. pico_wifi_start fl (quiet @ (before @ Http_msg ''/save'' ''POST'' (Some (form_body ssid pass)) # after) # rest) (s, f)
      = Some (t, g) \<and> last (calls t) = Reset 0x05FA0004 \<and> Http_reply 200 HTML_HEADER SUCCESS_HTML \<in> set (calls t) \<and>
    load_creds fl g out = Some (if var_buffer 33 ssid ! 0 = CHR 0xFF then (False, out)
      else (var_buffer 33 ssid ! 0 \<noteq> NUL, var_buffer 33 ssid, var_buffer 65 pass))"
proof -
  obtain d where d: "c_strncpy (g_wifi_ssid s) (''TextReader-Setup'' @ [NUL]) 32 = Some d" "length d = 33" "d ! 32 = NUL"
    using assms(1) by (auto simp: portal_wf_def c_strncpy_def c_str_def nth_append numeral_eq_Suc)
  define u where "u = s\<lparr>g_wifi_apmode := True, g_wifi_ssid := d, s_save_done := False\<rparr>"
  have u: "portal_wf u" "\<not> s_save_done u"
    using assms(1) d by (simp_all add: u_def portal_wf_def)
  obtain cs where cs: "portal_serve (quiet @ (before @ Http_msg ''/save'' ''POST'' (Some (form_body ssid pass)) # after) # rest) u
      = portal_serve ((before @ Http_msg ''/save'' ''POST'' (Some (form_body ssid pass)) # after) # rest) (u\<lparr>calls := cs\<rparr>)"
    using portal_serve_quiet[OF u assms(5)] by blast
  have w: "portal_wf (u\<lparr>calls := cs\<rparr>)" "\<not> s_save_done (u\<lparr>calls := cs\<rparr>)"
    using u by (simp_all add: portal_wf_def)
  obtain t where t: "portal_serve ((before @ Http_msg ''/save'' ''POST'' (Some (form_body ssid pass)) # after) # rest) (u\<lparr>calls := cs\<rparr>) = Some t"
    "cred_ssid t = var_buffer 33 ssid" "cred_pass t = var_buffer 65 pass"
    "Http_reply 200 HTML_HEADER SUCCESS_HTML \<in> set (calls t)"
    using portal_serve_save[OF w assms(2,3,6), of rest] by (auto simp del: portal_serve.simps)
  obtain g where g: "write_creds_to_flash fl t f = Some g"
    using t(2,3) by (simp add: write_creds_to_flash_def FLASH_SECTOR_SIZE_def del: replicate.simps)
  have "load_creds fl g out = Some (if var_buffer 33 ssid ! 0 = CHR 0xFF then (False, out)
      else (var_buffer 33 ssid ! 0 \<noteq> NUL, var_buffer 33 ssid, var_buffer 65 pass))"
    by (rule stored_creds[OF _ _ _ _ assms(4) g t(2,3)])
      (use last_var_buffer[of 32 ssid] last_var_buffer[of 64 pass] in simp_all)
  then show ?thesis
    using d(1) cs t(1,4) g by (simp add: pico_wifi_start_def portal_setup_def u_def portal_call_def)
qed

lemma main_start_stored:
  assumes "load_creds fl g out = Some (True, var_buffer 33 ssid, var_buffer 65 pass)" "NUL \<notin> set ssid" "NUL \<notin> set pass"
  shows "main_start fl g out pico_zero =
    Some (Client (pico_zero\<lparr>g_wifi_ssid := var_buffer 33 ssid, g_wifi_pass := var_buffer 65 pass\<rparr>))"
  using assms c_strncpy_var_buffer[of ssid "g_wifi_ssid pico_zero" 32]
    c_strncpy_var_buffer[of pass "g_wifi_pass pico_zero" 64] portal_wf_zero
  by (simp add: main_start_def portal_wf_def)

section \<open>Properties\<close>

text \<open>A NOR flash: erasing sets all bits of a sector, programming clears bits.\<close>

definition nor_flash :: "(nat \<Rightarrow> char) flash_api" where
  "nor_flash = \<lparr>flash_range_erase = (\<lambda>off n f a. if off \<le> a \<and> a < off + n then CHR 0xFF else f a),
     flash_range_program = (\<lambda>off buf f a. if off \<le> a \<and> a < off + length buf
       then char_of (and (of_char (f a) :: nat) (of_char (buf ! (a - off)))) else f a),
     xip_read = (\<lambda>f off n. map f [off..<off + n])\<rparr>"

lemma and_255: "and (255 :: nat) (of_char c) = of_char c"
proof -
  have "and (of_char c :: nat) (mask 8) = take_bit 8 (of_char c)"
    by (simp add: take_bit_eq_mask)
  also have "\<dots> = of_char c"
    by (simp add: take_bit_nat_eq_self)
  also have "mask 8 = (255 :: nat)"
    by (simp add: mask_eq_exp_minus_1)
  finally show ?thesis by (simp add: and.commute)
qed

lemma nor_flash_ok: "flash_ok nor_flash"
  by (auto simp: flash_ok_def nor_flash_def and_255 intro!: nth_equalityI)

text \<open>
  C2: from the form to the network driver. After any requests that do not save, a submitted
  form with an SSID of 1 to 32 bytes that does not start with 0xFF and a password of at most 64
  bytes ends wifi_start in a reset, and the next boot starts the client with exactly that SSID
  and password, whatever characters they consist of.
\<close>

theorem pico_provisioning_roundtrip:
  assumes "flash_ok fl" and "portal_wf s"
    and "ssid \<noteq> []" "length ssid \<le> 32" "NUL \<notin> set ssid" "hd ssid \<noteq> CHR 0xFF"
    and "length pass \<le> 64" "NUL \<notin> set pass"
    and "\<forall>evs\<in>set quiet. \<forall>ev\<in>set evs. \<not> is_save ev" and "\<forall>ev\<in>set (before @ after). \<not> is_save ev"
  shows "\<exists>t g u. pico_wifi_start fl
      (quiet @ (before @ Http_msg ''/save'' ''POST'' (Some (form_body ssid pass)) # after) # rest) (s, f) = Some (t, g) \<and>
    last (calls t) = Reset 0x05FA0004 \<and>
    main_start fl g cred pico_zero = Some (Client u) \<and> MG_SET_WIFI_CONFIG u = Station ssid pass"
proof -
  obtain t g where tg: "pico_wifi_start fl (quiet @ (before @ Http_msg ''/save'' ''POST'' (Some (form_body ssid pass)) # after) # rest) (s, f)
      = Some (t, g)" "last (calls t) = Reset 0x05FA0004"
    "load_creds fl g cred = Some (True, var_buffer 33 ssid, var_buffer 65 pass)"
    using wifi_start_run[OF assms(2,5,8,1,9,10), where rest = rest and f = f and out = cred]
      assms(3,5,6) first_var_buffer[OF assms(3)] by (cases ssid) auto
  show ?thesis
    using tg(1,2) main_start_stored[OF tg(3) assms(5,8)] assms(4,5,7,8)
    by (simp add: MG_SET_WIFI_CONFIG_def c_str_var_buffer pico_zero_def del: replicate.simps)
qed

theorem pico_provisioning_roundtrip_witness:
  "\<exists>t g u. pico_wifi_start nor_flash [[Http_msg ''/'' ''GET'' None],
      [Http_msg ''/save'' ''POST'' (Some (form_body ''my wlan'' ''p&=%+''))]] (pico_zero, (\<lambda>_. NUL)) = Some (t, g) \<and>
    last (calls t) = Reset 0x05FA0004 \<and>
    main_start nor_flash g ([], []) pico_zero = Some (Client u) \<and> MG_SET_WIFI_CONFIG u = Station ''my wlan'' ''p&=%+''"
  using pico_provisioning_roundtrip[OF nor_flash_ok portal_wf_zero, of "''my wlan''" "''p&=%+''"
      "[[Http_msg ''/'' ''GET'' None]]" "[]" "[]" "[]" "\<lambda>_. NUL" "([], [])"]
  by (simp add: is_save_def)

text \<open>
  A network name or password longer than its buffer is stored cut, without an error: the
  user is told that the credentials are saved, and the next boot uses the first 32 and 64 bytes.
  The form's maxlength counts characters, so that names with other than ASCII characters get there.
\<close>

theorem pico_long_ssid_cut:
  assumes "flash_ok fl" and "portal_wf s" and "32 < length ssid" "NUL \<notin> set ssid" "hd ssid \<noteq> CHR 0xFF"
    and "NUL \<notin> set pass"
  shows "\<exists>t g u. pico_wifi_start fl [[Http_msg ''/save'' ''POST'' (Some (form_body ssid pass))]] (s, f) = Some (t, g) \<and>
    Http_reply 200 HTML_HEADER SUCCESS_HTML \<in> set (calls t) \<and>
    main_start fl g cred pico_zero = Some (Client u) \<and>
    MG_SET_WIFI_CONFIG u = Station (take 32 ssid) (take 64 pass) \<and> take 32 ssid \<noteq> ssid"
proof -
  let ?form = "Http_msg ''/save'' ''POST'' (Some (form_body ssid pass))"
  have ne: "ssid \<noteq> []" using assms(3) by auto
  obtain t g where tg: "pico_wifi_start fl [[?form]] (s, f) = Some (t, g)"
    "Http_reply 200 HTML_HEADER SUCCESS_HTML \<in> set (calls t)"
    "load_creds fl g cred = Some (True, var_buffer 33 ssid, var_buffer 65 pass)"
    using wifi_start_run[OF assms(2,4,6,1), where quiet = "[]" and before = "[]" and after = "[]" and rest = "[]"
        and f = f and out = cred] ne assms(4,5) first_var_buffer[OF ne] by (cases ssid) auto
  have "take 32 ssid \<noteq> ssid"
    using assms(3) by (metis length_take linorder_not_less min.cobounded2)
  then show ?thesis
    using tg main_start_stored[OF tg(3) assms(4,6)] assms(4,6)
    by (simp add: MG_SET_WIFI_CONFIG_def c_str_var_buffer pico_zero_def del: replicate.simps)
qed

text \<open>
  an empty network name, or one that starts with the byte 0xFF, is reported as saved and
  lost: the next boot finds no credentials and starts the portal again.
\<close>

theorem pico_lost_ssid:
  assumes "flash_ok fl" and "portal_wf s" and "ssid = [] \<or> hd ssid = CHR 0xFF" "NUL \<notin> set ssid" "NUL \<notin> set pass"
  shows "\<exists>t g. pico_wifi_start fl [[Http_msg ''/save'' ''POST'' (Some (form_body ssid pass))]] (s, f) = Some (t, g) \<and>
    Http_reply 200 HTML_HEADER SUCCESS_HTML \<in> set (calls t) \<and>
    main_start fl g cred pico_zero = Some (Provisioning pico_zero)"
proof -
  obtain t g where tg: "pico_wifi_start fl [[Http_msg ''/save'' ''POST'' (Some (form_body ssid pass))]] (s, f) = Some (t, g)"
    "Http_reply 200 HTML_HEADER SUCCESS_HTML \<in> set (calls t)"
    "\<exists>out. load_creds fl g cred = Some (False, out)"
    using wifi_start_run[OF assms(2,4,5,1), where quiet = "[]" and before = "[]" and after = "[]" and rest = "[]"
        and f = f and out = cred] assms(3) first_var_buffer[of ssid] first_var_buffer_empty by (cases ssid) auto
  then show ?thesis
    by (auto simp: main_start_def)
qed

theorem pico_lost_ssid_witness:
  "\<exists>t g. pico_wifi_start nor_flash [[Http_msg ''/save'' ''POST'' (Some (form_body [] ''pw''))]] (pico_zero, (\<lambda>_. NUL)) = Some (t, g) \<and>
    main_start nor_flash g ([], []) pico_zero = Some (Provisioning pico_zero)"
  using pico_lost_ssid[OF nor_flash_ok portal_wf_zero, of "[]" "''pw''" "\<lambda>_. NUL" "([], [])"] by auto



end
