(* ===== verification/Portal_Link.thy ===== *)
theory Portal_Link
  imports Http_Safety Portal_Pico
begin

text \<open>
  The Pico's portal on the connections of the HTTP server: portal_handler of
  firmware/pico/src/captive_portal.c as the handler mg_http_listen is given, with the replies it
  makes written by mg_http_reply. The theorem follows a browser's requests from the packets of the
  network to the state of the portal and the bytes sent back.
\<close>

section \<open>The handler on a connection\<close>

fun portal_event :: "http_call \<Rightarrow> http_event" where
  "portal_event (EV_HTTP_HDRS hm b) = Other_event"
| "portal_event (EV_HTTP_MSG hm b) = Http_msg (hm_uri hm) (hm_method hm) (Some (byte_chars b))"

fun portal_reply :: "mg_net \<Rightarrow> portal_call \<Rightarrow> mg_connection \<Rightarrow> mg_connection option" where
  "portal_reply net (Http_reply code headers html) c = mg_http_reply net code (Some headers) ''%s'' [A_str (Some html)] c"
| "portal_reply net (Portal_sleep ms) c = Some c"
| "portal_reply net (Reset v) c = Some c"

definition portal_fn :: "mg_net \<Rightarrow> pico http_fn" where
  "portal_fn net ev ca = do {
     s \<leftarrow> portal_handler (portal_event ev) (snd ca);
     c \<leftarrow> for_each (drop (length (calls (snd ca))) (calls s)) (portal_reply net) (fst ca);
     Some (c, s)
   }"

definition request_event :: "http_request \<Rightarrow> http_event" where
  "request_event r = Http_msg (rq_uri r) (rq_method r) (Some (rq_body r))"

definition portal_page :: "http_event \<Rightarrow> string" where
  "portal_page ev = (if is_save ev then SUCCESS_HTML else FORM_HTML)"

section \<open>The contract of the server\<close>

lemma page_plain: "NUL \<notin> set (portal_page ev)" "length (portal_page ev) \<le> 3900"
proof -
  have "NUL \<notin> set FORM_HTML \<and> length FORM_HTML \<le> 3900" "NUL \<notin> set SUCCESS_HTML \<and> length SUCCESS_HTML \<le> 3900"
    by (simp_all add: FORM_HTML_def SUCCESS_HTML_def)
  then show "NUL \<notin> set (portal_page ev)" "length (portal_page ev) \<le> 3900" by (auto simp: portal_page_def)
qed

lemma html_header_plain: "NUL \<notin> set HTML_HEADER" "length HTML_HEADER = 25"
  by (simp_all add: HTML_HEADER_def)

lemma portal_reply_short: "length (reply_text 200 HTML_HEADER (portal_page ev)) \<le> 4096"
  using page_plain(2)[of ev] reply_head_short(1)[of 200 HTML_HEADER "'' '' @ length_cell (length (portal_page ev)) @ '' ''"]
  by (simp add: reply_text_def html_header_plain length_length_cell)

lemma portal_replies_short:
  "length (char_bytes (concat (map (\<lambda>r. reply_text 200 HTML_HEADER (portal_page (request_event r))) rs))) \<le> length rs * 4096"
proof (induction rs)
  case (Cons r rs)
  then show ?case using portal_reply_short[of "request_event r"] by simp
qed simp

definition full_memory :: "mg_net \<Rightarrow> mg_net" where
  "full_memory net = net\<lparr>avail := \<lambda>n. True\<rparr>"

abbreviation portal_answer :: "mg_http_message \<Rightarrow> u8 list \<Rightarrow> pico \<Rightarrow> pico" where
  "portal_answer hm b s \<equiv> the (portal_handler (portal_event (EV_HTTP_MSG hm b)) s)"

abbreviation portal_bytes :: "mg_http_message \<Rightarrow> u8 list \<Rightarrow> pico \<Rightarrow> u8 list" where
  "portal_bytes hm b s \<equiv> char_bytes (reply_text 200 HTML_HEADER (portal_page (portal_event (EV_HTTP_MSG hm b))))"

lemma portal_fn_answers:
  assumes "\<And>n. avail net n" "io_ok (c_send c)" "io_room 4096 (c_send c)" "portal_wf s"
  shows "\<exists>io. portal_fn net (EV_HTTP_MSG hm b) (c, s) = Some (c\<lparr>c_send := io, is_resp := False\<rparr>, portal_answer hm b s) \<and>
    io_ok io \<and> io_data io = io_data (c_send c) @ portal_bytes hm b s \<and> io_align io = io_align (c_send c)"
proof -
  let ?ev = "portal_event (EV_HTTP_MSG hm b)"
  obtain t where t: "portal_handler ?ev s = Some t" "calls t = calls s @ [Http_reply 200 HTML_HEADER (portal_page ?ev)]"
    using portal_handler_any[OF assms(4), of ?ev] by (auto simp: portal_page_def)
  have page: "mg_vxprintf ''%s'' [A_str (Some (portal_page ?ev))] = Some (portal_page ?ev)"
    using fmt_plain_s[of "[]" "portal_page ?ev" "[]"]
    by (simp only: append_Nil2 mg_vxprintf.simps(1) bind.bind_lunit c_str_id[OF page_plain(1)])
  have "io_room (length HTML_HEADER + length (portal_page ?ev) + 128) (c_send c)"
    using assms(3) page_plain(2)[of ?ev] by (simp add: io_room_def html_header_plain)
  from mg_http_reply_appends[OF assms(2) this assms(1) _ html_header_plain(1) page, of 200] obtain io where
    "mg_http_reply net 200 (Some HTML_HEADER) ''%s'' [A_str (Some (portal_page ?ev))] c = Some (c\<lparr>c_send := io, is_resp := False\<rparr>)"
    "io_ok io" "io_data io = io_data (c_send c) @ portal_bytes hm b s" "io_align io = io_align (c_send c)"
    by auto
  then show ?thesis using t
    by (intro exI[of _ io]) (simp add: portal_fn_def del: portal_event.simps)
qed

interpretation portal: http_app "full_memory net" "portal_fn (full_memory net)" 4096 portal_wf portal_answer portal_bytes
  for net
proof
  fix hm b and c :: mg_connection and s :: pico
  show "portal_fn (full_memory net) (EV_HTTP_HDRS hm b) (c, s) = Some (c, s)"
    by (simp add: portal_fn_def portal_handler_def)
  show "length (portal_bytes hm b s) \<le> 4096"
    using portal_reply_short by (simp del: portal_event.simps)
  assume s: "portal_wf s"
  show "portal_wf (portal_answer hm b s)"
    using portal_handler_any[OF s, of "portal_event (EV_HTTP_MSG hm b)"] by auto
  assume "io_ok (c_send c)" "io_room 4096 (c_send c)"
  with s show "\<exists>io. portal_fn (full_memory net) (EV_HTTP_MSG hm b) (c, s) =
      Some (c\<lparr>c_send := io, is_resp := False\<rparr>, portal_answer hm b s) \<and>
    io_ok io \<and> io_data io = io_data (c_send c) @ portal_bytes hm b s \<and> io_align io = io_align (c_send c)"
    by (intro portal_fn_answers) (simp_all add: full_memory_def)
qed

section \<open>Properties\<close>

lemma request_event_msg: "portal_event (EV_HTTP_MSG (request_msg r) (char_bytes (rq_body r))) = request_event r"
  by (simp add: request_msg_def request_event_def)

lemma portal_answers:
  "portal_wf s \<Longrightarrow> for_each (map request_event rs) portal_handler s = Some (answers portal_answer rs s) \<and>
    replies portal_answer portal_bytes rs s =
      char_bytes (concat (map (\<lambda>r. reply_text 200 HTML_HEADER (portal_page (request_event r))) rs))"
proof (induction rs arbitrary: s)
  case (Cons r rs)
  obtain t where t: "portal_handler (request_event r) s = Some t" "portal_wf t"
    using portal_handler_any[OF Cons.prems] by blast
  show ?case
    using Cons.IH[OF t(2)] t(1) by (simp add: answers_def request_event_msg del: portal_event.simps)
qed (simp add: answers_def)

lemma portal_served:
  assumes "portal_wf s" "list_all good_request rs" "\<And>n. avail net n"
    and "concat packets = char_bytes (concat (map request_text rs))"
    and "is_accepted c" "\<not> is_resp c" "io_ok (c_recv c)" "io_data (c_recv c) = []" "io_ok (c_send c)"
    and "length (concat packets) + 2 * io_align (c_recv c) < 2 ^ 31"
    and "io_len (c_send c) + length rs * 4096 + 2 * io_align (c_send c) < 2 ^ 32"
  shows "\<exists>ri si t. for_each packets (http_read net (portal_fn net)) (c, s) = Some (c\<lparr>c_recv := ri, c_send := si\<rparr>, t) \<and>
    for_each (map request_event rs) portal_handler s = Some t \<and> io_data ri = [] \<and> io_ok si \<and>
    io_data si = io_data (c_send c) @
      char_bytes (concat (map (\<lambda>r. reply_text 200 HTML_HEADER (portal_page (request_event r))) rs))"
proof -
  have net: "full_memory net = net" using assms(3) by (cases net) (auto simp: full_memory_def)
  have "\<exists>ri si. for_each packets (http_read (full_memory net) (portal_fn (full_memory net))) (c, s) =
      Some (c\<lparr>c_recv := ri, c_send := si\<rparr>, answers portal_answer rs s) \<and>
    io_ok ri \<and> io_data ri = [] \<and> io_ok si \<and> io_data si = io_data (c_send c) @ replies portal_answer portal_bytes rs s"
    by (rule portal.requests_answered) (use assms in \<open>simp_all add: full_memory_def\<close>)
  then show ?thesis unfolding net using portal_answers[OF assms(1)] by fastforce
qed

text \<open>
  C7: A browser's requests reach portal_handler whole, once and in order, however the network cuts
  them into packets, and are answered in this order: on a connection of the portal, reading the
  packets has the effect of the handler on the requests, and appends one reply for each to the
  send buffer, with the form or, for the POST to /save, the page of success.
\<close>

theorem portal_requests_served:
  assumes "portal_wf s" "list_all good_request rs" "\<And>n. avail net n"
    and "concat packets = char_bytes (concat (map request_text rs))"
    and "is_accepted c" "\<not> is_resp c" "io_ok (c_recv c)" "io_data (c_recv c) = []" "io_ok (c_send c)"
    and "length (concat packets) + 2 * io_align (c_recv c) < 2 ^ 31"
    and "io_len (c_send c) + length rs * 4096 + 2 * io_align (c_send c) < 2 ^ 32"
  shows "\<exists>d t. for_each packets (http_read net (portal_fn net)) (c, s) = Some (d, t) \<and>
    for_each (map request_event rs) portal_handler s = Some t \<and> io_data (c_recv d) = [] \<and>
    io_data (c_send d) = io_data (c_send c) @
      char_bytes (concat (map (\<lambda>r. reply_text 200 HTML_HEADER (portal_page (request_event r))) rs))"
proof -
  from portal_served[OF assms] show ?thesis by fastforce
qed

definition portal_conn :: mg_connection where
  "portal_conn = (fresh_conn False)\<lparr>is_accepted := True\<rparr>"

theorem portal_requests_served_witness:
  "\<exists>d t. for_each [char_bytes (request_text form_request @ take 7 (request_text save_request)),
      char_bytes (drop 7 (request_text save_request))] (http_read good_net (portal_fn good_net)) (portal_conn, pico_zero) = Some (d, t) \<and>
    for_each (map request_event [form_request, save_request]) portal_handler pico_zero = Some t \<and> io_data (c_recv d) = [] \<and>
    io_data (c_send d) = io_data (c_send portal_conn) @ char_bytes (concat (map (\<lambda>r. reply_text 200 HTML_HEADER
      (portal_page (request_event r))) [form_request, save_request]))"
  by (rule portal_requests_served[OF portal_wf_zero])
    (simp_all add: good_requests good_net_def portal_conn_def fresh_conn_def io_ok_def io_data_def char_bytes_cut request_sizes
      flip: char_bytes_simps(3))



end
