(* ===== verification/Mongoose_Tcp.thy ===== *)
theory Mongoose_Tcp
  imports Mongoose_Server
begin

text \<open>
  TCP connections of the built-in network stack (src/net_builtin.c in
  firmware/pico/lib/mongoose/mongoose.c): struct connstate with its counters and timer, the handling
  of a segment by rx_tcp and read_conn, the backlog of a listener, and the sending of what is in
  the send buffer. Numbers are in host order, a segment carries its options and its data, and the
  segments given to tx_tcp are recorded in order; the network is taken to have a way back to the peer of a connection.
  Connections are plain TCP over IPv4.
\<close>

section \<open>State\<close>

type_synonym u64 = "64 word"

datatype mip_ttype = MIP_TTYPE_KEEPALIVE | MIP_TTYPE_ACK | MIP_TTYPE_ARP | MIP_TTYPE_SYN | MIP_TTYPE_FIN

record connstate =
  s_seq :: u32
  s_ack :: u32
  s_timer :: u64
  s_acked :: u32
  s_unacked :: nat
  s_dmss :: u16
  s_ttype :: mip_ttype
  s_tmiss :: u8
  s_fin_rcvd :: bool
  s_twclosure :: bool

text \<open>A segment: its ports, numbers and flags, the bytes from the options on, and the data.\<close>

record segment =
  seg_sport :: u16
  seg_seq :: u32
  seg_ack :: u32
  seg_flags :: u8
  seg_opts :: "u8 list"
  seg_pay :: "u8 list"

definition TH_FIN :: u8 where "TH_FIN = 1"
definition TH_SYN :: u8 where "TH_SYN = 2"
definition TH_RST :: u8 where "TH_RST = 4"
definition TH_PUSH :: u8 where "TH_PUSH = 8"
definition TH_ACK :: u8 where "TH_ACK = 16"

lemmas th_flags = TH_FIN_def TH_SYN_def TH_RST_def TH_PUSH_def TH_ACK_def

definition MG_TCPIP_WIN :: nat where "MG_TCPIP_WIN = 6000"

text \<open>
  A connection in the stack, with the state of the application above it; the handlers get the
  events of mg_call on it, MG_EV_CONNECT and MG_EV_WRITE as Other_net_event.
\<close>

record 's tcp =
  t_st :: connstate
  t_connecting :: bool
  t_conn :: mg_connection
  t_app :: 's
  t_out :: "segment list"

type_synonym 's tcp_fn = "net_event \<Rightarrow> mg_connection \<times> 's \<Rightarrow> (mg_connection \<times> 's) option"

definition tcp_call :: "'s tcp_fn \<Rightarrow> net_event \<Rightarrow> 's tcp \<Rightarrow> 's tcp option" where
  "tcp_call h ev t = do { (c, a) \<leftarrow> h ev (t_conn t, t_app t); Some (t\<lparr>t_conn := c, t_app := a\<rparr>) }"

section \<open>Timers and segments to send\<close>

fun tmout_ms :: "mip_ttype \<Rightarrow> u64" where
  "tmout_ms MIP_TTYPE_ACK = 150"
| "tmout_ms MIP_TTYPE_ARP = 100"
| "tmout_ms MIP_TTYPE_SYN = 15000"
| "tmout_ms MIP_TTYPE_FIN = 1000"
| "tmout_ms MIP_TTYPE_KEEPALIVE = 45000"

definition settmout :: "u64 \<Rightarrow> mip_ttype \<Rightarrow> connstate \<Rightarrow> connstate" where
  "settmout now tt s =
    (if s_ttype s = MIP_TTYPE_FIN then s else s\<lparr>s_timer := now + tmout_ms tt, s_ttype := tt\<rparr>)"

definition tx_tcp :: "u8 \<Rightarrow> u32 \<Rightarrow> u32 \<Rightarrow> u8 list \<Rightarrow> 's tcp \<Rightarrow> 's tcp" where
  "tx_tcp flags sq ak pay t = t\<lparr>t_out := t_out t @
     [\<lparr>seg_sport = 0, seg_seq = sq, seg_ack = ak, seg_flags = flags, seg_opts = [], seg_pay = pay\<rparr>]\<rparr>"

text \<open>An acknowledgement with the counters as they are.\<close>

definition tx_ack :: "'s tcp \<Rightarrow> 's tcp" where
  "tx_ack t = tx_tcp TH_ACK (s_seq (t_st t)) (s_ack (t_st t)) [] t"

section \<open>Receiving\<close>

text \<open>The FIN of the peer: the counters, and the flags of the answer.\<close>

definition fin_state :: "u64 \<Rightarrow> segment \<Rightarrow> 's tcp \<Rightarrow> u8 \<times> 's tcp" where
  "fin_state now p t =
    (let s = (t_st t)\<lparr>s_ack := seg_seq p + word_of_nat (length (seg_pay p)) + 1, s_fin_rcvd := True\<rparr>
     in if is_draining (t_conn t) \<and> s_ttype s = MIP_TTYPE_FIN then
          (TH_ACK, t\<lparr>t_st := s\<lparr>s_seq := (if s_seq s = seg_ack p then s_seq s + 1 else seg_ack p), s_twclosure := True\<rparr>\<rparr>)
        else
          (TH_ACK OR TH_FIN, t\<lparr>t_st := settmout now MIP_TTYPE_FIN s, t_conn := (t_conn t)\<lparr>is_draining := True\<rparr>\<rparr>))"

text \<open>The counters after new data, and the acknowledgement, at once or by the timer.\<close>

definition ack_data :: "u64 \<Rightarrow> segment \<Rightarrow> 's tcp \<Rightarrow> 's tcp" where
  "ack_data now p t =
    (let n = length (seg_pay p);
         s = (t_st t)\<lparr>s_ack := seg_seq p + word_of_nat n, s_unacked := size_t (s_unacked (t_st t) + n)\<rparr>;
         t = t\<lparr>t_st := s\<rparr>
     in if s_unacked s > MG_TCPIP_WIN div 2 \<and> s_acked s \<noteq> s_ack s then
          (let t = tx_ack t; s = s\<lparr>s_unacked := 0, s_acked := s_ack s\<rparr>
           in t\<lparr>t_st := (if s_ttype s \<noteq> MIP_TTYPE_KEEPALIVE then settmout now MIP_TTYPE_KEEPALIVE s else s)\<rparr>)
        else t\<lparr>t_st := (if s_ttype s \<noteq> MIP_TTYPE_ACK then settmout now MIP_TTYPE_ACK s else s)\<rparr>)"

definition take_data :: "u64 \<Rightarrow> 's tcp_fn \<Rightarrow> segment \<Rightarrow> 's tcp \<Rightarrow> 's tcp option" where
  "take_data now h p t = tcp_call h MG_EV_READ (ack_data now p t)"

definition read_conn :: "mg_net \<Rightarrow> u64 \<Rightarrow> 's tcp_fn \<Rightarrow> segment \<Rightarrow> 's tcp \<Rightarrow> 's tcp option" where
  "read_conn net now h p t =
    (let s = t_st t; sq = seg_seq p; n = length (seg_pay p) in
     if seg_flags p AND TH_FIN \<noteq> 0 then
       if sq \<noteq> s_ack s then Some (tx_ack t)
       else (let (flags, t) = fin_state now p t;
                 t = tx_tcp flags (s_seq (t_st t)) (s_ack (t_st t)) [] t
             in if n = 0 then Some t
                else do { c \<leftarrow> recv_copy (seg_pay p) (t_conn t); take_data now h p (t\<lparr>t_conn := c\<rparr>) })
     else if n \<le> 1 \<and> sq = s_ack s - 1 then Some (tx_ack t)
     else if n = 0 then
       Some (if s_fin_rcvd s \<and> s_ttype s = MIP_TTYPE_FIN then t\<lparr>t_st := s\<lparr>s_twclosure := True\<rparr>\<rparr> else t)
     else if sq \<noteq> s_ack s then Some (if s_ack s = sq + word_of_nat n then t else tx_ack t)
     else do {
       (ok, c) \<leftarrow> recv_append net (seg_pay p) (t_conn t);
       if ok then take_data now h p (t\<lparr>t_conn := c\<rparr>) else Some (t\<lparr>t_conn := c\<rparr>)
     })"

text \<open>
  handle_opt: the maximum segment size among the options; m is the packet from the options on and
  len their length in bytes. Reading past the end of the packet has no result.
\<close>

function opts_from :: "u8 list \<Rightarrow> int \<Rightarrow> u16 \<Rightarrow> (bool \<times> u16) option" where
  "opts_from m len mss =
    (if len \<le> 0 then Some (True, mss)
     else case m of
       [] \<Rightarrow> None
     | kind # r \<Rightarrow>
         if kind = 1 then opts_from r (len - 1) mss
         else if kind = 0 then Some (True, mss)
         else if len < 2 then Some (False, mss)
         else do {
           optlen \<leftarrow> arr_get m 1;
           if optlen = 0 then Some (False, mss)
           else do {
             mss \<leftarrow> (if kind = 2 \<and> optlen = 4
               then do { b \<leftarrow> arr_get m 2; d \<leftarrow> arr_get m 3; Some (push_bit 8 (ucast b) + ucast d) } else Some mss);
             opts_from (drop (unat optlen) m) (len - uint optlen) mss
           }
         })"
  by pat_completeness auto
termination
proof (relation "measure (\<lambda>(m, len, mss). nat len)", goal_cases)
  case (3 m len mss kind r optlen)
  then have "0 < uint optlen" by (metis order_le_less unsigned_eq_0_iff unsigned_greater_eq)
  with 3 show ?case by simp
qed simp_all

declare opts_from.simps [simp del]

definition handle_opt :: "segment \<Rightarrow> (bool \<times> u16) option" where
  "handle_opt p = opts_from (seg_opts p @ seg_pay p) (int (length (seg_opts p))) 536"

text \<open>rx_tcp for the segments of a connection that getpeer found.\<close>

definition rx_conn :: "mg_net \<Rightarrow> u64 \<Rightarrow> 's tcp_fn \<Rightarrow> segment \<Rightarrow> 's tcp \<Rightarrow> 's tcp option" where
  "rx_conn net now h p t =
    (let s = t_st t; sq = seg_seq p in
     if t_connecting t \<and> seg_flags p = TH_SYN OR TH_ACK then do {
       (ok, mss) \<leftarrow> handle_opt p;
       let s = s\<lparr>s_dmss := mss\<rparr>;
       if \<not> ok then Some (t\<lparr>t_st := s\<rparr>) else do {
         let s = s\<lparr>s_seq := seg_ack p, s_ack := sq + 1\<rparr>;
         let t = tx_tcp TH_ACK (seg_ack p) (sq + word_of_nat (length (seg_pay p)) + 1) [] (t\<lparr>t_st := s\<rparr>);
         tcp_call h Other_net_event (t\<lparr>t_connecting := False, t_st := settmout now MIP_TTYPE_KEEPALIVE s\<rparr>)
       }
     }
     else if t_connecting t \<and> seg_flags p \<noteq> TH_ACK then Some (t\<lparr>t_conn := mg_error ''connection refused'' (t_conn t)\<rparr>)
     else if seg_flags p AND TH_RST \<noteq> 0 then
       Some (if s_ack s \<le> sq \<and> sq < s_ack s + word_of_nat MG_TCPIP_WIN
             then t\<lparr>t_conn := mg_error ''peer RST'' (t_conn t)\<rparr> else t)
     else (let s = s\<lparr>s_tmiss := 0\<rparr>;
               s = (if s_ttype s = MIP_TTYPE_KEEPALIVE then settmout now MIP_TTYPE_KEEPALIVE s else s)
           in read_conn net now h p (t\<lparr>t_st := s\<rparr>)))"

section \<open>Sending\<close>

text \<open>
  The interface: its maximum transmission unit, the size of a frame, and the room for one. trim_len
  may raise the unit; its differences are size_t.
\<close>

record mg_ifp =
  if_mtu :: nat
  if_framesize :: nat
  if_txlen :: nat

definition size_diff :: "nat \<Rightarrow> nat \<Rightarrow> nat" where
  "size_diff a b = nat ((int a - int b) mod 2 ^ 32)"

definition trim_len :: "bool \<Rightarrow> mg_ifp \<Rightarrow> nat \<Rightarrow> nat \<times> mg_ifp" where
  "trim_len is_udp ifp len =
    (let l2_max_overhead = size_diff (if_framesize ifp) (if_mtu ifp);
         max_headers_len = 24 + (if is_udp then 8 else 60);
         min_mtu = (if is_udp then 68 else max_headers_len);
         len = (if size_t (len + max_headers_len + l2_max_overhead) > if_txlen ifp
           then size_diff (if_txlen ifp) (max_headers_len + l2_max_overhead) else len);
         ifp = (if if_mtu ifp < min_mtu then ifp\<lparr>if_mtu := min_mtu\<rparr> else ifp);
         len = (if size_t (len + max_headers_len) > if_mtu ifp then size_diff (if_mtu ifp) max_headers_len else len)
     in (len, ifp))"

text \<open>What the driver makes of a frame: not now, never, or sent.\<close>

datatype tx_result = Tx_wait | Tx_err | Tx_sent

definition MG_IO_ERR :: int where "MG_IO_ERR = -1"
definition MG_IO_WAIT :: int where "MG_IO_WAIT = -2"

definition mg_io_send :: "u64 \<Rightarrow> tx_result \<Rightarrow> u8 list \<Rightarrow> mg_ifp \<times> 's tcp \<Rightarrow> int \<times> mg_ifp \<times> 's tcp" where
  "mg_io_send now r buf it =
    (let (ifp, t) = it;
         (len, ifp) = trim_len False ifp (length buf);
         s = t_st t;
         len = (if len > unat (s_dmss s) then unat (s_dmss s) else len)
     in case r of
       Tx_wait \<Rightarrow> (MG_IO_WAIT, ifp, t)
     | Tx_err \<Rightarrow> (MG_IO_ERR, ifp, t)
     | Tx_sent \<Rightarrow>
         (let t = tx_tcp (TH_PUSH OR TH_ACK) (s_seq s) (s_ack s) (take len buf) t;
              s = s\<lparr>s_seq := s_seq s + word_of_nat len\<rparr>;
              s = (if s_ttype s = MIP_TTYPE_ACK then settmout now MIP_TTYPE_KEEPALIVE s else s)
          in (int len, ifp, t\<lparr>t_st := s\<rparr>)))"

definition can_write :: "'s tcp \<Rightarrow> bool" where
  "can_write t \<longleftrightarrow> \<not> t_connecting t \<and> io_len (c_send (t_conn t)) > 0"

definition write_conn :: "u64 \<Rightarrow> tx_result \<Rightarrow> 's tcp_fn \<Rightarrow> mg_ifp \<times> 's tcp \<Rightarrow> (mg_ifp \<times> 's tcp) option" where
  "write_conn now r h it =
    (let (len, ifp, t) = mg_io_send now r (io_data (c_send (t_conn (snd it)))) it in
     if len = MG_IO_ERR then Some (ifp, t\<lparr>t_conn := mg_error ''tx err'' (t_conn t)\<rparr>)
     else if len > 0 then do {
       (_, io) \<leftarrow> mg_iobuf_del 0 (nat len) (c_send (t_conn t));
       t \<leftarrow> tcp_call h Other_net_event (t\<lparr>t_conn := (t_conn t)\<lparr>c_send := io\<rparr>\<rparr>);
       Some (ifp, t)
     } else Some (ifp, t))"

definition init_closure :: "u64 \<Rightarrow> 's tcp \<Rightarrow> 's tcp" where
  "init_closure now t =
    (if t_connecting t then t
     else (tx_tcp (TH_FIN OR TH_ACK) (s_seq (t_st t)) (s_ack (t_st t)) [] t)\<lparr>t_st := settmout now MIP_TTYPE_FIN (t_st t)\<rparr>)"

text \<open>A round of mg_mgr_poll for a connection; the result False is the end of the connection.\<close>

definition mgr_poll_conn :: "u64 \<Rightarrow> tx_result \<Rightarrow> 's tcp_fn \<Rightarrow> mg_ifp \<times> 's tcp \<Rightarrow> (bool \<times> mg_ifp \<times> 's tcp) option" where
  "mgr_poll_conn now r h it = do {
     t \<leftarrow> tcp_call h MG_EV_POLL (snd it);
     (ifp, t) \<leftarrow> (if can_write t then write_conn now r h (fst it, t) else Some (fst it, t));
     let t = (if is_draining (t_conn t) \<and> io_len (c_send (t_conn t)) = 0 \<and> s_ttype (t_st t) \<noteq> MIP_TTYPE_FIN
       then init_closure now t else t);
     let t = (if s_twclosure (t_st t) then t\<lparr>t_conn := (t_conn t)\<lparr>is_closing := True\<rparr>\<rparr> else t);
     Some (\<not> is_closing (t_conn t), ifp, t)
   }"

text \<open>The timers, in mg_tcpip_poll.\<close>

definition tcp_timeout :: "u64 \<Rightarrow> 's tcp \<Rightarrow> 's tcp" where
  "tcp_timeout now t =
    (let s = t_st t;
         again = (\<lambda>t. t\<lparr>t_st := settmout now MIP_TTYPE_KEEPALIVE (t_st t)\<rparr>)
     in if now \<le> s_timer s then t
        else if s_ttype s = MIP_TTYPE_ARP then again (t\<lparr>t_conn := mg_error ''ARP timeout'' (t_conn t)\<rparr>)
        else if s_ttype s = MIP_TTYPE_ACK \<and> s_acked s \<noteq> s_ack s then
          again ((tx_ack t)\<lparr>t_st := s\<lparr>s_acked := s_ack s\<rparr>\<rparr>)
        else if s_ttype s = MIP_TTYPE_SYN then again (t\<lparr>t_conn := mg_error ''Connection timeout'' (t_conn t)\<rparr>)
        else if s_ttype s = MIP_TTYPE_FIN then t\<lparr>t_conn := (t_conn t)\<lparr>is_closing := True\<rparr>\<rparr>
        else (let t = t\<lparr>t_st := s\<lparr>s_tmiss := s_tmiss s + 1\<rparr>\<rparr>
              in again (if s_tmiss s > 2 then t\<lparr>t_conn := mg_error ''keepalive'' (t_conn t)\<rparr>
                else tx_tcp TH_ACK (s_seq s - 1) (s_ack s) [] t)))"

text \<open>send_syn and the timer it starts, once the peer's hardware address is known.\<close>

definition l2addr_resolved :: "u64 \<Rightarrow> u16 \<Rightarrow> 's tcp \<Rightarrow> 's tcp" where
  "l2addr_resolved now port t =
     (tx_tcp TH_SYN (ucast port) 0 [] t)\<lparr>t_st := settmout now MIP_TTYPE_SYN (t_st t)\<rparr>"

section \<open>The backlog of a listener\<close>

text \<open>Five entries of connections half open; port 0 marks a free one.\<close>

record mg_backlog =
  bl_port :: u16
  bl_mss :: u16
  bl_age :: u8

definition backlog_insert :: "u16 \<Rightarrow> u16 \<Rightarrow> mg_backlog list \<Rightarrow> (nat \<times> mg_backlog list) option" where
  "backlog_insert port mss bl =
    (let i = length (takeWhile (\<lambda>b. bl_port b \<noteq> 0) bl) in
     if i < length bl then Some (i, bl[i := \<lparr>bl_port = port, bl_mss = mss, bl_age = 2\<rparr>]) else None)"

definition backlog_retrieve :: "nat \<Rightarrow> u16 \<Rightarrow> mg_backlog list \<Rightarrow> mg_backlog option" where
  "backlog_retrieve key port bl =
    (if key \<ge> length bl then None else if bl_port (bl ! key) \<noteq> port then None else Some (bl ! key))"

definition backlog_remove :: "nat \<Rightarrow> mg_backlog list \<Rightarrow> mg_backlog list" where
  "backlog_remove key bl = bl[key := (bl ! key)\<lparr>bl_port := 0\<rparr>]"

definition backlog_maintain :: "mg_backlog list \<Rightarrow> mg_backlog list" where
  "backlog_maintain bl = map (\<lambda>b.
     if bl_port b = 0 then b
     else (let b = (if bl_age b \<noteq> 0 then b\<lparr>bl_age := bl_age b - 1\<rparr> else b)
           in if bl_age b = 0 then b\<lparr>bl_port := 0\<rparr> else b)) bl"

text \<open>
  What a listener answers (rx_tcp): a segment with a sequence and an acknowledgement number, or a
  new connection with the counters of accept_conn. The argument way says whether the network gives
  a way back to the peer, mem whether there is memory for a connection.
\<close>

datatype lsn_reply = Lsn_silent | Lsn_send u8 u32 u32 | Lsn_accept connstate

definition ctrl_ack :: "segment \<Rightarrow> u32" where
  "ctrl_ack p = seg_seq p + word_of_nat (length (seg_pay p)) +
     (if seg_flags p AND (TH_SYN OR TH_FIN) \<noteq> 0 then 1 else 0)"

definition tx_tcp_rst :: "segment \<Rightarrow> bool \<Rightarrow> lsn_reply" where
  "tx_tcp_rst p toack =
     Lsn_send (if toack then TH_RST else TH_RST OR TH_ACK) (if toack then seg_ack p else 0) (ctrl_ack p)"

definition accept_conn :: "u64 \<Rightarrow> segment \<Rightarrow> u16 \<Rightarrow> connstate" where
  "accept_conn now p mss = settmout now MIP_TTYPE_KEEPALIVE
     \<lparr>s_seq = seg_ack p, s_ack = seg_seq p, s_timer = 0, s_acked = 0, s_unacked = 0, s_dmss = mss,
      s_ttype = MIP_TTYPE_KEEPALIVE, s_tmiss = 0, s_fin_rcvd = False, s_twclosure = False\<rparr>"

definition rx_listener :: "u64 \<Rightarrow> bool \<Rightarrow> bool \<Rightarrow> segment \<Rightarrow> mg_backlog list \<Rightarrow> (lsn_reply \<times> mg_backlog list) option" where
  "rx_listener now way mem p bl =
    (if seg_flags p = TH_SYN then
       (if seg_sport p = 0 then Some (Lsn_silent, bl)
        else do {
          (ok, mss) \<leftarrow> handle_opt p;
          if \<not> ok then Some (Lsn_silent, bl)
          else (case backlog_insert (seg_sport p) mss bl of
              None \<Rightarrow> Some (Lsn_silent, bl)
            | Some (key, bl) \<Rightarrow>
                (let isn = push_bit 16 (word_of_nat key) OR ucast (seg_sport p)
                 in Some (if way then (Lsn_send (TH_SYN OR TH_ACK) isn (ctrl_ack p), bl)
                   else (Lsn_silent, backlog_remove key bl))))
        })
     else if seg_flags p = TH_ACK then
       (let key = unat (drop_bit 16 (seg_ack p - 1) :: u32);
            b = (if ucast (seg_ack p - 1) = seg_sport p then backlog_retrieve key (seg_sport p) bl else None)
        in Some (case b of
            None \<Rightarrow> (if way then tx_tcp_rst p True else Lsn_silent, bl)
          | Some b \<Rightarrow> (if way \<and> mem then Lsn_accept (accept_conn now p (bl_mss b)) else Lsn_silent, backlog_remove key bl)))
     else if seg_flags p AND TH_RST \<noteq> 0 then Some (Lsn_silent, bl)
     else if seg_flags p AND TH_ACK \<noteq> 0 then Some (if way then tx_tcp_rst p True else Lsn_silent, bl)
     else if seg_flags p AND TH_SYN \<noteq> 0 then Some (if way then tx_tcp_rst p False else Lsn_silent, bl)
     else Some (Lsn_silent, bl))"

section \<open>What the application gets of a stream\<close>

text \<open>
  The specification of receiving: of the segments that arrive, those that begin where the data
  so far ends are accepted, in order, and all others are dropped.
\<close>

fun accepted :: "u32 \<Rightarrow> segment list \<Rightarrow> u8 list list" where
  "accepted a [] = []"
| "accepted a (p # ps) =
    (if seg_pay p \<noteq> [] \<and> seg_seq p = a then seg_pay p # accepted (a + word_of_nat (length (seg_pay p))) ps
     else accepted a ps)"

definition tcp_read :: "mg_net \<Rightarrow> 's tcp_fn \<Rightarrow> u8 list \<Rightarrow> mg_connection \<times> 's \<Rightarrow> (mg_connection \<times> 's) option" where
  "tcp_read net h pay ca = do {
     (ok, c) \<leftarrow> recv_append net pay (fst ca);
     if ok then h MG_EV_READ (c, snd ca) else Some (c, snd ca)
   }"

definition rx_seg :: "mg_net \<Rightarrow> 's tcp_fn \<Rightarrow> u64 \<times> segment \<Rightarrow> 's tcp \<Rightarrow> 's tcp option" where
  "rx_seg net h np t = rx_conn net (fst np) h (snd np) t"

lemma rx_seg_pair [simp]: "rx_seg net h (now, p) t = rx_conn net now h p t"
  by (simp add: rx_seg_def)

definition plain :: "segment \<Rightarrow> bool" where
  "plain p \<longleftrightarrow> seg_flags p AND TH_FIN = 0 \<and> seg_flags p AND TH_RST = 0"

lemma settmout_keeps [simp]:
  "s_ack (settmout now tt s) = s_ack s" "s_seq (settmout now tt s) = s_seq s" "s_dmss (settmout now tt s) = s_dmss s"
  "s_acked (settmout now tt s) = s_acked s" "s_fin_rcvd (settmout now tt s) = s_fin_rcvd s"
  by (simp_all add: settmout_def)

lemma tx_keeps [simp]:
  "t_conn (tx_tcp f q k b t) = t_conn t" "t_app (tx_tcp f q k b t) = t_app t" "t_st (tx_tcp f q k b t) = t_st t"
  "t_connecting (tx_tcp f q k b t) = t_connecting t"
  "t_conn (tx_ack t) = t_conn t" "t_app (tx_ack t) = t_app t" "t_st (tx_ack t) = t_st t"
  "t_connecting (tx_ack t) = t_connecting t"
  by (simp_all add: tx_tcp_def tx_ack_def)

lemma ack_data_keeps [simp]:
  "t_conn (ack_data now p t) = t_conn t" "t_app (ack_data now p t) = t_app t"
  "t_connecting (ack_data now p t) = t_connecting t"
  "s_ack (t_st (ack_data now p t)) = seg_seq p + word_of_nat (length (seg_pay p))"
  "s_dmss (t_st (ack_data now p t)) = s_dmss (t_st t)" "s_seq (t_st (ack_data now p t)) = s_seq (t_st t)"
  by (simp_all add: ack_data_def Let_def)

lemma recv_append_fits: "(\<And>n. avail net n) \<Longrightarrow> recv_append net pay c = Some (ok, d) \<Longrightarrow> ok"
  by (auto simp: recv_append_def mg_iobuf_resize_def Let_def bind_eq_Some_conv split: if_splits)

text \<open>The two cases of a segment without FIN and RST.\<close>

lemma rx_conn_accepts:
  assumes "plain p" "\<And>n. avail net n" "\<not> t_connecting t" "seg_pay p \<noteq> []" "seg_seq p = s_ack (t_st t)"
  shows "\<exists>v. rx_conn net now h p t = map_option (\<lambda>(c, a). v\<lparr>t_conn := c, t_app := a\<rparr>)
      (tcp_read net h (seg_pay p) (t_conn t, t_app t)) \<and>
    \<not> t_connecting v \<and> s_ack (t_st v) = s_ack (t_st t) + word_of_nat (length (seg_pay p)) \<and> s_dmss (t_st v) = s_dmss (t_st t)"
proof -
  let ?s = "(t_st t)\<lparr>s_tmiss := 0\<rparr>"
  let ?s' = "if s_ttype ?s = MIP_TTYPE_KEEPALIVE then settmout now MIP_TTYPE_KEEPALIVE ?s else ?s"
  let ?t = "t\<lparr>t_st := ?s'\<rparr>"
  have n: "length (seg_pay p) \<noteq> 0" using assms(4) by simp
  have "rx_conn net now h p t = read_conn net now h p ?t"
    using assms(1,3) by (simp add: rx_conn_def plain_def Let_def)
  also have "\<dots> = do { (ok, c) \<leftarrow> recv_append net (seg_pay p) (t_conn t);
      if ok then take_data now h p (?t\<lparr>t_conn := c\<rparr>) else Some (?t\<lparr>t_conn := c\<rparr>) }"
    using assms(1,5) n by (simp add: read_conn_def plain_def Let_def)
  finally have r: "rx_conn net now h p t = do { (ok, c) \<leftarrow> recv_append net (seg_pay p) (t_conn t);
      if ok then take_data now h p (?t\<lparr>t_conn := c\<rparr>) else Some (?t\<lparr>t_conn := c\<rparr>) }" .
  show ?thesis
  proof (cases "recv_append net (seg_pay p) (t_conn t)")
    case None
    then show ?thesis using assms(3,5) 
      by (intro exI[of _ "ack_data now p t"]) (simp add: r tcp_read_def)
  next
    case (Some okc)
    then obtain d where d: "recv_append net (seg_pay p) (t_conn t) = Some (True, d)"
      using recv_append_fits[OF assms(2)] by (cases okc) auto
    show ?thesis
      using assms(3,5) d
      by (intro exI[of _ "ack_data now p (?t\<lparr>t_conn := d\<rparr>)"])
        (auto simp: r tcp_read_def take_data_def tcp_call_def split: Option.bind_splits)
  qed
qed

lemma rx_conn_drops:
  assumes "plain p" "\<not> t_connecting t" "seg_pay p = [] \<or> seg_seq p \<noteq> s_ack (t_st t)"
  shows "\<exists>v. rx_conn net now h p t = Some v \<and> t_conn v = t_conn t \<and> t_app v = t_app t \<and>
    \<not> t_connecting v \<and> s_ack (t_st v) = s_ack (t_st t) \<and> s_dmss (t_st v) = s_dmss (t_st t)"
  using assms by (simp add: rx_conn_def read_conn_def plain_def Let_def) auto

lemma rx_segs:
  assumes "list_all (\<lambda>np. plain (snd np)) segs" "\<And>n. avail net n" "\<not> t_connecting t"
  shows "map_option (\<lambda>u. (t_conn u, t_app u)) (for_each segs (rx_seg net h) t) =
    for_each (accepted (s_ack (t_st t)) (map snd segs)) (tcp_read net h) (t_conn t, t_app t)"
  using assms(1,3)
proof (induction segs arbitrary: t)
  case (Cons np segs)
  obtain now p where np: "np = (now, p)" by force
  show ?case
  proof (cases "seg_pay p \<noteq> [] \<and> seg_seq p = s_ack (t_st t)")
    case True
    with Cons.prems rx_conn_accepts[of p net t now h] assms(2) obtain v where v:
      "rx_conn net now h p t = map_option (\<lambda>(c, a). v\<lparr>t_conn := c, t_app := a\<rparr>)
        (tcp_read net h (seg_pay p) (t_conn t, t_app t))"
      "\<not> t_connecting v" "s_ack (t_st v) = s_ack (t_st t) + word_of_nat (length (seg_pay p))" by (auto simp: np)
    show ?thesis
    proof (cases "tcp_read net h (seg_pay p) (t_conn t, t_app t)")
      case None
      then show ?thesis using True v by (simp add: np)
    next
      case (Some ca)
      then show ?thesis using True v Cons.IH[of "v\<lparr>t_conn := fst ca, t_app := snd ca\<rparr>"] Cons.prems
        by (simp add: np case_prod_beta)
    qed
  next
    case False
    with Cons.prems rx_conn_drops[of p t net now h] obtain v where
      "rx_conn net now h p t = Some v" "t_conn v = t_conn t" "t_app v = t_app t"
      "\<not> t_connecting v" "s_ack (t_st v) = s_ack (t_st t)" by (auto simp: np)
    then show ?thesis using False Cons.IH[of v] Cons.prems by (auto simp: np)
  qed
qed simp

text \<open>The number the connection waits for moves by what was accepted.\<close>

lemma rx_segs_ack:
  assumes "list_all (\<lambda>np. plain (snd np)) segs" "\<And>n. avail net n" "\<not> t_connecting t"
    and "for_each segs (rx_seg net h) t = Some u"
  shows "s_ack (t_st u) = s_ack (t_st t) + word_of_nat (length (concat (accepted (s_ack (t_st t)) (map snd segs)))) \<and>
    s_dmss (t_st u) = s_dmss (t_st t) \<and> \<not> t_connecting u"
  using assms(1,3,4)
proof (induction segs arbitrary: t)
  case (Cons np segs)
  obtain now p where np: "np = (now, p)" by force
  show ?case
  proof (cases "seg_pay p \<noteq> [] \<and> seg_seq p = s_ack (t_st t)")
    case True
    with Cons.prems rx_conn_accepts[of p net t now h] assms(2) obtain v where v:
      "rx_conn net now h p t = map_option (\<lambda>(c, a). v\<lparr>t_conn := c, t_app := a\<rparr>)
        (tcp_read net h (seg_pay p) (t_conn t, t_app t))"
      "\<not> t_connecting v" "s_ack (t_st v) = s_ack (t_st t) + word_of_nat (length (seg_pay p))"
      "s_dmss (t_st v) = s_dmss (t_st t)" by (auto simp: np)
    with Cons.prems obtain c a where "for_each segs (rx_seg net h) (v\<lparr>t_conn := c, t_app := a\<rparr>) = Some u"
      by (auto simp: np bind_eq_Some_conv)
    from Cons.IH[OF _ _ this] Cons.prems(1) v(2-4) True show ?thesis by (simp add: np algebra_simps)
  next
    case False
    with Cons.prems rx_conn_drops[of p t net now h] obtain v where
      "rx_conn net now h p t = Some v" "\<not> t_connecting v" "s_ack (t_st v) = s_ack (t_st t)"
      "s_dmss (t_st v) = s_dmss (t_st t)" by (auto simp: np)
    then show ?thesis using False Cons.IH[of v] Cons.prems by (auto simp: np)
  qed
qed simp

text \<open>A segment of a stream of bytes: some of its bytes, under the number of the first one.\<close>

definition slice_of :: "u8 list \<Rightarrow> u32 \<Rightarrow> segment \<Rightarrow> bool" where
  "slice_of bs isn p \<longleftrightarrow> (\<exists>k n. seg_pay p = take n (drop k bs) \<and> k + n \<le> length bs \<and> seg_seq p = isn + word_of_nat k)"

lemma word_of_nat_inj32: "a < 2 ^ 32 \<Longrightarrow> b < 2 ^ 32 \<Longrightarrow> (word_of_nat a :: u32) = word_of_nat b \<longleftrightarrow> a = b"
  by (auto dest!: arg_cong[where f = unat] simp: unsigned_of_nat take_bit_nat_eq_self)

lemma accepted_slice:
  assumes "list_all (slice_of bs isn) ps" "length bs < 2 ^ 32" "m \<le> length bs"
  shows "\<exists>m'. m \<le> m' \<and> m' \<le> length bs \<and> concat (accepted (isn + word_of_nat m) ps) = take (m' - m) (drop m bs)"
  using assms(1,3)
proof (induction ps arbitrary: m)
  case Nil
  then show ?case by (intro exI[of _ m]) simp
next
  case (Cons p ps)
  show ?case
  proof (cases "seg_pay p \<noteq> [] \<and> seg_seq p = isn + word_of_nat m")
    case True
    obtain k n where kn: "seg_pay p = take n (drop k bs)" "k + n \<le> length bs" "seg_seq p = isn + word_of_nat k"
      using Cons.prems(1) by (auto simp: slice_of_def)
    have "k = m" using True kn assms(2) Cons.prems(2) word_of_nat_inj32[of k m] by simp
    then have p: "seg_pay p = take n (drop m bs)" "length (seg_pay p) = n" "m + n \<le> length bs" using kn by simp_all
    from Cons.IH[of "m + n"] Cons.prems(1) p(3) obtain m' where m': "m + n \<le> m'" "m' \<le> length bs"
      "concat (accepted (isn + word_of_nat (m + n)) ps) = take (m' - (m + n)) (drop (m + n) bs)" by auto
    have "take n (drop m bs) @ take (m' - (m + n)) (drop (m + n) bs) = take (m' - m) (drop m bs)"
      using m'(1) take_add[of n "m' - (m + n)" "drop m bs"] by (simp add: add.commute)
    then show ?thesis using True m' p by (intro exI[of _ m']) (simp add: algebra_simps)
  next
    case False
    then show ?thesis using Cons by auto
  qed
qed

section \<open>What the peer gets\<close>

text \<open>Segments that carry consecutive bytes, from the number a on.\<close>

fun consecutive :: "u32 \<Rightarrow> segment list \<Rightarrow> bool" where
  "consecutive a [] = True"
| "consecutive a (p # ps) = (seg_seq p = a \<and> consecutive (a + word_of_nat (length (seg_pay p))) ps)"

definition sane_ifp :: "mg_ifp \<Rightarrow> bool" where
  "sane_ifp ifp \<longleftrightarrow> 84 < if_mtu ifp \<and> if_mtu ifp \<le> if_framesize ifp \<and> if_framesize ifp \<le> if_txlen ifp \<and> if_txlen ifp < 2 ^ 16"

lemma size_diff_le: "b \<le> a \<Longrightarrow> a < 2 ^ 32 \<Longrightarrow> size_diff a b = a - b"
  by (simp add: size_diff_def of_nat_diff [symmetric] del: of_nat_diff)

lemma trim_len_tcp:
  assumes "sane_ifp ifp" "len < 2 ^ 31"
  shows "trim_len False ifp len = (min len (if_mtu ifp - 84), ifp)"
proof -
  obtain m f x ov where i: "if_mtu ifp = m" "if_framesize ifp = f" "if_txlen ifp = x" and ov: "ov = f - m" by blast
  have b: "84 < m" "m \<le> f" "f \<le> x" "x < 65536" using assms(1) by (simp_all add: sane_ifp_def i)
  have d: "size_diff f m = ov" "size_diff m 84 = m - 84" "size_diff x (84 + ov) = x - (84 + ov)"
    using b by (simp_all add: size_diff_le ov)
  let ?y = "if len + 84 + ov > x then x - (84 + ov) else len"
  have s: "size_t (len + 84 + ov) = len + 84 + ov" "size_t (?y + 84) = ?y + 84"
    using b assms(2) by (simp_all add: size_t_def ov)
  have "(if ?y + 84 > m then m - 84 else ?y) = min len (m - 84)" using b by (auto simp: ov min_def)
  moreover have "trim_len False ifp len = (if ?y + 84 > m then m - 84 else ?y, ifp)"
  proof -
    have h: "24 + 60 = (84 :: nat)" "\<not> m < 84" using b(1) by simp_all
    show ?thesis by (simp only: trim_len_def Let_def i d s h if_False)
  qed
  ultimately show ?thesis by (simp add: i)
qed

definition poll_write :: "tx_result \<Rightarrow> 's tcp_fn \<Rightarrow> u64 \<Rightarrow> mg_ifp \<times> 's tcp \<Rightarrow> (mg_ifp \<times> 's tcp) option" where
  "poll_write r h now it = (if can_write (snd it) then write_conn now r h it else Some it)"

lemma write_step:
  assumes "sane_ifp ifp" "s_dmss (t_st t) \<noteq> 0" "can_write t" "io_ok (c_send (t_conn t))" "io_len (c_send (t_conn t)) < 2 ^ 31"
    and "\<And>ca. h Other_net_event ca = Some ca"
  shows "\<exists>u p. poll_write Tx_sent h now (ifp, t) = Some (ifp, u) \<and> t_out u = t_out t @ [p] \<and>
    seg_seq p = s_seq (t_st t) \<and> s_seq (t_st u) = s_seq (t_st t) + word_of_nat (length (seg_pay p)) \<and>
    s_dmss (t_st u) = s_dmss (t_st t) \<and> t_connecting u = t_connecting t \<and> io_ok (c_send (t_conn u)) \<and>
    seg_pay p @ io_data (c_send (t_conn u)) = io_data (c_send (t_conn t)) \<and> seg_pay p \<noteq> [] \<and>
    length (seg_pay p) \<le> if_mtu ifp - 84 \<and> length (seg_pay p) \<le> unat (s_dmss (t_st t)) \<and> t_app u = t_app t"
proof -
  let ?io = "c_send (t_conn t)" and ?s = "t_st t"
  define n where "n = min (min (io_len ?io) (if_mtu ifp - 84)) (unat (s_dmss ?s))"
  have cut: "(if min (io_len ?io) (if_mtu ifp - 84) > unat (s_dmss ?s) then unat (s_dmss ?s)
    else min (io_len ?io) (if_mtu ifp - 84)) = n" by (auto simp: min_def n_def)
  have "unat (s_dmss ?s) > 0" using assms(2) by (simp add: unat_gt_0)
  then have pos: "n > 0" using assms(1,3) by (simp add: n_def sane_ifp_def can_write_def)
  have le: "n \<le> io_len ?io" "n \<le> if_mtu ifp - 84" "n \<le> unat (s_dmss ?s)" by (simp_all add: n_def)
  define p where "p = \<lparr>seg_sport = 0, seg_seq = s_seq ?s, seg_ack = s_ack ?s, seg_flags = TH_PUSH OR TH_ACK, seg_opts = [],
    seg_pay = take n (io_data ?io)\<rparr>"
  define s0 where "s0 = ?s\<lparr>s_seq := s_seq ?s + word_of_nat n\<rparr>"
  define s where "s = (if s_ttype s0 = MIP_TTYPE_ACK then settmout now MIP_TTYPE_KEEPALIVE s0 else s0)"
  have s: "s_seq s = s_seq ?s + word_of_nat n" "s_dmss s = s_dmss ?s" by (simp_all add: s_def s0_def)
  have send: "mg_io_send now Tx_sent (io_data ?io) (ifp, t) = (int n, ifp, t\<lparr>t_out := t_out t @ [p], t_st := s\<rparr>)"
    using trim_len_tcp[OF assms(1,5)] assms(4)
    by (simp only: mg_io_send_def Let_def case_prod_conv length_io_data cut tx_tcp_def tx_result.case s_def s0_def p_def)
  from mg_iobuf_del_inside[OF assms(4), of 0 n] le obtain io where io:
    "mg_iobuf_del 0 n ?io = Some (n, io)" "io_ok io" "io_data io = drop n (io_data ?io)" by auto
  have ne: "int n \<noteq> MG_IO_ERR" by (simp add: MG_IO_ERR_def)
  define u where "u = t\<lparr>t_out := t_out t @ [p], t_st := s, t_conn := (t_conn t)\<lparr>c_send := io\<rparr>\<rparr>"
  have "poll_write Tx_sent h now (ifp, t) = Some (ifp, u)"
    using assms(3) pos io(1) ne assms(6)
    by (simp add: poll_write_def write_conn_def send Let_def tcp_call_def u_def)
  moreover have pay: "seg_pay p = take n (io_data ?io)" "length (seg_pay p) = n" "seg_seq p = s_seq ?s"
    using assms(4) le(1) by (simp_all add: p_def)
  moreover have "seg_pay p \<noteq> []" using pay(2) pos by auto
  moreover have "t_out u = t_out t @ [p]" "t_st u = s" "t_conn u = (t_conn t)\<lparr>c_send := io\<rparr>" "t_connecting u = t_connecting t"
    "t_app u = t_app t" by (simp_all add: u_def)
  ultimately show ?thesis using s io le by (intro exI[of _ u] exI[of _ p]) simp
qed

lemma sends_all:
  assumes "sane_ifp ifp" "\<And>ca. h Other_net_event ca = Some ca"
    and "s_dmss (t_st t) \<noteq> 0" "\<not> t_connecting t" "io_ok (c_send (t_conn t))" "io_len (c_send (t_conn t)) < 2 ^ 31"
  shows "\<exists>u segs. for_each nows (poll_write Tx_sent h) (ifp, t) = Some (ifp, u) \<and> t_out u = t_out t @ segs \<and>
    consecutive (s_seq (t_st t)) segs \<and> concat (map seg_pay segs) @ io_data (c_send (t_conn u)) = io_data (c_send (t_conn t)) \<and>
    io_len (c_send (t_conn u)) \<le> io_len (c_send (t_conn t)) - length nows \<and>
    list_all (\<lambda>p. 0 < length (seg_pay p) \<and> length (seg_pay p) \<le> if_mtu ifp - 84 \<and>
      length (seg_pay p) \<le> unat (s_dmss (t_st t))) segs \<and> t_app u = t_app t"
  using assms(3-6)
proof (induction nows arbitrary: t)
  case Nil
  then show ?case by (intro exI[of _ t] exI[of _ "[]"]) simp
next
  case (Cons now nows)
  show ?case
  proof (cases "can_write t")
    case False
    then have e: "poll_write Tx_sent h now (ifp, t) = Some (ifp, t)" "io_len (c_send (t_conn t)) = 0"
      using Cons.prems by (simp_all add: poll_write_def can_write_def)
    from Cons.IH[of t] Cons.prems e show ?thesis by simp
  next
    case True
    from write_step[where h = h and now = now, OF assms(1) Cons.prems(1) True Cons.prems(3,4) assms(2)] obtain v p where
      v: "poll_write Tx_sent h now (ifp, t) = Some (ifp, v)" "t_out v = t_out t @ [p]"
      "seg_seq p = s_seq (t_st t)" "s_seq (t_st v) = s_seq (t_st t) + word_of_nat (length (seg_pay p))"
      "s_dmss (t_st v) = s_dmss (t_st t)" "t_connecting v = t_connecting t" "io_ok (c_send (t_conn v))"
      "seg_pay p @ io_data (c_send (t_conn v)) = io_data (c_send (t_conn t))" "seg_pay p \<noteq> []"
      "length (seg_pay p) \<le> if_mtu ifp - 84" "length (seg_pay p) \<le> unat (s_dmss (t_st t))" "t_app v = t_app t" by blast
    have l: "io_len (c_send (t_conn t)) = length (seg_pay p) + io_len (c_send (t_conn v))"
      using arg_cong[OF v(8), of length] v(7) Cons.prems(3) by simp
    with Cons.IH[of v] Cons.prems v(5,6,7) obtain u segs where u:
      "for_each nows (poll_write Tx_sent h) (ifp, v) = Some (ifp, u)" "t_out u = t_out v @ segs"
      "consecutive (s_seq (t_st v)) segs" "concat (map seg_pay segs) @ io_data (c_send (t_conn u)) = io_data (c_send (t_conn v))"
      "io_len (c_send (t_conn u)) \<le> io_len (c_send (t_conn v)) - length nows"
      "list_all (\<lambda>p. 0 < length (seg_pay p) \<and> length (seg_pay p) \<le> if_mtu ifp - 84 \<and>
        length (seg_pay p) \<le> unat (s_dmss (t_st v))) segs" "t_app u = t_app v" by auto
    have "0 < length (seg_pay p)" using v(9) by simp
    then have "io_len (c_send (t_conn u)) \<le> io_len (c_send (t_conn t)) - length (now # nows)"
      using u(5) l by (simp only: list.size)
    then show ?thesis
      using u v by (intro exI[of _ u] exI[of _ "p # segs"]) simp
  qed
qed

section \<open>Segments that go wrong\<close>

lemma mss_zero_rounds:
  assumes "s_dmss (t_st t) = 0" "list_all (\<lambda>x. snd x \<noteq> Tx_err) rounds"
  shows "\<exists>ifp' u segs. for_each rounds (\<lambda>x. poll_write (snd x) h (fst x)) (ifp, t) = Some (ifp', u) \<and>
    t_conn u = t_conn t \<and> t_app u = t_app t \<and> t_out u = t_out t @ segs \<and> list_all (\<lambda>p. seg_pay p = []) segs"
  using assms
proof (induction rounds arbitrary: ifp t)
  case Nil
  then show ?case by (intro exI[of _ ifp] exI[of _ t]) simp
next
  case (Cons x rounds)
  have "\<exists>ifp' v segs. poll_write (snd x) h (fst x) (ifp, t) = Some (ifp', v) \<and> t_conn v = t_conn t \<and> t_app v = t_app t \<and>
    s_dmss (t_st v) = 0 \<and> t_out v = t_out t @ segs \<and> list_all (\<lambda>p. seg_pay p = []) segs"
  proof (cases "can_write t")
    case False
    then show ?thesis using Cons.prems(1) by (simp add: poll_write_def)
  next
    case True
    obtain n ifp1 where n: "trim_len False ifp (length (io_data (c_send (t_conn t)))) = (n, ifp1)" by force
    show ?thesis
    proof (cases "snd x")
      case Tx_wait
      with True n Cons.prems(1) show ?thesis
        by (simp add: poll_write_def write_conn_def mg_io_send_def Let_def MG_IO_WAIT_def MG_IO_ERR_def)
    next
      case Tx_err
      with Cons.prems(2) show ?thesis by simp
    next
      case Tx_sent
      have "(if n > unat (s_dmss (t_st t)) then unat (s_dmss (t_st t)) else n) = 0" using Cons.prems(1) by simp
      with True n Tx_sent Cons.prems(1) show ?thesis
        by (auto simp: poll_write_def write_conn_def mg_io_send_def Let_def MG_IO_ERR_def tx_tcp_def)
    qed
  qed
  then obtain ifp' v segs where v: "poll_write (snd x) h (fst x) (ifp, t) = Some (ifp', v)" "t_conn v = t_conn t"
    "t_app v = t_app t" "s_dmss (t_st v) = 0" "t_out v = t_out t @ segs" "list_all (\<lambda>p. seg_pay p = []) segs" by blast
  from Cons.IH[OF v(4), of ifp'] Cons.prems(2) obtain ifp'' u segs' where
    "for_each rounds (\<lambda>x. poll_write (snd x) h (fst x)) (ifp', v) = Some (ifp'', u)" "t_conn u = t_conn v"
    "t_app u = t_app v" "t_out u = t_out v @ segs'" "list_all (\<lambda>p. seg_pay p = []) segs'" by auto
  then show ?case using v by (intro exI[of _ ifp''] exI[of _ u] exI[of _ "segs @ segs'"]) simp
qed

text \<open>
  C38: An answer to the SYN whose option announces a maximum segment size of 0 connects, and from
  then on nothing of the send buffer is ever sent: each round hands the driver a segment without
  data, however many rounds there are.
\<close>

theorem mss_zero_stalls:
  assumes "t_connecting t" "seg_flags p = TH_SYN OR TH_ACK" "seg_opts p = [2, 4, 0, 0]"
    and "\<And>ca. h Other_net_event ca = Some ca" "list_all (\<lambda>x. snd x \<noteq> Tx_err) rounds"
  shows "\<exists>u ifp' v segs. rx_conn net now h p t = Some u \<and> \<not> t_connecting u \<and>
    for_each rounds (\<lambda>x. poll_write (snd x) h (fst x)) (ifp, u) = Some (ifp', v) \<and>
    c_send (t_conn v) = c_send (t_conn t) \<and> t_out v = t_out u @ segs \<and> list_all (\<lambda>p. seg_pay p = []) segs"
proof -
  have "handle_opt p = Some (True, 0)"
    using assms(3) by (simp add: handle_opt_def opts_from.simps)
  then obtain u where u: "rx_conn net now h p t = Some u" "\<not> t_connecting u" "s_dmss (t_st u) = 0" "t_conn u = t_conn t"
    using assms(1,2,4) by (simp add: rx_conn_def Let_def tcp_call_def)
  from mss_zero_rounds[where h = h and ifp = ifp, OF u(3) assms(5)] u show ?thesis
    by (intro exI[of _ u]) auto
qed

definition tcp_closed :: "'s \<Rightarrow> 's tcp" where
  "tcp_closed a = \<lparr>t_st = \<lparr>s_seq = 0, s_ack = 0, s_timer = 0, s_acked = 0, s_unacked = 0, s_dmss = 0,
      s_ttype = MIP_TTYPE_KEEPALIVE, s_tmiss = 0, s_fin_rcvd = False, s_twclosure = False\<rparr>,
     t_connecting = True,
     t_conn = \<lparr>c_recv = \<lparr>io_buf = [], io_len = 0, io_align = 0\<rparr>, c_send = \<lparr>io_buf = [71, 69, 84], io_len = 3, io_align = 0\<rparr>,
       pfn_data = 0, pfn_null = False, is_client = True, is_accepted = False, is_websocket = False, is_draining = False,
       is_closing = False, is_resp = False, rnd_pos = 0, c_events = []\<rparr>,
     t_app = a, t_out = []\<rparr>"

theorem mss_zero_stalls_witness:
  "\<exists>u ifp' v segs. rx_conn \<lparr>net_up = True, avail = (\<lambda>n. True), rand_32 = (\<lambda>n. 0)\<rparr> 0 (\<lambda>ev ca. Some ca)
      \<lparr>seg_sport = 80, seg_seq = 1000, seg_ack = 1, seg_flags = TH_SYN OR TH_ACK, seg_opts = [2, 4, 0, 0], seg_pay = []\<rparr>
      (tcp_closed ()) = Some u \<and> \<not> t_connecting u \<and>
    for_each [(1, Tx_sent), (2, Tx_wait), (3, Tx_sent)] (\<lambda>x. poll_write (snd x) (\<lambda>ev ca. Some ca) (fst x))
      (\<lparr>if_mtu = 1500, if_framesize = 1540, if_txlen = 1540\<rparr>, u) = Some (ifp', v) \<and>
    c_send (t_conn v) = c_send (t_conn (tcp_closed ())) \<and> t_out v = t_out u @ segs \<and> list_all (\<lambda>p. seg_pay p = []) segs"
  by (rule mss_zero_stalls) (simp_all add: tcp_closed_def)

text \<open>
  The window test for a reset adds the window to the number expected next without care for the
  end of the numbers: within 6000 of it no reset is accepted, also not one with the very number
  the connection expects.
\<close>

theorem rst_ignored:
  assumes "2 ^ 32 - 6000 \<le> unat (s_ack (t_st t))" "seg_flags p AND TH_RST \<noteq> 0" "\<not> t_connecting t"
  shows "rx_conn net now h p t = Some t"
proof -
  let ?a = "s_ack (t_st t)"
  have "unat (?a + 6000) = unat ?a + 6000 - 2 ^ 32"
  proof -
    have l: "unat ?a < 2 ^ 32" using unsigned_less[of ?a, where ?'a = nat] by simp
    have "unat (?a + 6000) = (unat ?a + 6000) mod 2 ^ 32" by (simp add: unat_word_ariths)
    also have "\<dots> = unat ?a + 6000 - 2 ^ 32"
      using assms(1) l by (simp add: mod_if)
    finally show ?thesis .
  qed
  moreover have "unat ?a < 2 ^ 32" using unsigned_less[of ?a, where ?'a = nat] by simp
  ultimately have "unat (?a + 6000) < unat ?a" using assms(1) by simp
  then have "\<not> (?a \<le> seg_seq p \<and> seg_seq p < ?a + word_of_nat MG_TCPIP_WIN)"
    by (simp add: MG_TCPIP_WIN_def word_le_nat_alt word_less_nat_alt)
  then show ?thesis using assms(2,3) by (auto simp: rx_conn_def Let_def)
qed

theorem rst_ignored_witness:
  "rx_conn \<lparr>net_up = True, avail = (\<lambda>n. True), rand_32 = (\<lambda>n. 0)\<rparr> 0 (\<lambda>ev ca. Some ca)
      \<lparr>seg_sport = 80, seg_seq = 4294967290, seg_ack = 1, seg_flags = TH_RST, seg_opts = [], seg_pay = []\<rparr>
      ((tcp_closed ())\<lparr>t_connecting := False, t_st := (t_st (tcp_closed ()))\<lparr>s_ack := 4294967290\<rparr>\<rparr>) =
    Some ((tcp_closed ())\<lparr>t_connecting := False, t_st := (t_st (tcp_closed ()))\<lparr>s_ack := 4294967290\<rparr>\<rparr>)"
  by (rule rst_ignored) (simp_all add: tcp_closed_def th_flags)

lemma fin_read_conn:
  assumes "seg_flags p AND TH_FIN \<noteq> 0" "seg_flags p AND TH_RST = 0" "\<not> t_connecting t"
    and "seg_seq p = s_ack (t_st t)" "seg_pay p \<noteq> []"
  shows "\<exists>v c. rx_conn net now h p t = do { d \<leftarrow> recv_copy (seg_pay p) c; take_data now h p (v\<lparr>t_conn := d\<rparr>) } \<and>
    c_recv c = c_recv (t_conn t)"
proof -
  let ?s = "(t_st t)\<lparr>s_tmiss := 0\<rparr>"
  let ?s' = "if s_ttype ?s = MIP_TTYPE_KEEPALIVE then settmout now MIP_TTYPE_KEEPALIVE ?s else ?s"
  let ?t = "t\<lparr>t_st := ?s'\<rparr>"
  obtain f u where u: "fin_state now p ?t = (f, u)" by force
  then have c: "c_recv (t_conn u) = c_recv (t_conn t)" by (auto simp: fin_state_def Let_def split: if_splits)
  have n: "length (seg_pay p) \<noteq> 0" "s_ack ?s' = s_ack (t_st t)" using assms(5) by simp_all
  have "rx_conn net now h p t = read_conn net now h p ?t"
    using assms(2,3) by (simp add: rx_conn_def Let_def)
  also have "\<dots> = (let v = tx_tcp f (s_seq (t_st u)) (s_ack (t_st u)) [] u in
      do { d \<leftarrow> recv_copy (seg_pay p) (t_conn v); take_data now h p (v\<lparr>t_conn := d\<rparr>) })"
    using assms(1,4) n u by (simp add: read_conn_def Let_def)
  finally show ?thesis using c by (auto simp: Let_def)
qed



section \<open>The handshake of a listener\<close>

text \<open>A SYN that finds room is answered under a number that names its entry of the backlog.\<close>

lemma key_number:
  assumes "key < 2 ^ 16"
  shows "unat (drop_bit 16 (push_bit 16 (word_of_nat key) OR ucast port :: u32)) = key"
    "ucast (push_bit 16 (word_of_nat key) OR ucast port :: u32) = (port :: u16)"
proof -
  have d: "drop_bit 16 (push_bit 16 (word_of_nat key) OR ucast port :: u32) = (word_of_nat key :: u32)"
  proof (rule bit_word_eqI)
    fix n assume n: "n < LENGTH(32)"
    have "m < 16" if "bit key m" for m
      using assms that by (metis bit_take_bit_iff take_bit_nat_eq_self)
    moreover have "\<not> bit port (16 + n)" using bit_imp_le_length[of port "16 + n"] by auto
    ultimately show "bit (drop_bit 16 (push_bit 16 (word_of_nat key) OR ucast port :: u32)) n = bit (word_of_nat key :: u32) n"
      using n by (auto simp: bit_simps)
  qed
  have "key < 2 ^ LENGTH(32)" using assms by simp
  then show "unat (drop_bit 16 (push_bit 16 (word_of_nat key) OR ucast port :: u32)) = key"
    unfolding d by (simp add: unsigned_of_nat take_bit_nat_eq_self)
  show "ucast (push_bit 16 (word_of_nat key) OR ucast port :: u32) = (port :: u16)"
    by (rule bit_word_eqI) (auto simp: bit_simps)
qed

lemma backlog_insert_at:
  assumes "backlog_insert port mss bl = Some (i, bl')"
  shows "i < length bl" "bl_port (bl ! i) = 0" "bl' = bl[i := \<lparr>bl_port = port, bl_mss = mss, bl_age = 2\<rparr>]"
proof -
  let ?i = "length (takeWhile (\<lambda>b. bl_port b \<noteq> 0) bl)"
  have i: "?i < length bl" "i = ?i" "bl' = bl[i := \<lparr>bl_port = port, bl_mss = mss, bl_age = 2\<rparr>]"
    using assms by (auto simp: backlog_insert_def Let_def split: if_splits)
  with nth_length_takeWhile[OF i(1)] show "i < length bl" "bl_port (bl ! i) = 0"
    "bl' = bl[i := \<lparr>bl_port = port, bl_mss = mss, bl_age = 2\<rparr>]" by simp_all
qed

text \<open>Other SYNs, and one pass of backlog_maintain, leave an entry's port and size.\<close>

lemma syns_keep_entry:
  assumes "list_all (\<lambda>q. seg_flags q = TH_SYN) qs"
    and "for_each qs (\<lambda>q bl. map_option snd (rx_listener now way mem q bl)) bl = Some bl'"
    and "key < length bl" "bl ! key = b" "bl_port b \<noteq> 0"
  shows "key < length bl' \<and> bl' ! key = b"
  using assms
proof (induction qs arbitrary: bl)
  case (Cons q qs)
  from Cons.prems obtain r bl1 where r: "rx_listener now way mem q bl = Some (r, bl1)"
    "for_each qs (\<lambda>q bl. map_option snd (rx_listener now way mem q bl)) bl1 = Some bl'" "seg_flags q = TH_SYN"
    by (auto simp: bind_eq_Some_conv)
  have "key < length bl1 \<and> bl1 ! key = b"
  proof (cases "bl1 = bl")
    case False
    with r(1,3) obtain mss i bl3 where i: "backlog_insert (seg_sport q) mss bl = Some (i, bl3)"
      "bl1 = bl3 \<or> bl1 = backlog_remove i bl3"
      by (auto simp: rx_listener_def Let_def bind_eq_Some_conv split: if_splits option.splits)
    with backlog_insert_at[OF i(1)] Cons.prems(3-5) show ?thesis by (cases "key = i") (auto simp: backlog_remove_def)
  qed (use Cons.prems in simp)
  with Cons.IH[OF _ r(2)] Cons.prems(1,5) show ?case by simp
qed simp



end
