(* ===== verification/Portal_Net.thy ===== *)
theory Portal_Net
  imports Portal_Link Mongoose_Tcp
begin

text \<open>
  The Pico's portal on TCP connections of the network stack: from the segments that arrive, in any
  order and any number of times, to the state of the portal, and from its replies to the segments
  that leave.
\<close>

abbreviation portal_tcp_fn :: "mg_net \<Rightarrow> pico tcp_fn" where
  "portal_tcp_fn net ev \<equiv> http_cb net ev (portal_fn net)"

lemma http_read_tcp: "http_read net (portal_fn net) = tcp_read net (portal_tcp_fn net)"
  by (intro ext) (simp add: http_read_def tcp_read_def)

lemma http_cb_other: "http_cb net Other_net_event fn ca = Some ca"
  by (simp add: http_cb_def)


text \<open>A connection that waits for number 5, and a request in two segments that come late and again.\<close>

definition part_seg :: "nat \<Rightarrow> nat \<Rightarrow> segment" where
  "part_seg k n = \<lparr>seg_sport = 50000, seg_seq = 5 + word_of_nat k, seg_ack = 1, seg_flags = TH_PUSH OR TH_ACK, seg_opts = [],
     seg_pay = take n (drop k (char_bytes (request_text form_request)))\<rparr>"

definition portal_tcp :: "pico tcp" where
  "portal_tcp = \<lparr>t_st = (t_st (tcp_closed ()))\<lparr>s_seq := 1, s_ack := 5, s_dmss := 1460\<rparr>, t_connecting = False, t_conn = portal_conn,
     t_app = pico_zero, t_out = []\<rparr>"

lemma part_seg_plain: "plain (part_seg k n)"
  by (simp add: plain_def part_seg_def th_flags)

lemma part_seg_slice: "k + n \<le> 37 \<Longrightarrow> slice_of (char_bytes (request_text form_request)) 5 (part_seg k n)"
  unfolding slice_of_def by (intro exI[of _ k] exI[of _ n]) (simp add: part_seg_def request_sizes)


end
