(* ===== verification/Mongoose_Ip.thy ===== *)
theory Mongoose_Ip
  imports Mongoose_Tcp
begin

text \<open>
  Frames of the built-in network stack (src/net_builtin.c and src/l2_eth.c in
  firmware/pico/lib/mongoose/mongoose.c): the Ethernet and IPv4 headers, checksums, the frames tx_tcp,
  rx_arp and rx_icmp write, and the way of a received frame to ARP, ICMP, UDP or TCP. Addresses
  and ports are numbers in host order; a read outside a packet has no result. The interface does
  not check the CRC of frames, which the firmware never asks for.
\<close>

section \<open>Numbers in network order\<close>

definition put16 :: "u16 \<Rightarrow> u8 list" where
  "put16 w = [ucast (drop_bit 8 w), ucast w]"

definition put32 :: "u32 \<Rightarrow> u8 list" where
  "put32 w = put16 (ucast (drop_bit 16 w)) @ put16 (ucast w)"

fun get16 :: "u8 list \<Rightarrow> u16" where
  "get16 (a # b # bs) = push_bit 8 (ucast a) OR ucast b"
| "get16 bs = 0"

definition get32 :: "u8 list \<Rightarrow> u32" where
  "get32 bs = push_bit 16 (ucast (get16 bs)) OR ucast (get16 (drop 2 bs))"

text \<open>The n bytes at offset i of a packet, as a number.\<close>

definition rd8 :: "u8 list \<Rightarrow> nat \<Rightarrow> u8 option" where
  "rd8 bs i = arr_get bs (int i)"

definition rd16 :: "u8 list \<Rightarrow> nat \<Rightarrow> u16 option" where
  "rd16 bs i = do { b \<leftarrow> arr_slice bs (int i) 2; Some (get16 b) }"

definition rd32 :: "u8 list \<Rightarrow> nat \<Rightarrow> u32 option" where
  "rd32 bs i = do { b \<leftarrow> arr_slice bs (int i) 4; Some (get32 b) }"

section \<open>Checksums\<close>

text \<open>csumup: the sum of the 16-bit numbers of the bytes, an odd last one in the upper half.\<close>

fun csumup :: "u32 \<Rightarrow> u8 list \<Rightarrow> u32" where
  "csumup s [] = s"
| "csumup s [a] = s + push_bit 8 (ucast a)"
| "csumup s (a # b # bs) = csumup (s + push_bit 8 (ucast a) + ucast b) bs"

lemma fold_step: "unat ((s AND 0xFFFF) + drop_bit 16 s :: u32) = unat s mod 65536 + unat s div 65536"
proof -
  have l: "unat s < 4294967296" using unsigned_less[of s, where ?'a = nat] by simp
  have "(0xFFFF :: u32) = mask 16" by (simp add: mask_eq_exp_minus_1)
  then have "s AND 0xFFFF = take_bit 16 s" by (simp add: take_bit_eq_mask)
  then have "unat (s AND 0xFFFF) = unat s mod 65536" by (simp add: unsigned_take_bit_eq take_bit_eq_mod unat_mod_distrib)
  moreover have "unat (drop_bit 16 s) = unat s div 65536" by (simp add: unat_drop_bit_eq drop_bit_eq_div unat_div_distrib)
  ultimately have "unat ((s AND 0xFFFF) + drop_bit 16 s) = (unat s mod 65536 + unat s div 65536) mod 4294967296"
    by (simp add: unat_word_ariths)
  moreover have "unat s div 65536 < 65536" using l by linarith
  ultimately show ?thesis by simp
qed

lemma fold_high: "drop_bit 16 s \<noteq> 0 \<longleftrightarrow> 65536 \<le> unat (s :: u32)"
proof -
  have "drop_bit 16 s = 0 \<longleftrightarrow> unat (drop_bit 16 s) = 0" by (simp add: unat_eq_0)
  also have "\<dots> \<longleftrightarrow> unat s div 65536 = 0" by (simp add: unat_drop_bit_eq drop_bit_eq_div unat_div_distrib)
  finally show ?thesis by (simp add: div_eq_0_iff not_less)
qed

function csum_fold :: "u32 \<Rightarrow> u32" where
  "csum_fold s = (if drop_bit 16 s \<noteq> 0 then csum_fold ((s AND 0xFFFF) + drop_bit 16 s) else s)"
  by pat_completeness auto

termination
proof (relation "measure unat")
  fix s :: u32
  assume "drop_bit 16 s \<noteq> 0"
  then have g: "65536 \<le> unat s" by (simp only: fold_high)
  have "unat s mod 65536 + unat s div 65536 < unat s mod 65536 + 65536 * (unat s div 65536)"
    using g by (simp only: add_less_cancel_left)
  then have "unat s mod 65536 + unat s div 65536 < unat s" by (simp only: mod_mult_div_eq)
  then show "((s AND 0xFFFF) + drop_bit 16 s, s) \<in> measure unat" unfolding in_measure fold_step .
qed simp

declare csum_fold.simps [simp del]

text \<open>csumfin, in host order.\<close>

definition csumfin :: "u32 \<Rightarrow> u16" where
  "csumfin s = NOT (ucast (csum_fold s))"

definition ipcsum :: "u8 list \<Rightarrow> u16" where
  "ipcsum bs = csumfin (csumup 0 bs)"

text \<open>The checksum of TCP and UDP, over the pseudo header and the segment.\<close>

definition pcsum :: "u32 \<Rightarrow> u32 \<Rightarrow> u8 \<Rightarrow> u8 list \<Rightarrow> u16" where
  "pcsum src dst proto p =
     csumfin (csumup (csumup 0 (put32 src @ put32 dst @ [0, proto] @ put16 (word_of_nat (length p)))) p)"

section \<open>Frames to send\<close>

definition mg_l2_eth_header :: "u16 \<Rightarrow> u8 list \<Rightarrow> u8 list \<Rightarrow> u8 list" where
  "mg_l2_eth_header type src dst = dst @ src @ put16 type"

definition ETH_IP4 :: u16 where "ETH_IP4 = 0x800"
definition ETH_ARP :: u16 where "ETH_ARP = 0x806"

definition ip_bytes :: "u8 \<Rightarrow> u32 \<Rightarrow> u32 \<Rightarrow> nat \<Rightarrow> u16 \<Rightarrow> u8 list" where
  "ip_bytes proto src dst plen csum =
     [0x45, 0] @ put16 (word_of_nat (20 + plen)) @ [0, 0] @ put16 0x4000 @ [64, proto] @ put16 csum @ put32 src @ put32 dst"

definition tx_ip :: "u8 \<Rightarrow> u32 \<Rightarrow> u32 \<Rightarrow> nat \<Rightarrow> u8 list" where
  "tx_ip proto src dst plen = ip_bytes proto src dst plen (ipcsum (ip_bytes proto src dst plen 0))"

definition tcp_bytes :: "u16 \<Rightarrow> segment \<Rightarrow> u8 list \<Rightarrow> u16 \<Rightarrow> u8 list" where
  "tcp_bytes dport p opts csum =
     put16 (seg_sport p) @ put16 dport @ put32 (seg_seq p) @ put32 (seg_ack p) @
     [push_bit 4 (word_of_nat ((20 + length opts) div 4)), seg_flags p] @ put16 (word_of_nat MG_TCPIP_WIN) @ put16 csum @ [0, 0] @
     opts @ seg_pay p"

text \<open>The bytes tx_tcp hands to the driver; a SYN announces the segment size the interface takes.\<close>

definition tcp_frame :: "nat \<Rightarrow> u8 list \<Rightarrow> u8 list \<Rightarrow> u32 \<Rightarrow> u32 \<Rightarrow> u16 \<Rightarrow> segment \<Rightarrow> u8 list" where
  "tcp_frame mtu mac l2_dst src dst dport p =
    (let opts = (if seg_flags p AND TH_SYN \<noteq> 0 then put16 0x0204 @ put16 (word_of_int (int mtu - 40)) else []);
         plen = 20 + length opts + length (seg_pay p)
     in mg_l2_eth_header ETH_IP4 mac l2_dst @ tx_ip 6 src dst plen @
        tcp_bytes dport p opts (pcsum src dst 6 (tcp_bytes dport p opts 0)))"

section \<open>Frames received\<close>

record mg_iface =
  ifc_mac :: "u8 list"
  ifc_mac_check :: bool
  ifc_ip :: u32
  ifc_mask :: u32
  ifc_gw :: u32
  ifc_gwmac :: "u8 list"
  ifc_gw_ready :: bool

text \<open>mg_l2_eth_rx: the type of the frame and what it carries.\<close>

definition mg_l2_eth_rx :: "mg_iface \<Rightarrow> u8 list \<Rightarrow> (u16 \<times> u8 list) option option" where
  "mg_l2_eth_rx ifc raw =
    (if length raw < 14 then Some None
     else do {
       dst \<leftarrow> arr_slice raw 0 6;
       if ifc_mac_check ifc \<and> dst \<noteq> ifc_mac ifc \<and> dst \<noteq> replicate 6 0xFF then Some None
       else do {
         type \<leftarrow> rd16 raw 12;
         pay \<leftarrow> arr_slice raw 14 (int (size_diff (unat (word_of_nat (length raw) :: u16)) 14));
         Some (Some (type, pay))
       }
     })"

text \<open>Where rx_ip takes a packet; the flag of the last two says whether the checksum is right.\<close>

datatype ip_rx =
    Ip_drop
  | Ip_fragment u8 u32 "u8 list"
  | Ip_icmp u32 u32 "u8 list"
  | Ip_udp bool u32 u16 u16 "u8 list"
  | Ip_tcp bool u32 u16 segment

definition udpcsum_ok :: "u32 \<Rightarrow> u32 \<Rightarrow> u8 list \<Rightarrow> bool option" where
  "udpcsum_ok src dst u = do {
     csum \<leftarrow> rd16 u 6;
     if csum = 0 then Some True
     else Some (pcsum src dst 17 (if csum = 0xFFFF then take 6 u @ [0, 0] @ drop 8 u else u) = 0)
   }"

text \<open>The TCP header: the options are what is between its fixed part and the data.\<close>

definition rx_tcp_header :: "u32 \<Rightarrow> u32 \<Rightarrow> u8 list \<Rightarrow> ip_rx option" where
  "rx_tcp_header src dst pay =
    (if length pay < 20 then Some Ip_drop
     else do {
       b \<leftarrow> rd8 pay 12;
       let off = 4 * unat (drop_bit 4 b);
       if length pay < off then Some Ip_drop
       else do {
         sport \<leftarrow> rd16 pay 0; dport \<leftarrow> rd16 pay 2; sq \<leftarrow> rd32 pay 4; ak \<leftarrow> rd32 pay 8; flags \<leftarrow> rd8 pay 13;
         Some (Ip_tcp (pcsum src dst 6 pay = 0) src dport
           \<lparr>seg_sport = sport, seg_seq = sq, seg_ack = ak, seg_flags = flags AND 0x3F,
            seg_opts = drop 20 (take off pay), seg_pay = drop off pay\<rparr>)
       }
     })"

definition rx_udp_header :: "u32 \<Rightarrow> u32 \<Rightarrow> u8 list \<Rightarrow> ip_rx option" where
  "rx_udp_header src dst pay =
    (if length pay < 8 then Some Ip_drop
     else do {
       ulen \<leftarrow> rd16 pay 4;
       if unat ulen < 8 \<or> unat ulen > length pay then Some Ip_drop
       else do {
         let pay = take (unat ulen) pay;
         sport \<leftarrow> rd16 pay 0; dport \<leftarrow> rd16 pay 2; ok \<leftarrow> udpcsum_ok src dst pay;
         Some (Ip_udp ok src sport dport (drop 8 pay))
       }
     })"

definition rx_ip :: "u8 list \<Rightarrow> ip_rx option" where
  "rx_ip pay =
    (if length pay < 20 then Some Ip_drop
     else do {
       ver \<leftarrow> rd8 pay 0;
       let hl = 4 * unat (ver AND 0x0F);
       len \<leftarrow> rd16 pay 2;
       if drop_bit 4 ver \<noteq> 4 \<or> hl < 20 \<or> length pay < hl \<or> unat len < hl \<or> unat len > length pay then Some Ip_drop
       else do {
         head \<leftarrow> arr_slice pay 0 (int hl);
         if ipcsum head \<noteq> 0 then Some Ip_drop
         else do {
           frag \<leftarrow> rd16 pay 6; proto \<leftarrow> rd8 pay 9; src \<leftarrow> rd32 pay 12; dst \<leftarrow> rd32 pay 16;
           let body = drop hl (take (unat len) pay);
           if frag AND 0x2000 \<noteq> 0 \<or> frag AND 0x1FFF \<noteq> 0 then Some (Ip_fragment proto src body)
           else if proto = 1 then Some (if length body < 4 then Ip_drop else Ip_icmp src dst body)
           else if proto = 17 then rx_udp_header src dst body
           else if proto = 6 then rx_tcp_header src dst body
           else Some Ip_drop
         }
       }
     })"

text \<open>The address a reply goes to (get_return_l2addr of a unicast peer).\<close>

definition get_return_l2addr :: "mg_iface \<Rightarrow> u32 \<Rightarrow> u8 list \<Rightarrow> u8 list option" where
  "get_return_l2addr ifc rem src_mac =
    (if ifc_ip ifc \<noteq> 0 \<and> rem AND ifc_mask ifc = ifc_ip ifc AND ifc_mask ifc then Some src_mac
     else if ifc_gw_ready ifc then Some (ifc_gwmac ifc) else None)"

text \<open>rx_icmp: the answer to an echo request, cut to what fits into a frame of the interface.\<close>

definition rx_icmp :: "mg_ifp \<Rightarrow> mg_iface \<Rightarrow> u8 list \<Rightarrow> u32 \<Rightarrow> u32 \<Rightarrow> u8 list \<Rightarrow> u8 list option option" where
  "rx_icmp ifp ifc src_mac src dst icmp =
    (if ipcsum icmp \<noteq> 0 then Some None
     else do {
       type \<leftarrow> rd8 icmp 0;
       if type = 8 \<and> dst = ifc_ip ifc then
         (let room = size_diff (if_txlen ifp) (24 + size_diff (if_framesize ifp) (if_mtu ifp));
              data = take room (drop 4 icmp)
          in case get_return_l2addr ifc src src_mac of
            None \<Rightarrow> Some None
          | Some l2 \<Rightarrow> Some (Some (mg_l2_eth_header ETH_IP4 (ifc_mac ifc) l2 @ tx_ip 1 (ifc_ip ifc) src (4 + length data) @
              [0, 0] @ put16 (ipcsum ([0, 0, 0, 0] @ data)) @ data)))
       else Some None
     })"

text \<open>rx_arp: a request for this interface is answered; an answer tells the gateway's or a peer's address.\<close>

datatype arp_rx = Arp_none | Arp_reply "u8 list" | Arp_gw "u8 list" | Arp_peer u32 "u8 list"

definition arp_bytes :: "u8 list \<Rightarrow> u16 \<Rightarrow> u8 list \<Rightarrow> u32 \<Rightarrow> u8 list \<Rightarrow> u32 \<Rightarrow> u8 list" where
  "arp_bytes fmt op sha spa tha tpa = fmt @ put16 op @ sha @ put32 spa @ tha @ put32 tpa"

definition mg_tcpip_arp_request :: "mg_iface \<Rightarrow> u32 \<Rightarrow> u8 list option \<Rightarrow> u8 list" where
  "mg_tcpip_arp_request ifc ip mac =
     mg_l2_eth_header ETH_ARP (ifc_mac ifc) (replicate 6 0xFF) @
     arp_bytes (put16 1 @ put16 0x800 @ [6, 4]) 1 (ifc_mac ifc) (ifc_ip ifc)
       (case mac of None \<Rightarrow> replicate 6 0 | Some m \<Rightarrow> m) ip"

definition rx_arp :: "mg_iface \<Rightarrow> u8 list \<Rightarrow> u8 list \<Rightarrow> arp_rx option" where
  "rx_arp ifc src_mac pay =
    (if length pay < 28 then Some Arp_none
     else do {
       fmt \<leftarrow> arr_slice pay 0 6; op \<leftarrow> rd16 pay 6; sha \<leftarrow> arr_slice pay 8 6; spa \<leftarrow> rd32 pay 14;
       tha \<leftarrow> arr_slice pay 18 6; tpa \<leftarrow> rd32 pay 24;
       Some (if op = 1 \<and> tpa = ifc_ip ifc then
           Arp_reply (mg_l2_eth_header ETH_ARP (ifc_mac ifc) src_mac @ arp_bytes fmt 2 (ifc_mac ifc) (ifc_ip ifc) sha spa)
         else if op = 2 then
           (if tha \<noteq> ifc_mac ifc then Arp_none
            else if spa = ifc_gw ifc then Arp_gw sha else Arp_peer spa sha)
         else Arp_none)
     })"

text \<open>mg_tcpip_rx: what a frame is, with the hardware address it came from.\<close>

datatype net_rx = Rx_none | Rx_arp arp_rx | Rx_ip "u8 list" ip_rx

definition mg_tcpip_rx :: "mg_iface \<Rightarrow> u8 list \<Rightarrow> net_rx option" where
  "mg_tcpip_rx ifc raw = do {
     r \<leftarrow> mg_l2_eth_rx ifc raw;
     (case r of None \<Rightarrow> Some Rx_none
      | Some (type, pay) \<Rightarrow> do {
          src \<leftarrow> arr_slice raw 6 6;
          if type = ETH_ARP then do { a \<leftarrow> rx_arp ifc src pay; Some (Rx_arp a) }
          else if type = ETH_IP4 then do { p \<leftarrow> rx_ip pay; Some (Rx_ip src p) }
          else Some Rx_none
        })
   }"

section \<open>Numbers are read back\<close>

lemma put_lengths [simp]: "length (put16 w) = 2" "length (put32 v) = 4"
  by (simp_all add: put16_def put32_def)

lemma get16_put16 [simp]: "get16 (put16 w @ r) = w" "get16 (put16 w) = w"
proof -
  have "push_bit 8 (ucast (ucast (drop_bit 8 w) :: u8)) OR ucast (ucast w :: u8) = w"
    by (rule bit_word_eqI) (auto simp: bit_simps)
  then show "get16 (put16 w @ r) = w" "get16 (put16 w) = w" by (simp_all add: put16_def)
qed

lemma get32_put32 [simp]: "get32 (put32 w @ r) = w" "get32 (put32 w) = w"
proof -
  have w: "push_bit 16 (ucast (ucast (drop_bit 16 w) :: u16)) OR ucast (ucast w :: u16) = w"
    by (rule bit_word_eqI) (auto simp: bit_simps)
  have d: "drop 2 (put32 w @ r) = put16 (ucast w) @ r" for r by (simp add: put32_def)
  have f: "get16 (put32 w @ r) = ucast (drop_bit 16 w)" for r by (simp add: put32_def del: append_assoc) (simp add: append_assoc)
  show "get32 (put32 w @ r) = w" by (simp only: get32_def d f get16_put16 w)
  show "get32 (put32 w) = w" using d[of "[]"] f[of "[]"] w by (simp add: get32_def)
qed

lemma rd_at:
  "i = length a \<Longrightarrow> rd8 (a @ b # c) i = Some b"
  "i = length a \<Longrightarrow> rd16 (a @ put16 w @ c) i = Some w"
  "i = length a \<Longrightarrow> rd32 (a @ put32 v @ c) i = Some v"
  by (simp_all add: rd8_def rd16_def rd32_def arr_slice_mid)

section \<open>A checksum makes the sum zero\<close>

lemma csumup_append: "even (length a) \<Longrightarrow> csumup s (a @ b) = csumup (csumup s a) b"
  by (induction s a rule: csumup.induct) simp_all

lemma csumup_shift: "csumup (s + t) bs = csumup s bs + t"
proof (induction s bs arbitrary: t rule: csumup.induct)
  case (3 s a b bs)
  have "s + t + push_bit 8 (ucast a) + ucast b = s + push_bit 8 (ucast a) + ucast b + t" by (simp only: ac_simps)
  then show ?case by (simp only: csumup.simps 3)
qed (simp_all add: algebra_simps)

lemma byte_sums: "unat (push_bit 8 (ucast (a :: u8)) :: u32) = 256 * unat a" "unat (ucast (a :: u8) :: u32) = unat a"
proof -
  have l: "unat a < 256" using unsigned_less[of a, where ?'a = nat] by simp
  then show u: "unat (ucast a :: u32) = unat a" by (simp add: unsigned_ucast_eq take_bit_nat_eq_self)
  show "unat (push_bit 8 (ucast a) :: u32) = 256 * unat a"
    using l u by (simp add: push_bit_eq_mult unat_word_ariths)
qed

lemma byte_less: "unat (a :: u8) < 256"
  using unsigned_less[of a, where ?'a = nat] by simp

lemma csumup_put16: "csumup s (put16 w @ bs) = csumup s bs + ucast w"
proof -
  have "push_bit 8 (ucast (ucast (drop_bit 8 w) :: u8)) + ucast (ucast w :: u8) =
      (push_bit 8 (ucast (ucast (drop_bit 8 w) :: u8)) OR ucast (ucast w :: u8) :: u32)"
    by (rule disjunctive_add) (auto simp: bit_simps dest: bit_imp_le_length)
  also have "\<dots> = ucast w" by (rule bit_word_eqI) (auto simp: bit_simps dest: bit_imp_le_length)
  finally have "s + push_bit 8 (ucast (ucast (drop_bit 8 w) :: u8)) + ucast (ucast w :: u8) = s + ucast w"
    by (simp add: add.assoc)
  then show ?thesis by (simp add: put16_def csumup_shift)
qed

lemma csumup_bound: "unat s + 65535 * length bs < 2 ^ 32 \<Longrightarrow> unat (csumup s bs) \<le> unat s + 65535 * length bs"
proof (induction s bs rule: csumup.induct)
  case (2 s a)
  then show ?case using byte_less[of a] by (simp add: unat_word_ariths byte_sums)
next
  case (3 s a b bs)
  have "unat (s + push_bit 8 (ucast a) + ucast b) \<le> unat s + 65535"
    using 3(2) byte_less[of a] byte_less[of b] by (simp add: unat_word_ariths byte_sums)
  then show ?case using 3 by simp
qed simp

lemma csum_fold_value:
  "unat (csum_fold s) < 65536 \<and> unat (csum_fold s) mod 65535 = unat s mod 65535 \<and> (unat s \<noteq> 0 \<longrightarrow> unat (csum_fold s) \<noteq> 0) \<and>
   unat (csum_fold s) \<le> unat s"
proof (induction s rule: csum_fold.induct)
  case (1 s)
  show ?case
  proof (cases "drop_bit 16 s \<noteq> 0")
    case False
    then have "\<not> 65536 \<le> unat s" using fold_high by blast
    moreover have "csum_fold s = s" using False by (subst csum_fold.simps) simp
    ultimately show ?thesis by simp
  next
    case True
    let ?t = "(s AND 0xFFFF) + drop_bit 16 s"
    have g: "65536 \<le> unat s" using True by (simp only: fold_high)
    have m: "unat ?t = unat s mod 65536 + unat s div 65536" by (rule fold_step)
    have e: "unat s = unat s mod 65536 + unat s div 65536 + 65535 * (unat s div 65536)"
      using mod_mult_div_eq[of "unat s" 65536] by linarith
    have "unat ?t mod 65535 = unat s mod 65535" unfolding m by (subst (3) e) (simp only: mod_mult_self2)
    moreover have "unat ?t \<noteq> 0" "unat ?t \<le> unat s" using g e m by (auto simp: div_greater_zero_iff)
    moreover have "csum_fold s = csum_fold ?t" using True by (subst csum_fold.simps) simp
    ultimately show ?thesis using 1[OF True] by simp
  qed
qed

lemma csum_fill:
  assumes "even (length a)" "length (a @ b) \<le> 60000" "unat s \<le> 65535 * 20"
  shows "csumfin (csumup s (a @ put16 (csumfin (csumup s (a @ [0, 0] @ b))) @ b)) = 0"
proof -
  define z where "z = csumup s (a @ [0, 0] @ b)"
  define c where "c = csumfin z"
  have "csumup s (a @ put16 c @ b) = csumup s (a @ put16 0 @ b) + ucast c"
    using assms(1) by (simp add: csumup_append csumup_put16)
  also have "a @ put16 0 @ b = a @ [0, 0] @ b" by (simp add: put16_def)
  finally have sum: "csumup s (a @ put16 c @ b) = z + ucast c" by (simp add: z_def)
  have bd: "unat s + 65535 * length (a @ [0, 0] @ b) \<le> 65535 * 60022" using assms(2,3) by simp
  then have "unat s + 65535 * length (a @ [0, 0] @ b) < 2 ^ 32" by simp
  from csumup_bound[OF this] bd have zb: "unat z \<le> 65535 * 60022" by (simp add: z_def)
  note v = csum_fold_value[of z]
  have uc: "unat c = 65535 - unat (csum_fold z)"
  proof -
    have "unat (ucast (csum_fold z) :: u16) = unat (csum_fold z)"
      using v by (simp add: unsigned_ucast_eq take_bit_nat_eq_self)
    moreover have "unat (NOT x) = 65535 - unat x" for x :: u16
    proof -
      have "NOT x = -1 - x" by (simp add: not_eq_complement)
      moreover have "unat (-1 - x) = unat (-1 :: u16) - unat x" by (rule unat_sub) simp
      moreover have "unat (-1 :: u16) = 65535" by (simp add: unsigned_minus_1_eq_mask mask_eq_exp_minus_1)
      ultimately show ?thesis by simp
    qed
    ultimately show ?thesis by (simp add: c_def csumfin_def)
  qed
  have ez: "unat (ucast c :: u32) = unat c" using uc by (simp add: unsigned_ucast_eq take_bit_nat_eq_self)
  then have t: "unat (z + ucast c) = unat z + (65535 - unat (csum_fold z))"
    using zb uc by (simp add: unat_word_ariths)
  have "unat (csum_fold z) \<le> 65535" "unat (csum_fold z) \<le> unat z" using v by simp_all
  then have "unat (z + ucast c) = unat z - unat (csum_fold z) + 65535" unfolding t by linarith
  moreover have "(unat z - unat (csum_fold z)) mod 65535 = 0"
    using v by (metis mod_eq_dvd_iff_nat dvd_eq_mod_eq_0)
  ultimately have "unat (z + ucast c) mod 65535 = 0" "unat (z + ucast c) \<noteq> 0" by simp_all
  with csum_fold_value[of "z + ucast c"] have r: "unat (csum_fold (z + ucast c)) mod 65535 = 0" "unat (csum_fold (z + ucast c)) \<noteq> 0"
    "unat (csum_fold (z + ucast c)) < 65536" by simp_all
  have n: "k = 65535" if "k mod 65535 = 0" "k \<noteq> 0" "k < 65536" for k :: nat
  proof -
    have q: "k = 65535 * (k div 65535)" using mult_div_mod_eq[of 65535 k] that(1) by (simp only: add_0_right)
    have "k div 65535 < 2" by (rule less_mult_imp_div_less) (use that(3) in linarith)
    moreover have "k div 65535 \<noteq> 0" using q that(2) by linarith
    ultimately have "k div 65535 = 1" by linarith
    then show ?thesis using q by linarith
  qed
  from n[OF r] have "csum_fold (z + ucast c) = 65535" by (simp add: word_unat_eq_iff)
  then have "csumfin (z + ucast c) = 0" by (simp add: csumfin_def)
  then show ?thesis unfolding z_def[symmetric] c_def[symmetric] sum .
qed

lemma unat16: "k < 65536 \<Longrightarrow> unat (word_of_nat k :: u16) = k"
  by (simp add: unsigned_of_nat take_bit_nat_eq_self)

lemma ip_header_ok: "ipcsum (tx_ip proto src dst plen) = 0"
proof -
  let ?a = "[0x45, 0] @ put16 (word_of_nat (20 + plen)) @ [0, 0] @ put16 0x4000 @ [64, proto]" and ?b = "put32 src @ put32 dst"
  have b: "ip_bytes proto src dst plen c = ?a @ put16 c @ ?b" for c by (simp add: ip_bytes_def)
  have z: "put16 0 = [0, 0]" by (simp add: put16_def)
  have "length ?a = 10" "length (?a @ ?b) = 18" by simp_all
  then have "csumfin (csumup 0 (?a @ put16 (csumfin (csumup 0 (?a @ [0, 0] @ ?b))) @ ?b)) = 0"
    by (intro csum_fill) (simp_all only: unsigned_0, simp_all)
  then show ?thesis unfolding tx_ip_def ipcsum_def b z .
qed

lemma pseudo_bound: "unat (csumup 0 (put32 src @ put32 dst @ [0, proto] @ put16 n)) \<le> 65535 * 20"
proof -
  have "length (put32 src @ put32 dst @ [0, proto] @ put16 n) = 12" by simp
  with csumup_bound[of 0 "put32 src @ put32 dst @ [0, proto] @ put16 n"] show ?thesis by simp
qed

lemma tcp_csum_ok:
  assumes "length opts + length (seg_pay p) \<le> 50000"
  shows "pcsum src dst 6 (tcp_bytes dport p opts (pcsum src dst 6 (tcp_bytes dport p opts 0))) = 0"
proof -
  let ?a = "put16 (seg_sport p) @ put16 dport @ put32 (seg_seq p) @ put32 (seg_ack p) @
     [push_bit 4 (word_of_nat ((20 + length opts) div 4)), seg_flags p] @ put16 (word_of_nat MG_TCPIP_WIN)"
  let ?b = "[0, 0] @ opts @ seg_pay p" and ?n = "20 + length opts + length (seg_pay p)"
  let ?s = "csumup 0 (put32 src @ put32 dst @ [0, 6] @ put16 (word_of_nat ?n))"
  have b: "tcp_bytes dport p opts c = ?a @ put16 c @ ?b" for c by (simp add: tcp_bytes_def)
  have l: "length (?a @ put16 c @ ?b) = ?n" for c by simp
  have z: "put16 0 = [0, 0]" by (simp add: put16_def)
  have "csumfin (csumup ?s (?a @ put16 (csumfin (csumup ?s (?a @ [0, 0] @ ?b))) @ ?b)) = 0"
    by (rule csum_fill[OF _ _ pseudo_bound]) (use assms in simp_all)
  moreover have "pcsum src dst 6 (tcp_bytes dport p opts c) = csumfin (csumup ?s (?a @ put16 c @ ?b))" for c
    unfolding pcsum_def b l ..
  ultimately show ?thesis unfolding z by (simp only: z)
qed

section \<open>A frame is read back as it was made\<close>

lemma low_nibble: "unat (push_bit 4 (word_of_nat k) :: u8) div 16 = k" if "k < 16"
  using that by (simp add: push_bit_eq_mult unat_word_ariths unsigned_of_nat take_bit_nat_eq_self)

lemma tcp_header_read:
  assumes "length opts \<le> 4" "length opts mod 4 = 0" "seg_flags p AND 0x3F = seg_flags p"
  shows "rx_tcp_header src dst (tcp_bytes dport p opts c) =
    Some (Ip_tcp (pcsum src dst 6 (tcp_bytes dport p opts c) = 0) src dport (p\<lparr>seg_opts := opts\<rparr>))"
proof -
  let ?o = "push_bit 4 (word_of_nat ((20 + length opts) div 4)) :: u8"
  let ?h1 = "put16 (seg_sport p) @ put16 dport @ put32 (seg_seq p) @ put32 (seg_ack p)"
  let ?r = "put16 (word_of_nat MG_TCPIP_WIN) @ put16 c @ [0, 0] @ opts @ seg_pay p"
  have b: "tcp_bytes dport p opts c = ?h1 @ ?o # seg_flags p # ?r" by (simp add: tcp_bytes_def)
  have k: "(20 + length opts) div 4 < 16" "4 * ((20 + length opts) div 4) = 20 + length opts" using assms(1,2) by presburger+
  have "unat (drop_bit 4 ?o) = (20 + length opts) div 4"
    using low_nibble[OF k(1)] by (simp add: unat_drop_bit_eq drop_bit_eq_div unat_div_distrib)
  then have off: "4 * unat (drop_bit 4 ?o) = 20 + length opts" using k(2) by simp
  have f: "rd8 (tcp_bytes dport p opts c) 12 = Some ?o" "rd8 (tcp_bytes dport p opts c) 13 = Some (seg_flags p)"
    "rd16 (tcp_bytes dport p opts c) 0 = Some (seg_sport p)" "rd16 (tcp_bytes dport p opts c) 2 = Some dport"
    "rd32 (tcp_bytes dport p opts c) 4 = Some (seg_seq p)" "rd32 (tcp_bytes dport p opts c) 8 = Some (seg_ack p)"
    unfolding b
    using rd_at(1)[of 12 ?h1 ?o "seg_flags p # ?r"] rd_at(1)[of 13 "?h1 @ [?o]" "seg_flags p" ?r]
      rd_at(2)[of 0 "[]" "seg_sport p"] rd_at(2)[of 2 "put16 (seg_sport p)" dport]
      rd_at(3)[of 4 "put16 (seg_sport p) @ put16 dport" "seg_seq p"]
      rd_at(3)[of 8 "put16 (seg_sport p) @ put16 dport @ put32 (seg_seq p)" "seg_ack p"] by simp_all
  have l: "length (tcp_bytes dport p opts c) = 20 + length opts + length (seg_pay p)" by (simp add: b)
  have d: "drop (20 + length opts) (tcp_bytes dport p opts c) = seg_pay p"
    "drop 20 (take (20 + length opts) (tcp_bytes dport p opts c)) = opts"
  proof -
    let ?f = "?h1 @ [?o, seg_flags p] @ put16 (word_of_nat MG_TCPIP_WIN) @ put16 c @ [0, 0]"
    have e: "tcp_bytes dport p opts c = ?f @ opts @ seg_pay p" "length ?f = 20" by (simp_all add: b)
    show "drop (20 + length opts) (tcp_bytes dport p opts c) = seg_pay p"
      "drop 20 (take (20 + length opts) (tcp_bytes dport p opts c)) = opts"
      unfolding e(1) by (simp_all only: e(2) drop_append take_append) simp_all
  qed
  show ?thesis
    using assms(3) by (simp add: rx_tcp_header_def l f off d Let_def)
qed

lemma rx_ip_of_tx:
  assumes "length body < 60000"
  shows "rx_ip (tx_ip proto src dst (length body) @ body @ pad) =
    (if proto = 1 then Some (if length body < 4 then Ip_drop else Ip_icmp src dst body)
     else if proto = 17 then rx_udp_header src dst body
     else if proto = 6 then rx_tcp_header src dst body else Some Ip_drop)"
proof -
  let ?c = "ipcsum (ip_bytes proto src dst (length body) 0)" and ?n = "20 + length body"
  let ?h = "tx_ip proto src dst (length body)" and ?m = "tx_ip proto src dst (length body) @ body @ pad"
  have h: "?h = [0x45, 0] @ put16 (word_of_nat ?n) @ [0, 0] @ put16 0x4000 @ [64, proto] @ put16 ?c @ put32 src @ put32 dst"
    by (simp add: tx_ip_def ip_bytes_def)
  have lh: "length ?h = 20" by (simp add: h)
  have un: "unat (word_of_nat ?n :: u16) = ?n" by (rule unat16) (use assms in simp)
  have f: "rd8 ?m 0 = Some 0x45" "rd16 ?m 2 = Some (word_of_nat ?n)" "rd16 ?m 6 = Some 0x4000" "rd8 ?m 9 = Some proto"
    "rd32 ?m 12 = Some src" "rd32 ?m 16 = Some dst"
    unfolding h
    using rd_at(1)[of 0 "[]" "0x45"] rd_at(2)[of 2 "[0x45, 0]" "word_of_nat ?n"]
      rd_at(2)[of 6 "[0x45, 0] @ put16 (word_of_nat ?n) @ [0, 0]" "0x4000"]
      rd_at(1)[of 9 "[0x45, 0] @ put16 (word_of_nat ?n) @ [0, 0] @ put16 0x4000 @ [64]" proto]
      rd_at(3)[of 12 "[0x45, 0] @ put16 (word_of_nat ?n) @ [0, 0] @ put16 0x4000 @ [64, proto] @ put16 ?c" src]
      rd_at(3)[of 16 "[0x45, 0] @ put16 (word_of_nat ?n) @ [0, 0] @ put16 0x4000 @ [64, proto] @ put16 ?c @ put32 src" dst]
    by (simp_all del: of_nat_add)
  have v: "4 * unat (0x45 AND 0x0F :: u8) = 20" "drop_bit 4 (0x45 :: u8) = 4" "(0x4000 AND 0x2000 :: u16) = 0" "(0x4000 AND 0x1FFF :: u16) = 0"
    by code_simp+
  have a: "arr_slice ?m 0 20 = Some ?h" using arr_slice_mid[of 0 "[]" 20 ?h "body @ pad"] lh by simp
  have d: "drop 20 (take ?n ?m) = body" using lh by simp
  show ?thesis
    using un lh f v a d ip_header_ok[of proto src dst "length body"] by (simp add: rx_ip_def Let_def)
qed

lemma eth_rx_of_header:
  assumes "length mac = 6" "length l2 = 6" "length body < 65000" "ifc_mac_check ifc \<longrightarrow> l2 = ifc_mac ifc"
  shows "mg_l2_eth_rx ifc (mg_l2_eth_header ty mac l2 @ body) = Some (Some (ty, body))"
    "arr_slice (mg_l2_eth_header ty mac l2 @ body) 6 6 = Some mac"
proof -
  let ?m = "l2 @ mac @ put16 ty @ body"
  have "unat (word_of_nat (14 + length body) :: u16) = 14 + length body"
    by (rule unat16) (use assms(3) in simp)
  then have s: "size_diff (unat (word_of_nat (14 + length body) :: u16)) 14 = length body"
    using assms(3) size_diff_le[of 14 "14 + length body"] by simp
  have "arr_slice ?m 0 6 = Some l2"
    using arr_slice_mid[of 0 "[]" 6 l2 "mac @ put16 ty @ body"] assms(2) by simp
  moreover have "arr_slice ?m 6 6 = Some mac" by (rule arr_slice_mid) (use assms(1,2) in simp_all)
  moreover have "rd16 ?m 12 = Some ty"
    using rd_at(2)[of 12 "l2 @ mac" ty body] assms(1,2) by simp
  moreover have "arr_slice ?m 14 (int (length body)) = Some body"
    using arr_slice_mid[of 14 "l2 @ mac @ put16 ty" "int (length body)" body "[]"] assms(1,2) by simp
  moreover note a = calculation
  have "length ?m = 14 + length body" using assms(1,2) by simp
  with a s assms(4) show "mg_l2_eth_rx ifc (mg_l2_eth_header ty mac l2 @ body) = Some (Some (ty, body))"
    by (simp add: mg_l2_eth_rx_def mg_l2_eth_header_def del: of_nat_add length_append)
  show "arr_slice (mg_l2_eth_header ty mac l2 @ body) 6 6 = Some mac"
    using a by (simp add: mg_l2_eth_header_def)
qed

text \<open>
  C11: A segment is received as it was sent: the frame tx_tcp builds, with anything the link pads it
  with, is a TCP segment with a right checksum, the same ports, numbers, flags and data, from the
  sender's address.
\<close>

theorem tcp_frame_received:
  assumes "length mac = 6" "length l2 = 6" "ifc_mac_check ifc \<longrightarrow> l2 = ifc_mac ifc"
    and "seg_flags p AND 0x3F = seg_flags p" "length (seg_pay p) + length pad < 49000"
  shows "\<exists>opts. mg_tcpip_rx ifc (tcp_frame mtu mac l2 src dst dport p @ pad) =
    Some (Rx_ip mac (Ip_tcp True src dport (p\<lparr>seg_opts := opts\<rparr>))) \<and> (seg_flags p AND TH_SYN = 0 \<longrightarrow> opts = [])"
proof -
  define opts where "opts = (if seg_flags p AND TH_SYN \<noteq> 0 then put16 0x0204 @ put16 (word_of_int (int mtu - 40)) else [])"
  have o: "length opts \<le> 4" "length opts mod 4 = 0" by (simp_all add: opts_def)
  define body where "body = tcp_bytes dport p opts (pcsum src dst 6 (tcp_bytes dport p opts 0))"
  have lb: "length body = 20 + length opts + length (seg_pay p)" by (simp add: body_def tcp_bytes_def)
  have f: "tcp_frame mtu mac l2 src dst dport p @ pad = mg_l2_eth_header ETH_IP4 mac l2 @ tx_ip 6 src dst (length body) @ body @ pad"
    unfolding tcp_frame_def Let_def opts_def[symmetric] by (simp add: lb body_def[symmetric] add.assoc)
  have len: "length (tx_ip 6 src dst (length body) @ body @ pad) < 65000" "length body < 60000"
    using assms(5) o(1) lb by (simp_all add: tx_ip_def ip_bytes_def)
  have "rx_tcp_header src dst body = Some (Ip_tcp True src dport (p\<lparr>seg_opts := opts\<rparr>))"
    unfolding body_def tcp_header_read[OF o assms(4)] by (subst tcp_csum_ok) (use o(1) assms(5) in simp_all)
  then have "rx_ip (tx_ip 6 src dst (length body) @ body @ pad) = Some (Ip_tcp True src dport (p\<lparr>seg_opts := opts\<rparr>))"
    unfolding rx_ip_of_tx[OF len(2)] by simp
  moreover note eth_rx_of_header[where ifc = ifc and ty = ETH_IP4, OF assms(1,2) len(1) assms(3)]
  moreover have "ETH_IP4 \<noteq> ETH_ARP" by (simp add: ETH_IP4_def ETH_ARP_def)
  ultimately have "mg_tcpip_rx ifc (tcp_frame mtu mac l2 src dst dport p @ pad) =
      Some (Rx_ip mac (Ip_tcp True src dport (p\<lparr>seg_opts := opts\<rparr>)))"
    unfolding f by (simp add: mg_tcpip_rx_def)
  then show ?thesis by (auto simp: opts_def)
qed

theorem tcp_frame_received_witness:
  "\<exists>opts. mg_tcpip_rx \<lparr>ifc_mac = [2, 0, 0, 0, 0, 1], ifc_mac_check = True, ifc_ip = 1, ifc_mask = 0, ifc_gw = 0, ifc_gwmac = [], ifc_gw_ready = False\<rparr>
     (tcp_frame 1500 [2, 0, 0, 0, 0, 9] [2, 0, 0, 0, 0, 1] 7 1 80
       \<lparr>seg_sport = 1234, seg_seq = 5, seg_ack = 6, seg_flags = TH_ACK, seg_opts = [], seg_pay = [71, 69, 84]\<rparr> @ [0, 0, 0]) =
    Some (Rx_ip [2, 0, 0, 0, 0, 9] (Ip_tcp True 7 80
       (\<lparr>seg_sport = 1234, seg_seq = 5, seg_ack = 6, seg_flags = TH_ACK, seg_opts = [], seg_pay = [71, 69, 84]\<rparr>\<lparr>seg_opts := opts\<rparr>))) \<and>
    (TH_ACK AND TH_SYN = 0 \<longrightarrow> opts = [])"
  using tcp_frame_received[of "[2, 0, 0, 0, 0, 9]" "[2, 0, 0, 0, 0, 1]" "\<lparr>ifc_mac = [2, 0, 0, 0, 0, 1], ifc_mac_check = True, ifc_ip = 1, ifc_mask = 0, ifc_gw = 0, ifc_gwmac = [], ifc_gw_ready = False\<rparr>"
    "\<lparr>seg_sport = 1234, seg_seq = 5, seg_ack = 6, seg_flags = TH_ACK, seg_opts = [], seg_pay = [71, 69, 84]\<rparr>" "[0, 0, 0]" 1500 7 1 80]
  by (simp add: th_flags)

end
