(* ===== verification/Mongoose_Queue.thy ===== *)
theory Mongoose_Queue
  imports Prelude Mongoose_Iobuf "HOL-Library.Sublist"
begin

text \<open>
  The queue of received frames (src/queue.c in firmware/pico/lib/mongoose/mongoose.c): a ring of
  bytes in which each message stands behind its length, and a length of zero says that the next
  message is at the start. mg_tcpip_qwrite puts the frames of the driver into it, mg_tcpip_poll takes
  them out. The queue is shown to be a first-in first-out list of messages.
\<close>

section \<open>Operations\<close>

record mg_queue =
  q_buf :: "u8 list"
  q_tail :: nat
  q_head :: nat

text \<open>A uint32_t in memory, least significant byte first, as memcpy copies it on the RP2040.\<close>

definition le32 :: "nat \<Rightarrow> u8 list" where
  "le32 n = [word_of_nat n, word_of_nat (n div 256), word_of_nat (n div 65536), word_of_nat (n div 16777216)]"

fun le32_val :: "u8 list \<Rightarrow> nat" where
  "le32_val [a, b, c, d] = unat a + 256 * unat b + 65536 * unat c + 16777216 * unat d"
| "le32_val bs = 0"

definition mg_queue_init :: "u8 list \<Rightarrow> mg_queue" where
  "mg_queue_init buf = \<lparr>q_buf = buf, q_tail = 0, q_head = 0\<rparr>"

text \<open>An assertion that fails ends the program.\<close>

definition mg_queue_read_len :: "mg_queue \<Rightarrow> nat option" where
  "mg_queue_read_len q = do {
     bs \<leftarrow> arr_slice (q_buf q) (int (q_tail q)) 4;
     let n = le32_val bs;
     if size_t (q_tail q + n + 4) \<le> length (q_buf q) then Some n else None
   }"

definition mg_queue_write_len :: "nat \<Rightarrow> mg_queue \<Rightarrow> mg_queue option" where
  "mg_queue_write_len len q = do {
     buf \<leftarrow> arr_copy (q_buf q) (int (q_head q)) (le32 (size_t len));
     Some (q\<lparr>q_buf := buf\<rparr>)
   }"

text \<open>The space for a message, and the place of it.\<close>

definition mg_queue_book :: "nat \<Rightarrow> mg_queue \<Rightarrow> (nat \<times> nat \<times> mg_queue) option" where
  "mg_queue_book len q = do {
     let hs = 8;
     (space, q) \<leftarrow>
       (if q_head q \<ge> q_tail q \<and> size_t (q_head q + len + hs) \<le> length (q_buf q)
        then Some (length (q_buf q) - q_head q - hs, q)
        else if q_head q \<ge> q_tail q \<and> q_tail q > hs
        then do { q \<leftarrow> mg_queue_write_len 0 q; Some (0, q\<lparr>q_head := 0\<rparr>) }
        else Some (0, q));
     let space = (if size_t (q_head q + hs + len) < q_tail q then q_tail q - q_head q - hs else space);
     Some (space, q_head q + 4, q)
   }"

text \<open>The length of the oldest message, zero when there is none, and its place.\<close>

definition mg_queue_next :: "mg_queue \<Rightarrow> (nat \<times> nat \<times> mg_queue) option" where
  "mg_queue_next q = do {
     (len, q) \<leftarrow>
       (if q_tail q \<noteq> q_head q then do {
          len \<leftarrow> mg_queue_read_len q;
          if len = 0 then do {
            let q = q\<lparr>q_tail := 0\<rparr>;
            len \<leftarrow> (if q_head q > q_tail q then mg_queue_read_len q else Some 0);
            Some (len, q)
          } else Some (len, q)
        } else Some (0, q));
     if size_t (q_tail q + len) \<le> length (q_buf q) then Some (len, q_tail q + 4, q) else None
   }"

definition mg_queue_add :: "nat \<Rightarrow> mg_queue \<Rightarrow> mg_queue option" where
  "mg_queue_add len q =
    (if len = 0 then None
     else do {
       q \<leftarrow> mg_queue_write_len len q;
       if size_t (q_head q + 8 + len) \<le> length (q_buf q) then Some (q\<lparr>q_head := q_head q + len + 4\<rparr>) else None
     })"

definition mg_queue_del :: "nat \<Rightarrow> mg_queue \<Rightarrow> mg_queue option" where
  "mg_queue_del len q =
    (let q = q\<lparr>q_tail := q_tail q + len + 4\<rparr>
     in if size_t (q_tail q + 4) \<le> length (q_buf q) then Some q else None)"

text \<open>A frame from the driver; the result says whether it was queued or dropped.\<close>

definition mg_tcpip_qwrite :: "u8 list \<Rightarrow> mg_queue \<Rightarrow> (bool \<times> mg_queue) option" where
  "mg_tcpip_qwrite frame q = do {
     (space, p, q) \<leftarrow> mg_queue_book (length frame) q;
     if space \<ge> length frame then do {
       buf \<leftarrow> arr_copy (q_buf q) (int p) frame;
       q \<leftarrow> mg_queue_add (length frame) (q\<lparr>q_buf := buf\<rparr>);
       Some (True, q)
     } else Some (False, q)
   }"

text \<open>The oldest frame, taken out (a turn of the loop of mg_tcpip_poll).\<close>

definition queue_take :: "mg_queue \<Rightarrow> (u8 list option \<times> mg_queue) option" where
  "queue_take q = do {
     (len, p, q) \<leftarrow> mg_queue_next q;
     if len = 0 then Some (None, q)
     else do {
       frame \<leftarrow> arr_slice (q_buf q) (int p) (int len);
       q \<leftarrow> mg_queue_del len q;
       Some (Some frame, q)
     }
   }"

text \<open>At most cnt frames, handed to the stack one by one; the stack does not change the queue.\<close>

fun poll_frames :: "nat \<Rightarrow> (u8 list \<Rightarrow> 's \<Rightarrow> 's option) \<Rightarrow> mg_queue \<times> 's \<Rightarrow> (mg_queue \<times> 's) option" where
  "poll_frames 0 rx qs = Some qs"
| "poll_frames (Suc cnt) rx qs = do {
     (len, p, q) \<leftarrow> mg_queue_next (fst qs);
     if len = 0 then Some (q, snd qs)
     else do {
       frame \<leftarrow> arr_slice (q_buf q) (int p) (int len);
       s \<leftarrow> rx frame (snd qs);
       q \<leftarrow> mg_queue_del len q;
       poll_frames cnt rx (q, s)
     }
   }"

section \<open>The queue as a list of messages\<close>

definition enc :: "u8 list \<Rightarrow> u8 list" where
  "enc m = le32 (length m) @ m"

definition encs :: "u8 list list \<Rightarrow> u8 list" where
  "encs ms = concat (map enc ms)"

text \<open>
  The messages from tail to head, with room for a length behind them; or, when head is before
  tail, the first ones from tail to the mark and the others from the start to head.
\<close>

definition q_flat :: "mg_queue \<Rightarrow> u8 list list \<Rightarrow> u8 list \<Rightarrow> u8 list \<Rightarrow> bool" where
  "q_flat q ms a c \<longleftrightarrow> q_buf q = a @ encs ms @ c \<and> q_tail q = length a \<and>
     q_head q = length a + length (encs ms) \<and> 4 \<le> length c"

definition q_wrap :: "mg_queue \<Rightarrow> u8 list list \<Rightarrow> u8 list list \<Rightarrow> u8 list \<Rightarrow> u8 list \<Rightarrow> bool" where
  "q_wrap q ms1 ms2 b d \<longleftrightarrow> q_buf q = encs ms2 @ b @ encs ms1 @ le32 0 @ d \<and> q_head q = length (encs ms2) \<and>
     q_tail q = length (encs ms2) + length b \<and> b \<noteq> []"

definition q_rep :: "mg_queue \<Rightarrow> u8 list list \<Rightarrow> bool" where
  "q_rep q ms \<longleftrightarrow> length (q_buf q) < 2 ^ 31 \<and> [] \<notin> set ms \<and>
     ((\<exists>a c. q_flat q ms a c) \<or> (\<exists>ms1 ms2 b d. ms = ms1 @ ms2 \<and> q_wrap q ms1 ms2 b d))"

lemma length_le32 [simp]: "length (le32 n) = 4"
  by (simp add: le32_def)

lemma length_enc [simp]: "length (enc m) = length m + 4"
  by (simp add: enc_def)

lemma encs_simps [simp]: "encs [] = []" "encs (m # ms) = enc m @ encs ms" "encs (ms @ ms') = encs ms @ encs ms'"
  by (simp_all add: encs_def)

lemma le32_val_le32 [simp]: "n < 2 ^ 32 \<Longrightarrow> le32_val (le32 n) = n"
proof -
  assume n: "n < 2 ^ 32"
  have w: "unat (word_of_nat k :: u8) = k mod 256" for k by (simp add: unsigned_of_nat take_bit_eq_mod)
  have "n div 16777216 mod 256 = n div 16777216" using n by simp
  moreover have "n = n mod 256 + 256 * (n div 256)" by simp
  moreover have "n div 256 = n div 256 mod 256 + 256 * (n div 65536)" using div_mult2_eq[of n 256 256] by simp
  moreover have "n div 65536 = n div 65536 mod 256 + 256 * (n div 16777216)" using div_mult2_eq[of n 65536 256] by simp
  ultimately show ?thesis unfolding le32_def le32_val.simps w by linarith
qed

lemma size_t_small [simp]: "n < 2 ^ 32 \<Longrightarrow> size_t n = n"
  by (simp add: size_t_def)

lemma read_len_at:
  assumes "q_buf q = a @ le32 n @ c" "q_tail q = length a" "n \<le> length c" "length (q_buf q) < 2 ^ 31"
  shows "mg_queue_read_len q = Some n"
  using assms by (simp add: mg_queue_read_len_def arr_slice_mid Let_def)

lemma write_len_at:
  assumes "q_buf q = a @ b @ c" "q_head q = length a" "length b = 4" "n < 2 ^ 32"
  shows "mg_queue_write_len n q = Some (q\<lparr>q_buf := a @ le32 n @ c\<rparr>)"
  using assms by (simp add: mg_queue_write_len_def arr_copy_mid)

section \<open>Every operation keeps the list\<close>

text \<open>mg_queue_book: the messages stay, and when it gives space, there are bytes for the message.\<close>

definition q_room :: "mg_queue \<Rightarrow> u8 list list \<Rightarrow> nat \<Rightarrow> bool" where
  "q_room q ms n \<longleftrightarrow> (\<exists>a c. q_flat q ms a c \<and> n + 8 \<le> length c) \<or>
     (\<exists>ms1 ms2 b d. ms = ms1 @ ms2 \<and> q_wrap q ms1 ms2 b d \<and> n + 8 < length b)"

lemma book_rep:
  assumes "q_rep q ms" "0 < len" "len < 2 ^ 30"
  shows "\<exists>space q'. mg_queue_book len q = Some (space, q_head q' + 4, q') \<and> q_rep q' ms \<and>
    length (q_buf q') = length (q_buf q) \<and> (len \<le> space \<longrightarrow> q_room q' ms len) \<and>
    (q_tail q = q_head q \<longrightarrow> 2 * len + 24 \<le> length (q_buf q) \<longrightarrow> len \<le> space)"
proof -
  have size: "length (q_buf q) < 2 ^ 31" "[] \<notin> set ms" using assms(1) by (simp_all add: q_rep_def)
  consider (flat) a c where "q_flat q ms a c" | (wrap) ms1 ms2 b d where "ms = ms1 @ ms2" "q_wrap q ms1 ms2 b d"
    using assms(1) by (auto simp: q_rep_def)
  then show ?thesis
  proof cases
    case flat
    then have q: "q_buf q = a @ encs ms @ c" "q_tail q = length a" "q_head q = length a + length (encs ms)" "4 \<le> length c"
      by (simp_all add: q_flat_def)
    have len: "length (q_buf q) = length a + length (encs ms) + length c" by (simp add: q(1))
    have s: "size_t (q_head q + len + 8) = q_head q + len + 8" "size_t (q_head q + 8 + len) = q_head q + 8 + len"
      using assms(3) size(1) len q(3) by simp_all
    have ge: "q_tail q \<le> q_head q" using q(2,3) by simp
    show ?thesis
    proof (cases "q_head q + len + 8 \<le> length (q_buf q)")
      case True
      then have "mg_queue_book len q = Some (length (q_buf q) - q_head q - 8, q_head q + 4, q)"
        using ge by (simp add: mg_queue_book_def s)
      moreover have "q_room q ms len" using flat True len q(3) by (auto simp: q_room_def)
      moreover have "len \<le> length (q_buf q) - (q_head q + 8)" using True by linarith
      ultimately show ?thesis using assms(1) by simp
    next
      case False
      show ?thesis
      proof (cases "q_tail q > 8")
        case True
        obtain c1 c2 where c: "c = c1 @ c2" "length c1 = 4" using split_list_at[OF q(4)] by blast
        define q' where "q' = q\<lparr>q_buf := a @ encs ms @ le32 0 @ c2, q_head := 0\<rparr>"
        have w: "q_wrap q' ms [] a c2" using True q(2) by (auto simp: q_wrap_def q'_def)
        have l: "length (q_buf q') = length (q_buf q)" by (simp add: q'_def q(1) c)
        have "mg_queue_write_len 0 q = Some (q\<lparr>q_buf := (a @ encs ms) @ le32 0 @ c2\<rparr>)"
          by (rule write_len_at) (use q c in simp_all)
        then have "mg_queue_book len q =
            Some (if 8 + len < q_tail q then q_tail q - 8 else 0, q_head q' + 4, q')"
          using False True ge assms(3) by (simp add: mg_queue_book_def s q'_def)
        moreover have "q_rep q' ms" using w l size unfolding q_rep_def by (auto intro: exI[of _ ms])
        moreover have "q_room q' ms len" if "8 + len < q_tail q"
          using w that q(2) unfolding q_room_def by (intro disjI2 exI[of _ ms] exI[of _ "[]"] exI[of _ a] exI[of _ c2]) simp
        ultimately show ?thesis using l assms(2) False by (auto split: if_splits)
      next
        case small: False
        then have "mg_queue_book len q = Some (0, q_head q + 4, q)"
          using False ge by (simp add: mg_queue_book_def s)
        then show ?thesis using assms(1,2) False small by simp
      qed
    qed
  next
    case wrap
    then have q: "q_buf q = encs ms2 @ b @ encs ms1 @ le32 0 @ d" "q_head q = length (encs ms2)"
      "q_tail q = length (encs ms2) + length b" "b \<noteq> []" by (simp_all add: q_wrap_def)
    have "q_head q < q_tail q" using q(2-4) by simp
    have "length (encs ms2) < 2 ^ 31" using size(1) by (simp add: q(1))
    then have s: "size_t (q_head q + 8 + len) = q_head q + 8 + len" using assms(3) q(2) by simp
    have "mg_queue_book len q = Some (if q_head q + 8 + len < q_tail q then q_tail q - q_head q - 8 else 0, q_head q + 4, q)"
      using \<open>q_head q < q_tail q\<close> by (simp add: mg_queue_book_def s)
    moreover have "q_room q ms len" if "q_head q + 8 + len < q_tail q"
      using wrap that q unfolding q_room_def by (intro disjI2 exI[of _ ms1] exI[of _ ms2] exI[of _ b] exI[of _ d]) simp
    ultimately show ?thesis using assms(1,2) \<open>q_head q < q_tail q\<close> by (auto split: if_splits)
  qed
qed

text \<open>A message written where there is room becomes the last one.\<close>

lemma put_rep:
  assumes "q_rep q ms" "q_room q ms (length m)" "m \<noteq> []"
  shows "\<exists>buf q'. arr_copy (q_buf q) (int (q_head q + 4)) m = Some buf \<and>
    mg_queue_add (length m) (q\<lparr>q_buf := buf\<rparr>) = Some q' \<and> q_rep q' (ms @ [m]) \<and> length (q_buf q') = length (q_buf q)"
proof -
  have size: "length (q_buf q) < 2 ^ 31" "[] \<notin> set ms" using assms(1) by (simp_all add: q_rep_def)
  have cut: "\<exists>r. arr_copy (q_buf q) (int (q_head q + 4)) m = Some (pre @ y1 @ m @ y3 @ post) \<and> r = y1 @ y3 @ m"
    if "q_buf q = pre @ (y1 @ y2 @ y3) @ post" "q_head q = length pre" "length y1 = 4" "length y2 = length m" for pre y1 y2 y3 post
    using arr_copy_mid[of "int (q_head q + 4)" "pre @ y1" m y2 "y3 @ post"] that by simp
  have add: "mg_queue_add (length m) (q\<lparr>q_buf := pre @ y1 @ m @ r\<rparr>) = Some (q\<lparr>q_buf := pre @ enc m @ r, q_head := q_head q + length m + 4\<rparr>)"
    if "q_head q = length pre" "length y1 = 4" "4 \<le> length r" "length (pre @ y1 @ m @ r) = length (q_buf q)" for pre y1 r
  proof -
    have "mg_queue_write_len (length m) (q\<lparr>q_buf := pre @ y1 @ m @ r\<rparr>) = Some (q\<lparr>q_buf := pre @ le32 (length m) @ m @ r\<rparr>)"
      using that size(1) write_len_at[of "q\<lparr>q_buf := pre @ y1 @ m @ r\<rparr>" pre y1 "m @ r" "length m"] by simp
    then show ?thesis
      using that assms(3) size(1) by (simp add: mg_queue_add_def enc_def)
  qed
  from assms(2) consider
      (flat) a c where "q_flat q ms a c" "length m + 8 \<le> length c"
    | (wrap) ms1 ms2 b d where "ms = ms1 @ ms2" "q_wrap q ms1 ms2 b d" "length m + 8 < length b"
    by (auto simp: q_room_def)
  then show ?thesis
  proof cases
    case flat
    then have q: "q_buf q = a @ encs ms @ c" "q_tail q = length a" "q_head q = length a + length (encs ms)"
      by (simp_all add: q_flat_def)
    obtain c1 c23 where c1: "c = c1 @ c23" "length c1 = 4" using split_list_at[of 4 c] flat(2) by auto
    obtain c2 c3 where c2: "c23 = c2 @ c3" "length c2 = length m" using split_list_at[of "length m" c23] flat(2) c1 by auto
    have l3: "4 \<le> length c3" using flat(2) c1 c2 by simp
    have copy: "arr_copy (q_buf q) (int (q_head q + 4)) m = Some ((a @ encs ms) @ c1 @ m @ c3)"
      using cut[of "a @ encs ms" c1 c2 c3 "[]"] q c1 c2 by simp
    let ?q = "q\<lparr>q_buf := (a @ encs ms) @ enc m @ c3, q_head := q_head q + length m + 4\<rparr>"
    have "mg_queue_add (length m) (q\<lparr>q_buf := (a @ encs ms) @ c1 @ m @ c3\<rparr>) = Some ?q"
      by (rule add) (use q c1 c2 l3 in simp_all)
    moreover have "q_flat ?q (ms @ [m]) a c3" using q l3 by (simp add: q_flat_def)
    moreover have "length (q_buf ?q) = length (q_buf q)" using q(1) c1 c2 by simp
    ultimately show ?thesis
      using copy size assms(3) unfolding q_rep_def by (intro exI[of _ "(a @ encs ms) @ c1 @ m @ c3"] exI[of _ ?q]) auto
  next
    case wrap
    then have q: "q_buf q = encs ms2 @ b @ encs ms1 @ le32 0 @ d" "q_head q = length (encs ms2)"
      "q_tail q = length (encs ms2) + length b" by (simp_all add: q_wrap_def)
    obtain b1 b23 where b1: "b = b1 @ b23" "length b1 = 4" using split_list_at[of 4 b] wrap(3) by auto
    obtain b2 b3 where b2: "b23 = b2 @ b3" "length b2 = length m" using split_list_at[of "length m" b23] wrap(3) b1 by auto
    have l3: "4 < length b3" using wrap(3) b1 b2 by simp
    let ?r = "b3 @ encs ms1 @ le32 0 @ d"
    have copy: "arr_copy (q_buf q) (int (q_head q + 4)) m = Some (encs ms2 @ b1 @ m @ ?r)"
      using cut[of "encs ms2" b1 b2 b3 "encs ms1 @ le32 0 @ d"] q b1 b2 by simp
    let ?q = "q\<lparr>q_buf := encs ms2 @ enc m @ ?r, q_head := q_head q + length m + 4\<rparr>"
    have "mg_queue_add (length m) (q\<lparr>q_buf := encs ms2 @ b1 @ m @ ?r\<rparr>) = Some ?q"
      by (rule add) (use q b1 b2 l3 in simp_all)
    moreover have "q_wrap ?q ms1 (ms2 @ [m]) b3 d" using q l3 b1 b2 by (auto simp: q_wrap_def)
    moreover have "length (q_buf ?q) = length (q_buf q)" using q(1) b1 b2 by simp
    moreover have "ms @ [m] = ms1 @ ms2 @ [m]" by (simp add: wrap(1))
    ultimately show ?thesis
      using copy size assms(3) unfolding q_rep_def by (intro exI[of _ "encs ms2 @ b1 @ m @ ?r"] exI[of _ ?q]) fastforce
  qed
qed

text \<open>mg_queue_next shows the oldest message, and mg_queue_del takes it off.\<close>

lemma oldest:
  assumes "q_buf q = a @ enc m @ c" "q_tail q = length a" "length (q_buf q) < 2 ^ 31" "4 \<le> length c"
  shows "mg_queue_read_len q = Some (length m)" "size_t (q_tail q + length m) \<le> length (q_buf q)"
    "arr_slice (q_buf q) (int (q_tail q + 4)) (int (length m)) = Some m"
    "mg_queue_del (length m) q = Some (q\<lparr>q_tail := length a + length m + 4\<rparr>)"
proof -
  show "mg_queue_read_len q = Some (length m)"
    by (rule read_len_at[where a = a and c = "m @ c"]) (use assms in \<open>simp_all add: enc_def\<close>)
  show "arr_slice (q_buf q) (int (q_tail q + 4)) (int (length m)) = Some m"
    using arr_slice_mid[of "int (q_tail q + 4)" "a @ le32 (length m)" "int (length m)" m c] assms by (simp add: enc_def)
  show "size_t (q_tail q + length m) \<le> length (q_buf q)" using assms by simp
  show "mg_queue_del (length m) q = Some (q\<lparr>q_tail := length a + length m + 4\<rparr>)"
    using assms by (simp add: mg_queue_del_def)
qed

lemma next_flat:
  assumes "q_flat q ms a c" "length (q_buf q) < 2 ^ 31" "[] \<notin> set ms"
  shows "mg_queue_next q = Some (case ms of [] \<Rightarrow> 0 | m # ms' \<Rightarrow> length m, q_tail q + 4, q)"
proof (cases ms)
  case Nil
  then have "q_tail q = q_head q" "q_tail q \<le> length (q_buf q)" using assms(1) by (simp_all add: q_flat_def)
  then show ?thesis using Nil assms(2) by (simp add: mg_queue_next_def)
next
  case (Cons m ms')
  then have q: "q_buf q = a @ enc m @ encs ms' @ c" "q_tail q = length a" "q_head q = length a + (length m + 4 + length (encs ms'))"
    using assms(1) by (simp_all add: q_flat_def)
  have "4 \<le> length (encs ms' @ c)" using assms(1) by (simp add: q_flat_def)
  from oldest[OF q(1,2) assms(2) this] show ?thesis
    using q Cons assms(3) by (auto simp: mg_queue_next_def)
qed

lemma next_rep:
  assumes "q_rep q ms"
  shows "\<exists>q'. mg_queue_next q = Some (case ms of [] \<Rightarrow> 0 | m # ms' \<Rightarrow> length m, q_tail q' + 4, q') \<and> q_rep q' ms \<and>
    length (q_buf q') = length (q_buf q) \<and> (ms = [] \<longrightarrow> q_tail q' = q_head q') \<and>
    (\<forall>m ms'. ms = m # ms' \<longrightarrow> arr_slice (q_buf q') (int (q_tail q' + 4)) (int (length m)) = Some m \<and>
      (\<exists>q2. mg_queue_del (length m) q' = Some q2 \<and> q_rep q2 ms' \<and> length (q_buf q2) = length (q_buf q)))"
proof -
  have size: "length (q_buf q) < 2 ^ 31" "[] \<notin> set ms" using assms by (simp_all add: q_rep_def)
  have one: "?thesis" if n: "mg_queue_next q = mg_queue_next p" and f: "q_flat p ms a c" and l: "length (q_buf p) = length (q_buf q)" for p a c
  proof -
    have "q_rep p ms" using f l size by (auto simp: q_rep_def)
    moreover have "arr_slice (q_buf p) (int (q_tail p + 4)) (int (length m)) = Some m \<and>
      (\<exists>q2. mg_queue_del (length m) p = Some q2 \<and> q_rep q2 ms' \<and> length (q_buf q2) = length (q_buf q))" if "ms = m # ms'" for m ms'
    proof -
      have p: "q_buf p = a @ enc m @ encs ms' @ c" "q_tail p = length a" "4 \<le> length (encs ms' @ c)"
        using f that by (simp_all add: q_flat_def)
      have "q_flat (p\<lparr>q_tail := length a + length m + 4\<rparr>) ms' (a @ enc m) c" using f that by (simp add: q_flat_def)
      then have "q_rep (p\<lparr>q_tail := length a + length m + 4\<rparr>) ms'" using l size that by (auto simp: q_rep_def)
      with oldest[OF p(1,2) _ p(3)] l size(1) show ?thesis by simp
    qed
    moreover have "q_tail p = q_head p" if "ms = []" using f that by (simp add: q_flat_def)
    ultimately show ?thesis using next_flat[OF f] l size n by (intro exI[of _ p]) simp
  qed
  consider (flat) a c where "q_flat q ms a c" | (wrap) ms1 ms2 b d where "ms = ms1 @ ms2" "q_wrap q ms1 ms2 b d"
    using assms by (auto simp: q_rep_def)
  then show ?thesis
  proof cases
    case flat
    then show ?thesis by (rule one[OF refl _ refl])
  next
    case wrap
    then have q: "q_buf q = encs ms2 @ b @ encs ms1 @ le32 0 @ d" "q_head q = length (encs ms2)"
      "q_tail q = length (encs ms2) + length b" "b \<noteq> []" by (simp_all add: q_wrap_def)
    have ne: "q_tail q \<noteq> q_head q" using q by simp
    show ?thesis
    proof (cases ms1)
      case Nil
      let ?p = "q\<lparr>q_tail := 0\<rparr>"
      have f: "q_flat ?p ms [] (b @ le32 0 @ d)" using q wrap(1) Nil by (simp add: q_flat_def)
      have "mg_queue_read_len q = Some 0"
        by (rule read_len_at[where a = "encs ms2 @ b" and c = d]) (use q Nil size in simp_all)
      then have "mg_queue_next q = mg_queue_next ?p"
      proof (cases ms)
        case Nil
        then have "q_head q = 0" using q(2) wrap(1) by simp
        then show ?thesis using ne \<open>mg_queue_read_len q = Some 0\<close> by (simp add: mg_queue_next_def Let_def)
      next
        case (Cons m ms')
        then have "q_buf ?p = [] @ enc m @ (encs ms' @ b @ le32 0 @ d)" "0 < q_head q" "length m \<noteq> 0"
          "4 \<le> length (encs ms' @ b @ le32 0 @ d)"
          using q(1,2) wrap(1) \<open>ms1 = []\<close> size(2) by auto
        moreover from this have "mg_queue_read_len ?p = Some (length m)"
          by (intro oldest(1)) (use size(1) in auto)
        ultimately show ?thesis using ne \<open>mg_queue_read_len q = Some 0\<close> by (simp add: mg_queue_next_def Let_def)
      qed
      with one[OF _ f] show ?thesis by simp
    next
      case (Cons m ms1')
      have o: "q_buf q = (encs ms2 @ b) @ enc m @ (encs ms1' @ le32 0 @ d)" "q_tail q = length (encs ms2 @ b)"
        "4 \<le> length (encs ms1' @ le32 0 @ d)" using q Cons by simp_all
      note old = oldest[OF o(1,2) size(1) o(3)]
      have "length m \<noteq> 0" using size(2) wrap(1) Cons by auto
      then have "mg_queue_next q = Some (length m, q_tail q + 4, q)"
        using old(1,2) ne by (simp add: mg_queue_next_def)
      moreover have "q_wrap (q\<lparr>q_tail := length (encs ms2 @ b) + length m + 4\<rparr>) ms1' ms2 (b @ enc m) d"
        using q Cons by (simp add: q_wrap_def)
      then have "q_rep (q\<lparr>q_tail := length (encs ms2 @ b) + length m + 4\<rparr>) (ms1' @ ms2)"
        using size wrap(1) Cons unfolding q_rep_def by auto
      ultimately show ?thesis using old(3,4) wrap(1) Cons assms by (intro exI[of _ q]) simp
    qed
  qed
qed

section \<open>The path of the frames\<close>

text \<open>
  What the driver and the poll do between them: a frame that is queued is counted as accepted, a
  poll takes at most seven out.
\<close>

datatype 'm queue_event = Arrives 'm | Polled

fun queue_step ::
    "('m \<Rightarrow> 'q \<Rightarrow> (bool \<times> 'q) option) \<Rightarrow> ('q \<times> 's \<Rightarrow> ('q \<times> 's) option) \<Rightarrow> 'm queue_event \<Rightarrow>
      'q \<times> 'm list \<times> 's \<Rightarrow> ('q \<times> 'm list \<times> 's) option" where
  "queue_step put poll (Arrives m) (q, acc, s) = do { (ok, q) \<leftarrow> put m q; Some (q, if ok then acc @ [m] else acc, s) }"
| "queue_step put poll Polled (q, acc, s) = do { (q, s) \<leftarrow> poll (q, s); Some (q, acc, s) }"

fun arrived :: "'m queue_event list \<Rightarrow> 'm list" where
  "arrived [] = []"
| "arrived (Arrives m # es) = m # arrived es"
| "arrived (Polled # es) = arrived es"

text \<open>
  The interface of the queue to its two users: it holds a list of messages, a message is added at
  the end or dropped, and a poll hands the first ones to the receiver.
\<close>

locale frame_queue =
  fixes rep :: "'q \<Rightarrow> 'm list \<Rightarrow> bool"
    and good :: "'m \<Rightarrow> bool"
    and put :: "'m \<Rightarrow> 'q \<Rightarrow> (bool \<times> 'q) option"
    and rx :: "'m \<Rightarrow> 's \<Rightarrow> 's option"
    and poll :: "'q \<times> 's \<Rightarrow> ('q \<times> 's) option"
  assumes put_law: "rep q ms \<Longrightarrow> good m \<Longrightarrow> \<exists>ok q'. put m q = Some (ok, q') \<and> rep q' (if ok then ms @ [m] else ms)"
    and poll_law: "rep q ms \<Longrightarrow> \<exists>k. \<forall>s'. for_each (take k ms) rx s = Some s' \<longrightarrow>
      (\<exists>q'. poll (q, s) = Some (q', s') \<and> rep q' (drop k ms))"
begin

lemma in_order:
  assumes "rep q ms" "list_all good (arrived es)"
    and "\<And>fs. subseq fs (ms @ arrived es) \<Longrightarrow> for_each fs rx s \<noteq> None"
  shows "\<exists>q' acc handled ms' s'. for_each es (queue_step put poll) (q, past, s) = Some (q', past @ acc, s') \<and>
    rep q' ms' \<and> ms @ acc = handled @ ms' \<and> for_each handled rx s = Some s' \<and> subseq acc (arrived es)"
  using assms
proof (induction es arbitrary: q ms past s)
  case Nil
  then show ?case by (intro exI[of _ q] exI[of _ "[]"] exI[of _ ms]) simp
next
  case (Cons e es)
  show ?case
  proof (cases e)
    case (Arrives m)
    with Cons.prems(1,2) put_law obtain ok q1 where q1: "put m q = Some (ok, q1)" "rep q1 (if ok then ms @ [m] else ms)" by force
    have "for_each fs rx s \<noteq> None" if "subseq fs ((if ok then ms @ [m] else ms) @ arrived es)" for fs
    proof (rule Cons.prems(3), rule subseq_order.trans[OF that])
      show "subseq ((if ok then ms @ [m] else ms) @ arrived es) (ms @ arrived (e # es))"
        using Arrives by (auto intro: list_emb_append_mono)
    qed
    from Cons.IH[OF q1(2) _ this, of "if ok then past @ [m] else past"] Cons.prems(2) Arrives obtain q' acc handled ms' s' where r:
      "for_each es (queue_step put poll) (q1, if ok then past @ [m] else past, s) =
        Some (q', (if ok then past @ [m] else past) @ acc, s')" "rep q' ms'"
      "(if ok then ms @ [m] else ms) @ acc = handled @ ms'" "for_each handled rx s = Some s'" "subseq acc (arrived es)" by auto
    then show ?thesis
      using Arrives q1(1)
      by (intro exI[of _ q'] exI[of _ "if ok then m # acc else acc"] exI[of _ handled] exI[of _ ms'] exI[of _ s'])
        (cases ok; auto)
  next
    case Polled
    from poll_law[OF Cons.prems(1), of s] obtain k where law: "\<And>s'. for_each (take k ms) rx s = Some s' \<Longrightarrow>
      \<exists>q'. poll (q, s) = Some (q', s') \<and> rep q' (drop k ms)" by blast
    have "subseq (take k ms) (ms @ arrived (e # es))" by (metis append_take_drop_id list_emb_append2 subseq_order.refl append.assoc subseq_rev_drop_many)
    then obtain s1 where s1: "for_each (take k ms) rx s = Some s1" using Cons.prems(3) by blast
    from law[OF this] obtain q1 where q1: "poll (q, s) = Some (q1, s1)" "rep q1 (drop k ms)" by blast
    have "for_each fs rx s1 \<noteq> None" if "subseq fs (drop k ms @ arrived es)" for fs
    proof -
      have "subseq (take k ms @ fs) (take k ms @ drop k ms @ arrived es)" using that by (simp add: subseq_append')
      then have "for_each (take k ms @ fs) rx s \<noteq> None" using Cons.prems(3) Polled by (simp add: append.assoc[symmetric] del: append.assoc)
      then show ?thesis using s1 by (simp add: for_each_append)
    qed
    from Cons.IH[OF q1(2) _ this, of past] Cons.prems(2) Polled obtain q' acc handled ms' s' where r:
      "for_each es (queue_step put poll) (q1, past, s1) = Some (q', past @ acc, s')" "rep q' ms'"
      "drop k ms @ acc = handled @ ms'" "for_each handled rx s1 = Some s'" "subseq acc (arrived es)" by auto
    have "ms @ acc = (take k ms @ handled) @ ms'" using r(3) by (metis append.assoc append_take_drop_id)
    then show ?thesis
      using Polled q1 s1 r
      by (intro exI[of _ q'] exI[of _ acc] exI[of _ "take k ms @ handled"] exI[of _ ms'] exI[of _ s'])
        (simp add: for_each_append)
  qed
qed

end

lemma qwrite_rep:
  assumes "q_rep q ms" "m \<noteq> []" "length m < 2 ^ 30"
  shows "\<exists>ok q'. mg_tcpip_qwrite m q = Some (ok, q') \<and> q_rep q' (if ok then ms @ [m] else ms)"
proof -
  have "0 < length m" using assms(2) by simp
  from book_rep[OF assms(1) this assms(3)] obtain space q1 where b: "mg_queue_book (length m) q = Some (space, q_head q1 + 4, q1)"
    "q_rep q1 ms" "length m \<le> space \<longrightarrow> q_room q1 ms (length m)" by blast
  show ?thesis
  proof (cases "length m \<le> space")
    case True
    with put_rep[OF b(2) _ assms(2)] b(3) obtain buf q' where "arr_copy (q_buf q1) (int (q_head q1 + 4)) m = Some buf"
      "mg_queue_add (length m) (q1\<lparr>q_buf := buf\<rparr>) = Some q'" "q_rep q' (ms @ [m])" by blast
    then show ?thesis using b(1) True by (intro exI[of _ True] exI[of _ q']) (simp add: mg_tcpip_qwrite_def)
  next
    case False
    then show ?thesis using b by (intro exI[of _ False] exI[of _ q1]) (simp add: mg_tcpip_qwrite_def)
  qed
qed

lemma poll_rep:
  assumes "q_rep q ms" "for_each (take n ms) rx s = Some s'"
  shows "\<exists>q'. poll_frames n rx (q, s) = Some (q', s') \<and> q_rep q' (drop n ms) \<and>
    (length ms < n \<longrightarrow> q_tail q' = q_head q') \<and> length (q_buf q') = length (q_buf q)"
  using assms
proof (induction n arbitrary: q ms s)
  case 0
  then show ?case by simp
next
  case (Suc n)
  from next_rep[OF Suc.prems(1)] obtain q1 where q1: "mg_queue_next q = Some (case ms of [] \<Rightarrow> 0 | m # ms' \<Rightarrow> length m, q_tail q1 + 4, q1)"
    "q_rep q1 ms" "length (q_buf q1) = length (q_buf q)" "ms = [] \<Longrightarrow> q_tail q1 = q_head q1"
    "\<And>m ms'. ms = m # ms' \<Longrightarrow> arr_slice (q_buf q1) (int (q_tail q1 + 4)) (int (length m)) = Some m \<and>
      (\<exists>q2. mg_queue_del (length m) q1 = Some q2 \<and> q_rep q2 ms' \<and> length (q_buf q2) = length (q_buf q))" by blast
  show ?case
  proof (cases ms)
    case Nil
    then show ?thesis using q1(1-4) Suc.prems(2) by simp
  next
    case (Cons m ms')
    from q1(5)[OF Cons] obtain q2 where q2: "arr_slice (q_buf q1) (int (q_tail q1 + 4)) (int (length m)) = Some m"
      "mg_queue_del (length m) q1 = Some q2" "q_rep q2 ms'" "length (q_buf q2) = length (q_buf q)" by blast
    from Suc.prems(2) Cons obtain s1 where s1: "rx m s = Some s1" "for_each (take n ms') rx s1 = Some s'"
      by (auto simp: bind_eq_Some_conv)
    have "m \<noteq> []" using q1(2) Cons by (auto simp: q_rep_def)
    then show ?thesis using Suc.IH[OF q2(3) s1(2)] q1(1) q2(1,2,4) Cons s1(1) by simp
  qed
qed

interpretation frames: frame_queue q_rep "\<lambda>m. m \<noteq> [] \<and> length m < 2 ^ 30" mg_tcpip_qwrite rx "poll_frames n rx"
  for rx :: "u8 list \<Rightarrow> 's \<Rightarrow> 's option" and n
proof
  show "q_rep q ms \<Longrightarrow> m \<noteq> [] \<and> length m < 2 ^ 30 \<Longrightarrow>
      \<exists>ok q'. mg_tcpip_qwrite m q = Some (ok, q') \<and> q_rep q' (if ok then ms @ [m] else ms)" for q ms m
    using qwrite_rep by blast
  show "q_rep q ms \<Longrightarrow> \<exists>k. \<forall>s'. for_each (take k ms) rx s = Some s' \<longrightarrow>
      (\<exists>q'. poll_frames n rx (q, s) = Some (q', s') \<and> q_rep q' (drop k ms))" for q ms and s :: 's
    using poll_rep[of q ms n rx s] by blast
qed

section \<open>Properties\<close>

lemma q_rep_init: "4 \<le> length buf \<Longrightarrow> length buf < 2 ^ 31 \<Longrightarrow> q_rep (mg_queue_init buf) []"
  unfolding q_rep_def
  by (intro conjI disjI1 exI[of _ "[]"] exI[of _ buf]) (simp_all add: mg_queue_init_def q_flat_def)

lemma frames_path:
  assumes "4 \<le> length buf" "length buf < 2 ^ 31" "list_all (\<lambda>m. m \<noteq> [] \<and> length m < 2 ^ 30) (arrived es)"
    and "\<And>fs. subseq fs (arrived es) \<Longrightarrow> for_each fs rx s \<noteq> None"
  shows "\<exists>q acc handled ms s'. for_each es (queue_step mg_tcpip_qwrite (poll_frames 7 rx)) (mg_queue_init buf, [], s) = Some (q, acc, s') \<and>
    q_rep q ms \<and> acc = handled @ ms \<and> for_each handled rx s = Some s' \<and> subseq acc (arrived es)"
  using frames.in_order[where past = "[]" and n = 7 and s = s, OF q_rep_init[OF assms(1,2)] assms(3), of rx] assms(4) by auto





end
