(* ===== verification/Dns.thy ===== *)
theory Dns
  imports Prelude "HOL-Library.Monad_Syntax"
begin

text \<open>
  The DNS responder of the ESP32's portal (firmware/esp32/main/captive_portal.c, dns_task): one
  round of its loop, from a datagram to the reply, and a reader of DNS messages that says what
  a resolver gets.
\<close>

section \<open>The code\<close>

text \<open>The result of recvfrom with room for 492 bytes: None is an error, a longer datagram is cut.\<close>

definition dns_recv :: "u8 list option \<Rightarrow> int \<times> u8 list" where
  "dns_recv d = (case d of None \<Rightarrow> (-1, []) | Some bytes \<Rightarrow> (int (length (take 492 bytes)), take 492 bytes))"

definition dns_stack :: "u8 list" where
  "dns_stack = replicate 512 0"

definition dns_answer_bytes :: "u8 list" where
  "dns_answer_bytes = [0xC0, 0x0C, 0x00, 0x01, 0x00, 0x01, 0x00, 0x00, 0x00, 0x3C, 0x00, 0x04, 192, 168, 4, 1]"

text \<open>resp[rlen++] = b for each byte.\<close>

definition dns_append :: "u8 \<Rightarrow> u8 list \<times> int \<Rightarrow> (u8 list \<times> int) option" where
  "dns_append b p = (case p of (resp, rlen) \<Rightarrow> do { resp \<leftarrow> arr_set resp rlen b; Some (resp, rlen + 1) })"

text \<open>A round: None inside the result is the continue of a datagram that is too short.\<close>

definition dns_round :: "u8 list option \<Rightarrow> u8 list option option" where
  "dns_round d = (let (len, buf) = dns_recv d in
     if len < 12 then Some None
     else do {
       bytes \<leftarrow> arr_slice buf 0 len;
       resp \<leftarrow> arr_copy dns_stack 0 bytes;
       resp \<leftarrow> arr_set resp 2 0x81;
       resp \<leftarrow> arr_set resp 3 0x80;
       resp \<leftarrow> arr_set resp 7 1;
       (resp, rlen) \<leftarrow> for_each dns_answer_bytes dns_append (resp, len);
       sent \<leftarrow> arr_slice resp 0 rlen;
       Some (Some sent)
     })"

text \<open>The loop over the datagrams received, with the replies it sends.\<close>

definition dns_task :: "u8 list option list \<Rightarrow> u8 list list option" where
  "dns_task ds = for_each ds (\<lambda>d sent. do {
     r \<leftarrow> dns_round d;
     Some (case r of None \<Rightarrow> sent | Some reply \<Rightarrow> sent @ [reply])
   }) []"

section \<open>DNS messages\<close>

text \<open>Labels up to the root label; a name may also be a pointer to an offset of the message.\<close>

fun dns_labels :: "u8 list \<Rightarrow> (u8 list list \<times> u8 list) option" where
  "dns_labels [] = None"
| "dns_labels (n # bytes) =
    (if n = 0 then Some ([], bytes)
     else if unat n < 64 \<and> unat n \<le> length bytes
     then do { (ls, rest) \<leftarrow> dns_labels (drop (unat n) bytes); Some (take (unat n) bytes # ls, rest) }
     else None)"

declare dns_labels.simps [simp del]

definition dns_name_at :: "u8 list \<Rightarrow> u8 list \<Rightarrow> (u8 list list \<times> u8 list) option" where
  "dns_name_at msg bytes =
    (case bytes of
       hi # lo # rest \<Rightarrow>
         if hi \<ge> 0xC0 then do {
           (ls, _) \<leftarrow> dns_labels (drop (256 * (unat hi - 192) + unat lo) msg);
           Some (ls, rest)
         } else dns_labels bytes
     | _ \<Rightarrow> dns_labels bytes)"

datatype dns_record = Dns_record (rname: "u8 list list") (rtype: nat) (rclass: nat) (rttl: nat) (rdata: "u8 list")

fun be_nat :: "u8 list \<Rightarrow> nat" where
  "be_nat [] = 0"
| "be_nat (b # bs) = unat b * 256 ^ length bs + be_nat bs"

text \<open>The first record after the one question of a message that has an answer.\<close>

definition dns_first_answer :: "u8 list \<Rightarrow> dns_record option" where
  "dns_first_answer msg =
    (if length msg < 12 \<or> be_nat (take 2 (drop 4 msg)) \<noteq> 1 \<or> be_nat (take 2 (drop 6 msg)) = 0 then None
     else do {
       (_, rest) \<leftarrow> dns_labels (drop 12 msg);
       (name, rest) \<leftarrow> dns_name_at msg (drop 4 rest);
       let n = be_nat (take 2 (drop 8 rest));
       if length rest < 10 + n then None
       else Some (Dns_record name (be_nat (take 2 rest)) (be_nat (take 2 (drop 2 rest)))
         (be_nat (take 4 (drop 4 rest))) (take n (drop 10 rest)))
     })"

text \<open>A query: id, flags, one question, the count of additional records and these records.\<close>

definition dns_encode_name :: "u8 list list \<Rightarrow> u8 list" where
  "dns_encode_name ls = concat (map (\<lambda>l. of_nat (length l) # l) ls) @ [0]"

definition dns_query :: "u8 list \<Rightarrow> u8 list \<Rightarrow> u8 list list \<Rightarrow> u8 list \<Rightarrow> u8 list \<Rightarrow> u8 list \<Rightarrow> u8 list" where
  "dns_query qid flags name qtype arcount extra =
     qid @ flags @ [0, 1, 0, 0, 0, 0] @ arcount @ dns_encode_name name @ qtype @ [0, 1] @ extra"

definition dns_labels_ok :: "u8 list list \<Rightarrow> bool" where
  "dns_labels_ok ls = (\<forall>l\<in>set ls. l \<noteq> [] \<and> length l < 64)"

section \<open>Lemmas\<close>

lemma dns_append_each:
  assumes "length resp + length bs \<le> 512" "length pad = 512 - length resp"
  shows "for_each bs dns_append (resp @ pad, int (length resp)) =
    Some ((resp @ bs) @ drop (length bs) pad, int (length (resp @ bs)))"
  using assms
proof (induction bs arbitrary: resp pad)
  case Nil
  then show ?case by simp
next
  case (Cons b bs)
  then obtain p pad' where pad: "pad = p # pad'" by (cases pad) auto
  have "dns_append b (resp @ pad, int (length resp)) = Some ((resp @ [b]) @ pad', int (length (resp @ [b])))"
    using Cons.prems by (simp add: dns_append_def pad list_update_append)
  then show ?case
    using Cons.IH[of "resp @ [b]" pad'] Cons.prems by (simp add: pad)
qed

text \<open>The reply: the datagram with the response flags and one answer counted, then the answer.\<close>

definition dns_header_set :: "u8 list \<Rightarrow> u8 list" where
  "dns_header_set bytes = bytes[2 := 0x81, 3 := 0x80, 7 := 1]"

lemma dns_round_eq:
  assumes "12 \<le> length bytes" "length bytes \<le> 492"
  shows "dns_round (Some bytes) = Some (Some (dns_header_set bytes @ dns_answer_bytes))"
proof -
  have copy: "arr_copy dns_stack 0 bytes = Some (bytes @ replicate (512 - length bytes) 0)"
    using assms by (simp add: dns_stack_def del: replicate.simps(2))
  have set: "(bytes @ replicate (512 - length bytes) 0)[2 := 0x81, 3 := 0x80, 7 := 1] =
      dns_header_set bytes @ replicate (512 - length bytes) 0"
    using assms(1) by (simp add: dns_header_set_def list_update_append1)
  have len: "length (dns_header_set bytes) = length bytes" "length dns_answer_bytes = 16"
    by (simp_all add: dns_header_set_def dns_answer_bytes_def)
  have app: "for_each dns_answer_bytes dns_append (dns_header_set bytes @ replicate (512 - length bytes) 0, int (length bytes)) =
      Some ((dns_header_set bytes @ dns_answer_bytes) @ drop 16 (replicate (512 - length bytes) 0), int (length bytes + 16))"
    using dns_append_each[of "dns_header_set bytes" dns_answer_bytes "replicate (512 - length bytes) 0"] assms len by simp
  show ?thesis
    using assms copy set app len by (simp add: dns_round_def dns_recv_def)
qed

lemma dns_labels_encode:
  assumes "dns_labels_ok ls"
  shows "dns_labels (dns_encode_name ls @ rest) = Some (ls, rest)"
  using assms
proof (induction ls)
  case Nil
  then show ?case by (simp add: dns_encode_name_def dns_labels.simps)
next
  case (Cons l ls)
  have l: "unat (of_nat (length l) :: u8) = length l" "(of_nat (length l) :: u8) \<noteq> 0"
    using Cons.prems by (auto simp: dns_labels_ok_def unsigned_of_nat take_bit_nat_eq_self word_of_nat_eq_0_iff nat_dvd_not_less)
  have "dns_encode_name (l # ls) @ rest = of_nat (length l) # l @ dns_encode_name ls @ rest"
    by (simp add: dns_encode_name_def)
  then show ?case
    using Cons l by (simp add: dns_labels.simps(2) dns_labels_ok_def)
qed

text \<open>A query and its reply, byte by byte.\<close>

lemma dns_header_set_query:
  "dns_header_set (dns_query [q0, q1] [f0, f1] name qtype [r0, r1] extra) =
    [q0, q1, 0x81, 0x80, 0, 1, 0, 1, 0, 0, r0, r1] @ dns_encode_name name @ qtype @ [0, 1] @ extra"
  by (simp add: dns_header_set_def dns_query_def numeral_eq_Suc)

lemma dns_reply_query:
  assumes "length (dns_query [q0, q1] [f0, f1] name [t0, t1] [r0, r1] extra) \<le> 492"
  shows "dns_round (Some (dns_query [q0, q1] [f0, f1] name [t0, t1] [r0, r1] extra)) =
    Some (Some ([q0, q1, 0x81, 0x80, 0, 1, 0, 1, 0, 0, r0, r1] @
      dns_encode_name name @ [t0, t1, 0, 1] @ extra @ dns_answer_bytes))"
  using dns_round_eq[OF _ assms] dns_header_set_query[of q0 q1 f0 f1 name "[t0, t1]" r0 r1 extra]
  by (simp add: dns_query_def)

lemma dns_first_answer_reply:
  assumes "dns_labels_ok name"
  shows "dns_first_answer ([q0, q1, 0x81, 0x80, 0, 1, 0, 1, 0, 0, r0, r1] @
      dns_encode_name name @ [t0, t1, 0, 1] @ rest) =
    do {
      (owner, more) \<leftarrow> dns_name_at ([q0, q1, 0x81, 0x80, 0, 1, 0, 1, 0, 0, r0, r1] @
        dns_encode_name name @ [t0, t1, 0, 1] @ rest) rest;
      let n = be_nat (take 2 (drop 8 more));
      if length more < 10 + n then None
      else Some (Dns_record owner (be_nat (take 2 more)) (be_nat (take 2 (drop 2 more)))
        (be_nat (take 4 (drop 4 more))) (take n (drop 10 more)))
    }"
  using dns_labels_encode[OF assms, of "[t0, t1, 0, 1] @ rest"]
  by (simp add: dns_first_answer_def numeral_eq_Suc)

section \<open>Properties\<close>


text \<open>
  C22: a query with one question and no further records is answered with the portal's address:
  a resolver that reads the reply finds, for the name it asked, a record of type A and class IN
  with a lifetime of 60 seconds and the data 192.168.4.1, whatever type it asked for.
\<close>

theorem dns_reply_is_portal:
  assumes "dns_labels_ok name" and "length (dns_query [q0, q1] [f0, f1] name [t0, t1] [0, 0] []) \<le> 492"
  shows "\<exists>reply. dns_round (Some (dns_query [q0, q1] [f0, f1] name [t0, t1] [0, 0] [])) = Some (Some reply) \<and>
    take 2 reply = [q0, q1] \<and> bit (reply ! 2) 7 \<and>
    dns_first_answer reply = Some (Dns_record name 1 1 60 [192, 168, 4, 1])"
  using dns_reply_query[OF assms(2)] dns_first_answer_reply[OF assms(1), of q0 q1 0 0 t0 t1 dns_answer_bytes]
    dns_labels_encode[OF assms(1)]
  by (simp add: dns_answer_bytes_def dns_name_at_def)

theorem dns_reply_is_portal_witness:
  "\<exists>reply. dns_round (Some (dns_query [0x12, 0x34] [1, 0] [[0x61, 0x62], [0x63]] [0, 1] [0, 0] [])) = Some (Some reply) \<and>
    dns_first_answer reply = Some (Dns_record [[0x61, 0x62], [0x63]] 1 1 60 [192, 168, 4, 1])"
proof -
  have ok: "dns_labels_ok [[0x61, 0x62], [0x63]]" by (simp add: dns_labels_ok_def)
  have len: "length (dns_query [0x12, 0x34] [1, 0] [[0x61, 0x62], [0x63]] [0, 1] [0, 0] []) \<le> 492"
    by (simp add: dns_query_def dns_encode_name_def)
  show ?thesis using dns_reply_is_portal[OF ok len] by blast
qed

text \<open>
  a query with an EDNS record, as most resolvers send, is answered in the wrong place: the
  answer is put after the query's additional record, so that where the header announces the
  answer a resolver reads that record, of type 41, instead of an address.
\<close>

theorem dns_reply_edns_misplaced:
  assumes "dns_labels_ok name"
    and "length (dns_query [q0, q1] [f0, f1] name [t0, t1] [0, 1] [0, 0, 41, s0, s1, 0, 0, 0, 0, 0, 0]) \<le> 492"
  shows "\<exists>reply. dns_round (Some (dns_query [q0, q1] [f0, f1] name [t0, t1] [0, 1] [0, 0, 41, s0, s1, 0, 0, 0, 0, 0, 0]))
      = Some (Some reply) \<and>
    dns_first_answer reply = Some (Dns_record [] 41 (256 * unat s0 + unat s1) 0 [])"
  using dns_reply_query[OF assms(2)]
    dns_first_answer_reply[OF assms(1), of q0 q1 0 1 t0 t1 "[0, 0, 41, s0, s1, 0, 0, 0, 0, 0, 0] @ dns_answer_bytes"]
  by (simp add: dns_name_at_def dns_labels.simps)

theorem dns_reply_edns_misplaced_witness:
  "\<exists>reply. dns_round (Some (dns_query [0x12, 0x34] [1, 0] [[0x61]] [0, 1] [0, 1] [0, 0, 41, 0x10, 0, 0, 0, 0, 0, 0, 0])) =
      Some (Some reply) \<and> dns_first_answer reply = Some (Dns_record [] 41 4096 0 [])"
proof -
  have ok: "dns_labels_ok [[0x61]]" by (simp add: dns_labels_ok_def)
  have len: "length (dns_query [0x12, 0x34] [1, 0] [[0x61]] [0, 1] [0, 1] [0, 0, 41, 0x10, 0, 0, 0, 0, 0, 0, 0]) \<le> 492"
    by (simp add: dns_query_def dns_encode_name_def)
  show ?thesis using dns_reply_edns_misplaced[OF ok len] by simp
qed

end
