(* ===== verification/Portal_Esp32.thy ===== *)
theory Portal_Esp32
  imports C_Library Dns
begin

text \<open>
  Provisioning and boot of the ESP32 (firmware/esp32/main/captive_portal.c, main.c): stored
  credentials, joining the network, the portal with its form handler, and app_main. The
  non-volatile storage is a parameter; calls to the Wi-Fi, HTTP and system functions of
  ESP-IDF are recorded, in order. The portal's DNS task is in Dns.
\<close>

section \<open>Calls and state\<close>

datatype wifi_mode = WIFI_MODE_STA | WIFI_MODE_AP
datatype http_method = HTTP_GET | HTTP_POST

datatype esp_call =
    Nvs_flash_init | Nvs_flash_erase | Netif_init | Event_loop_create | Display_init
  | Event_group_create | Netif_create_sta | Netif_create_ap | Wifi_init
  | Register_wifi_any | Register_got_ip
  | Wifi_set_mode wifi_mode
  | Sta_config "char list" "char list"
  | Ap_config string nat nat
  | Wifi_start | Wifi_connect | Wait_bits nat
  | Dns_task_create | Httpd_start | Httpd_register string http_method
  | Resp_html string | Resp_400 string | Delay_ms nat | Restart | Log string
  | Ws_client_start

record esp =
  esp_calls :: "esp_call list"
  connected_bit :: bool

definition esp_do :: "esp_call list \<Rightarrow> esp \<Rightarrow> esp" where
  "esp_do cs s = s\<lparr>esp_calls := esp_calls s @ cs\<rparr>"

section \<open>Stored credentials\<close>

text \<open>
  The storage functions on the namespace wifi_creds: whether it opens (for writing or not), a
  string that fits the buffer with its terminator, storing one, the commit, and erasing all.
\<close>

record 'n nvs_api =
  nvs_open_ok :: "bool \<Rightarrow> 'n \<Rightarrow> bool"
  nvs_get_str :: "'n \<Rightarrow> string \<Rightarrow> nat \<Rightarrow> string option"
  nvs_set_str :: "string \<Rightarrow> string \<Rightarrow> 'n \<Rightarrow> 'n"
  nvs_commit :: "'n \<Rightarrow> 'n"
  nvs_erase :: "'n \<Rightarrow> 'n"

text \<open>load_credentials: the two strings, or None for false.\<close>

definition load_credentials :: "'n nvs_api \<Rightarrow> 'n \<Rightarrow> nat \<Rightarrow> nat \<Rightarrow> (string \<times> string) option" where
  "load_credentials nv n ssid_max pass_max =
    (if \<not> nvs_open_ok nv False n then None
     else do {
       ssid \<leftarrow> nvs_get_str nv n ''ssid'' ssid_max;
       pass \<leftarrow> nvs_get_str nv n ''pass'' pass_max;
       if c_str ssid \<noteq> [] then Some (ssid, pass) else None
     })"

definition save_credentials :: "'n nvs_api \<Rightarrow> string \<Rightarrow> string \<Rightarrow> 'n \<Rightarrow> 'n" where
  "save_credentials nv ssid pass n =
    (if \<not> nvs_open_ok nv True n then n
     else nvs_commit nv (nvs_set_str nv ''pass'' pass (nvs_set_str nv ''ssid'' ssid n)))"

section \<open>Joining the network\<close>

datatype wifi_event = STA_DISCONNECTED | STA_GOT_IP | Other_wifi_event

definition wifi_event_handler :: "wifi_event \<Rightarrow> esp \<Rightarrow> esp" where
  "wifi_event_handler ev s =
    (case ev of
       STA_DISCONNECTED \<Rightarrow> esp_do [Wifi_connect] s
     | STA_GOT_IP \<Rightarrow> s\<lparr>connected_bit := True\<rparr>
     | Other_wifi_event \<Rightarrow> s)"

text \<open>
  connect_sta; the events are those of the 15 seconds of waiting, which ends with the first
  one that sets the bit. The fields of wifi_cfg.sta have 32 and 64 bytes.
\<close>

fun wait_connected :: "wifi_event list \<Rightarrow> esp \<Rightarrow> esp" where
  "wait_connected [] s = s"
| "wait_connected (ev # evs) s =
     (if connected_bit s then s else wait_connected evs (wifi_event_handler ev s))"

definition connect_sta :: "wifi_event list \<Rightarrow> string \<Rightarrow> string \<Rightarrow> esp \<Rightarrow> (bool \<times> esp) option" where
  "connect_sta evs ssid pass s = do {
     let s = (esp_do [Event_group_create, Netif_create_sta, Wifi_init, Register_wifi_any, Register_got_ip] s)
       \<lparr>connected_bit := False\<rparr>;
     sta_ssid \<leftarrow> c_strlcpy (replicate 32 NUL) (ssid @ [NUL]) 32;
     sta_password \<leftarrow> c_strlcpy (replicate 64 NUL) (pass @ [NUL]) 64;
     let s = esp_do [Wifi_set_mode WIFI_MODE_STA, Sta_config sta_ssid sta_password, Wifi_start, Wifi_connect,
       Wait_bits 15000] s;
     let s = wait_connected evs s;
     Some (connected_bit s, s)
   }"

section \<open>The portal\<close>

definition PORTAL_HTML :: string where
  \<open>PORTAL_HTML =
     ''<!DOCTYPE html><html><head><meta charset=utf-8>'' @
     ''<meta name=viewport content='' @ [CHR 0x27] @ ''width=device-width,initial-scale=1'' @ [CHR 0x27] @ ''>'' @
     ''<title>TextReader Setup</title></head><body>'' @
     ''<h2>TextReader WiFi Setup</h2>'' @
     ''<form method=POST action=/save>'' @
     ''<p><label>Network name (SSID):<br>'' @
     ''<input name=ssid type=text size=32 required></label></p>'' @
     ''<p><label>Password:<br>'' @
     ''<input name=pass type=password size=32></label></p>'' @
     ''<p><input type=submit value='' @ [CHR 0x27] @ ''Connect to WiFi'' @ [CHR 0x27] @ ''></p>'' @
     ''</form></body></html>''\<close>

text \<open>url_decode from the characters of the source left, at index i of the destination.\<close>

fun url_decode_from :: "string \<Rightarrow> nat \<Rightarrow> nat \<Rightarrow> char list \<Rightarrow> char list option" where
  "url_decode_from [] i dst_max dst = arr_set dst (int i) NUL"
| "url_decode_from (c # cs) i dst_max dst =
    (if \<not> i < dst_max - 1 then arr_set dst (int i) NUL
     else if c = CHR ''%'' \<and> length cs \<ge> 2 then do {
       let hex = [cs ! 0, cs ! 1, NUL];
       dst \<leftarrow> arr_set dst (int i) (char_of (nat (strtol16 hex mod 256)));
       url_decode_from (drop 2 cs) (i + 1) dst_max dst
     }
     else if c = CHR ''+'' then do {
       dst \<leftarrow> arr_set dst (int i) (CHR '' '');
       url_decode_from cs (i + 1) dst_max dst
     }
     else do {
       dst \<leftarrow> arr_set dst (int i) c;
       url_decode_from cs (i + 1) dst_max dst
     })"

definition url_decode :: "string \<Rightarrow> char list \<Rightarrow> nat \<Rightarrow> char list option" where
  "url_decode src dst dst_max = url_decode_from (c_str src) 0 dst_max dst"

text \<open>The raw value after the name, up to the next &, at most 63 characters of it.\<close>

definition raw_value :: "string \<Rightarrow> string \<Rightarrow> char list \<Rightarrow> char list option" where
  "raw_value body name raw =
    (case c_strstr body name of
       None \<Rightarrow> Some raw
     | Some p \<Rightarrow>
         (let p = drop 5 p;
              len = (case c_strchr p CHR ''&'' of
                       Some e \<Rightarrow> int (length p) - int (length e) | None \<Rightarrow> int (c_strlen p));
              len = (if len > 63 then 63 else len)
          in do { cs \<leftarrow> arr_slice p 0 len; arr_copy raw 0 cs }))"

definition portal_get_handler :: "esp \<Rightarrow> esp" where
  "portal_get_handler s = esp_do [Resp_html PORTAL_HTML] s"

datatype esp_result = ESP_OK | ESP_FAIL

text \<open>
  portal_post_handler, with the bytes the request's body has: httpd_req_recv gives at most 255
  of them, and a result of zero or less for an empty body or an error.
\<close>

definition portal_post_handler ::
    "'n nvs_api \<Rightarrow> char list option \<Rightarrow> esp \<times> 'n \<Rightarrow> (esp_result \<times> esp \<times> 'n) option" where
  "portal_post_handler nv req p = (let (s, n) = p in
    (case req of
       None \<Rightarrow> Some (ESP_FAIL, s, n)
     | Some received \<Rightarrow>
         (let ret = int (length (take 255 received))
          in if ret \<le> 0 then Some (ESP_FAIL, s, n)
             else do {
               body \<leftarrow> arr_copy (replicate 256 NUL) 0 (take 255 received);
               body \<leftarrow> arr_set body ret NUL;
               ssid_raw \<leftarrow> raw_value body ''ssid='' (replicate 64 NUL);
               pass_raw \<leftarrow> raw_value body ''pass='' (replicate 64 NUL);
               ssid \<leftarrow> url_decode ssid_raw (replicate 64 NUL) 64;
               pass \<leftarrow> url_decode pass_raw (replicate 64 NUL) 64;
               if c_str ssid = [] then Some (ESP_FAIL, esp_do [Resp_400 ''SSID required''] s, n)
               else Some (ESP_OK,
                 esp_do [Resp_html ''<html><body><h3>Credentials saved. Rebooting...</h3></body></html>'',
                   Delay_ms 500, Restart] s,
                 save_credentials nv (c_str ssid) (c_str pass) n)
             })))"

text \<open>start_portal up to its endless wait.\<close>

definition start_portal :: "esp \<Rightarrow> esp" where
  "start_portal s =
     esp_do [Netif_create_ap, Wifi_init, Wifi_set_mode WIFI_MODE_AP, Ap_config ''TextReader-Setup'' 1 4, Wifi_start,
       Log ''AP started: TextReader-Setup'', Dns_task_create, Httpd_start,
       Httpd_register ''/*'' HTTP_GET, Httpd_register ''/save'' HTTP_POST] s"

section \<open>Start-up\<close>

text \<open>wifi_start returns when the station is connected; else it stays in the portal.\<close>

datatype wifi_outcome = Returns esp | Stays_in_portal esp

definition esp32_wifi_start :: "'n nvs_api \<Rightarrow> 'n \<Rightarrow> wifi_event list \<Rightarrow> esp \<Rightarrow> wifi_outcome option" where
  "esp32_wifi_start nv n evs s =
    (case load_credentials nv n 64 64 of
       None \<Rightarrow> Some (Stays_in_portal (start_portal s))
     | Some (ssid, pass) \<Rightarrow> do {
         (ok, s) \<leftarrow> connect_sta evs ssid pass s;
         if ok then Some (Returns (esp_do [Log (''Connected to '' @ c_str ssid)] s))
         else Some (Stays_in_portal (start_portal
           (esp_do [Log ''STA connect failed, starting provisioning portal''] s)))
       })"

datatype nvs_status = NVS_OK | ESP_ERR_NVS_NO_FREE_PAGES | ESP_ERR_NVS_NEW_VERSION_FOUND | NVS_OTHER_ERROR

text \<open>app_main up to the endless wait of ws_client_start or of the portal.\<close>

definition app_main :: "'n nvs_api \<Rightarrow> nvs_status \<Rightarrow> 'n \<Rightarrow> wifi_event list \<Rightarrow> esp \<Rightarrow> wifi_outcome option" where
  "app_main nv ret n evs s = do {
     let s = esp_do [Nvs_flash_init] s;
     let (s, n) = (if ret = ESP_ERR_NVS_NO_FREE_PAGES \<or> ret = ESP_ERR_NVS_NEW_VERSION_FOUND
              then (esp_do [Nvs_flash_erase, Nvs_flash_init] s, nvs_erase nv n) else (s, n));
     let s = esp_do [Netif_init, Event_loop_create, Display_init] s;
     w \<leftarrow> esp32_wifi_start nv n evs s;
     (case w of
        Returns s \<Rightarrow> Some (Returns (esp_do [Ws_client_start] s))
      | Stays_in_portal s \<Rightarrow> Some (Stays_in_portal s))
   }"

section \<open>Lemmas\<close>

text \<open>The form body is found and cut at its separators.\<close>

lemma is_prefix_nth: "is_prefix xs ys \<Longrightarrow> i < length xs \<Longrightarrow> ys ! i = xs ! i"
proof (induction xs ys arbitrary: i rule: is_prefix.induct)
  case (3 x xs y ys)
  then show ?case by (cases i) auto
qed auto

lemma no_early_pass:
  assumes "CHR ''='' \<notin> set xs"
  shows "\<not> is_prefix ''pass='' (xs @ ''&pass='' @ r)"
proof
  assume "is_prefix ''pass='' (xs @ ''&pass='' @ r)"
  from is_prefix_nth[OF this, of 4] have eq: "(xs @ ''&pass='' @ r) ! 4 = CHR ''=''" by simp
  show False
  proof (cases "4 < length xs")
    case True
    then have "xs ! 4 = CHR ''=''" using eq by (simp add: nth_append)
    then show False using assms True by (metis nth_mem)
  next
    case False
    then consider "length xs = 0" | "length xs = 1" | "length xs = 2" | "length xs = 3" | "length xs = 4" by linarith
    then show False using eq by cases (auto simp: nth_append nth_Cons')
  qed
qed

lemma strstr_pass:
  "CHR ''='' \<notin> set xs \<Longrightarrow> c_strstr_in ''pass='' (xs @ ''&pass='' @ r) = Some (''pass='' @ r)"
proof (induction xs)
  case Nil
  then show ?case by simp
next
  case (Cons x xs)
  then show ?case using no_early_pass[of "x # xs" r] by simp
qed

lemma form_body_c_str: "c_str (form_body ssid pass) = form_body ssid pass"
  by (intro c_str_id) (simp add: form_body_def)

lemma strstr_form:
  "c_strstr (form_body ssid pass) ''ssid='' = Some (''ssid='' @ form_encode ssid @ ''&pass='' @ form_encode pass)"
  "c_strstr (form_body ssid pass) ''pass='' = Some (''pass='' @ form_encode pass)"
proof -
  have key: "c_str ''ssid='' = ''ssid=''" "c_str ''pass='' = ''pass=''" by (simp_all add: c_str_def)
  show "c_strstr (form_body ssid pass) ''ssid='' = Some (''ssid='' @ form_encode ssid @ ''&pass='' @ form_encode pass)"
    unfolding c_strstr_def form_body_c_str key by (simp add: form_body_def)
  show "c_strstr (form_body ssid pass) ''pass='' = Some (''pass='' @ form_encode pass)"
    unfolding c_strstr_def form_body_c_str key using strstr_pass[of "form_encode ssid" "form_encode pass"]
    by (simp add: form_body_def)
qed

lemma strchr_form:
  "c_strchr (form_encode ssid @ ''&pass='' @ form_encode pass) CHR ''&'' = Some (''&pass='' @ form_encode pass)"
  "c_strchr (form_encode pass) CHR ''&'' = None"
proof -
  have dw: "dropWhile (\<lambda>x. x \<noteq> CHR ''&'') (form_encode s @ zs) = dropWhile (\<lambda>x. x \<noteq> CHR ''&'') zs" for s zs
    using form_encode_free(3)[of s] by (intro dropWhile_append2) auto
  have id: "c_str (form_encode ssid @ ''&pass='' @ form_encode pass) = form_encode ssid @ ''&pass='' @ form_encode pass"
    "c_str (form_encode pass) = form_encode pass"
    by (intro c_str_id, simp)+
  show "c_strchr (form_encode ssid @ ''&pass='' @ form_encode pass) CHR ''&'' = Some (''&pass='' @ form_encode pass)"
    unfolding c_strchr_def id dw by simp
  show "c_strchr (form_encode pass) CHR ''&'' = None"
    unfolding c_strchr_def id using dw[of pass "[]"] by (simp only: append_Nil2 dropWhile.simps list.case)
qed

lemma raw_value_form:
  "raw_value (form_body ssid pass) ''ssid='' (replicate 64 NUL) =
    Some (take 63 (form_encode ssid) @ replicate (64 - min 63 (length (form_encode ssid))) NUL)"
  "raw_value (form_body ssid pass) ''pass='' (replicate 64 NUL) =
    Some (take 63 (form_encode pass) @ replicate (64 - min 63 (length (form_encode pass))) NUL)"
proof -
  have strlen: "c_strlen (form_encode pass) = length (form_encode pass)"
    by (simp add: c_strlen_def)
  have copy: "arr_copy (replicate 64 NUL) 0 (take 63 xs) = Some (take 63 xs @ replicate (64 - min 63 (length xs)) NUL)" for xs
    by (simp add: min.commute del: replicate.simps)
  have slice: "arr_slice (xs @ ys) 0 (if int (length xs) > 63 then 63 else int (length xs)) = Some (take 63 xs)" for xs ys :: string
    by simp
  show "raw_value (form_body ssid pass) ''ssid='' (replicate 64 NUL) =
      Some (take 63 (form_encode ssid) @ replicate (64 - min 63 (length (form_encode ssid))) NUL)"
    using slice[of "form_encode ssid" "''&pass='' @ form_encode pass"] copy[of "form_encode ssid"]
      strchr_form(1)[of ssid pass]
    by (simp add: raw_value_def strstr_form Let_def del: replicate.simps)
  show "raw_value (form_body ssid pass) ''pass='' (replicate 64 NUL) =
      Some (take 63 (form_encode pass) @ replicate (64 - min 63 (length (form_encode pass))) NUL)"
    using slice[of "form_encode pass" "[]"] copy[of "form_encode pass"]
    by (simp add: raw_value_def strstr_form strchr_form(2) strlen Let_def del: replicate.simps)
qed

text \<open>Decoding what a browser encodes, here by strtol.\<close>

lemma strtol16_hex:
  assumes "isxdigit h" "isxdigit l"
  shows "strtol16 [h, l, NUL] = int (16 * hex_value h + hex_value l)"
proof -
  have plain: "c \<noteq> NUL" "\<not> c_isspace c" "c \<noteq> CHR ''-''" "c \<noteq> CHR ''+''" if "isxdigit c" for c
    using that by (auto simp: isxdigit_def c_isspace_def Let_def)
  have "c_str [h, l, NUL] = [h, l]"
    using plain(1)[OF assms(1)] plain(1)[OF assms(2)] by (simp add: c_str_def)
  then show ?thesis
    using assms plain(2-4)[OF assms(1)] by (simp add: strtol16_def Let_def)
qed

lemma url_decode_char:
  assumes "i < 63" "length dst = 64"
  shows "url_decode_from (form_char c @ rest) i 64 dst = url_decode_from rest (i + 1) 64 (dst[i := c])"
proof -
  have nibbles: "(of_char c :: nat) div 16 < 16" "(of_char c :: nat) mod 16 < 16"
    by (simp_all add: less_mult_imp_div_less)
  have byte: "nat (strtol16 [hex_char (of_char c div 16), hex_char (of_char c mod 16), NUL] mod 256) = of_char c"
    using strtol16_hex[OF isxdigit_hex_char[OF nibbles(1)] isxdigit_hex_char[OF nibbles(2)]] nibbles
    by (simp add: nat_mod_distrib flip: of_nat_add of_nat_mult)
  show ?thesis
    using assms byte form_safe_plain[of c] by (auto simp: form_char_def)
qed

lemma url_decode_encoded:
  assumes "i + length s \<le> 63" "length dst = 64"
  shows "url_decode_from (form_encode s) i 64 dst = Some (take i dst @ s @ NUL # drop (Suc (i + length s)) dst)"
  using assms
proof (induction s arbitrary: i dst)
  case Nil
  then show ?case by (simp add: form_encode_def upd_conv_take_nth_drop)
next
  case (Cons c s)
  have "form_encode (c # s) = form_char c @ form_encode s"
    by (simp add: form_encode_def)
  then have "url_decode_from (form_encode (c # s)) i 64 dst = url_decode_from (form_encode s) (i + 1) 64 (dst[i := c])"
    using url_decode_char[of i dst c "form_encode s"] Cons.prems by simp
  then show ?case
    using Cons.IH[of "i + 1" "dst[i := c]"] Cons.prems by (simp add: upd_conv_take_nth_drop take_Cons' min_def ac_simps)
qed

text \<open>A raw value that is the encoding of a string decodes to it.\<close>

lemma url_decode_raw:
  assumes "length s \<le> 63" "NUL \<notin> set s"
  shows "\<exists>d. url_decode (form_encode s @ replicate (Suc n) NUL) (replicate 64 NUL) 64 = Some d \<and> c_str d = s"
proof -
  have "c_str (form_encode s @ replicate (Suc n) NUL) = form_encode s"
    by (simp add: c_str_append_nul)
  then show ?thesis
    using url_decode_encoded[of 0 s "replicate 64 NUL"] assms
    by (simp add: url_decode_def c_str_append_nul del: replicate.simps)
qed

lemma length_form_encode: "length s \<le> length (form_encode s)"
proof (induction s)
  case Nil
  then show ?case by simp
next
  case (Cons c s)
  have "1 \<le> length (form_char c)" by (simp add: form_char_def)
  then show ?case using Cons by (simp add: form_encode_def)
qed

text \<open>
  The handler on a form whose raw values, cut at 63 characters, are the encodings of the
  strings kept.
\<close>

lemma post_form:
  assumes "length (form_body ssid pass) \<le> 255"
    and "take 63 (form_encode ssid) = form_encode ssid'" "take 63 (form_encode pass) = form_encode pass'"
    and "NUL \<notin> set ssid'" "NUL \<notin> set pass'" "ssid' \<noteq> []"
  shows "portal_post_handler nv (Some (form_body ssid pass)) (s, n) = Some (ESP_OK,
    esp_do [Resp_html ''<html><body><h3>Credentials saved. Rebooting...</h3></body></html>'', Delay_ms 500, Restart] s,
    save_credentials nv ssid' pass' n)"
proof -
  let ?body = "form_body ssid pass"
  have ne: "?body \<noteq> []" by (simp add: form_body_def)
  have body: "\<exists>r. arr_copy (replicate 256 NUL) 0 ?body = Some (?body @ NUL # r) \<and>
      arr_set (?body @ NUL # r) (int (length ?body)) NUL = Some (?body @ NUL # r)"
  proof -
    obtain k where "256 - length ?body = Suc k"
      using assms(1) by (cases "256 - length ?body") auto
    then show ?thesis
      using assms(1) by (simp add: list_update_append del: replicate.simps(2)) simp
  qed
  then obtain r where r: "arr_copy (replicate 256 NUL) 0 ?body = Some (?body @ NUL # r)"
    "arr_set (?body @ NUL # r) (int (length ?body)) NUL = Some (?body @ NUL # r)" by blast
  have cut: "raw_value (?body @ NUL # r) name raw = raw_value ?body name raw" for name raw
  proof -
    have "c_str (?body @ NUL # r) = c_str ?body"
      using form_body_c_str c_str_append_nul by (metis c_str_no_nul)
    then show ?thesis by (simp add: raw_value_def c_strstr_def)
  qed
  have len: "length ssid' \<le> 63" "length pass' \<le> 63"
    using length_form_encode[of ssid'] length_form_encode[of pass'] assms(2,3)
    by (metis length_take min.boundedE order_trans)+
  have pad: "\<exists>m. 64 - min 63 (length xs) = Suc m" for xs :: string
    by (intro exI[of _ "63 - min 63 (length xs)"]) simp
  obtain a where a: "raw_value ?body ''ssid='' (replicate 64 NUL) = Some (form_encode ssid' @ replicate (Suc a) NUL)"
    using raw_value_form(1)[of ssid pass] assms(2) pad[of "form_encode ssid"] by metis
  obtain b where b: "raw_value ?body ''pass='' (replicate 64 NUL) = Some (form_encode pass' @ replicate (Suc b) NUL)"
    using raw_value_form(2)[of ssid pass] assms(3) pad[of "form_encode pass"] by metis
  obtain d where d: "url_decode (form_encode ssid' @ replicate (Suc a) NUL) (replicate 64 NUL) 64 = Some d" "c_str d = ssid'"
    using url_decode_raw[OF len(1) assms(4)] by blast
  obtain e where e: "url_decode (form_encode pass' @ replicate (Suc b) NUL) (replicate 64 NUL) 64 = Some e" "c_str e = pass'"
    using url_decode_raw[OF len(2) assms(5)] by blast
  have "take 255 ?body = ?body" using assms(1) by simp
  then show ?thesis
    using ne r a b d e assms(6) cut by (simp add: portal_post_handler_def Let_def del: replicate.simps)
qed

text \<open>The wait for the network: the bit, and one reconnection for each loss before it.\<close>

lemma wait_connected_eq:
  "connected_bit (wait_connected evs s) = (connected_bit s \<or> STA_GOT_IP \<in> set evs)"
  "\<exists>k. esp_calls (wait_connected evs s) = esp_calls s @ replicate k Wifi_connect"
proof (induction evs arbitrary: s)
  case Nil
  { case 1 show ?case by simp }
  { case 2 show ?case by (auto intro: exI[of _ 0]) }
next
  case (Cons ev evs)
  { case 1
    show ?case using Cons(1)[of "wifi_event_handler ev s"]
      by (cases ev) (auto simp: wifi_event_handler_def esp_do_def) }
  { case 2
    show ?case
    proof (cases "connected_bit s")
      case True
      then show ?thesis by (auto intro: exI[of _ 0])
    next
      case False
      obtain k where "esp_calls (wait_connected evs (wifi_event_handler ev s)) =
          esp_calls (wifi_event_handler ev s) @ replicate k Wifi_connect"
        using Cons(2) by blast
      moreover have "esp_calls (wifi_event_handler ev s) =
          esp_calls s @ replicate (if ev = STA_DISCONNECTED then 1 else 0) Wifi_connect"
        by (cases ev) (simp_all add: wifi_event_handler_def esp_do_def)
      ultimately show ?thesis
        using False by (simp flip: replicate_add)
    qed }
qed

lemma c_strlcpy_string:
  assumes "0 < n" "n \<le> length dst"
  shows "\<exists>d. c_strlcpy dst (src @ [NUL]) n = Some d \<and> c_str d = take (n - 1) (c_str src)"
proof -
  have id: "c_str (src @ [NUL]) = c_str src" by (induction src) (simp_all add: c_str_def)
  have "NUL \<notin> set (take (min (c_strlen src) (n - 1)) (c_str src))"
    using c_str_no_nul by (meson in_set_takeD)
  moreover have "take (min (c_strlen src) (n - 1)) (c_str src) = take (n - 1) (c_str src)"
    by (simp add: c_strlen_def min_def)
  ultimately have "c_str (take (min (c_strlen src) (n - 1)) (c_str src) @ [NUL] @ xs) = take (n - 1) (c_str src)" for xs
    by (simp add: c_str_append_nul)
  then show ?thesis
    using assms by (simp add: c_strlcpy_def Let_def c_strlen_def id)
qed

lemma connect_sta_eq:
  "\<exists>a b k t. connect_sta evs ssid pass s = Some (STA_GOT_IP \<in> set evs, t) \<and>
    c_str a = take 31 (c_str ssid) \<and> c_str b = take 63 (c_str pass) \<and>
    esp_calls t = esp_calls s @ [Event_group_create, Netif_create_sta, Wifi_init, Register_wifi_any, Register_got_ip,
      Wifi_set_mode WIFI_MODE_STA, Sta_config a b, Wifi_start, Wifi_connect, Wait_bits 15000] @ replicate k Wifi_connect"
proof -
  obtain a where a: "c_strlcpy (replicate 32 NUL) (ssid @ [NUL]) 32 = Some a" "c_str a = take 31 (c_str ssid)"
    using c_strlcpy_string[of 32 "replicate 32 NUL" ssid] by (auto simp del: replicate.simps)
  obtain b where b: "c_strlcpy (replicate 64 NUL) (pass @ [NUL]) 64 = Some b" "c_str b = take 63 (c_str pass)"
    using c_strlcpy_string[of 64 "replicate 64 NUL" pass] by (auto simp del: replicate.simps)
  define u where "u = esp_do [Wifi_set_mode WIFI_MODE_STA, Sta_config a b, Wifi_start, Wifi_connect, Wait_bits 15000]
    ((esp_do [Event_group_create, Netif_create_sta, Wifi_init, Register_wifi_any, Register_got_ip] s)\<lparr>connected_bit := False\<rparr>)"
  obtain k where k: "esp_calls (wait_connected evs u) = esp_calls u @ replicate k Wifi_connect"
    using wait_connected_eq(2) by blast
  have "connect_sta evs ssid pass s = Some (STA_GOT_IP \<in> set evs, wait_connected evs u)"
    using a(1) b(1) wait_connected_eq(1)[of evs u]
    by (simp add: connect_sta_def Let_def u_def esp_do_def del: replicate.simps)
  then show ?thesis
    using a(2) b(2) k by (auto simp: u_def esp_do_def)
qed

definition esp_zero :: esp where
  "esp_zero = \<lparr>esp_calls = [], connected_bit = False\<rparr>"

text \<open>The storage app_main reads: erased when the initialisation asks for it.\<close>

definition stored :: "'n nvs_api \<Rightarrow> nvs_status \<Rightarrow> 'n \<Rightarrow> 'n" where
  "stored nv st n =
     (if st = ESP_ERR_NVS_NO_FREE_PAGES \<or> st = ESP_ERR_NVS_NEW_VERSION_FOUND then nvs_erase nv n else n)"

text \<open>A boot with stored credentials.\<close>

lemma app_main_stored:
  assumes "load_credentials nv (stored nv st n) 64 64 = Some (ssid, pass)"
  shows "\<exists>u a b. app_main nv st n evs esp_zero = Some (if STA_GOT_IP \<in> set evs then Returns u else Stays_in_portal u) \<and>
    Sta_config a b \<in> set (esp_calls u) \<and> c_str a = take 31 (c_str ssid) \<and> c_str b = take 63 (c_str pass) \<and>
    (if STA_GOT_IP \<in> set evs then last (esp_calls u) = Ws_client_start
     else Ws_client_start \<notin> set (esp_calls u) \<and>
       {Dns_task_create, Httpd_register ''/save'' HTTP_POST} \<subseteq> set (esp_calls u))"
proof -
  define s where "s = esp_do [Netif_init, Event_loop_create, Display_init]
    (if st = ESP_ERR_NVS_NO_FREE_PAGES \<or> st = ESP_ERR_NVS_NEW_VERSION_FOUND
     then esp_do [Nvs_flash_erase, Nvs_flash_init] (esp_do [Nvs_flash_init] esp_zero) else esp_do [Nvs_flash_init] esp_zero)"
  have no_ws: "Ws_client_start \<notin> set (esp_calls s)"
    by (simp add: s_def esp_do_def esp_zero_def)
  obtain a b k t where c: "connect_sta evs ssid pass s = Some (STA_GOT_IP \<in> set evs, t)"
    "c_str a = take 31 (c_str ssid)" "c_str b = take 63 (c_str pass)"
    "esp_calls t = esp_calls s @ [Event_group_create, Netif_create_sta, Wifi_init, Register_wifi_any, Register_got_ip,
      Wifi_set_mode WIFI_MODE_STA, Sta_config a b, Wifi_start, Wifi_connect, Wait_bits 15000] @ replicate k Wifi_connect"
    using connect_sta_eq by blast
  have main: "app_main nv st n evs esp_zero = (if STA_GOT_IP \<in> set evs
      then Some (Returns (esp_do [Ws_client_start] (esp_do [Log (''Connected to '' @ c_str ssid)] t)))
      else Some (Stays_in_portal (start_portal (esp_do [Log ''STA connect failed, starting provisioning portal''] t))))"
    using assms c(1) by (cases st) (simp_all add: app_main_def esp32_wifi_start_def s_def stored_def Let_def)
  show ?thesis
  proof (cases "STA_GOT_IP \<in> set evs")
    case True
    then show ?thesis
      using main c(2-4) by (intro exI[of _ "esp_do [Ws_client_start] (esp_do [Log (''Connected to '' @ c_str ssid)] t)"] exI[of _ a] exI[of _ b])
        (simp add: esp_do_def)
  next
    case False
    then show ?thesis
      using main c(2-4) no_ws
      by (intro exI[of _ "start_portal (esp_do [Log ''STA connect failed, starting provisioning portal''] t)"] exI[of _ a] exI[of _ b])
        (simp add: esp_do_def start_portal_def)
  qed
qed

text \<open>A boot without them.\<close>

lemma app_main_empty:
  assumes "load_credentials nv (stored nv st n) 64 64 = None"
  shows "\<exists>u. app_main nv st n evs esp_zero = Some (Stays_in_portal u) \<and> Ws_client_start \<notin> set (esp_calls u) \<and>
    {Dns_task_create, Httpd_register ''/save'' HTTP_POST} \<subseteq> set (esp_calls u)"
  using assms
  by (cases st) (auto simp: app_main_def esp32_wifi_start_def stored_def start_portal_def esp_do_def esp_zero_def)

text \<open>What the code relies on of the storage: a committed string reads back into a buffer it fits.\<close>

definition nvs_ok :: "'n nvs_api \<Rightarrow> bool" where
  "nvs_ok nv \<longleftrightarrow>
     (\<forall>n. nvs_open_ok nv True n \<and> nvs_open_ok nv False (nvs_commit nv n)) \<and>
     (\<forall>n k v m. nvs_get_str nv (nvs_set_str nv k v n) k m = (if length v < m then Some v else None)) \<and>
     (\<forall>n k k' v m. k \<noteq> k' \<longrightarrow> nvs_get_str nv (nvs_set_str nv k v n) k' m = nvs_get_str nv n k' m) \<and>
     (\<forall>n k m. nvs_get_str nv (nvs_commit nv n) k m = nvs_get_str nv n k m)"

lemma load_saved:
  assumes "nvs_ok nv" "length ssid < 64" "length pass < 64" "c_str ssid \<noteq> []"
  shows "load_credentials nv (save_credentials nv ssid pass n) 64 64 = Some (ssid, pass)"
  using assms by (simp add: load_credentials_def save_credentials_def nvs_ok_def)

lemma take_form_encode:
  assumes "length (form_encode s) \<le> 63"
  shows "take 63 (form_encode s) = form_encode s"
  using assms by simp

text \<open>A string all of whose characters are escaped takes three raw characters for each.\<close>

lemma take_escaped:
  assumes "\<forall>c\<in>set s. length (form_char c) = 3"
  shows "take (3 * k) (form_encode s) = form_encode (take k s)"
  using assms
proof (induction s arbitrary: k)
  case Nil
  then show ?case by (simp add: form_encode_def)
next
  case (Cons c s)
  then show ?case by (cases k) (simp_all add: form_encode_def)
qed

section \<open>Properties\<close>

text \<open>A storage: a map from names to strings.\<close>

definition map_nvs :: "(string \<Rightarrow> string option) nvs_api" where
  "map_nvs = \<lparr>nvs_open_ok = (\<lambda>w n. True),
     nvs_get_str = (\<lambda>n k m. case n k of None \<Rightarrow> None | Some v \<Rightarrow> if length v < m then Some v else None),
     nvs_set_str = (\<lambda>k v n. n(k \<mapsto> v)), nvs_commit = (\<lambda>n. n), nvs_erase = (\<lambda>n k. None)\<rparr>"

lemma map_nvs_ok: "nvs_ok map_nvs"
  by (simp add: nvs_ok_def map_nvs_def)

text \<open>
  C3: from the form to the station. A form that fits the handler's buffers, with an SSID of 1
  to 31 bytes, ends in a restart; the next boot joins the network with exactly that SSID and
  password and, when it gets an address, runs the WebSocket client.
\<close>

theorem esp32_provisioning_roundtrip:
  assumes "nvs_ok nv" and "length (form_body ssid pass) \<le> 255"
    and "length (form_encode ssid) \<le> 63" "length (form_encode pass) \<le> 63"
    and "ssid \<noteq> []" "length ssid \<le> 31" "NUL \<notin> set ssid" "NUL \<notin> set pass" and "STA_GOT_IP \<in> set evs"
  shows "\<exists>t m u a b. portal_post_handler nv (Some (form_body ssid pass)) (s, n) = Some (ESP_OK, t, m) \<and>
    last (esp_calls t) = Restart \<and>
    app_main nv NVS_OK m evs esp_zero = Some (Returns u) \<and> last (esp_calls u) = Ws_client_start \<and>
    Sta_config a b \<in> set (esp_calls u) \<and> c_str a = ssid \<and> c_str b = pass"
proof -
  have post: "portal_post_handler nv (Some (form_body ssid pass)) (s, n) = Some (ESP_OK,
      esp_do [Resp_html ''<html><body><h3>Credentials saved. Rebooting...</h3></body></html>'', Delay_ms 500, Restart] s,
      save_credentials nv ssid pass n)"
    by (rule post_form[OF assms(2) take_form_encode[OF assms(3)] take_form_encode[OF assms(4)] assms(7,8,5)])
  have len: "length pass \<le> 63" "c_str ssid = ssid" "c_str pass = pass"
    using length_form_encode[of pass] assms(4,7,8) by simp_all
  have "load_credentials nv (stored nv NVS_OK (save_credentials nv ssid pass n)) 64 64 = Some (ssid, pass)"
    using load_saved[OF assms(1), of ssid pass n] assms(5,6) len by (simp add: stored_def)
  from app_main_stored[OF this, of evs] obtain u a b where
    "app_main nv NVS_OK (save_credentials nv ssid pass n) evs esp_zero = Some (Returns u)"
    "last (esp_calls u) = Ws_client_start" "Sta_config a b \<in> set (esp_calls u)" "c_str a = ssid" "c_str b = pass"
    using assms(6,9) len by auto
  moreover have "last (esp_calls (esp_do [Resp_html page, Delay_ms 500, Restart] s)) = Restart" for page
    by (simp add: esp_do_def)
  ultimately show ?thesis using post by blast
qed

theorem esp32_provisioning_roundtrip_witness:
  "\<exists>t m u a b. portal_post_handler map_nvs (Some (form_body ''my wlan'' ''p&=%+'')) (esp_zero, \<lambda>_. None) = Some (ESP_OK, t, m) \<and>
    app_main map_nvs NVS_OK m [STA_DISCONNECTED, STA_GOT_IP] esp_zero = Some (Returns u) \<and>
    Sta_config a b \<in> set (esp_calls u) \<and> c_str a = ''my wlan'' \<and> c_str b = ''p&=%+''"
proof -
  have "length (form_body ''my wlan'' ''p&=%+'') \<le> 255" "length (form_encode ''my wlan'') \<le> 63"
    "length (form_encode ''p&=%+'') \<le> 63"
    by (simp_all add: form_body_def form_encode_def form_char_def)
  from esp32_provisioning_roundtrip[OF map_nvs_ok this, where evs = "[STA_DISCONNECTED, STA_GOT_IP]" and s = esp_zero and n = "\<lambda>_. None"]
  show ?thesis by auto blast
qed

text \<open>
  C40: a network name of 32 bytes, the longest there is, cannot be joined: strlcpy keeps a byte
  of the 32 of the station's configuration for a terminator, and the boot asks for the name
  without its last byte.
\<close>

theorem esp32_ssid32_cut:
  assumes "nvs_ok nv" and "length (form_body ssid pass) \<le> 255"
    and "length (form_encode ssid) \<le> 63" "length (form_encode pass) \<le> 63"
    and "length ssid = 32" "NUL \<notin> set ssid" "NUL \<notin> set pass"
  shows "\<exists>t m u a b. portal_post_handler nv (Some (form_body ssid pass)) (s, n) = Some (ESP_OK, t, m) \<and>
    app_main nv NVS_OK m evs esp_zero = Some (if STA_GOT_IP \<in> set evs then Returns u else Stays_in_portal u) \<and>
    Sta_config a b \<in> set (esp_calls u) \<and> c_str a = take 31 ssid \<and> c_str a \<noteq> ssid"
proof -
  have ne: "ssid \<noteq> []" using assms(5) by auto
  have post: "portal_post_handler nv (Some (form_body ssid pass)) (s, n) = Some (ESP_OK,
      esp_do [Resp_html ''<html><body><h3>Credentials saved. Rebooting...</h3></body></html>'', Delay_ms 500, Restart] s,
      save_credentials nv ssid pass n)"
    by (rule post_form[OF assms(2) take_form_encode[OF assms(3)] take_form_encode[OF assms(4)] assms(6,7) ne])
  have len: "length pass \<le> 63" "c_str ssid = ssid"
    using length_form_encode[of pass] assms(4,6) by simp_all
  have cut: "take 31 ssid \<noteq> ssid"
    using assms(5) by (auto dest!: arg_cong[where f = length])
  have "load_credentials nv (stored nv NVS_OK (save_credentials nv ssid pass n)) 64 64 = Some (ssid, pass)"
    using load_saved[OF assms(1), of ssid pass n] assms(5) ne len by (simp add: stored_def)
  from app_main_stored[OF this, of evs] obtain u a b where
    "app_main nv NVS_OK (save_credentials nv ssid pass n) evs esp_zero =
      Some (if STA_GOT_IP \<in> set evs then Returns u else Stays_in_portal u)"
    "Sta_config a b \<in> set (esp_calls u)" "c_str a = take 31 ssid"
    unfolding len(2) by blast
  then show ?thesis using post cut by metis
qed

theorem esp32_ssid32_cut_witness:
  "\<exists>t m u a b. portal_post_handler map_nvs (Some (form_body (replicate 32 CHR ''x'') ''pw'')) (esp_zero, \<lambda>_. None) =
      Some (ESP_OK, t, m) \<and>
    app_main map_nvs NVS_OK m [] esp_zero = Some (Stays_in_portal u) \<and>
    Sta_config a b \<in> set (esp_calls u) \<and> c_str a = replicate 31 CHR ''x''"
proof -
  have "form_encode (replicate 32 CHR ''x'') = replicate 32 CHR ''x''" "form_encode ''pw'' = ''pw''"
    by (simp_all add: form_encode_def form_char_def form_safe_def numeral_eq_Suc)
  then have "length (form_body (replicate 32 CHR ''x'') ''pw'') \<le> 255"
    "length (form_encode (replicate 32 CHR ''x'')) \<le> 63" "length (form_encode ''pw'') \<le> 63"
    by (simp_all add: form_body_def)
  from esp32_ssid32_cut[OF map_nvs_ok this, where evs = "[]" and s = esp_zero and n = "\<lambda>_. None"]
  show ?thesis by auto blast
qed

text \<open>
  a password is cut in its encoded form. Of one whose characters all need escaping, such as
  punctuation, only the first 21 are stored, and the user is told that the credentials are saved.
\<close>

theorem esp32_escaped_password_cut:
  assumes "length (form_body ssid pass) \<le> 255" and "length (form_encode ssid) \<le> 63" "ssid \<noteq> []" "NUL \<notin> set ssid"
    and "\<forall>c\<in>set pass. length (form_char c) = 3" "NUL \<notin> set pass" "21 < length pass"
  shows "portal_post_handler nv (Some (form_body ssid pass)) (s, n) = Some (ESP_OK,
      esp_do [Resp_html ''<html><body><h3>Credentials saved. Rebooting...</h3></body></html>'', Delay_ms 500, Restart] s,
      save_credentials nv ssid (take 21 pass) n) \<and> take 21 pass \<noteq> pass"
proof
  have "take 63 (form_encode pass) = form_encode (take 21 pass)"
    using take_escaped[OF assms(5), of 21] by simp
  moreover have "NUL \<notin> set (take 21 pass)"
    using assms(6) by (meson in_set_takeD)
  ultimately show "portal_post_handler nv (Some (form_body ssid pass)) (s, n) = Some (ESP_OK,
      esp_do [Resp_html ''<html><body><h3>Credentials saved. Rebooting...</h3></body></html>'', Delay_ms 500, Restart] s,
      save_credentials nv ssid (take 21 pass) n)"
    by (rule post_form[OF assms(1) take_form_encode[OF assms(2)] _ assms(4) _ assms(3)])
  show "take 21 pass \<noteq> pass"
    using assms(7) by (auto dest!: arg_cong[where f = length])
qed

theorem esp32_escaped_password_cut_witness:
  "\<exists>t m. portal_post_handler map_nvs (Some (form_body ''net'' (replicate 24 CHR ''!''))) (esp_zero, \<lambda>_. None) =
      Some (ESP_OK, t, m) \<and> m ''pass'' = Some (replicate 21 CHR ''!'')"
proof -
  have "form_char CHR ''!'' = ''%21''"
    by (simp add: form_char_def form_safe_def hex_char_def char_of_def bit_Suc_0_iff)
  then have "length (form_char c) = 3" if "c \<in> set (replicate 24 CHR ''!'')" for c
    using that by (simp del: replicate.simps)
  moreover have "form_encode ''net'' = ''net''"
    by (simp add: form_encode_def form_char_def form_safe_def)
  moreover have "length (form_encode (replicate 24 CHR ''!'')) = 72"
    by (simp add: form_encode_def \<open>form_char CHR ''!'' = ''%21''\<close> numeral_eq_Suc)
  ultimately show ?thesis
    using esp32_escaped_password_cut[of "''net''" "replicate 24 CHR ''!''" map_nvs esp_zero "\<lambda>_. None"]
    by (simp add: form_body_def save_credentials_def map_nvs_def del: replicate.simps)
qed



end
