(* ===== verification/Ssd1680.thy ===== *)
theory Ssd1680
  imports Text_Bitmap Hardware
begin

text \<open>
  The driver of the SSD1680 e-paper panel on the Pico and on the ESP32. The frame buffer s_fb
  holds 122 rows of 32 bytes, one bit per pixel, a set bit for white. A refresh ends when the
  panel releases its busy line, which the driver polls. The two files are the same code over the
  functions that send a command and data and the delay; SCROLL uses a partial refresh where
  EPAPER_PARTIAL_REFRESH is defined, as the ESP32's ssd1680.h does and the Pico's does not.
\<close>

section \<open>The code\<close>

definition SSD1680_WIDTH :: int where "SSD1680_WIDTH = 250"
definition SSD1680_HEIGHT :: int where "SSD1680_HEIGHT = 122"
definition SSD1680_STRIDE :: int where "SSD1680_STRIDE = (SSD1680_WIDTH + 7) div 8"

text \<open>
  while (busy) delay(10): one reading of the line per round. A tape that ends while the line is
  busy stands for a panel that never releases it: the loop does not return.
\<close>

fun wait_busy_on :: "delay \<Rightarrow> bool list \<Rightarrow> dev \<Rightarrow> dev option" where
  "wait_busy_on delay [] s = None"
| "wait_busy_on delay (b # bs) s =
     (if b then wait_busy_on delay bs (delay 10 (s\<lparr>busy_in := bs\<rparr>)) else Some (s\<lparr>busy_in := bs\<rparr>))"

definition ssd1680_wait_busy :: "delay \<Rightarrow> dev \<Rightarrow> dev option" where
  "ssd1680_wait_busy delay s = wait_busy_on delay (busy_in s) s"

text \<open>The functions of a driver that differ between the boards.\<close>

record ep_bus =
  ep_cmd :: "u8 \<Rightarrow> dev \<Rightarrow> dev option"
  ep_data :: "u8 list \<Rightarrow> dev \<Rightarrow> dev option"
  ep_delay :: delay
  ep_partial :: bool

definition pico_ssd1680_cmd :: "u8 \<Rightarrow> dev \<Rightarrow> dev option" where
  "pico_ssd1680_cmd c s =
     Some (gpio_put 17 True (spi_write_blocking [c] (gpio_put 17 False (gpio_put 20 False s))))"
definition pico_ssd1680_data :: "u8 list \<Rightarrow> dev \<Rightarrow> dev option" where
  "pico_ssd1680_data bs s =
     Some (gpio_put 17 True (spi_write_blocking bs (gpio_put 17 False (gpio_put 20 True s))))"
definition esp32_ssd1680_cmd :: "pins \<Rightarrow> u8 \<Rightarrow> dev \<Rightarrow> dev option" where
  "esp32_ssd1680_cmd p c s = spi_device_polling_transmit 8 [c] (gpio_set_level (SPI_DC_PIN p) False s)"
definition esp32_ssd1680_data :: "pins \<Rightarrow> u8 list \<Rightarrow> dev \<Rightarrow> dev option" where
  "esp32_ssd1680_data p bs s =
     spi_device_polling_transmit (int (length bs) * 8) bs (gpio_set_level (SPI_DC_PIN p) True s)"

definition pico_ep :: ep_bus where
  "pico_ep = \<lparr>ep_cmd = pico_ssd1680_cmd, ep_data = pico_ssd1680_data, ep_delay = sleep_ms, ep_partial = False\<rparr>"
definition esp32_ep :: "pins \<Rightarrow> ep_bus" where
  "esp32_ep p = \<lparr>ep_cmd = esp32_ssd1680_cmd p, ep_data = esp32_ssd1680_data p, ep_delay = vTaskDelay_ms,
     ep_partial = True\<rparr>"

definition ssd1680_data8 :: "ep_bus \<Rightarrow> u8 \<Rightarrow> dev \<Rightarrow> dev option" where
  "ssd1680_data8 e v = ep_data e [v]"

definition ssd1680_full_refresh :: "ep_bus \<Rightarrow> dev \<Rightarrow> dev option" where
  "ssd1680_full_refresh e s = do {
     s \<leftarrow> ep_cmd e 0x22 s; s \<leftarrow> ssd1680_data8 e 0xF7 s;
     s \<leftarrow> ep_cmd e 0x20 s;
     ssd1680_wait_busy (ep_delay e) s
   }"

definition ssd1680_partial_refresh :: "ep_bus \<Rightarrow> dev \<Rightarrow> dev option" where
  "ssd1680_partial_refresh e s = do {
     s \<leftarrow> ep_cmd e 0x22 s; s \<leftarrow> ssd1680_data8 e 0xF4 s;
     s \<leftarrow> ep_cmd e 0x20 s;
     ssd1680_wait_busy (ep_delay e) s
   }"

definition ssd1680_write_ram :: "ep_bus \<Rightarrow> dev \<Rightarrow> dev option" where
  "ssd1680_write_ram e s = do {
     s \<leftarrow> ep_cmd e 0x4E s; s \<leftarrow> ssd1680_data8 e 0 s;
     s \<leftarrow> ep_cmd e 0x4F s; s \<leftarrow> ssd1680_data8 e 0 s; s \<leftarrow> ssd1680_data8 e 0 s;
     s \<leftarrow> ep_cmd e 0x24 s;
     ep_data e (fb s) s
   }"

definition ssd1680_set_pixel :: "int \<Rightarrow> int \<Rightarrow> bool \<Rightarrow> dev \<Rightarrow> dev option" where
  "ssd1680_set_pixel x y black s =
     (if x < 0 \<or> x \<ge> SSD1680_WIDTH \<or> y < 0 \<or> y \<ge> SSD1680_HEIGHT then Some s
      else do {
        let byte_idx = y * SSD1680_STRIDE + x div 8;
        let mask = push_bit (nat (7 - x mod 8)) 1;
        v \<leftarrow> arr_get (fb s) byte_idx;
        xs \<leftarrow> arr_set (fb s) byte_idx (if black then v AND NOT mask else v OR mask);
        Some (s\<lparr>fb := xs\<rparr>)
      })"

definition ssd1680_white :: "dev \<Rightarrow> dev" where
  "ssd1680_white s = s\<lparr>fb := replicate (nat (SSD1680_HEIGHT * SSD1680_STRIDE)) 0xFF\<rparr>"

text \<open>The columns of one character, at x on.\<close>

definition ssd1680_glyph :: "char \<Rightarrow> int \<Rightarrow> dev \<Rightarrow> dev option" where
  "ssd1680_glyph c x s = (let fi = font_idx c in
     for_each [0..FONT_CHAR_WIDTH - 1] (\<lambda>col s.
       if x + col < 0 \<or> x + col \<ge> SSD1680_WIDTH then Some s
       else do {
         cb \<leftarrow> font_byte fi col;
         for_each [0..7] (\<lambda>row s.
           if bit cb (nat row) then ssd1680_set_pixel (x + col) (row + 8) True s else Some s) s
       }) s)"

fun ssd1680_chars :: "string \<Rightarrow> int \<Rightarrow> dev \<Rightarrow> dev option" where
  "ssd1680_chars [] x s = Some s"
| "ssd1680_chars (c # cs) x s = do {
     s \<leftarrow> ssd1680_glyph c x s;
     let x = x + FONT_CHAR_WIDTH + 1;
     if x \<ge> SSD1680_WIDTH then Some s else ssd1680_chars cs x s
   }"

definition ssd1680_render_text_to_fb :: "string \<Rightarrow> int \<Rightarrow> dev \<Rightarrow> dev option" where
  "ssd1680_render_text_to_fb text x_offset s = ssd1680_chars (c_str text) (- x_offset) (ssd1680_white s)"

text \<open>The commands of display_init after the reset; the data bytes follow their command.\<close>

definition ssd1680_setup :: "(u8 \<times> u8 list) list" where
  "ssd1680_setup = [(0x01, [0x79, 0x00, 0x00]), (0x11, [0x03]), (0x44, [0, 0x0F]),
     (0x45, [0, 0, 0x79, 0x00]), (0x3C, [0x05]), (0x18, [0x80]), (0x22, [0xB1])]"

definition ssd1680_show :: "ep_bus \<Rightarrow> dev \<Rightarrow> dev option" where
  "ssd1680_show e s = do { s \<leftarrow> ssd1680_write_ram e s; ssd1680_full_refresh e s }"

definition ssd1680_start :: "ep_bus \<Rightarrow> dev \<Rightarrow> dev option" where
  "ssd1680_start e s = do {
     s \<leftarrow> ssd1680_wait_busy (ep_delay e) s;
     s \<leftarrow> ep_cmd e 0x12 s;
     s \<leftarrow> ssd1680_wait_busy (ep_delay e) s;
     s \<leftarrow> for_each ssd1680_setup (\<lambda>(c, ds) s. do {
            s \<leftarrow> ep_cmd e c s; for_each ds (ssd1680_data8 e) s }) s;
     s \<leftarrow> ep_cmd e 0x20 s;
     s \<leftarrow> ssd1680_wait_busy (ep_delay e) s;
     ssd1680_show e (ssd1680_white s)
   }"

definition pico_ssd1680_display_init :: "dev \<Rightarrow> dev option" where
  "pico_ssd1680_display_init s =
     (let s = emit ([SpiInit 4000000, GpioFunc 19 GPIO_FUNC_SPI, GpioFunc 18 GPIO_FUNC_SPI] @
            gpio_out_pin 17 True @ gpio_out_pin 20 False @ gpio_out_pin 21 True @
            [GpioInit 22, GpioDir 22 False]) s;
          s = sleep_ms 10 (gpio_put 21 False s);
          s = sleep_ms 10 (gpio_put 21 True s)
      in ssd1680_start pico_ep s)"

definition esp32_ssd1680_display_init :: "pins \<Rightarrow> dev \<Rightarrow> dev option" where
  "esp32_ssd1680_display_init p s =
     (let s = emit ([GpioConfig (pin_mask [SPI_DC_PIN p, SPI_RST_PIN p]) True,
            GpioConfig (pin_mask [SPI_BUSY_PIN p]) False,
            Gpio (SPI_DC_PIN p) False, Gpio (SPI_RST_PIN p) True] @
            esp32_spi_bus p 4000000 (Some (SPI_CS_PIN p))) s;
          s = vTaskDelay_ms 10 (gpio_set_level (SPI_RST_PIN p) False s);
          s = vTaskDelay_ms 10 (gpio_set_level (SPI_RST_PIN p) True s)
      in ssd1680_start (esp32_ep p) s)"

definition ssd1680_display_clear :: "ep_bus \<Rightarrow> dev \<Rightarrow> dev option" where
  "ssd1680_display_clear e s = ssd1680_show e (ssd1680_white s)"

text \<open>render_text_to_fb(text, 0); ssd1680_write_ram(); ssd1680_full_refresh();\<close>

definition ssd1680_page :: "ep_bus \<Rightarrow> string \<Rightarrow> dev \<Rightarrow> dev option" where
  "ssd1680_page e text s = do { s \<leftarrow> ssd1680_render_text_to_fb text 0 s; ssd1680_show e s }"

definition ssd1680_scroll_step :: "ep_bus \<Rightarrow> string \<Rightarrow> int \<Rightarrow> int \<Rightarrow> dev \<Rightarrow> dev option" where
  "ssd1680_scroll_step e text sp offset s = do {
     s \<leftarrow> ssd1680_render_text_to_fb text offset s;
     s \<leftarrow> ssd1680_write_ram e s;
     s \<leftarrow> (if ep_partial e then ssd1680_partial_refresh e s else ssd1680_full_refresh e s);
     Some (ep_delay e (word_of_int sp) s)
   }"

text \<open>
  display_text. The loop of SCROLL adds 8 to its offset after the last round too, which must
  not leave the int range.
\<close>

definition ssd1680_display_text ::
    "ep_bus \<Rightarrow> string \<Rightarrow> string \<Rightarrow> int \<Rightarrow> int \<Rightarrow> int \<Rightarrow> dev \<Rightarrow> dev option" where
  "ssd1680_display_text e text effect speed_ms blink_period_ms fade_steps s = do {
     let sp = clamp_speed speed_ms;
     text_px \<leftarrow> c_int (int_of_size (c_strlen text) * (FONT_CHAR_WIDTH + 1));
     if c_streq effect ''BLINK'' then do {
       s \<leftarrow> ssd1680_page e text s;
       s \<leftarrow> ssd1680_show e (ssd1680_white (ep_delay e (word_of_int sp) s));
       ssd1680_page e text (ep_delay e (word_of_int sp) s)
     }
     else if c_streq effect ''REVERSE'' then do {
       rev \<leftarrow> reverse_text stack_rev text;
       ssd1680_page e rev s
     }
     else if c_streq effect ''FADE'' then do {
       s \<leftarrow> ssd1680_show e (ssd1680_white s);
       ssd1680_page e text (ep_delay e (word_of_int sp) s)
     }
     else if c_streq effect ''SCROLL'' then do {
       s \<leftarrow> for_each (up_by 0 text_px 8) (ssd1680_scroll_step e text sp) s;
       _ \<leftarrow> c_int (8 * (text_px div 8) + 8);
       Some s
     }
     else Some s
   }"

definition pico_ssd1680_display_text where
  "pico_ssd1680_display_text = ssd1680_display_text pico_ep"
definition esp32_ssd1680_display_text where
  "esp32_ssd1680_display_text p = ssd1680_display_text (esp32_ep p)"
definition pico_ssd1680_display_clear where
  "pico_ssd1680_display_clear = ssd1680_display_clear pico_ep"
definition esp32_ssd1680_display_clear where
  "esp32_ssd1680_display_clear p = ssd1680_display_clear (esp32_ep p)"
definition esp32_ssd1680_render_text_to_fb where
  "esp32_ssd1680_render_text_to_fb = ssd1680_render_text_to_fb"
definition esp32_ssd1680_write_ram where
  "esp32_ssd1680_write_ram p = ssd1680_write_ram (esp32_ep p)"
definition esp32_ssd1680_full_refresh where
  "esp32_ssd1680_full_refresh p = ssd1680_full_refresh (esp32_ep p)"
definition esp32_ssd1680_set_pixel where
  "esp32_ssd1680_set_pixel = ssd1680_set_pixel"

section \<open>Specification\<close>

text \<open>A picture tells which pixels are black; the frame buffer that holds it.\<close>

type_synonym picture = "nat \<Rightarrow> nat \<Rightarrow> bool"

definition ep_byte :: "picture \<Rightarrow> nat \<Rightarrow> u8" where
  "ep_byte P i = horner_sum of_bool 2 (map (\<lambda>b. \<not> P (8 * (i mod 32) + (7 - b)) (i div 32)) [0..<8])"

definition fb_of :: "picture \<Rightarrow> u8 list" where
  "fb_of P = map (ep_byte P) [0..<3904]"

text \<open>The text from a column offset on, on rows 8 to 15 of the panel.\<close>

definition text_picture :: "string \<Rightarrow> nat \<Rightarrow> picture" where
  "text_picture cs offset x y \<longleftrightarrow> x < 250 \<and> 8 \<le> y \<and> y < 16 \<and> text_bit cs (offset + x) (y - 8)"

definition ep_blank :: picture where
  "ep_blank x y \<longleftrightarrow> False"

lemma bit_ep_byte: "bit (ep_byte P i) b \<longleftrightarrow> b < 8 \<and> \<not> P (8 * (i mod 32) + (7 - b)) (i div 32)"
  unfolding ep_byte_def by (auto simp: bit_horner_sum_bit_iff possible_bit_def nth_Cons' simp del: upt_rec_numeral)

lemma length_fb_of [simp]: "length (fb_of P) = 3904"
  by (simp add: fb_of_def)

lemma nth_fb_of: "i < 3904 \<Longrightarrow> fb_of P ! i = ep_byte P i"
  by (simp add: fb_of_def del: upt_rec_numeral)

section \<open>Drawing\<close>

definition add_pixel :: "nat \<Rightarrow> nat \<Rightarrow> picture \<Rightarrow> picture" where
  "add_pixel x y P = (\<lambda>x' y'. P x' y' \<or> x' = x \<and> y' = y)"

lemma white_fb: "ssd1680_white s = s\<lparr>fb := fb_of ep_blank\<rparr>"
proof -
  have "ep_byte ep_blank i = 0xFF" for i
  proof (rule bit_eqI)
    fix n assume "possible_bit TYPE(u8) n"
    then have n: "n < 8" by simp
    then have "n \<in> {0, 1, 2, 3, 4, 5, 6, 7}" by auto
    then have "bit (0xFF :: u8) n" by auto
    with n show "bit (ep_byte ep_blank i) n = bit (0xFF :: u8) n"
      by (simp add: bit_ep_byte ep_blank_def)
  qed
  then have "fb_of ep_blank = replicate 3904 0xFF"
    by (intro nth_equalityI) (simp_all add: nth_fb_of)
  then show ?thesis
    by (simp add: ssd1680_white_def SSD1680_HEIGHT_def SSD1680_STRIDE_def SSD1680_WIDTH_def)
qed

lemma fb_add_pixel:
  assumes "x < 256" and "y < 122"
  shows "(fb_of P)[y * 32 + x div 8 := ep_byte P (y * 32 + x div 8) AND NOT (push_bit (7 - x mod 8) 1)] =
    fb_of (add_pixel x y P)"
proof (rule nth_equalityI)
  show "length ((fb_of P)[y * 32 + x div 8 := ep_byte P (y * 32 + x div 8) AND NOT (push_bit (7 - x mod 8) 1)]) =
      length (fb_of (add_pixel x y P))" by simp
next
  let ?i = "y * 32 + x div 8"
  have x8: "x div 8 < 32" using assms(1) by simp
  have i: "?i mod 32 = x div 8" "?i div 32 = y" "?i < 3904" using x8 assms(2) by simp_all
  fix j assume "j < length ((fb_of P)[?i := ep_byte P ?i AND NOT (push_bit (7 - x mod 8) 1)])"
  then have j: "j < 3904" by simp
  show "(fb_of P)[?i := ep_byte P ?i AND NOT (push_bit (7 - x mod 8) 1)] ! j = fb_of (add_pixel x y P) ! j"
  proof (cases "j = ?i")
    case True
    have "ep_byte P ?i AND NOT (push_bit (7 - x mod 8) 1) = ep_byte (add_pixel x y P) ?i"
    proof (rule bit_eqI)
      fix n assume "possible_bit TYPE(u8) n"
      then have n: "n < 8" by simp
      have "(8 * (x div 8) + (7 - n) = x) = (n = 7 - x mod 8)"
        using n div_mult_mod_eq[of x 8] mod_less_divisor[of 8 x] by linarith
      then show "bit (ep_byte P ?i AND NOT (push_bit (7 - x mod 8) 1)) n = bit (ep_byte (add_pixel x y P) ?i) n"
        using n i by (auto simp: bit_ep_byte bit_and_iff bit_not_iff bit_exp_iff add_pixel_def)
    qed
    with True i j show ?thesis by (simp add: nth_fb_of)
  next
    case False
    have "ep_byte (add_pixel x y P) j = ep_byte P j"
    proof (rule bit_eqI)
      fix n assume "possible_bit TYPE(u8) n"
      then have n: "n < 8" by simp
      have "\<not> (8 * (j mod 32) + (7 - n) = x \<and> j div 32 = y)"
      proof
        assume eq: "8 * (j mod 32) + (7 - n) = x \<and> j div 32 = y"
        then have "x div 8 = j mod 32" using n by auto
        with eq have "j = ?i" using div_mult_mod_eq[of j 32] by simp
        with False show False by simp
      qed
      then show "bit (ep_byte (add_pixel x y P) j) n = bit (ep_byte P j) n"
        by (auto simp: bit_ep_byte add_pixel_def)
    qed
    with False j show ?thesis by (simp add: nth_fb_of)
  qed
qed

lemma set_pixel_eq:
  assumes "x < 250" and "y < 122" and "fb s = fb_of P"
  shows "ssd1680_set_pixel (int x) (int y) True s = Some (s\<lparr>fb := fb_of (add_pixel x y P)\<rparr>)"
proof -
  let ?i = "y * 32 + x div 8"
  have ix: "int y * SSD1680_STRIDE + int x div 8 = int ?i"
    by (simp add: SSD1680_STRIDE_def SSD1680_WIDTH_def)
  have i: "?i < 3904" using assms(1,2) by linarith
  have bit: "nat (7 - int x mod 8) = 7 - x mod 8"
  proof -
    have "7 - int x mod 8 = int (7 - x mod 8)"
      using mod_less_divisor[of 8 x] by (simp add: of_nat_diff zmod_int)
    then show ?thesis by (simp only: nat_int)
  qed
  have "arr_get (fb s) (int ?i) = Some (ep_byte P ?i)"
    using i assms(3) by (simp add: arr_get_def nth_fb_of del: of_nat_add of_nat_mult)
  moreover have "arr_set (fb s) (int ?i) v = Some ((fb_of P)[?i := v])" for v
    using i assms(3) by (simp add: arr_set_def del: of_nat_add of_nat_mult)
  ultimately show ?thesis
    using assms(1,2) fb_add_pixel[of x y P]
    unfolding ssd1680_set_pixel_def Let_def ix bit
    by (simp add: SSD1680_WIDTH_def SSD1680_HEIGHT_def)
qed

text \<open>The pixels of the rows below n of a column, of the columns below n of a glyph, of a text.\<close>

definition add_rows :: "nat \<Rightarrow> u8 \<Rightarrow> nat \<Rightarrow> picture \<Rightarrow> picture" where
  "add_rows x cb n P = (\<lambda>x' y'. P x' y' \<or> x' = x \<and> 8 \<le> y' \<and> y' < 8 + n \<and> bit cb (y' - 8))"

definition add_cols :: "int \<Rightarrow> char \<Rightarrow> nat \<Rightarrow> picture \<Rightarrow> picture" where
  "add_cols x c n P = (\<lambda>x' y'. P x' y' \<or> x' < 250 \<and> x \<le> int x' \<and> int x' < x + int n \<and>
     8 \<le> y' \<and> y' < 16 \<and> bit (glyph c ! nat (int x' - x)) (y' - 8))"

definition add_text :: "int \<Rightarrow> string \<Rightarrow> picture \<Rightarrow> picture" where
  "add_text x cs P = (\<lambda>x' y'. P x' y' \<or> x' < 250 \<and> x \<le> int x' \<and> 8 \<le> y' \<and> y' < 16 \<and>
     text_bit cs (nat (int x' - x)) (y' - 8))"

lemma column_rows:
  assumes "x < 250" and "fb s = fb_of P"
  shows "for_each [0..7] (\<lambda>row s. if bit cb (nat row) then ssd1680_set_pixel (int x) (row + 8) True s else Some s) s =
    Some (s\<lparr>fb := fb_of (add_rows x cb 8 P)\<rparr>)"
proof -
  have "\<exists>u. for_each [0..7] (\<lambda>row s. if bit cb (nat row) then ssd1680_set_pixel (int x) (row + 8) True s
      else Some s) s = Some u \<and> u = s\<lparr>fb := fb_of (add_rows x cb 8 P)\<rparr>"
  proof (rule for_upto_rule[where I = "\<lambda>n u. u = s\<lparr>fb := fb_of (add_rows x cb n P)\<rparr>"])
    have "add_rows x cb 0 P = P" by (auto simp: add_rows_def fun_eq_iff)
    then show "s = s\<lparr>fb := fb_of (add_rows x cb 0 P)\<rparr>" using assms(2) by simp
  next
    fix k t assume k: "k < 8" and t: "t = s\<lparr>fb := fb_of (add_rows x cb k P)\<rparr>"
    have row: "0 + int k + 8 = int (k + 8)" by simp
    have split: "y' < 8 + Suc k \<longleftrightarrow> y' < 8 + k \<or> y' = k + 8" for y' by auto
    have "add_pixel x (k + 8) (add_rows x cb k P) = add_rows x cb (Suc k) P" if "bit cb k"
      using that unfolding add_pixel_def add_rows_def split by (auto simp: fun_eq_iff)
    moreover have "add_rows x cb (Suc k) P = add_rows x cb k P" if "\<not> bit cb k"
      using that unfolding add_rows_def split by (auto simp: fun_eq_iff)
    ultimately show "\<exists>u. (if bit cb (nat (0 + int k)) then ssd1680_set_pixel (int x) (0 + int k + 8) True t else Some t) =
        Some u \<and> u = s\<lparr>fb := fb_of (add_rows x cb (Suc k) P)\<rparr>"
      unfolding row using t set_pixel_eq[OF assms(1), of "k + 8" t "add_rows x cb k P"] k by simp
  qed simp
  then show ?thesis by simp
qed

lemma glyph_eq:
  assumes "fb s = fb_of P"
  shows "ssd1680_glyph c x s = Some (s\<lparr>fb := fb_of (add_cols x c 5 P)\<rparr>)"
proof -
  let ?body = "\<lambda>col s. if x + col < 0 \<or> x + col \<ge> SSD1680_WIDTH then Some s
       else do {
         cb \<leftarrow> font_byte (font_idx c) col;
         for_each [0..7] (\<lambda>row s.
           if bit cb (nat row) then ssd1680_set_pixel (x + col) (row + 8) True s else Some s) s
       }"
  have "\<exists>u. for_each [0..FONT_CHAR_WIDTH - 1] ?body s = Some u \<and> u = s\<lparr>fb := fb_of (add_cols x c 5 P)\<rparr>"
  proof (rule for_upto_rule[where I = "\<lambda>n u. u = s\<lparr>fb := fb_of (add_cols x c n P)\<rparr>"])
    have "add_cols x c 0 P = P" by (auto simp: add_cols_def fun_eq_iff)
    then show "s = s\<lparr>fb := fb_of (add_cols x c 0 P)\<rparr>" using assms by simp
  next
    fix k t assume k: "k < 5" and t: "t = s\<lparr>fb := fb_of (add_cols x c k P)\<rparr>"
    have split: "int x' < x + int (Suc k) \<longleftrightarrow> int x' < x + int k \<or> int x' = x + int k" for x' by auto
    show "\<exists>u. ?body (0 + int k) t = Some u \<and> u = s\<lparr>fb := fb_of (add_cols x c (Suc k) P)\<rparr>"
    proof (cases "x + int k < 0 \<or> x + int k \<ge> 250")
      case True
      then have "add_cols x c (Suc k) P = add_cols x c k P"
        unfolding add_cols_def split by (auto simp: fun_eq_iff)
      with True t show ?thesis by (simp add: SSD1680_WIDTH_def)
    next
      case False
      then obtain n where n: "x + int k = int n" "n < 250"
        by (metis nat_0_le not_le nat_less_iff of_nat_numeral)
      have nat_k: "nat (int n - x) = k" and le: "x \<le> int n" using n by linarith+
      have "add_rows n (glyph c ! k) 8 (add_cols x c k P) = add_cols x c (Suc k) P"
        unfolding add_rows_def add_cols_def split n(1) using nat_k n(2) le by (auto simp: fun_eq_iff)
      moreover have "x + (0 + int k) = int n" using n(1) by simp
      ultimately show ?thesis
        using n(2) t k column_rows[OF n(2), of t "add_cols x c k P" "glyph c ! k"]
        by (simp only:) (simp add: SSD1680_WIDTH_def font_byte_glyph del: for_each.simps)
    qed
  qed (simp add: FONT_CHAR_WIDTH_def)
  then show ?thesis by (simp add: ssd1680_glyph_def Let_def del: for_each.simps)
qed

lemma ep_chars_eq:
  assumes "fb s = fb_of P"
  shows "ssd1680_chars cs x s = Some (s\<lparr>fb := fb_of (add_text x cs P)\<rparr>)"
  using assms
proof (induction cs arbitrary: x s P)
  case Nil
  have "add_text x [] P = P" by (auto simp: add_text_def fun_eq_iff text_bit_def column_def)
  with Nil show ?case by simp
next
  case (Cons c cs)
  have first: "text_bit (c # cs) (nat (int x' - x)) r \<longleftrightarrow>
      int x' < x + 5 \<and> bit (glyph c ! nat (int x' - x)) r \<or>
      x + 6 \<le> int x' \<and> text_bit cs (nat (int x' - (x + 6))) r" if "x \<le> int x'" for x' r
  proof -
    have "nat (int x' - x) - 6 = nat (int x' - (x + 6))" by linarith
    then show ?thesis using that by (auto simp: text_bit_Cons)
  qed
  have all: "add_text (x + 6) cs (add_cols x c 5 P) = add_text x (c # cs) P"
    using first by (auto simp: add_text_def add_cols_def fun_eq_iff)
  have off: "add_text (x + 6) cs (add_cols x c 5 P) = add_cols x c 5 P" if "250 \<le> x + 6"
    using that by (auto simp: add_text_def fun_eq_iff)
  show ?case
    using Cons.IH[of "s\<lparr>fb := fb_of (add_cols x c 5 P)\<rparr>" "add_cols x c 5 P" "x + 6"] off
    by (simp add: glyph_eq[OF Cons.prems] SSD1680_WIDTH_def FONT_CHAR_WIDTH_def Let_def
        add.commute[of x] flip: all)
qed

lemma ep_render_eq:
  "ssd1680_render_text_to_fb text (int offset) s = Some (s\<lparr>fb := fb_of (text_picture (c_str text) offset)\<rparr>)"
proof -
  have "nat (int x + int offset) = offset + x" for x by linarith
  then have "add_text (- int offset) (c_str text) ep_blank = text_picture (c_str text) offset"
    by (auto simp: add_text_def ep_blank_def text_picture_def fun_eq_iff)
  then show ?thesis
    using ep_chars_eq[of "s\<lparr>fb := fb_of ep_blank\<rparr>" ep_blank "c_str text" "- int offset"]
    by (simp add: ssd1680_render_text_to_fb_def white_fb)
qed

section \<open>Scripts\<close>

text \<open>
  A frame is a picture and the kind of refresh. The trace of a script takes the number of busy
  readings of each refresh, which the panel decides; each costs a delay of 10 ms.
\<close>

datatype ep_step = Frame picture bool | Pause_ms u32

fun frames :: "ep_step list \<Rightarrow> nat" where
  "frames [] = 0"
| "frames (Frame p r # xs) = Suc (frames xs)"
| "frames (Pause_ms n # xs) = frames xs"

definition ep_frame_out :: "(u8 \<Rightarrow> hw list) \<Rightarrow> (u8 list \<Rightarrow> hw list) \<Rightarrow> picture \<Rightarrow> bool \<Rightarrow> hw list" where
  "ep_frame_out c d p r = c 0x4E @ d [0] @ c 0x4F @ d [0] @ d [0] @ c 0x24 @ d (fb_of p) @
     c 0x22 @ d [if r then 0xF4 else 0xF7] @ c 0x20"

fun ep_trace :: "(u8 \<Rightarrow> hw list) \<Rightarrow> (u8 list \<Rightarrow> hw list) \<Rightarrow> ep_step list \<Rightarrow> nat list \<Rightarrow> hw list" where
  "ep_trace c d [] ks = []"
| "ep_trace c d (Frame p r # xs) ks =
     ep_frame_out c d p r @ replicate (hd ks) (Delay 10) @ ep_trace c d xs (tl ks)"
| "ep_trace c d (Pause_ms n # xs) ks = Delay n # ep_trace c d xs ks"

definition ep_script :: "bool \<Rightarrow> string \<Rightarrow> string \<Rightarrow> int \<Rightarrow> ep_step list" where
  "ep_script partial text effect speed_ms =
    (let sp = of_int (clamp_speed speed_ms); still = (\<lambda>t. Frame (text_picture t 0) False) in
     if c_streq effect ''BLINK''
       then [still (c_str text), Pause_ms sp, Frame ep_blank False, Pause_ms sp, still (c_str text)]
     else if c_streq effect ''REVERSE'' then [still (rev (take 127 (c_str text)))]
     else if c_streq effect ''FADE'' then [Frame ep_blank False, Pause_ms sp, still (c_str text)]
     else if c_streq effect ''SCROLL''
       then concat (map (\<lambda>k. [Frame (text_picture (c_str text) (8 * k)) partial, Pause_ms sp])
              [0..<Suc (6 * c_strlen text div 8)])
     else [])"

text \<open>The tape of busy readings of refreshes that find the line busy ks times.\<close>

definition tape :: "nat list \<Rightarrow> bool list" where
  "tape ks = concat (map (\<lambda>k. replicate k True @ [False]) ks)"

lemma frames_append [simp]: "frames (xs @ ys) = frames xs + frames ys"
  by (induction xs rule: frames.induct) simp_all

lemma tape_append [simp]: "tape (ks @ ls) = tape ks @ tape ls"
  by (simp add: tape_def)

lemma ep_trace_append:
  "length ks = frames xs \<Longrightarrow> ep_trace c d (xs @ ys) (ks @ ls) = ep_trace c d xs ks @ ep_trace c d ys ls"
proof (induction c d xs ks rule: ep_trace.induct)
  case (2 c d p r xs ks)
  then show ?case by (cases ks) simp_all
qed simp_all

lemma wait_busy_steps:
  assumes "\<And>n t. delay n t = emit [Delay n] t" and "busy_in s = replicate k True @ False # rest"
  shows "ssd1680_wait_busy delay s = Some (emit (replicate k (Delay 10)) (s\<lparr>busy_in := rest\<rparr>))"
proof -
  have "wait_busy_on delay (replicate k True @ False # rest) t =
      Some (emit (replicate k (Delay 10)) (t\<lparr>busy_in := rest\<rparr>))" for t
    by (induction k arbitrary: t) (simp_all add: assms(1))
  with assms(2) show ?thesis by (simp add: ssd1680_wait_busy_def)
qed

text \<open>An operation runs a script on every tape that lets its refreshes end.\<close>

definition ep_runs :: "(u8 \<Rightarrow> hw list) \<Rightarrow> (u8 list \<Rightarrow> hw list) \<Rightarrow> (dev \<Rightarrow> dev option) \<Rightarrow> ep_step list \<Rightarrow> bool" where
  "ep_runs c d f xs \<longleftrightarrow> (\<forall>s ks rest. length ks = frames xs \<and> busy_in s = tape ks @ rest \<longrightarrow>
     (\<exists>t. f s = Some t \<and> out t = out s @ ep_trace c d xs ks \<and> busy_in t = rest))"

lemma ep_runsD:
  "ep_runs c d f xs \<Longrightarrow> length ks = frames xs \<Longrightarrow> busy_in s = tape ks @ rest \<Longrightarrow>
   \<exists>t. f s = Some t \<and> out t = out s @ ep_trace c d xs ks \<and> busy_in t = rest"
  by (simp add: ep_runs_def)

lemma ep_runs_bind:
  assumes "ep_runs c d f xs" and "ep_runs c d g ys"
  shows "ep_runs c d (\<lambda>s. do { s \<leftarrow> f s; g s }) (xs @ ys)"
  unfolding ep_runs_def
proof (intro allI impI)
  fix s :: dev and ks rest
  assume a: "length ks = frames (xs @ ys) \<and> busy_in s = tape ks @ rest"
  define k1 where "k1 = take (frames xs) ks"
  define k2 where "k2 = drop (frames xs) ks"
  have ks: "ks = k1 @ k2" and len: "length k1 = frames xs" "length k2 = frames ys"
    using a by (simp_all add: k1_def k2_def)
  obtain t where t: "f s = Some t" "out t = out s @ ep_trace c d xs k1" "busy_in t = tape k2 @ rest"
    using ep_runsD[OF assms(1) len(1), of s "tape k2 @ rest"] a ks by auto
  obtain u where "g t = Some u" "out u = out t @ ep_trace c d ys k2" "busy_in u = rest"
    using ep_runsD[OF assms(2) len(2) t(3)] by blast
  with t show "\<exists>t. (do { s \<leftarrow> f s; g s }) = Some t \<and> out t = out s @ ep_trace c d (xs @ ys) ks \<and> busy_in t = rest"
    by (simp add: ks ep_trace_append[OF len(1)])
qed

lemma ep_runs_each:
  "(\<And>x. x \<in> set xs \<Longrightarrow> ep_runs c d (f x) (g x)) \<Longrightarrow> ep_runs c d (for_each xs f) (concat (map g xs))"
proof (induction xs)
  case Nil
  then show ?case by (simp add: ep_runs_def tape_def)
next
  case (Cons x xs)
  then show ?case using ep_runs_bind[of c d "f x" "g x" "for_each xs f"] by simp
qed

section \<open>The driver interface\<close>

locale ep_driver =
  fixes e :: ep_bus
    and c :: "u8 \<Rightarrow> hw list"
    and d :: "u8 list \<Rightarrow> hw list"
    and dc :: nat
  assumes cmd_eq: "ep_cmd e b s = Some (emit (c b) s)"
    and data_eq: "ep_data e bs s = Some (emit (d bs) s)"
    and delay_eq: "ep_delay e n s = emit [Delay n] s"
    and cmd_stream: "spi_stream dc l (c b) = [(False, b)]"
    and data_stream: "spi_stream dc l (d bs) = map (Pair True) bs"
begin

lemmas bus_eqs = cmd_eq data_eq delay_eq ssd1680_data8_def

lemma refresh_steps:
  assumes "busy_in s = tape [k] @ rest" and "fb s = fb_of p"
  shows "do { s \<leftarrow> ssd1680_write_ram e s;
      if r then ssd1680_partial_refresh e s else ssd1680_full_refresh e s } =
    Some (emit (ep_frame_out c d p r @ replicate k (Delay 10)) (s\<lparr>busy_in := rest\<rparr>))"
proof -
  have busy: "busy_in s = replicate k True @ False # rest" using assms(1) by (simp add: tape_def)
  have wait: "ssd1680_wait_busy (ep_delay e) (emit es s) =
      Some (emit (es @ replicate k (Delay 10)) (s\<lparr>busy_in := rest\<rparr>))" for es
    using wait_busy_steps[where delay = "ep_delay e", OF delay_eq, of "emit es s" k rest] busy by simp
  show ?thesis
    by (simp add: ssd1680_write_ram_def ssd1680_partial_refresh_def ssd1680_full_refresh_def bus_eqs
        assms(2) wait ep_frame_out_def)
qed

lemma frame_runs:
  assumes "\<And>s :: dev. f s = Some (s\<lparr>fb := fb_of p\<rparr>)"
  shows "ep_runs c d (\<lambda>s. do { s \<leftarrow> f s; s \<leftarrow> ssd1680_write_ram e s;
      if r then ssd1680_partial_refresh e s else ssd1680_full_refresh e s }) [Frame p r]"
  unfolding ep_runs_def
proof (intro allI impI)
  fix s :: dev and ks rest assume a: "length ks = frames [Frame p r] \<and> busy_in s = tape ks @ rest"
  then obtain k where ks: "ks = [k]" by (cases ks) auto
  have "do { s \<leftarrow> f s; s \<leftarrow> ssd1680_write_ram e s;
      if r then ssd1680_partial_refresh e s else ssd1680_full_refresh e s } =
    Some (emit (ep_frame_out c d p r @ replicate k (Delay 10)) (s\<lparr>fb := fb_of p, busy_in := rest\<rparr>))"
    using a ks refresh_steps[of "s\<lparr>fb := fb_of p\<rparr>" k rest p r] by (simp add: assms)
  then show "\<exists>t. do { s \<leftarrow> f s; s \<leftarrow> ssd1680_write_ram e s;
      if r then ssd1680_partial_refresh e s else ssd1680_full_refresh e s } = Some t \<and>
    out t = out s @ ep_trace c d [Frame p r] ks \<and> busy_in t = rest"
    by (simp add: ks)
qed

lemma page_runs: "ep_runs c d (ssd1680_page e text) [Frame (text_picture (c_str text) 0) False]"
  using frame_runs[of "ssd1680_render_text_to_fb text 0" "text_picture (c_str text) 0" False]
    ep_render_eq[of "text" 0]
  by (simp add: ssd1680_page_def[abs_def] ssd1680_show_def)

lemma blank_runs: "ep_runs c d (\<lambda>s. ssd1680_show e (ssd1680_white s)) [Frame ep_blank False]"
  using frame_runs[of "\<lambda>s. Some (ssd1680_white s)" ep_blank False]
  by (simp add: white_fb ssd1680_show_def[abs_def])

lemma pause_runs: "ep_runs c d (\<lambda>s. Some (ep_delay e n s)) [Pause_ms n]"
  by (simp add: ep_runs_def delay_eq tape_def)

lemma scroll_runs:
  "ep_runs c d (ssd1680_scroll_step e text sp (int k))
     [Frame (text_picture (c_str text) k) (ep_partial e), Pause_ms (of_int sp)]"
  using ep_runs_bind[OF frame_runs[of "ssd1680_render_text_to_fb text (int k)"
        "text_picture (c_str text) k" "ep_partial e"] pause_runs[of "of_int sp"]] ep_render_eq[of "text" k]
  by (simp add: ssd1680_scroll_step_def[abs_def] cong: if_cong)

lemma display_text_runs:
  assumes len: "c_strlen text \<le> 357913939"
  shows "ep_runs c d (ssd1680_display_text e text effect speed b f) (ep_script (ep_partial e) text effect speed)"
proof -
  define n where "n = c_strlen text"
  define sp where "sp = clamp_speed speed"
  have px: "c_int (int_of_size (c_strlen text) * (FONT_CHAR_WIDTH + 1)) = Some (6 * int n)"
    using len by (simp add: FONT_CHAR_WIDTH_def n_def)
  have last: "c_int (8 * (6 * int n div 8) + 8) = Some (8 * (6 * int n div 8) + 8)"
    using len by (intro c_int_Some) (simp_all add: n_def)
  consider (blink) "c_streq effect ''BLINK''"
    | (reverse) "\<not> c_streq effect ''BLINK''" "c_streq effect ''REVERSE''"
    | (fade) "\<not> c_streq effect ''BLINK''" "\<not> c_streq effect ''REVERSE''" "c_streq effect ''FADE''"
    | (scroll) "\<not> c_streq effect ''BLINK''" "\<not> c_streq effect ''REVERSE''"
        "\<not> c_streq effect ''FADE''" "c_streq effect ''SCROLL''"
    | (other) "\<not> c_streq effect ''BLINK''" "\<not> c_streq effect ''REVERSE''"
        "\<not> c_streq effect ''FADE''" "\<not> c_streq effect ''SCROLL''" by blast
  then show ?thesis
  proof cases
    case blink
    note runs = ep_runs_bind[OF page_runs[of "text"] ep_runs_bind[OF pause_runs[of "of_int sp"]
      ep_runs_bind[OF blank_runs ep_runs_bind[OF pause_runs[of "of_int sp"] page_runs[of "text"]]]]]
    from blink runs px show ?thesis
      by (simp add: ssd1680_display_text_def[abs_def] ep_script_def Let_def sp_def [symmetric])
  next
    case reverse
    have "c_strlen text < 2147483648" using len by simp
    then obtain r where r: "reverse_text stack_rev text = Some r" "c_str r = rev (take 127 (c_str text))"
      using reverse_text_c_str[OF length_stack_rev] by blast
    with reverse page_runs[of r] px show ?thesis
      by (simp add: ssd1680_display_text_def[abs_def] ep_script_def Let_def)
  next
    case fade
    note runs = ep_runs_bind[OF blank_runs ep_runs_bind[OF pause_runs[of "of_int sp"] page_runs[of "text"]]]
    from fade runs px show ?thesis
      by (simp add: ssd1680_display_text_def[abs_def] ep_script_def Let_def sp_def [symmetric])
  next
    case scroll
    have vals: "up_by 0 (6 * int n) 8 = map (\<lambda>k. int (8 * k)) [0..<Suc (6 * n div 8)]"
    proof -
      have "nat (6 * int n div 8) = 6 * n div 8" by (simp add: nat_div_distrib nat_mult_distrib)
      then show ?thesis by (simp add: up_by_eq mult.commute del: upt_Suc)
    qed
    have "ep_runs c d (for_each [0..<Suc (6 * n div 8)] (\<lambda>k. ssd1680_scroll_step e text sp (int (8 * k))))
        (concat (map (\<lambda>k. [Frame (text_picture (c_str text) (8 * k)) (ep_partial e), Pause_ms (of_int sp)])
          [0..<Suc (6 * n div 8)]))"
      by (rule ep_runs_each) (rule scroll_runs)
    with scroll px last show ?thesis
      by (simp add: ssd1680_display_text_def[abs_def] ep_script_def Let_def sp_def [symmetric] n_def [symmetric]
          vals for_each_map ep_runs_def del: upt_Suc for_each.simps)
  next
    case other
    with px show ?thesis
      by (simp add: ssd1680_display_text_def ep_script_def ep_runs_def tape_def)
  qed
qed

text \<open>display_init after the reset: four waits, the set-up and a white frame.\<close>

definition setup_out :: "hw list" where
  "setup_out = concat (map (\<lambda>(b, bs). c b @ concat (map (\<lambda>v. d [v]) bs)) ssd1680_setup)"

definition start_out :: "nat \<Rightarrow> nat \<Rightarrow> nat \<Rightarrow> nat \<Rightarrow> hw list" where
  "start_out k0 k1 k2 k3 = replicate k0 (Delay 10) @ c 0x12 @ replicate k1 (Delay 10) @ setup_out @ c 0x20 @
     replicate k2 (Delay 10) @ ep_frame_out c d ep_blank False @ replicate k3 (Delay 10)"

lemma start_steps:
  assumes "busy_in s = tape [k0, k1, k2, k3] @ rest"
  shows "ssd1680_start e s = Some (emit (start_out k0 k1 k2 k3) (s\<lparr>fb := fb_of ep_blank, busy_in := rest\<rparr>))"
proof -
  have wait: "ssd1680_wait_busy (ep_delay e) (emit es (t\<lparr>busy_in := replicate k True @ False # r\<rparr>)) =
      Some (emit (es @ replicate k (Delay 10)) (t\<lparr>busy_in := r\<rparr>))" for es t k r
    using wait_busy_steps[where delay = "ep_delay e", OF delay_eq,
        of "emit es (t\<lparr>busy_in := replicate k True @ False # r\<rparr>)" k r] by simp
  define r1 where "r1 = replicate k1 True @ False # replicate k2 True @ False # replicate k3 True @ False # rest"
  have s: "s = emit [] (s\<lparr>busy_in := replicate k0 True @ False # r1\<rparr>)"
    using assms by (cases s) (simp add: tape_def r1_def)
  have each: "for_each ds (ssd1680_data8 e) t = Some (emit (concat (map (\<lambda>v. d [v]) ds)) t)" for ds t
    by (rule for_each_emit) (simp add: bus_eqs)
  have cmds: "for_each ssd1680_setup (\<lambda>(b, ds) s. for_each ds (ssd1680_data8 e) (emit (c b) s)) t =
      Some (emit setup_out t)" for t
    unfolding setup_out_def by (rule for_each_emit) (auto simp: cmd_eq each)
  have last: "ssd1680_show e (ssd1680_white (emit es (s\<lparr>busy_in := replicate k3 True @ False # rest\<rparr>))) =
      Some (emit (es @ ep_frame_out c d ep_blank False @ replicate k3 (Delay 10))
        (s\<lparr>fb := fb_of ep_blank, busy_in := rest\<rparr>))" for es
    using refresh_steps[of "ssd1680_white (emit es (s\<lparr>busy_in := replicate k3 True @ False # rest\<rparr>))" k3 rest
        ep_blank False]
    by (simp add: white_fb tape_def ssd1680_show_def)
  have "ssd1680_start e (emit [] (s\<lparr>busy_in := replicate k0 True @ False # r1\<rparr>)) =
      Some (emit (start_out k0 k1 k2 k3) (s\<lparr>fb := fb_of ep_blank, busy_in := rest\<rparr>))"
    unfolding ssd1680_start_def wait r1_def
    by (simp add: cmd_eq wait cmds last start_out_def del: emit_Nil)
  with s show ?thesis by simp
qed

lemma delays_stream: "spi_stream dc l (replicate k (Delay 10) @ es) = spi_stream dc l es"
  by (induction k) simp_all

lemma data8_stream: "spi_stream dc l (concat (map (\<lambda>v. d [v]) bs)) = map (Pair True) bs"
  by (subst spi_stream_concat[where h = "\<lambda>v. [(True, v)]"]) (simp_all add: data_stream)

lemma frame_stream:
  "spi_stream dc l (ep_frame_out c d p r) =
    [(False, 0x4E), (True, 0), (False, 0x4F), (True, 0), (True, 0), (False, 0x24)] @ map (Pair True) (fb_of p) @
    [(False, 0x22), (True, if r then 0xF4 else 0xF7), (False, 0x20)]"
  by (simp add: ep_frame_out_def cmd_stream data_stream)

lemma start_stream:
  "spi_stream dc l (start_out k0 k1 k2 k3) =
    [(False, 0x12)] @ concat (map (\<lambda>(b, bs). (False, b) # map (Pair True) bs) ssd1680_setup) @ [(False, 0x20)] @
    spi_stream dc l (ep_frame_out c d ep_blank False)"
proof -
  have cmds: "spi_stream dc l setup_out = concat (map (\<lambda>(b, bs). (False, b) # map (Pair True) bs) ssd1680_setup)" for l
    unfolding setup_out_def
    by (rule spi_stream_concat) (auto simp: cmd_stream data8_stream)
  have wait: "spi_stream dc l (replicate k (Delay 10)) = []" for l k
    using delays_stream[of l k "[]"] by simp
  show ?thesis
    unfolding start_out_def by (simp add: cmd_stream wait cmds frame_stream)
qed

end

text \<open>A panel that never releases the busy line: the refresh does not return.\<close>

lemma wait_busy_stuck:
  "busy_in s = replicate n True \<Longrightarrow> ssd1680_wait_busy delay s = None"
proof -
  have "wait_busy_on delay (replicate n True) t = None" for t
    by (induction n arbitrary: t) simp_all
  then show "busy_in s = replicate n True \<Longrightarrow> ssd1680_wait_busy delay s = None"
    by (simp add: ssd1680_wait_busy_def)
qed

section \<open>The two drivers\<close>

definition pico_ep_cmd_out :: "u8 \<Rightarrow> hw list" where
  "pico_ep_cmd_out c = [Gpio 20 False, Gpio 17 False, Spi [c], Gpio 17 True]"
definition pico_ep_data_out :: "u8 list \<Rightarrow> hw list" where
  "pico_ep_data_out bs = [Gpio 20 True, Gpio 17 False, Spi bs, Gpio 17 True]"
definition esp32_ep_cmd_out :: "pins \<Rightarrow> u8 \<Rightarrow> hw list" where
  "esp32_ep_cmd_out p c = [Gpio (SPI_DC_PIN p) False, SpiTx [c]]"
definition esp32_ep_data_out :: "pins \<Rightarrow> u8 list \<Rightarrow> hw list" where
  "esp32_ep_data_out p bs = [Gpio (SPI_DC_PIN p) True, SpiTx bs]"

lemmas ep_defs = pico_ep_def esp32_ep_def pico_ssd1680_cmd_def pico_ssd1680_data_def
  esp32_ssd1680_cmd_def esp32_ssd1680_data_def pico_ep_cmd_out_def pico_ep_data_out_def
  esp32_ep_cmd_out_def esp32_ep_data_out_def hw_ops

interpretation pico_ssd1680: ep_driver pico_ep pico_ep_cmd_out pico_ep_data_out 20
  by unfold_locales (simp_all add: ep_defs)

interpretation esp32_ssd1680: ep_driver "esp32_ep p" "esp32_ep_cmd_out p" "esp32_ep_data_out p"
    "SPI_DC_PIN p" for p
  by unfold_locales (simp_all add: ep_defs)

section \<open>The panel\<close>

text \<open>
  The display RAM as the data sheet gives it: bytes addressed by column byte and row inside a
  window, with a counter that walks the window row by row (data entry mode 3) and starts again
  at its end.
\<close>

record ep_panel =
  eram :: "nat \<Rightarrow> nat \<Rightarrow> u8"
  xs0 :: nat
  xs1 :: nat
  ys0 :: nat
  ys1 :: nat
  xc :: nat
  yc :: nat
  ecmd :: u8
  eargs :: "u8 list"

definition ep_store :: "u8 \<Rightarrow> ep_panel \<Rightarrow> ep_panel" where
  "ep_store b q = q\<lparr>eram := (eram q)(xc q := (eram q (xc q))(yc q := b)),
     xc := (if xc q = xs1 q then xs0 q else xc q + 1),
     yc := (if xc q = xs1 q then (if yc q = ys1 q then ys0 q else yc q + 1) else yc q)\<rparr>"

definition ep_rx :: "bool \<times> u8 \<Rightarrow> ep_panel \<Rightarrow> ep_panel" where
  "ep_rx x q =
    (if \<not> fst x then q\<lparr>ecmd := snd x, eargs := []\<rparr>
     else if ecmd q = 0x24 then ep_store (snd x) q
     else (let a = eargs q @ [snd x]; q = q\<lparr>eargs := a\<rparr> in
       if ecmd q = 0x44 \<and> length a = 2 then q\<lparr>xs0 := unat (a ! 0), xs1 := unat (a ! 1)\<rparr>
       else if ecmd q = 0x45 \<and> length a = 4
         then q\<lparr>ys0 := unat (a ! 0) + 256 * unat (a ! 1), ys1 := unat (a ! 2) + 256 * unat (a ! 3)\<rparr>
       else if ecmd q = 0x4E \<and> length a = 1 then q\<lparr>xc := unat (a ! 0)\<rparr>
       else if ecmd q = 0x4F \<and> length a = 2 then q\<lparr>yc := unat (a ! 0) + 256 * unat (a ! 1)\<rparr>
       else q))"

text \<open>The window display_init selects: 16 bytes by 122 rows.\<close>

definition init_window :: "ep_panel \<Rightarrow> bool" where
  "init_window q \<longleftrightarrow> xs0 q = 0 \<and> xs1 q = 15 \<and> ys0 q = 0 \<and> ys1 q = 121"

lemma ep_round:
  assumes "init_window q" and "xc q = 0" and "yc q = 0" and "ecmd q = 0x24" and "length bs = 1952" and "k \<le> 1952"
  shows "fold ep_rx (map (Pair True) (take k bs)) q =
    q\<lparr>eram := (\<lambda>x y. if x < 16 \<and> y < 122 \<and> 16 * y + x < k then bs ! (16 * y + x) else eram q x y),
      xc := k mod 16, yc := k div 16 mod 122\<rparr>"
  using assms(6)
proof (induction k)
  case 0
  then show ?case using assms(2,3) by (cases q) simp
next
  case (Suc k)
  define m where "m k = (\<lambda>x y. if x < 16 \<and> y < 122 \<and> 16 * y + x < k then bs ! (16 * y + x) else eram q x y)" for k
  have row: "k div 16 < 122" using Suc.prems by linarith
  have mem: "(m k)(k mod 16 := (m k (k mod 16))(k div 16 := bs ! k)) = m (Suc k)"
  proof (intro ext)
    fix x y
    have eq: "(x = k mod 16 \<and> y = k div 16) \<longleftrightarrow> x < 16 \<and> 16 * y + x = k"
      using div_mult_mod_eq[of k 16] mod_less_divisor[of 16 k] by (auto simp: algebra_simps)
    show "((m k)(k mod 16 := (m k (k mod 16))(k div 16 := bs ! k))) x y = m (Suc k) x y"
    proof (cases "x = k mod 16 \<and> y = k div 16")
      case True
      with eq row show ?thesis by (auto simp: m_def)
    next
      case False
      with eq have "x < 16 \<Longrightarrow> 16 * y + x < Suc k \<longleftrightarrow> 16 * y + x < k" by auto
      with False show ?thesis by (auto simp: m_def)
    qed
  qed
  have IH: "fold ep_rx (map (Pair True) (take k bs)) q = q\<lparr>eram := m k, xc := k mod 16, yc := k div 16\<rparr>"
    using Suc row by (simp add: m_def)
  have "fold ep_rx (map (Pair True) (take (Suc k) bs)) q =
      ep_store (bs ! k) (q\<lparr>eram := m k, xc := k mod 16, yc := k div 16\<rparr>)"
    using Suc.prems assms(4,5) IH by (simp add: take_Suc_conv_app_nth ep_rx_def)
  also have "\<dots> = q\<lparr>eram := m (Suc k), xc := Suc k mod 16, yc := Suc k div 16 mod 122\<rparr>"
    using assms(1) row by (simp add: ep_store_def init_window_def mem mod_Suc div_Suc)
  finally show ?case unfolding m_def .
qed

lemma ep_write_stream:
  assumes "init_window q" and "length bs = 3904"
  shows "\<exists>q'. fold ep_rx ([(False, 0x4E), (True, 0), (False, 0x4F), (True, 0), (True, 0), (False, 0x24)] @
      map (Pair True) bs) q = q' \<and> init_window q' \<and>
    (\<forall>x < 16. \<forall>y < 122. eram q' x y = bs ! (1952 + (16 * y + x)))"
proof -
  define h where "h = fold ep_rx [(False, 0x4E), (True, 0), (False, 0x4F), (True, 0), (True, 0), (False, 0x24)] q"
  have h: "init_window h" "xc h = 0" "yc h = 0" "ecmd h = 0x24"
    using assms(1) by (simp_all add: h_def ep_rx_def init_window_def Let_def)
  let ?a = "take 1952 bs" and ?b = "drop 1952 bs"
  define h1 where "h1 = fold ep_rx (map (Pair True) ?a) h"
  have len: "length ?a = 1952" "length ?b = 1952" using assms(2) by simp_all
  have h1: "init_window h1" "xc h1 = 0" "yc h1 = 0" "ecmd h1 = 0x24"
    using ep_round[OF h len(1), of 1952] h by (simp_all add: h1_def init_window_def)
  have h2: "fold ep_rx (map (Pair True) ?b) h1 = h1\<lparr>eram := (\<lambda>x y. if x < 16 \<and> y < 122 \<and> 16 * y + x < 1952
      then ?b ! (16 * y + x) else eram h1 x y), xc := 0, yc := 0\<rparr>"
    using ep_round[OF h1 len(2), of 1952] assms(2) by simp
  have "map (Pair True) bs = map (Pair True) ?a @ map (Pair True) ?b"
    by (simp flip: map_append)
  then have run: "fold ep_rx ([(False, 0x4E), (True, 0), (False, 0x4F), (True, 0), (True, 0), (False, 0x24)] @
      map (Pair True) bs) q = fold ep_rx (map (Pair True) ?b) h1"
    by (simp only: fold_append comp_apply h_def h1_def)
  have "?b ! (16 * y + x) = bs ! (1952 + (16 * y + x))" if "x < 16" "y < 122" for x y
    using that assms(2) by (intro nth_drop) simp
  then show ?thesis
    unfolding run h2 using h1(1) by (simp add: init_window_def)
qed

text \<open>The lower half of every picture of a text is white.\<close>

lemma text_lower_half: "i < 3904 \<Longrightarrow> 1952 \<le> i \<Longrightarrow> fb_of (text_picture cs k) ! i = 0xFF"
proof -
  assume i: "i < 3904" "1952 \<le> i"
  have "fb_of (text_picture cs k) ! i = ep_byte ep_blank i"
  proof -
    have "61 \<le> i div 32" using i by linarith
    then have "ep_byte (text_picture cs k) i = ep_byte ep_blank i"
      by (intro bit_eqI) (auto simp: bit_ep_byte text_picture_def ep_blank_def)
    with i show ?thesis by (simp add: nth_fb_of)
  qed
  also have "\<dots> = replicate 3904 0xFF ! i"
    using arg_cong[OF white_fb[of "undefined :: dev"], of fb] i
    by (simp add: ssd1680_white_def SSD1680_HEIGHT_def SSD1680_STRIDE_def SSD1680_WIDTH_def nth_fb_of [symmetric]
        del: replicate.simps)
  also have "\<dots> = 0xFF" using i by (simp del: replicate.simps)
  finally show ?thesis .
qed

section \<open>Properties\<close>

text \<open>
  C30: display_text of both SSD1680 drivers, for a text of at most 357913939 characters and a
  panel that releases its busy line after each refresh, returns and sends exactly the frames,
  refresh commands and pauses of its script, with one poll delay for each busy reading; SCROLL
  moves by eight columns and refreshes partially on the ESP32, fully on the Pico.
\<close>

theorem ssd1680_display_text_correct:
  assumes "c_strlen text \<le> 357913939"
    and "busy_in s = tape ks @ rest"
    and "length ks = frames (ep_script False text effect speed)"
  shows "\<exists>t u. pico_ssd1680_display_text text effect speed b fade s = Some t \<and> busy_in t = rest \<and>
      out t = out s @ ep_trace pico_ep_cmd_out pico_ep_data_out (ep_script False text effect speed) ks \<and>
    esp32_ssd1680_display_text p text effect speed b fade s = Some u \<and> busy_in u = rest \<and>
      out u = out s @ ep_trace (esp32_ep_cmd_out p) (esp32_ep_data_out p) (ep_script True text effect speed) ks"
proof -
  have "frames (concat (map (\<lambda>k. [Frame (g k) r, Pause_ms n]) xs)) = length xs" for g r n and xs :: "nat list"
    by (induction xs) simp_all
  then have len: "length ks = frames (ep_script True text effect speed)"
    using assms(3) by (simp add: ep_script_def Let_def del: upt_Suc)
  have "ep_partial pico_ep = False" "ep_partial (esp32_ep p) = True"
    by (simp_all add: pico_ep_def esp32_ep_def)
  with ep_runsD[OF pico_ssd1680.display_text_runs[OF assms(1)] _ assms(2), of effect speed b fade]
    ep_runsD[OF esp32_ssd1680.display_text_runs[OF assms(1)] _ assms(2), of p effect speed b fade] assms(3) len
  show ?thesis unfolding pico_ssd1680_display_text_def esp32_ssd1680_display_text_def by auto
qed

definition ep_dev :: "bool list \<Rightarrow> dev" where
  "ep_dev bs = \<lparr>fb = replicate 3904 0, bmp = [], bmp_len = 0, busy_in = bs, out = []\<rparr>"

theorem ssd1680_display_text_correct_witness:
  "\<exists>t. pico_ssd1680_display_text ''Hi'' ''FADE'' 50 0 0 (ep_dev [True, False, False]) = Some t \<and> busy_in t = []"
  using ssd1680_display_text_correct[of "''Hi''" "ep_dev [True, False, False]" "[1, 0]" "[]" "''FADE''" 50 0 0]
  by (auto simp: c_strlen_def ep_dev_def tape_def ep_script_def c_streq_def c_str_def Let_def)

text \<open>
  C33: render_text_to_fb clips on both sides: for every offset the frame buffer holds, bit for
  bit, the window of the text's columns on rows 8 to 15, black on white, and nothing else.
\<close>

theorem ssd1680_render_exact:
  "\<exists>t. ssd1680_render_text_to_fb text (int k) s = Some t \<and> length (fb t) = 3904 \<and>
    (\<forall>x y. x < 256 \<longrightarrow> y < 122 \<longrightarrow> (bit (fb t ! (32 * y + x div 8)) (7 - x mod 8) \<longleftrightarrow>
      \<not> (x < 250 \<and> 8 \<le> y \<and> y < 16 \<and> text_bit (c_str text) (k + x) (y - 8))))"
proof -
  have "bit (fb_of P ! (32 * y + x div 8)) (7 - x mod 8) \<longleftrightarrow> \<not> P x y" if "x < 256" "y < 122" for P x y
  proof -
    have x8: "x div 8 < 32" using that(1) by simp
    have i: "(32 * y + x div 8) mod 32 = x div 8" "(32 * y + x div 8) div 32 = y" "32 * y + x div 8 < 3904"
      using x8 that(2) by simp_all
    have "8 * (x div 8) + (7 - (7 - x mod 8)) = x"
      using div_mult_mod_eq[of x 8] mod_less_divisor[of 8 x] by linarith
    moreover have "7 - x mod 8 < 8" by linarith
    ultimately show ?thesis using i by (simp add: nth_fb_of bit_ep_byte)
  qed
  then show ?thesis by (simp add: ep_render_eq text_picture_def)
qed

theorem ssd1680_render_exact_witness:
  "\<exists>t. ssd1680_render_text_to_fb ''H'' 0 (ep_dev []) = Some t \<and> \<not> bit (fb t ! 256) 7"
proof -
  obtain t where t: "ssd1680_render_text_to_fb ''H'' (int 0) (ep_dev []) = Some t"
    "\<forall>x y. x < 256 \<longrightarrow> y < 122 \<longrightarrow> (bit (fb t ! (32 * y + x div 8)) (7 - x mod 8) \<longleftrightarrow>
      \<not> (x < 250 \<and> 8 \<le> y \<and> y < 16 \<and> text_bit (c_str ''H'') (0 + x) (y - 8)))"
    using ssd1680_render_exact[of "''H''" 0 "ep_dev []"] by blast
  from t(2)[rule_format, of 0 8] have "\<not> bit (fb t ! 256) 7"
    by (simp add: text_bit_def column_def glyph_def font_idx_def FONT_TABLE_SIZE_def font5x8_def c_str_def)
  with t(1) show ?thesis by auto
qed


definition ep_panel0 :: ep_panel where
  "ep_panel0 = \<lparr>eram = (\<lambda>_ _. 0), xs0 = 0, xs1 = 0, ys0 = 0, ys1 = 0, xc = 0, yc = 0, ecmd = 0, eargs = []\<rparr>"


end
