(* ===== verification/Spec2Isabelle.thy ===== *)
theory Spec2Isabelle
  imports Ws_Link Ws_Handshake Portal_Net Mongoose_Ip Mongoose_Queue Portal_Esp32 Ssd1680
begin

text \<open>
  A model of the firmware of the TextReader nodes (src/firmware), in C, for the Raspberry Pi
  Pico W (pico/) and the ESP32 family (esp32/). A node joins a Wi-Fi network whose credentials
  were entered in a captive portal, opens a WebSocket to the TextReader server and shows the
  texts it receives on one display, with one of the effects SCROLL, BLINK, REVERSE and FADE.

  Parts and theories, in the order a text travels:

  \<^item> Portal_Pico: pico/src/captive_portal.c, main.c and mongoose_config.h. The set-up pages, the
    handler of POST /save, the sector of flash with the credentials, load_creds and main. On
    it: every request is handled in bounds, and the round trip from a submitted form over flash
    and reset to the configuration of the network driver. Mongoose holds the library functions
    the handler rests on (lib/mongoose/mongoose.c): mg_match, mg_span, mg_http_var,
    mg_http_get_var, mg_url_decode, mg_str_to_num; on them: mg_match terminates, decoding stays in
    the destination and inverts a browser's encoding.
  \<^item> Portal_Esp32: esp32/main/captive_portal.c and main.c. Stored credentials, connect_sta with
    its event handler, the form handler with its own url_decode, start_portal, wifi_start and
    app_main, which record the calls to ESP-IDF in order. Dns: dns_task, with a reader of DNS
    messages as the specification of what a resolver gets. C_Library: the string functions both
    portals call, and the form encoding of a browser.
  \<^item> Ws_Client: the two ws_client.c. The event handlers, the Pico's endless loop by rounds, and
    the Pico's node with its connections as an inductive step relation, with the invariant of
    its reachable states.
  \<^item> The part of the Mongoose library under them (lib/mongoose/mongoose.c): Mongoose_Iobuf, the byte
    buffers of iobuf.c with their contract; Mongoose_Http, the parser of a request or answer, with
    the proof that it reads nothing outside the message and the round trip from a printed head;
    Mongoose_Ws, the frames of ws.c, and Mongoose_Conn, a connection that sends and receives them:
    every input is handled in bounds, a sent message is read back, and a stream of frames gives
    its messages wherever it is cut; Mongoose_Url, the parts of a URL. Ws_Link joins the Pico's
    client to its connection: from the packets of the network to parse_message. Mongoose_Base64
    and Ws_Handshake: the request a client opens the WebSocket with.
  \<^item> The HTTP server of the library: Mongoose_Fmt, the formatted output of printf.c and fmt.c;
    Mongoose_Server, http_cb with its loop over the requests in the receive buffer, chunked and
    sized bodies, and mg_http_reply, whose reply the parser reads back. Http_Stream: the locale
    http_app, what the server relies on of an event handler, and under it the theorem that a
    stream of requests is answered in order wherever it is cut; Http_Safety: on any bytes http_cb
    returns. Portal_Link interprets http_app on the Pico's portal.
  \<^item> The network stack of the library, which the Pico's build selects (src/net_builtin.c and
    src/l2_eth.c in mongoose.c): Mongoose_Tcp, the segments of a connection, what rx_tcp, read_conn
    and mg_io_send do with them, timers, closing, and the listener with its backlog;
    Mongoose_Ip, the frames of ARP, IPv4, ICMP and TCP with their checksums, made and read;
    Mongoose_Queue, the ring in which the driver's interrupt leaves received frames for the poll.
    Portal_Net joins connection, server and portal: from the segments to portal_handler.
  \<^item> Messages: json_parser.c and ota.c. parse_message over the cJSON library as a parameter, the
    message an object denotes, and the locale display_driver: what the message handler relies
    on of a driver (common/display.h). Displays interprets it for the ten drivers a build can
    select on either platform.
  \<^item> The drivers, pico/src/driver and esp32/main/driver, each with its file's operations
    (commands and data on the bus, flush, display_init, display_clear, display_text):
    Max7219; Paged_Oled and Oled_Drivers (SSD1306, SSD1309, SH1106); Pcd8544; Tft, Tft_Drivers
    and Tft_Panels (ST7735, ST7789, ILI9225); Ht16k33; Ssd1327; Ssd1680. Font and Text_Bitmap
    hold the 5x8 font and the text bitmap the drivers share, Hardware the device and the bus
    operations of the two SDKs, Prelude arrays, C integers and counted loops.

  Interfaces. Each family of drivers has a locale of what its display_text relies on of a bus
  (max7219_bus, paged_oled, pcd8544_bus, tft_rects and tft_bus, tft_panel, ht16k33_bus, ssd1327_bus,
  ep_driver), interpreted on the operations of every file of the family; display_driver is the
  interface above them. http_app is what the HTTP server relies on of a handler, frame_queue what
  the poll relies on of the queue of frames.

  State. A driver's state is the record dev: the frame buffer or row array (fb), the text bitmap
  (bmp, bmp_len), the readings of the busy line to come (busy_in) and the output (out): every
  transfer on the bus, level of a pin and delay, in order. The network parts have their own
  records (app, ws, pico, esp). A function that may fail returns an option. None is behaviour
  the C standard leaves undefined (an access outside an array, an int that overflows) or, for
  loops over inputs, inputs that run out; every theorem that an operation returns Some says
  that none of this happens.

  Loops. Counted loops are for_each over their values; loops over a text recurse on it; the
  wait for the e-paper panel recurses on the readings of its busy line; mg_match and the loop of
  mg_ws_cb are partial functions, proved total; the endless loops (the Pico's client, its portal, the DNS task) are
  functions of the events given to them, and theorems about them hold for every such list.

  What the lemmas show. For each driver display_text is equal to a script of pictures, commands
  and pauses, which says what the effect is (max_script, oled_script, pcd_script, tft_script,
  ht_script, grey_script, ep_script). For the panels whose addressing matters a model of the
  controller's memory says what is visible after the bytes have been received. Several
  theorems state defects of the code as it is: they are marked as such in their texts.

  Bounds. The texts are limited where the code computes their width in an int (357913941
  characters; a client's frame has at most 511) and the fade steps where it multiplies by 15
  (143165577). NUM_DEVICES is a parameter of the MAX7219 driver and 1 and 4 in the builds.

  size_t has the 32 bits of the Pico. The theorems on connections ask that the lengths in the
  buffers, with some room, stay below 2 ^ 32, far above the memory of the device.

  Not modelled: the rest of the Mongoose library, with its event manager, DHCP, DNS, IPv6, TLS,
  files, multipart bodies and the formats of floating-point numbers; cJSON, ESP-IDF and the Pico SDK,
  which are parameters or recorded outputs; timing, interrupts and the second task of the ESP32
  (the DNS task shares no state with the others); the server, in Kotlin, whose messages are
  inputs.
\<close>

end
